(* ===== verification/W3Prelude.thy ===== *)
theory W3Prelude
  imports Main "HOL-Library.Word"
begin

text \<open>
  Shared vocabulary of the development.  Machine integers of the Rust sources are words of their
  width, \<open>Result<T, E>\<close> is the sum \<open>'e + 'a\<close> with \<open>Err\<close> and \<open>Ok\<close> as abbreviations of its
  constructors, and the \<open>?\<close> operator is \<open>bind_result\<close>.  A loop that leaves with the first error is
  \<open>each\<close>.  The lemmas characterise when such a chain of checks succeeds, so that a validator of
  the sources can be compared with a declarative predicate by rewriting.
\<close>

type_synonym u8 = "8 word"
type_synonym u16 = "16 word"
type_synonym u32 = "32 word"
type_synonym u64 = "64 word"
type_synonym usize = "64 word"

text \<open>A 64-bit float is carried as its bit pattern: nothing modelled here computes with it.\<close>

type_synonym f64 = "64 word"

named_theorems result_simps \<open>when a chain of checks succeeds\<close>

subsection \<open>Results\<close>

abbreviation Err :: "'e \<Rightarrow> 'e + 'a" where "Err e \<equiv> Inl e"
abbreviation Ok :: "'a \<Rightarrow> 'e + 'a" where "Ok x \<equiv> Inr x"

definition bind_result :: "'e + 'a \<Rightarrow> ('a \<Rightarrow> 'e + 'b) \<Rightarrow> 'e + 'b" where
  "bind_result r f = (case r of Err e \<Rightarrow> Err e | Ok x \<Rightarrow> f x)"

abbreviation check_then :: "'e + unit \<Rightarrow> 'e + 'b \<Rightarrow> 'e + 'b" where
  "check_then c d \<equiv> bind_result c (\<lambda>_. d)"

definition require :: "bool \<Rightarrow> 'e \<Rightarrow> 'e + unit" where
  "require b e = (if b then Ok () else Err e)"

fun each :: "('a \<Rightarrow> 'e + unit) \<Rightarrow> 'a list \<Rightarrow> 'e + unit" where
  "each f [] = Ok ()"
| "each f (x # xs) = check_then (f x) (each f xs)"

lemma bind_result_simps [simp]:
  "bind_result (Err e) f = Err e" "bind_result (Ok x) f = f x"
  by (simp_all add: bind_result_def)

lemma bind_result_Ok [result_simps]: "bind_result r f = Ok y \<longleftrightarrow> (\<exists>x. r = Ok x \<and> f x = Ok y)"
  by (cases r) simp_all

lemma bind_result_Err [result_simps]:
  "bind_result r f = Err e \<longleftrightarrow> r = Err e \<or> (\<exists>x. r = Ok x \<and> f x = Err e)"
  by (cases r) simp_all

lemma check_then_Ok [simp]: "check_then c d = Ok y \<longleftrightarrow> c = Ok () \<and> d = Ok y"
  by (cases c) simp_all

lemma require_Ok [simp]: "require b e = Ok u \<longleftrightarrow> b"
  by (simp add: require_def)

lemma require_True [simp]: "require True e = Ok ()" and require_False [simp]: "require False e = Err e"
  by (simp_all add: require_def)

lemma require_Err [simp]: "require b e = Err e' \<longleftrightarrow> \<not> b \<and> e' = e"
  by (auto simp: require_def)

lemma each_Ok [simp]: "each f xs = Ok u \<longleftrightarrow> (\<forall>x\<in>set xs. f x = Ok ())"
  by (induction xs) auto

text \<open>
  Code with a loop that may run forever gives an option of a result, \<open>None\<close> when it never returns.
\<close>

type_synonym ('e, 'a) looping = "('e + 'a) option"

definition and_then :: "('e, 'a) looping \<Rightarrow> ('a \<Rightarrow> ('e, 'b) looping) \<Rightarrow> ('e, 'b) looping" where
  "and_then r f = (case r of None \<Rightarrow> None | Some (Err e) \<Rightarrow> Some (Err e) | Some (Ok x) \<Rightarrow> f x)"

lemma and_then_simps [simp]:
  "and_then None f = None" "and_then (Some (Err e)) f = Some (Err e)" "and_then (Some (Ok x)) f = f x"
  by (simp_all add: and_then_def)

subsection \<open>Sets and maps collected from lists\<close>

text \<open>
  \<open>iter().collect::<HashSet<_>>().len()\<close> and \<open>iter().collect::<HashMap<_, _>>()\<close>: a later entry
  overwrites an earlier one with the same key.
\<close>

definition hash_set_len :: "'a list \<Rightarrow> nat" where
  "hash_set_len xs = length (remdups xs)"

definition hash_map_collect :: "('k \<times> 'v) list \<Rightarrow> 'k \<rightharpoonup> 'v" where
  "hash_map_collect kvs = map_of (rev kvs)"

lemma hash_set_len_distinct [simp]: "hash_set_len xs = length xs \<longleftrightarrow> distinct xs"
  by (auto simp: hash_set_len_def length_remdups_card_conv distinct_card intro: card_distinct)

lemma dom_hash_map_collect [simp]: "dom (hash_map_collect kvs) = fst ` set kvs"
  by (simp add: hash_map_collect_def dom_map_of_conv_image_fst)

lemma hash_map_collect_distinct:
  "distinct (map fst kvs) \<Longrightarrow> hash_map_collect kvs k = Some v \<longleftrightarrow> (k, v) \<in> set kvs"
  by (simp add: hash_map_collect_def map_of_eq_Some_iff rev_map[symmetric])

lemma hash_map_collect_SomeD: "hash_map_collect kvs k = Some v \<Longrightarrow> (k, v) \<in> set kvs"
  using map_of_SomeD[of "rev kvs" k v] by (simp add: hash_map_collect_def)

subsection \<open>First match\<close>

lemma find_SomeD: "find P xs = Some x \<Longrightarrow> x \<in> set xs \<and> P x"
  by (auto simp: find_Some_iff)

lemma find_unique:
  assumes "x \<in> set xs" "P x" and "\<And>y. y \<in> set xs \<Longrightarrow> P y \<Longrightarrow> y = x"
  shows "find P xs = Some x"
proof (cases "find P xs")
  case None
  with assms(1,2) show ?thesis by (metis find_None_iff)
next
  case (Some y)
  from find_SomeD[OF Some] have "y = x" by (blast intro: assms(3))
  with Some show ?thesis by simp
qed

lemma find_distinct_key:
  assumes "distinct (map f xs)" "x \<in> set xs"
  shows "find (\<lambda>y. f y = f x) xs = Some x"
proof (rule find_unique[OF assms(2) refl])
  fix y
  assume "y \<in> set xs" "f y = f x"
  moreover have "inj_on f (set xs)" using assms(1) by (simp add: distinct_map)
  ultimately show "y = x" using assms(2) by (blast dest: inj_onD)
qed

lemma find_ex: "\<exists>x\<in>set xs. P x \<Longrightarrow> \<exists>x. find P xs = Some x"
  by (cases "find P xs") (auto simp: find_None_iff)

subsection \<open>Decimal text of a natural number\<close>

definition digit_char :: "nat \<Rightarrow> char" where
  "digit_char d = char_of (48 + d)"

fun show_nat :: "nat \<Rightarrow> string" where
  "show_nat n = (if n < 10 then [digit_char n] else show_nat (n div 10) @ [digit_char (n mod 10)])"

declare show_nat.simps [simp del]

subsection \<open>Words\<close>

lemma unat_inc: "n \<noteq> - 1 \<Longrightarrow> unat (n + 1) = Suc (unat n)"
  using unatSuc[of n] by (auto simp: add.commute eq_neg_iff_add_eq_0)

lemma less_inc: "n < m \<Longrightarrow> n < n + 1" for n m :: "'a::len word"
  by (metis linorder_not_less unat_inc word_less_nat_alt word_order.extremum lessI)

lemma inc_mono:
  fixes n k m :: "'a::len word"
  assumes "n \<le> k" "k < m"
  shows "n + 1 \<le> k + 1"
proof -
  have k: "k \<noteq> - 1" using assms(2) by auto
  with assms(1) have "n \<noteq> - 1" using word_order.extremum_uniqueI by blast
  with k assms(1) show ?thesis by (simp add: word_le_nat_alt unat_inc)
qed

end
