(* ===== verification/W3IR.thy ===== *)
theory W3IR
  imports W3Prelude
begin

text \<open>
  The data of the intermediate representation in \<^verbatim>\<open>crates/w3cos-ir/src/lib.rs\<close>: identifiers,
  constants, operators, instructions, blocks, functions and modules, with the constructors and
  fields of the source in the source's order, and the errors of its validator.  Struct fields whose
  name is an Isabelle keyword or is shared by two structs carry the struct's name as a prefix.
\<close>

subsection \<open>Identifiers and small enumerations\<close>

definition FORMAT_VERSION :: u32 where "FORMAT_VERSION = 19"

datatype Register = Register (reg_no: u32)
datatype BlockId = BlockId u32
datatype FunctionId = FunctionId u32
datatype BindingId = BindingId (binding_no: u32)
datatype SuspensionId = SuspensionId u32

record SourceSpan =
  span_source :: string
  span_start :: u32
  span_end :: u32

datatype Constant = CUndefined | CNull | CBool bool | CNumber f64 | CString string

datatype BinaryOperator =
    Subtract | Multiply | Divide | Remainder | Exponentiate
  | AbstractEqual | AbstractNotEqual | StrictEqual | StrictNotEqual
  | LessThan | LessThanOrEqual | GreaterThan | GreaterThanOrEqual
  | LeftShift | SignedRightShift | UnsignedRightShift
  | BitwiseOr | BitwiseXor | BitwiseAnd | InstanceOf | InOperator

datatype UnaryOperator = TypeOf | Negate | BitwiseNot

datatype BindingKind =
  KVar | KLet | KConst | KFunction | KClass | KImport | KParameter | KCatch

record Binding =
  binding_id :: BindingId
  binding_name :: string
  binding_kind :: BindingKind
  binding_mutable :: bool

record Import =
  import_specifier :: string
  imported :: string
  import_local :: BindingId

record Export =
  exported :: string
  export_local :: BindingId

subsection \<open>Instructions\<close>

datatype (plugins only: code size) Instruction =
    LoadConstant Register Constant
  | Move Register Register
  | LoadBinding Register BindingId
  | InitializeBinding BindingId Register
  | StoreBinding BindingId Register
  | RefreshBinding BindingId
  | Add Register Register Register
  | Binary Register BinaryOperator Register Register
  | Unary Register UnaryOperator Register
  | GetProperty Register Register Register
  | DeleteProperty Register Register Register
  | SetProperty Register Register Register bool
  | DefineField Register Register Register
  | DefinePrivate Register Register Register Register
  | GetPrivate Register Register Register Register
  | SetPrivate Register Register Register Register
  | HasPrivate Register Register Register
  | DefinePrivateMethod Register Register Register
  | DefinePrivateAccessor Register Register "Register option" "Register option"
  | CreateObject Register "(Register \<times> Register) list"
  | CopyDataProperties Register Register
  | CreateArray Register "Register list"
  | AppendArrayElement Register Register
  | AppendIterable Register Register
  | ArrayRest Register Register u32
  | ObjectRest Register Register "Register list"
  | CreateClosure Register FunctionId "BindingId list"
  | CreateClass Register Register "Register option" "Register option"
  | Call Register Register Register "Register list"
  | CallWithArguments Register Register Register Register
  | CallMethod Register Register Register "Register list"
  | CallMethodWithArguments Register Register Register Register
  | Construct Register Register "Register list"
  | ConstructWithArguments Register Register Register
  | DynamicImport Register Register
  | ImportMeta Register
  | NewTarget Register
  | Await Register Register SuspensionId
  | Yield Register Register SuspensionId
  | YieldDelegate Register Register SuspensionId
  | Jump BlockId
  | Branch Register BlockId BlockId
  | Return Register
  | Throw Register

subsection \<open>Blocks, functions, modules\<close>

record Block =
  block_id :: BlockId
  instructions :: "Instruction list"
  block_span :: "SourceSpan option"

record ExceptionRegion =
  protected_blocks :: "BlockId list"
  catch_block :: "BlockId option"
  finally_block :: "BlockId option"
  exception_register :: Register

record SuspensionPoint =
  suspension_id :: SuspensionId
  await_block :: BlockId
  suspension_resume_block :: BlockId
  reject_block :: BlockId
  suspension_live_registers :: "Register list"

record GeneratorSuspensionPoint =
  generator_suspension_id :: SuspensionId
  yield_block :: BlockId
  result_register :: Register
  resume_block :: BlockId
  throw_block :: BlockId
  return_block :: BlockId
  generator_live_registers :: "Register list"

record Function =
  function_id :: FunctionId
  function_name :: "string option"
  parameters :: "BindingId list"
  rest_parameter :: "BindingId option"
  arguments_binding :: "BindingId option"
  bindings :: "Binding list"
  captures :: "BindingId list"
  this_binding :: "BindingId option"
  registers :: u32
  function_entry :: BlockId
  blocks :: "Block list"
  exception_regions :: "ExceptionRegion list"
  suspension_points :: "SuspensionPoint list"
  generator_suspension_points :: "GeneratorSuspensionPoint list"
  is_async :: bool
  is_generator :: bool
  own_name_length :: "(string \<times> u32) option"
  function_span :: "SourceSpan option"

record Module =
  format_version :: u32
  specifier :: string
  requested_modules :: "string list"
  star_exports :: "string list"
  module_imports :: "Import list"
  module_exports :: "Export list"
  module_functions :: "Function list"
  module_entry :: FunctionId

definition new_module :: "string \<Rightarrow> FunctionId \<Rightarrow> Function list \<Rightarrow> Module" where
  "new_module spec e fs =
     \<lparr> format_version = FORMAT_VERSION, specifier = spec, requested_modules = [],
       star_exports = [], module_imports = [], module_exports = [], module_functions = fs, module_entry = e \<rparr>"

datatype (plugins only: code size) ValidationError =
    UnsupportedVersion u32
  | EmptyModuleSpecifier
  | EmptyRequestedModule
  | EmptyStarExport
  | UnrequestedStarExport
  | EmptyImportSpecifier BindingId
  | DuplicateFunction FunctionId
  | MissingFunction FunctionId
  | MissingEntry FunctionId
  | DuplicateBinding BindingId
  | MissingBinding BindingId
  | DuplicateImport BindingId
  | DuplicateExport string
  | DuplicateCapture FunctionId
  | InvalidCapture FunctionId BindingId
  | InvalidClosureCapture FunctionId
  | MissingFunctionBinding FunctionId BindingId
  | DuplicateFunctionParameter FunctionId BindingId
  | InvalidRefreshBinding FunctionId BindingId
  | DuplicateBlock FunctionId BlockId
  | MissingEntryBlock FunctionId BlockId
  | UnterminatedBlock FunctionId BlockId
  | InstructionAfterTerminator FunctionId BlockId
  | MissingTarget FunctionId BlockId
  | RegisterOutOfBounds FunctionId Register u32
  | EmptyExceptionRegion FunctionId
  | EmptyProtectedBlocks FunctionId
  | DuplicateSuspension FunctionId
  | SuspensionInSyncFunction FunctionId
  | InvalidAwait FunctionId SuspensionId
  | DuplicateGeneratorSuspension FunctionId
  | GeneratorSuspensionInOrdinaryFunction FunctionId
  | InvalidYield FunctionId SuspensionId
  | InvalidSourceSpan

end
