(* ===== verification/W3Validate.thy ===== *)
theory W3Validate
  imports W3IR
begin

text \<open>
  \<^verbatim>\<open>Module::validate\<close> and \<^verbatim>\<open>Function::validate\<close> of \<^verbatim>\<open>crates/w3cos-ir/src/lib.rs\<close>, check
  by check in the source's order, with the first failing check as the error.  The declarative
  predicate \<open>wf_module\<close> says what an accepted module looks like; \<open>validate_Ok_iff\<close> shows that the
  validator decides it.  The theories about the virtual machine use \<open>wf_module\<close> only.
\<close>

subsection \<open>What an instruction mentions\<close>

definition is_terminator :: "Instruction \<Rightarrow> bool" where
  "is_terminator i = (case i of Jump _ \<Rightarrow> True | Branch _ _ _ \<Rightarrow> True | Return _ \<Rightarrow> True
                      | Throw _ \<Rightarrow> True | _ \<Rightarrow> False)"

definition branch_targets :: "Instruction \<Rightarrow> BlockId list" where
  "branch_targets i = (case i of Jump t \<Rightarrow> [t] | Branch _ t e \<Rightarrow> [t, e] | _ \<Rightarrow> [])"

definition instruction_bindings :: "Instruction \<Rightarrow> BindingId list" where
  "instruction_bindings i = (case i of
     LoadBinding _ b \<Rightarrow> [b] | InitializeBinding b _ \<Rightarrow> [b] | StoreBinding b _ \<Rightarrow> [b]
   | RefreshBinding b \<Rightarrow> [b] | _ \<Rightarrow> [])"

definition option_list :: "'a option \<Rightarrow> 'a list" where
  "option_list x = (case x of None \<Rightarrow> [] | Some y \<Rightarrow> [y])"

lemma set_option_list [simp]: "set (option_list x) = set_option x"
  by (cases x) (simp_all add: option_list_def)

definition instruction_registers :: "Instruction \<Rightarrow> Register list" where
  "instruction_registers i = (case i of
     LoadConstant dst _ \<Rightarrow> [dst]
   | ImportMeta dst \<Rightarrow> [dst]
   | NewTarget dst \<Rightarrow> [dst]
   | Move dst src \<Rightarrow> [dst, src]
   | LoadBinding dst _ \<Rightarrow> [dst]
   | InitializeBinding _ value \<Rightarrow> [value]
   | StoreBinding _ value \<Rightarrow> [value]
   | RefreshBinding _ \<Rightarrow> []
   | Add dst lhs rhs \<Rightarrow> [dst, lhs, rhs]
   | Binary dst _ lhs rhs \<Rightarrow> [dst, lhs, rhs]
   | Unary dst _ value \<Rightarrow> [dst, value]
   | GetProperty dst object key \<Rightarrow> [dst, object, key]
   | DeleteProperty dst object key \<Rightarrow> [dst, object, key]
   | SetProperty object key value _ \<Rightarrow> [object, key, value]
   | DefineField object key value \<Rightarrow> [object, key, value]
   | DefinePrivate object brand name value \<Rightarrow> [object, brand, name, value]
   | SetPrivate object brand name value \<Rightarrow> [object, brand, name, value]
   | GetPrivate dst object brand name \<Rightarrow> [dst, object, brand, name]
   | HasPrivate dst object brand \<Rightarrow> [dst, object, brand]
   | DefinePrivateMethod brand name value \<Rightarrow> [brand, name, value]
   | DefinePrivateAccessor brand name getter setter \<Rightarrow>
       [brand, name] @ option_list getter @ option_list setter
   | CreateObject dst properties \<Rightarrow> dst # concat (map (\<lambda>(key, value). [key, value]) properties)
   | CopyDataProperties target source \<Rightarrow> [target, source]
   | CreateArray dst elements \<Rightarrow> dst # elements
   | AppendArrayElement array value \<Rightarrow> [array, value]
   | AppendIterable array iterable \<Rightarrow> [array, iterable]
   | ArrayRest dst value _ \<Rightarrow> [dst, value]
   | ObjectRest dst value excluded \<Rightarrow> [dst, value] @ excluded
   | CreateClosure dst _ _ \<Rightarrow> [dst]
   | CreateClass dst constructor super_class initializer \<Rightarrow>
       [dst, constructor] @ option_list super_class @ option_list initializer
   | Call dst callee this_value arguments \<Rightarrow> [dst, callee, this_value] @ arguments
   | CallWithArguments dst callee this_value arguments \<Rightarrow> [dst, callee, this_value, arguments]
   | CallMethod dst object key arguments \<Rightarrow> [dst, object, key] @ arguments
   | CallMethodWithArguments dst object key arguments \<Rightarrow> [dst, object, key, arguments]
   | Construct dst constructor arguments \<Rightarrow> [dst, constructor] @ arguments
   | ConstructWithArguments dst constructor arguments \<Rightarrow> [dst, constructor, arguments]
   | DynamicImport dst spec \<Rightarrow> [dst, spec]
   | Await dst value _ \<Rightarrow> [dst, value]
   | Yield dst value _ \<Rightarrow> [dst, value]
   | YieldDelegate dst iterator _ \<Rightarrow> [dst, iterator]
   | Branch condition _ _ \<Rightarrow> [condition]
   | Return value \<Rightarrow> [value]
   | Throw value \<Rightarrow> [value]
   | Jump _ \<Rightarrow> [])"

subsection \<open>The leaf checks\<close>

definition validate_span :: "SourceSpan \<Rightarrow> ValidationError + unit" where
  "validate_span span =
     require (\<not> (span_source span = [] \<or> span_start span > span_end span)) InvalidSourceSpan"

definition validate_block :: "FunctionId \<Rightarrow> BlockId \<Rightarrow> BlockId set \<Rightarrow> ValidationError + unit" where
  "validate_block f b bs = require (b \<in> bs) (MissingTarget f b)"

definition validate_register :: "FunctionId \<Rightarrow> Register \<Rightarrow> u32 \<Rightarrow> ValidationError + unit" where
  "validate_register f r n = require (reg_no r < n) (RegisterOutOfBounds f r n)"

definition check_option :: "('a \<Rightarrow> 'e + unit) \<Rightarrow> 'a option \<Rightarrow> 'e + unit" where
  "check_option f x = (case x of None \<Rightarrow> Ok () | Some y \<Rightarrow> f y)"

lemma check_option_Ok [simp]: "check_option f x = Ok u \<longleftrightarrow> (\<forall>y\<in>set_option x. f y = Ok ())"
  by (cases x) (simp_all add: check_option_def)

subsection \<open>Function::validate\<close>

definition local_binding_kinds :: "Function \<Rightarrow> BindingId \<rightharpoonup> BindingKind" where
  "local_binding_kinds f =
     hash_map_collect (map (\<lambda>b. (binding_id b, binding_kind b)) (bindings f))"

definition local_bindings :: "Function \<Rightarrow> BindingId set" where
  "local_bindings f = set (map binding_id (bindings f))"

definition accessible_bindings :: "Function \<Rightarrow> BindingId set" where
  "accessible_bindings f = local_bindings f \<union> set (captures f)"

definition validate_captures :: "Function \<Rightarrow> BindingId set \<Rightarrow> ValidationError + unit" where
  "validate_captures f module_bindings =
     check_then (require (hash_set_len (captures f) = length (captures f))
                   (DuplicateCapture (function_id f)))
     (each (\<lambda>c. require (\<not> (c \<notin> module_bindings \<or> c \<in> local_bindings f))
                  (InvalidCapture (function_id f) c)) (captures f))"

fun validate_parameter_list ::
  "Function \<Rightarrow> BindingId list \<Rightarrow> BindingId set \<Rightarrow> ValidationError + BindingId set" where
  "validate_parameter_list f [] seen = Ok seen"
| "validate_parameter_list f (p # ps) seen =
     (if p \<in> seen then Err (DuplicateFunctionParameter (function_id f) p)
      else if local_binding_kinds f p \<noteq> Some KParameter
      then Err (MissingFunctionBinding (function_id f) p)
      else validate_parameter_list f ps (insert p seen))"

definition validate_parameters :: "Function \<Rightarrow> ValidationError + unit" where
  "validate_parameters f =
     bind_result (validate_parameter_list f (parameters f) {}) (\<lambda>parameter_bindings.
     check_then (check_option (\<lambda>r.
         check_then (require (local_binding_kinds f r = Some KParameter)
                       (MissingFunctionBinding (function_id f) r))
           (require (r \<notin> parameter_bindings)
              (DuplicateFunctionParameter (function_id f) r))) (rest_parameter f))
     (check_then (check_option (\<lambda>a.
         check_then (require (local_binding_kinds f a = Some KParameter)
                       (MissingFunctionBinding (function_id f) a))
           (require (\<not> (a \<in> parameter_bindings \<or> rest_parameter f = Some a))
              (DuplicateFunctionParameter (function_id f) a))) (arguments_binding f))
     (check_option (\<lambda>t. require (t \<in> local_bindings f)
         (MissingFunctionBinding (function_id f) t)) (this_binding f))))"

fun validate_block_ids ::
  "Function \<Rightarrow> Block list \<Rightarrow> BlockId set \<Rightarrow> ValidationError + BlockId set" where
  "validate_block_ids f [] seen = Ok seen"
| "validate_block_ids f (b # bs) seen =
     (if block_id b \<in> seen then Err (DuplicateBlock (function_id f) (block_id b))
      else check_then (check_option validate_span (block_span b))
             (validate_block_ids f bs (insert (block_id b) seen)))"

definition validate_suspension_points :: "Function \<Rightarrow> BlockId set \<Rightarrow> ValidationError + unit" where
  "validate_suspension_points f bs =
     check_then (require (hash_set_len (map suspension_id (suspension_points f)) =
                    length (suspension_points f)) (DuplicateSuspension (function_id f)))
     (check_then (require (\<not> (\<not> is_async f \<and> suspension_points f \<noteq> []))
                    (SuspensionInSyncFunction (function_id f)))
     (each (\<lambda>p.
        check_then (validate_block (function_id f) (await_block p) bs)
        (check_then (validate_block (function_id f) (suspension_resume_block p) bs)
        (check_then (validate_block (function_id f) (reject_block p) bs)
        (each (\<lambda>r. validate_register (function_id f) r (registers f))
           (suspension_live_registers p))))) (suspension_points f)))"

definition validate_generator_points :: "Function \<Rightarrow> BlockId set \<Rightarrow> ValidationError + unit" where
  "validate_generator_points f bs =
     check_then (require (hash_set_len (map generator_suspension_id (generator_suspension_points f))
                    = length (generator_suspension_points f))
                   (DuplicateGeneratorSuspension (function_id f)))
     (check_then (require (\<not> (\<not> is_generator f \<and> generator_suspension_points f \<noteq> []))
                    (GeneratorSuspensionInOrdinaryFunction (function_id f)))
     (each (\<lambda>p.
        check_then (validate_block (function_id f) (yield_block p) bs)
        (check_then (validate_register (function_id f) (result_register p) (registers f))
        (check_then (validate_block (function_id f) (resume_block p) bs)
        (check_then (validate_block (function_id f) (throw_block p) bs)
        (check_then (validate_block (function_id f) (return_block p) bs)
        (each (\<lambda>r. validate_register (function_id f) r (registers f))
           (generator_live_registers p))))))) (generator_suspension_points f)))"

definition validate_region :: "Function \<Rightarrow> BlockId set \<Rightarrow> ExceptionRegion \<Rightarrow> ValidationError + unit"
where
  "validate_region f bs r =
     check_then (require (\<not> (catch_block r = None \<and> finally_block r = None))
                   (EmptyExceptionRegion (function_id f)))
     (check_then (require (protected_blocks r \<noteq> []) (EmptyProtectedBlocks (function_id f)))
     (check_then (each (\<lambda>b. validate_block (function_id f) b bs) (protected_blocks r))
     (check_then (check_option (\<lambda>b. validate_block (function_id f) b bs) (catch_block r))
     (check_then (check_option (\<lambda>b. validate_block (function_id f) b bs) (finally_block r))
     (validate_register (function_id f) (exception_register r) (registers f))))))"

text \<open>The final \<^verbatim>\<open>match instruction\<close> of the loop over a block's instructions.\<close>

definition validate_instruction_kind ::
  "Function \<Rightarrow> FunctionId set \<Rightarrow> (FunctionId \<rightharpoonup> BindingId list) \<Rightarrow> Instruction \<Rightarrow>
     ValidationError + unit" where
  "validate_instruction_kind f function_ids function_captures i = (case i of
     RefreshBinding b \<Rightarrow>
       require (local_binding_kinds f b \<in> {Some KLet, Some KConst, Some KClass})
         (InvalidRefreshBinding (function_id f) b)
   | CreateClosure _ g cs \<Rightarrow>
       check_then (require (g \<in> function_ids) (MissingFunction g))
       (require (\<not> ((\<exists>c\<in>set cs. c \<notin> accessible_bindings f) \<or> function_captures g \<noteq> Some cs))
          (InvalidClosureCapture (function_id f)))
   | Await _ _ s \<Rightarrow>
       require (\<not> (\<not> is_async f \<or> s \<notin> set (map suspension_id (suspension_points f))))
         (InvalidAwait (function_id f) s)
   | Yield _ _ s \<Rightarrow>
       require (\<not> (\<not> is_generator f \<or>
           s \<notin> set (map generator_suspension_id (generator_suspension_points f))))
         (InvalidYield (function_id f) s)
   | YieldDelegate _ _ s \<Rightarrow>
       require (\<not> (\<not> is_generator f \<or>
           s \<notin> set (map generator_suspension_id (generator_suspension_points f))))
         (InvalidYield (function_id f) s)
   | _ \<Rightarrow> Ok ())"

definition validate_block_body ::
  "Function \<Rightarrow> FunctionId set \<Rightarrow> (FunctionId \<rightharpoonup> BindingId list) \<Rightarrow> BlockId set \<Rightarrow> Block \<Rightarrow>
     ValidationError + unit" where
  "validate_block_body f function_ids function_captures bs b =
     check_then (require (instructions b \<noteq> [] \<and> is_terminator (last (instructions b)))
                   (UnterminatedBlock (function_id f) (block_id b)))
     (each (\<lambda>(index, i).
        check_then (require (\<not> (is_terminator i \<and> index + 1 \<noteq> length (instructions b)))
                      (InstructionAfterTerminator (function_id f) (block_id b)))
        (check_then (each (\<lambda>t. validate_block (function_id f) t bs) (branch_targets i))
        (check_then (each (\<lambda>r. validate_register (function_id f) r (registers f))
                       (instruction_registers i))
        (check_then (each (\<lambda>x. require (x \<in> accessible_bindings f)
                             (MissingFunctionBinding (function_id f) x)) (instruction_bindings i))
        (validate_instruction_kind f function_ids function_captures i)))))
      (enumerate 0 (instructions b)))"

definition validate_function ::
  "Function \<Rightarrow> FunctionId set \<Rightarrow> (FunctionId \<rightharpoonup> BindingId list) \<Rightarrow> BindingId set \<Rightarrow>
     ValidationError + unit" where
  "validate_function f function_ids function_captures module_bindings =
     check_then (validate_captures f module_bindings)
     (check_then (validate_parameters f)
     (bind_result (validate_block_ids f (blocks f) {}) (\<lambda>bs.
     check_then (require (function_entry f \<in> bs)
                   (MissingEntryBlock (function_id f) (function_entry f)))
     (check_then (check_option validate_span (function_span f))
     (check_then (validate_suspension_points f bs)
     (check_then (validate_generator_points f bs)
     (check_then (each (validate_region f bs) (exception_regions f))
     (each (validate_block_body f function_ids function_captures bs) (blocks f)))))))))"

subsection \<open>Module::validate\<close>

fun collect_bindings :: "Binding list \<Rightarrow> BindingId set \<Rightarrow> ValidationError + BindingId set" where
  "collect_bindings [] ids = Ok ids"
| "collect_bindings (b # bs) ids =
     (if binding_id b \<in> ids then Err (DuplicateBinding (binding_id b))
      else collect_bindings bs (insert (binding_id b) ids))"

fun collect_functions ::
  "Function list \<Rightarrow> FunctionId set \<Rightarrow> (FunctionId \<rightharpoonup> BindingId list) \<Rightarrow> BindingId set \<Rightarrow>
     ValidationError + (FunctionId set \<times> (FunctionId \<rightharpoonup> BindingId list) \<times> BindingId set)" where
  "collect_functions [] ids caps bids = Ok (ids, caps, bids)"
| "collect_functions (f # fs) ids caps bids =
     (if function_id f \<in> ids then Err (DuplicateFunction (function_id f))
      else bind_result (collect_bindings (bindings f) bids) (\<lambda>bids'.
        collect_functions fs (insert (function_id f) ids) (caps(function_id f \<mapsto> captures f)) bids'))"

fun validate_imports ::
  "Import list \<Rightarrow> BindingId set \<Rightarrow> BindingId set \<Rightarrow> ValidationError + unit" where
  "validate_imports [] bids seen = Ok ()"
| "validate_imports (i # is) bids seen =
     (if import_specifier i = [] then Err (EmptyImportSpecifier (import_local i))
      else if import_local i \<notin> bids then Err (MissingBinding (import_local i))
      else if import_local i \<in> seen then Err (DuplicateImport (import_local i))
      else validate_imports is bids (insert (import_local i) seen))"

fun validate_exports ::
  "Export list \<Rightarrow> BindingId set \<Rightarrow> string set \<Rightarrow> ValidationError + unit" where
  "validate_exports [] bids seen = Ok ()"
| "validate_exports (e # es) bids seen =
     (if export_local e \<notin> bids then Err (MissingBinding (export_local e))
      else if exported e \<in> seen then Err (DuplicateExport (exported e))
      else validate_exports es bids (insert (exported e) seen))"

definition validate :: "Module \<Rightarrow> ValidationError + unit" where
  "validate m =
     check_then (require (format_version m = FORMAT_VERSION)
                   (UnsupportedVersion (format_version m)))
     (check_then (require (specifier m \<noteq> []) EmptyModuleSpecifier)
     (check_then (require (\<not> (\<exists>r\<in>set (requested_modules m). r = [])) EmptyRequestedModule)
     (check_then (require (\<not> (\<exists>s\<in>set (star_exports m). s = [])) EmptyStarExport)
     (check_then (require (\<not> (\<exists>s\<in>set (star_exports m). s \<notin> set (requested_modules m)))
                    UnrequestedStarExport)
     (bind_result (collect_functions (module_functions m) {} Map.empty {})
       (\<lambda>(function_ids, function_captures, binding_ids).
     check_then (require (module_entry m \<in> function_ids) (MissingEntry (module_entry m)))
     (check_then (validate_imports (module_imports m) binding_ids {})
     (check_then (validate_exports (module_exports m) binding_ids {})
     (each (\<lambda>f. validate_function f function_ids function_captures binding_ids)
        (module_functions m))))))))))"

end
