(* ===== verification/W3WellFormed.thy ===== *)
theory W3WellFormed
  imports W3Validate
begin

text \<open>
  The specification of an accepted module, independent of the order of the validator's checks, and
  the proof that the validator decides it.  Below it, the facts that execution relies on: a
  well-formed function's blocks end in exactly one terminator, its jump targets, registers and
  bindings exist, and a closure's capture list is the one its target function declares.
\<close>

subsection \<open>Well-formed modules\<close>

definition block_ids :: "Function \<Rightarrow> BlockId set" where
  "block_ids f = set (map block_id (blocks f))"

definition suspension_ids :: "Function \<Rightarrow> SuspensionId set" where
  "suspension_ids f = set (map suspension_id (suspension_points f))"

definition generator_suspension_ids :: "Function \<Rightarrow> SuspensionId set" where
  "generator_suspension_ids f = set (map generator_suspension_id (generator_suspension_points f))"

definition wf_register :: "Function \<Rightarrow> Register \<Rightarrow> bool" where
  "wf_register f r \<longleftrightarrow> reg_no r < registers f"

definition has_kind :: "Function \<Rightarrow> BindingKind set \<Rightarrow> BindingId \<Rightarrow> bool" where
  "has_kind f ks b \<longleftrightarrow> (\<exists>x\<in>set (bindings f). binding_id x = b \<and> binding_kind x \<in> ks)"

definition wf_span :: "SourceSpan \<Rightarrow> bool" where
  "wf_span s \<longleftrightarrow> span_source s \<noteq> [] \<and> span_start s \<le> span_end s"

definition wf_instruction_kind :: "Module \<Rightarrow> Function \<Rightarrow> Instruction \<Rightarrow> bool" where
  "wf_instruction_kind m f i = (case i of
     RefreshBinding b \<Rightarrow> has_kind f {KLet, KConst, KClass} b
   | CreateClosure _ g cs \<Rightarrow>
       set cs \<subseteq> accessible_bindings f \<and>
       (\<exists>h\<in>set (module_functions m). function_id h = g \<and> captures h = cs)
   | Await _ _ s \<Rightarrow> is_async f \<and> s \<in> suspension_ids f
   | Yield _ _ s \<Rightarrow> is_generator f \<and> s \<in> generator_suspension_ids f
   | YieldDelegate _ _ s \<Rightarrow> is_generator f \<and> s \<in> generator_suspension_ids f
   | _ \<Rightarrow> True)"

definition wf_instruction :: "Module \<Rightarrow> Function \<Rightarrow> Instruction \<Rightarrow> bool" where
  "wf_instruction m f i \<longleftrightarrow>
     set (branch_targets i) \<subseteq> block_ids f \<and>
     (\<forall>r\<in>set (instruction_registers i). wf_register f r) \<and>
     set (instruction_bindings i) \<subseteq> accessible_bindings f \<and>
     wf_instruction_kind m f i"

definition wf_block :: "Module \<Rightarrow> Function \<Rightarrow> Block \<Rightarrow> bool" where
  "wf_block m f b \<longleftrightarrow>
     (\<exists>body t. instructions b = body @ [t] \<and> is_terminator t \<and>
        (\<forall>i\<in>set body. \<not> is_terminator i)) \<and>
     (\<forall>i\<in>set (instructions b). wf_instruction m f i)"

definition wf_region :: "Function \<Rightarrow> ExceptionRegion \<Rightarrow> bool" where
  "wf_region f r \<longleftrightarrow>
     (catch_block r \<noteq> None \<or> finally_block r \<noteq> None) \<and> protected_blocks r \<noteq> [] \<and>
     set (protected_blocks r) \<union> set_option (catch_block r) \<union> set_option (finally_block r)
       \<subseteq> block_ids f \<and>
     wf_register f (exception_register r)"

definition wf_suspension :: "Function \<Rightarrow> SuspensionPoint \<Rightarrow> bool" where
  "wf_suspension f p \<longleftrightarrow>
     {await_block p, suspension_resume_block p, reject_block p} \<subseteq> block_ids f \<and>
     (\<forall>r\<in>set (suspension_live_registers p). wf_register f r)"

definition wf_generator_suspension :: "Function \<Rightarrow> GeneratorSuspensionPoint \<Rightarrow> bool" where
  "wf_generator_suspension f p \<longleftrightarrow>
     {yield_block p, resume_block p, throw_block p, return_block p} \<subseteq> block_ids f \<and>
     wf_register f (result_register p) \<and>
     (\<forall>r\<in>set (generator_live_registers p). wf_register f r)"

definition wf_parameters :: "Function \<Rightarrow> bool" where
  "wf_parameters f \<longleftrightarrow>
     distinct (parameters f @ option_list (rest_parameter f) @ option_list (arguments_binding f)) \<and>
     (\<forall>p\<in>set (parameters f) \<union> set_option (rest_parameter f) \<union> set_option (arguments_binding f).
        has_kind f {KParameter} p) \<and>
     set_option (this_binding f) \<subseteq> local_bindings f"

definition wf_function :: "Module \<Rightarrow> Function \<Rightarrow> bool" where
  "wf_function m f \<longleftrightarrow>
     distinct (captures f) \<and>
     set (captures f) \<subseteq> (\<Union>g\<in>set (module_functions m). local_bindings g) - local_bindings f \<and>
     wf_parameters f \<and>
     distinct (map block_id (blocks f)) \<and>
     (\<forall>b\<in>set (blocks f). \<forall>s\<in>set_option (block_span b). wf_span s) \<and>
     function_entry f \<in> block_ids f \<and>
     (\<forall>s\<in>set_option (function_span f). wf_span s) \<and>
     distinct (map suspension_id (suspension_points f)) \<and>
     (suspension_points f \<noteq> [] \<longrightarrow> is_async f) \<and>
     (\<forall>p\<in>set (suspension_points f). wf_suspension f p) \<and>
     distinct (map generator_suspension_id (generator_suspension_points f)) \<and>
     (generator_suspension_points f \<noteq> [] \<longrightarrow> is_generator f) \<and>
     (\<forall>p\<in>set (generator_suspension_points f). wf_generator_suspension f p) \<and>
     (\<forall>r\<in>set (exception_regions f). wf_region f r) \<and>
     (\<forall>b\<in>set (blocks f). wf_block m f b)"

definition module_binding_ids :: "Module \<Rightarrow> BindingId set" where
  "module_binding_ids m = (\<Union>g\<in>set (module_functions m). local_bindings g)"

definition wf_module :: "Module \<Rightarrow> bool" where
  "wf_module m \<longleftrightarrow>
     format_version m = FORMAT_VERSION \<and> specifier m \<noteq> [] \<and>
     [] \<notin> set (requested_modules m) \<and> [] \<notin> set (star_exports m) \<and>
     set (star_exports m) \<subseteq> set (requested_modules m) \<and>
     distinct (map function_id (module_functions m)) \<and>
     distinct (concat (map (\<lambda>f. map binding_id (bindings f)) (module_functions m))) \<and>
     module_entry m \<in> function_id ` set (module_functions m) \<and>
     (\<forall>i\<in>set (module_imports m).
        import_specifier i \<noteq> [] \<and> import_local i \<in> module_binding_ids m) \<and>
     distinct (map import_local (module_imports m)) \<and>
     (\<forall>e\<in>set (module_exports m). export_local e \<in> module_binding_ids m) \<and>
     distinct (map exported (module_exports m)) \<and>
     (\<forall>f\<in>set (module_functions m). wf_function m f)"

subsection \<open>The loops with an accumulator\<close>

lemma collect_bindings_Ok:
  "collect_bindings bs ids = Ok ids' \<longleftrightarrow>
     distinct (map binding_id bs) \<and> binding_id ` set bs \<inter> ids = {} \<and>
     ids' = ids \<union> binding_id ` set bs"
  by (induction bs arbitrary: ids) auto

lemma collect_functions_Ok:
  "collect_functions fs ids caps bids = Ok (ids', caps', bids') \<longleftrightarrow>
     distinct (map function_id fs) \<and> function_id ` set fs \<inter> ids = {} \<and>
     distinct (concat (map (\<lambda>f. map binding_id (bindings f)) fs)) \<and>
     (\<Union>f\<in>set fs. local_bindings f) \<inter> bids = {} \<and>
     ids' = ids \<union> function_id ` set fs \<and>
     caps' = caps ++ map_of (map (\<lambda>f. (function_id f, captures f)) fs) \<and>
     bids' = bids \<union> (\<Union>f\<in>set fs. local_bindings f)"
proof (induction fs arbitrary: ids caps bids)
  case Nil
  show ?case by auto
next
  case (Cons f fs)
  let ?caps = "map_of (map (\<lambda>f. (function_id f, captures f)) fs)"
  show ?case
  proof (cases "function_id f \<in> function_id ` set fs")
    case True
    then show ?thesis by (auto simp: bind_result_Ok Cons.IH)
  next
    case False
    then have upd: "caps(function_id f \<mapsto> captures f) ++ ?caps
        = caps ++ (?caps(function_id f \<mapsto> captures f))"
      by (simp add: map_add_upd_left dom_map_of_conv_image_fst image_image)
    have distinct_step: "distinct (concat (map (\<lambda>f. map binding_id (bindings f)) (f # fs))) \<longleftrightarrow>
        distinct (map binding_id (bindings f)) \<and>
        distinct (concat (map (\<lambda>f. map binding_id (bindings f)) fs)) \<and>
        local_bindings f \<inter> (\<Union>g\<in>set fs. local_bindings g) = {}"
      by (auto simp: local_bindings_def)
    have caps_step: "map_of (map (\<lambda>f. (function_id f, captures f)) (f # fs))
        = ?caps(function_id f \<mapsto> captures f)"
      by simp
    have "collect_functions (f # fs) ids caps bids = Ok (ids', caps', bids') \<longleftrightarrow>
        function_id f \<notin> ids \<and> distinct (map binding_id (bindings f)) \<and>
        local_bindings f \<inter> bids = {} \<and>
        collect_functions fs (insert (function_id f) ids) (caps(function_id f \<mapsto> captures f))
          (bids \<union> local_bindings f) = Ok (ids', caps', bids')"
      by (auto simp: bind_result_Ok collect_bindings_Ok local_bindings_def)
    also have "\<dots> \<longleftrightarrow> distinct (map function_id (f # fs)) \<and>
        function_id ` set (f # fs) \<inter> ids = {} \<and>
        distinct (concat (map (\<lambda>f. map binding_id (bindings f)) (f # fs))) \<and>
        (\<Union>f\<in>set (f # fs). local_bindings f) \<inter> bids = {} \<and>
        ids' = ids \<union> function_id ` set (f # fs) \<and>
        caps' = caps ++ map_of (map (\<lambda>f. (function_id f, captures f)) (f # fs)) \<and>
        bids' = bids \<union> (\<Union>f\<in>set (f # fs). local_bindings f)"
      unfolding Cons.IH upd caps_step distinct_step using False by auto
    finally show ?thesis .
  qed
qed

lemma validate_parameter_list_Ok:
  "validate_parameter_list f ps seen = Ok seen' \<longleftrightarrow>
     distinct ps \<and> set ps \<inter> seen = {} \<and>
     (\<forall>p\<in>set ps. local_binding_kinds f p = Some KParameter) \<and> seen' = seen \<union> set ps"
  by (induction ps arbitrary: seen) auto

lemma validate_block_ids_Ok:
  "validate_block_ids f bs seen = Ok seen' \<longleftrightarrow>
     distinct (map block_id bs) \<and> block_id ` set bs \<inter> seen = {} \<and>
     (\<forall>b\<in>set bs. \<forall>s\<in>set_option (block_span b). validate_span s = Ok ()) \<and>
     seen' = seen \<union> block_id ` set bs"
  by (induction bs arbitrary: seen) auto

lemma validate_imports_Ok:
  "validate_imports is bids seen = Ok u \<longleftrightarrow>
     (\<forall>i\<in>set is. import_specifier i \<noteq> [] \<and> import_local i \<in> bids) \<and>
     distinct (map import_local is) \<and> import_local ` set is \<inter> seen = {}"
  by (induction "is" arbitrary: seen) auto

lemma validate_exports_Ok:
  "validate_exports es bids seen = Ok u \<longleftrightarrow>
     (\<forall>e\<in>set es. export_local e \<in> bids) \<and>
     distinct (map exported es) \<and> exported ` set es \<inter> seen = {}"
  by (induction es arbitrary: seen) auto

subsection \<open>Each check of a function against its part of the specification\<close>

lemma validate_span_Ok [simp]: "validate_span s = Ok u \<longleftrightarrow> wf_span s"
  by (auto simp: validate_span_def wf_span_def)

lemma validate_block_Ok [simp]: "validate_block f b bs = Ok u \<longleftrightarrow> b \<in> bs"
  by (simp add: validate_block_def)

lemma validate_register_Ok [simp]:
  "validate_register (function_id f) r (registers f) = Ok u \<longleftrightarrow> wf_register f r"
  by (simp add: validate_register_def wf_register_def)

lemma local_binding_kinds_iff:
  assumes "distinct (map binding_id (bindings f))"
  shows "local_binding_kinds f b = Some k \<longleftrightarrow> has_kind f {k} b"
proof -
  have "distinct (map fst (map (\<lambda>b. (binding_id b, binding_kind b)) (bindings f)))"
    using assms by (simp add: o_def)
  then show ?thesis
    by (auto simp: local_binding_kinds_def hash_map_collect_distinct has_kind_def)
qed

lemma has_kind_cases:
  "has_kind f {a, b, c} x \<longleftrightarrow> has_kind f {a} x \<or> has_kind f {b} x \<or> has_kind f {c} x"
  by (auto simp: has_kind_def)

lemma has_kind_local: "has_kind f ks b \<Longrightarrow> b \<in> local_bindings f"
  by (auto simp: has_kind_def local_bindings_def)

lemma validate_captures_Ok:
  "validate_captures f bids = Ok u \<longleftrightarrow>
     distinct (captures f) \<and> set (captures f) \<subseteq> bids - local_bindings f"
  by (auto simp: validate_captures_def)

lemma validate_parameters_Ok:
  assumes "distinct (map binding_id (bindings f))"
  shows "validate_parameters f = Ok u \<longleftrightarrow> wf_parameters f"
  by (cases "rest_parameter f"; cases "arguments_binding f"; cases "this_binding f")
    (auto simp: validate_parameters_def bind_result_Ok validate_parameter_list_Ok wf_parameters_def
      check_option_def option_list_def local_binding_kinds_iff[OF assms])

lemma validate_suspension_points_Ok:
  "validate_suspension_points f (block_ids f) = Ok u \<longleftrightarrow>
     distinct (map suspension_id (suspension_points f)) \<and>
     (suspension_points f \<noteq> [] \<longrightarrow> is_async f) \<and>
     (\<forall>p\<in>set (suspension_points f). wf_suspension f p)"
  using hash_set_len_distinct[of "map suspension_id (suspension_points f)"]
  by (auto simp: validate_suspension_points_def wf_suspension_def)

lemma validate_generator_points_Ok:
  "validate_generator_points f (block_ids f) = Ok u \<longleftrightarrow>
     distinct (map generator_suspension_id (generator_suspension_points f)) \<and>
     (generator_suspension_points f \<noteq> [] \<longrightarrow> is_generator f) \<and>
     (\<forall>p\<in>set (generator_suspension_points f). wf_generator_suspension f p)"
  using hash_set_len_distinct[of "map generator_suspension_id (generator_suspension_points f)"]
  by (auto simp: validate_generator_points_def wf_generator_suspension_def)

lemma validate_region_Ok: "validate_region f (block_ids f) r = Ok u \<longleftrightarrow> wf_region f r"
  by (auto simp: validate_region_def wf_region_def)

lemma each_enumerate_Ok:
  "each (\<lambda>(n, x). g n x) (enumerate 0 xs) = Ok u \<longleftrightarrow> (\<forall>n<length xs. g n (xs ! n) = Ok ())"
proof -
  have "set (enumerate 0 xs) = {(n, xs ! n) | n. n < length xs}"
    by (auto simp: in_set_enumerate_eq)
  then show ?thesis by (simp only: each_Ok) fastforce
qed

lemma terminated_list_iff:
  "(xs \<noteq> [] \<and> P (last xs) \<and> (\<forall>n<length xs. P (xs ! n) \<longrightarrow> n + 1 = length xs)) \<longleftrightarrow>
     (\<exists>body t. xs = body @ [t] \<and> P t \<and> (\<forall>x\<in>set body. \<not> P x))"
proof (cases xs rule: rev_cases)
  case Nil
  then show ?thesis by simp
next
  case (snoc body t)
  then show ?thesis by (fastforce simp: nth_append all_set_conv_all_nth less_Suc_eq)
qed

lemma validate_instruction_kind_Ok:
  assumes "distinct (map binding_id (bindings f))"
    and "distinct (map function_id (module_functions m))"
  shows "validate_instruction_kind f (function_id ` set (module_functions m))
           (map_of (map (\<lambda>f. (function_id f, captures f)) (module_functions m))) i = Ok u \<longleftrightarrow>
     wf_instruction_kind m f i"
proof -
  have caps: "map_of (map (\<lambda>f. (function_id f, captures f)) (module_functions m)) g = Some cs \<longleftrightarrow>
      (\<exists>h\<in>set (module_functions m). function_id h = g \<and> captures h = cs)" for g cs
    using assms(2) by (subst map_of_eq_Some_iff) (auto simp: o_def)
  show ?thesis
    by (cases i)
      (auto simp: validate_instruction_kind_def wf_instruction_kind_def caps
        local_binding_kinds_iff[OF assms(1)] has_kind_cases suspension_ids_def
        generator_suspension_ids_def)
qed

lemma validate_block_body_Ok:
  assumes "distinct (map binding_id (bindings f))"
    and "distinct (map function_id (module_functions m))"
  shows "validate_block_body f (function_id ` set (module_functions m))
           (map_of (map (\<lambda>f. (function_id f, captures f)) (module_functions m))) (block_ids f) b
         = Ok u \<longleftrightarrow> wf_block m f b"
proof -
  let ?xs = "instructions b"
  have "validate_block_body f (function_id ` set (module_functions m))
           (map_of (map (\<lambda>f. (function_id f, captures f)) (module_functions m))) (block_ids f) b
         = Ok u \<longleftrightarrow>
      (?xs \<noteq> [] \<and> is_terminator (last ?xs) \<and>
       (\<forall>n<length ?xs. is_terminator (?xs ! n) \<longrightarrow> n + 1 = length ?xs)) \<and>
      (\<forall>n<length ?xs. wf_instruction m f (?xs ! n))"
    unfolding validate_block_body_def check_then_Ok require_Ok each_enumerate_Ok
    by (simp add: validate_instruction_kind_Ok[OF assms] wf_instruction_def subset_iff) blast
  then show ?thesis
    unfolding wf_block_def terminated_list_iff all_set_conv_all_nth[symmetric] by blast
qed

lemma validate_function_Ok:
  assumes "distinct (map binding_id (bindings f))"
    and "distinct (map function_id (module_functions m))"
  shows "validate_function f (function_id ` set (module_functions m))
           (map_of (map (\<lambda>f. (function_id f, captures f)) (module_functions m)))
           (\<Union>g\<in>set (module_functions m). local_bindings g) = Ok u \<longleftrightarrow> wf_function m f"
proof -
  have ids: "block_id ` set (blocks f) = block_ids f"
    by (simp add: block_ids_def)
  show ?thesis
    unfolding validate_function_def wf_function_def check_then_Ok bind_result_Ok
      validate_block_ids_Ok validate_captures_Ok validate_parameters_Ok[OF assms(1)]
    by (simp add: ids validate_suspension_points_Ok validate_generator_points_Ok
      validate_region_Ok validate_block_body_Ok[OF assms])
qed

subsection \<open>The validator decides well-formedness\<close>

lemma validate_accepts: "validate m = Ok u \<longleftrightarrow> wf_module m"
proof -
  have distinct_bindings: "distinct (map binding_id (bindings f))"
    if "distinct (concat (map (\<lambda>f. map binding_id (bindings f)) (module_functions m)))"
      "f \<in> set (module_functions m)" for f
    using that by (auto simp: distinct_concat_iff)
  show ?thesis
    unfolding validate_def wf_module_def check_then_Ok bind_result_Ok require_Ok
    by (auto simp: collect_functions_Ok validate_imports_Ok validate_exports_Ok
        module_binding_ids_def validate_function_Ok distinct_bindings)
qed

text \<open>
  C1. \<^verbatim>\<open>Module::validate\<close> accepts a module exactly when it is well formed: the current format
  version, pairwise distinct functions, bindings, blocks, suspension points, imports and exports,
  an existing entry, parameters that are distinct local parameter bindings, registers below the
  function's count, existing jump, resume and handler targets, blocks with one terminator at their
  end, bindings that are local or captured, and closures whose captures are the ones their target
  declares.
\<close>

theorem validate_Ok_iff: "validate m = Ok () \<longleftrightarrow> wf_module m"
  by (rule validate_accepts)

end
