(* ===== verification/VMState.thy ===== *)
theory VMState
  imports W3WellFormed
begin

text \<open>
  The state of the virtual machine of \<^verbatim>\<open>crates/w3cos-vm/src/lib.rs\<close> and the monad its operations
  are written in.

  The VM owns lexical cells, frames, call depth and the execution budget; coercion, objects and
  calls stay in \<^verbatim>\<open>w3cos_core::intrinsics\<close>.  That boundary is the model's boundary: the record \<open>Host\<close>
  stands for the semantic core and the embedder, and every theorem holds for all its values.  One
  call into the core is a \<open>HostAct\<close>, a finite tree that ends with a value, a JavaScript throw
  (a \<^verbatim>\<open>PanicValue\<close> unwinding) or another panic, and that may call back into functions the VM
  created: re-entrancy is therefore part of the model, and the core can touch the VM's own state
  only through such calls.

  \<open>Rc<BindingSlot>\<close>, function objects and suspended frames are indices into tables of the state that
  only grow, so aliasing is explicit.  \<open>Value::function(closure)\<close> allocates an entry of the closure
  table; \<open>Closure\<close> has one constructor for each closure expression of the source, with the
  variables it captures.
\<close>

subsection \<open>Values, errors, limits\<close>

datatype Value =
    VUndefined | VNull | VBool bool | VNumber f64 | VString string
  | VHost nat       \<comment> \<open>an object, array or function owned by the core\<close>
  | VFunction nat   \<comment> \<open>a function object the VM made: an index into the closure table\<close>

datatype (plugins only: code size) VmError =
    InvalidModule ValidationError
  | VmMissingFunction FunctionId
  | VmMissingBlock FunctionId BlockId
  | VmMissingBinding BindingId
  | ReferenceError string
  | InstructionLimitExceeded
  | CallDepthExceeded
  | HeapLimitExceeded (used_bytes: usize) (limit_bytes: usize)
  | WallClockLimitExceeded
  | Cancelled
  | Unsupported string
  | Thrown Value
  | HostPanic

datatype Panic =
    PanicValue Value     \<comment> \<open>\<open>throw_value\<close>: a JavaScript exception\<close>
  | IndexPanic           \<comment> \<open>a register index out of bounds\<close>
  | BorrowPanic          \<comment> \<open>a \<open>RefCell\<close> already mutably borrowed\<close>
  | ExpectPanic          \<comment> \<open>a failed \<open>expect\<close> of the VM\<close>
  | CorePanic            \<comment> \<open>any other panic of the core or the embedder\<close>
  | DanglingPanic        \<comment> \<open>a table index that names nothing; an \<open>Rc\<close> never does\<close>

datatype 'a Outcome = Val 'a | Fail VmError | Unwind Panic | NoFuel

record Limits =
  max_instructions :: u64
  max_call_depth :: u32
  max_heap_bytes :: "usize option"
  max_wall_time :: "nat option"   \<comment> \<open>a \<open>Duration\<close> in nanoseconds\<close>

definition default_limits :: Limits where
  "default_limits =
     \<lparr> max_instructions = 1000000, max_call_depth = 512,
       max_heap_bytes = Some (64 * 1024 * 1024), max_wall_time = Some 5000000000 \<rparr>"

record ExecutionBudget =
  remaining :: "nat option"
  active_since :: "nat option"
  nesting :: u32

definition new_budget :: "nat option \<Rightarrow> ExecutionBudget" where
  "new_budget limit = \<lparr> remaining = limit, active_since = None, nesting = 0 \<rparr>"

subsection \<open>Cells, closures and suspended frames\<close>

record BindingSlot =
  slot_value :: Value
  initialized :: bool
  external_getter :: "Value option"
  external_setter :: "Value option"
  external_property :: "(Value \<times> string) option"

type_synonym Cell = nat
type_synonym Environment = "BindingId \<rightharpoonup> Cell"

definition binding_cell :: "Value \<Rightarrow> BindingSlot" where
  "binding_cell v =
     \<lparr> slot_value = v, initialized = True, external_getter = None, external_setter = None,
       external_property = None \<rparr>"

definition uninitialized_binding_cell :: BindingSlot where
  "uninitialized_binding_cell =
     \<lparr> slot_value = VUndefined, initialized = False, external_getter = None,
       external_setter = None, external_property = None \<rparr>"

datatype GeneratorState =
    SuspendedStart | SuspendedYield SuspensionId | SuspendedDelegate SuspensionId
  | Executing | Completed

datatype GeneratorResumeKind = ResumeNext | ResumeReturn | ResumeThrow

datatype AsyncDelegateAction = DelegateNext | DelegateReturn | DelegateThrow | MissingThrowClose

record GeneratorFrame =
  gen_state :: GeneratorState
  gen_function :: Function
  gen_registers :: "Value list"
  gen_environment :: Environment
  gen_block :: BlockId
  gen_depth :: u32
  delegate_iterator :: "Value option"
  gen_borrowed :: bool   \<comment> \<open>\<open>data\<close> is mutably borrowed while an instruction runs\<close>

record AsyncFrame =
  async_function :: Function
  async_registers :: "Value list"
  async_environment :: Environment
  async_block :: BlockId
  async_depth :: u32
  async_borrowed :: bool

record AsyncGeneratorRequest =
  request_kind :: GeneratorResumeKind
  request_input :: Value
  request_resolve :: Value
  request_reject :: Value

record AsyncGeneratorFrame =
  ag_generator :: nat
  ag_queue :: "AsyncGeneratorRequest list"
  ag_active :: "AsyncGeneratorRequest option"

datatype (plugins only: code size) Closure =
    ClosureFunction FunctionId Environment
  | CallableFunction FunctionId "(BindingId \<times> Value) list"
  | GeneratorMethod nat GeneratorResumeKind
  | IterableSelf Value
  | AsyncExecutor nat
  | AwaitFulfilled nat Register BlockId Value Value
  | AwaitRejected nat Register BlockId Value Value
  | AsyncGeneratorMethod nat GeneratorResumeKind
  | AsyncGeneratorExecutor nat GeneratorResumeKind Value
  | AgAwaitFulfilled nat Register BlockId
  | AgAwaitRejected nat Register BlockId
  | AgYieldFulfilled nat SuspensionId bool
  | AgYieldRejected nat GeneratorSuspensionPoint
  | AgDelegateFulfilled nat SuspensionId AsyncDelegateAction GeneratorSuspensionPoint
  | AgDelegateRejected nat GeneratorSuspensionPoint
  | AgCompletionFulfilled nat
  | AgCompletionRejected nat

subsection \<open>The semantic core\<close>

text \<open>
  The operations of \<^verbatim>\<open>w3cos_core::intrinsics\<close> (and the few methods of \<open>Value\<close>) the VM calls; the
  static parts of an operation are arguments of its constructor, the values it gets are a list.
\<close>

datatype (plugins only: code size) PrimOp =
    P_add | P_subtract | P_multiply | P_divide | P_remainder | P_exponentiate
  | P_abstract_equal | P_strict_equal | P_logical_not
  | P_less_than | P_less_than_or_equal | P_greater_than | P_greater_than_or_equal
  | P_left_shift | P_signed_right_shift | P_unsigned_right_shift
  | P_bitwise_or | P_bitwise_xor | P_bitwise_and | P_instance_of | P_in_operator
  | P_type_of | P_negate | P_bitwise_not
  | P_get_property | P_delete_property | P_set_property | P_set_property_strict | P_define_field
  | P_define_private | P_get_private | P_set_private | P_has_private
  | P_define_private_method | P_define_private_accessor bool bool
  | P_create_object | P_copy_data_properties | P_create_array
  | P_append_array_element | P_append_iterable | P_array_rest u32 | P_object_rest
  | P_create_class bool
  | P_call | P_call_with_arguments | P_call_method | P_call_method_with_arguments
  | P_construct | P_construct_with_arguments
  | P_to_js_string | P_dynamic_import
  | P_type_error | P_reference_error
  | P_promise_new | P_await_value
  | P_value_call                    \<comment> \<open>\<open>Value::call\<close> on [callee, this, arguments...]\<close>
  | P_value_get string              \<comment> \<open>\<open>Value::get_property\<close> with a literal key\<close>
  | P_value_set string              \<comment> \<open>\<open>Value::set_property\<close> with a literal key\<close>
  | P_value_object "string list"    \<comment> \<open>\<open>Value::object\<close> with these keys\<close>

datatype 'w HostAct =
    ActDone Value 'w
  | ActThrow Value 'w
  | ActPanic 'w
  | ActCall nat Value "Value list" 'w "Panic + Value \<Rightarrow> 'w \<Rightarrow> 'w HostAct"

record 'w Host =
  prim_op :: "PrimOp \<Rightarrow> Value list \<Rightarrow> 'w \<Rightarrow> 'w HostAct"
  on_function :: "nat \<Rightarrow> 'w \<Rightarrow> 'w"         \<comment> \<open>the allocation behind \<open>Value::function\<close>\<close>
  is_cancelled :: "'w \<Rightarrow> bool"                \<comment> \<open>the shared cancellation token\<close>
  live_bytes :: "'w \<Rightarrow> usize"                \<comment> \<open>\<open>heap_owner.snapshot().live_bytes\<close>\<close>
  clock_now :: "'w \<Rightarrow> nat \<times> 'w"             \<comment> \<open>\<open>Instant::now()\<close>\<close>
  to_bool :: "Value \<Rightarrow> 'w \<Rightarrow> bool"
  is_callable :: "Value \<Rightarrow> 'w \<Rightarrow> bool"
  is_object :: "Value \<Rightarrow> 'w \<Rightarrow> bool"
  is_function :: "Value \<Rightarrow> 'w \<Rightarrow> bool"
  error_text :: "VmError \<Rightarrow> string"           \<comment> \<open>\<open>to_string\<close>: the derived \<open>Debug\<close> text\<close>

definition is_nullish :: "Value \<Rightarrow> bool" where
  "is_nullish v \<longleftrightarrow> v = VUndefined \<or> v = VNull"

subsection \<open>The state\<close>

record 'w VmState =
  world :: 'w
  instruction_count :: u64
  call_depth :: u32
  execution_budget :: ExecutionBudget
  current_owner :: "nat option"        \<comment> \<open>the thread-local \<open>CURRENT_OWNER\<close> of the core heap\<close>
  has_dynamic_import :: bool
  cells :: "BindingSlot list"
  closures :: "Closure list"
  generators :: "GeneratorFrame list"
  async_frames :: "AsyncFrame list"
  async_generators :: "AsyncGeneratorFrame list"

record Vm =
  vm_module :: Module
  vm_limits :: Limits
  vm_heap_owner :: nat

type_synonym ('w, 'a) action = "'w VmState \<Rightarrow> 'a Outcome \<times> 'w VmState"
type_synonym 'w caller = "nat \<Rightarrow> Value \<Rightarrow> Value list \<Rightarrow> ('w, Value) action"

definition new_state :: "'w \<Rightarrow> Limits \<Rightarrow> 'w VmState" where
  "new_state w limits =
     \<lparr> world = w, instruction_count = 0, call_depth = 0,
       execution_budget = new_budget (max_wall_time limits), current_owner = None,
       has_dynamic_import = False, cells = [], closures = [], generators = [],
       async_frames = [], async_generators = [] \<rparr>"

definition vm_new :: "Module \<Rightarrow> Limits \<Rightarrow> nat \<Rightarrow> VmError + Vm" where
  "vm_new m limits owner = (case validate m of
     Err e \<Rightarrow> Err (InvalidModule e)
   | Ok _ \<Rightarrow> Ok \<lparr> vm_module = m, vm_limits = limits, vm_heap_owner = owner \<rparr>)"

subsection \<open>The monad\<close>

definition ret :: "'a \<Rightarrow> ('w, 'a) action" where
  "ret x s = (Val x, s)"

definition fail :: "VmError \<Rightarrow> ('w, 'a) action" where
  "fail e s = (Fail e, s)"

definition unwind :: "Panic \<Rightarrow> ('w, 'a) action" where
  "unwind p s = (Unwind p, s)"

definition no_fuel :: "('w, 'a) action" where
  "no_fuel s = (NoFuel, s)"

definition andThen :: "('w, 'a) action \<Rightarrow> ('a \<Rightarrow> ('w, 'b) action) \<Rightarrow> ('w, 'b) action" where
  "andThen c f s = (case c s of
     (Val x, s') \<Rightarrow> f x s'
   | (Fail e, s') \<Rightarrow> (Fail e, s')
   | (Unwind p, s') \<Rightarrow> (Unwind p, s')
   | (NoFuel, s') \<Rightarrow> (NoFuel, s'))"

abbreviation andSeq :: "('w, 'a) action \<Rightarrow> ('w, 'b) action \<Rightarrow> ('w, 'b) action" where
  "andSeq c d \<equiv> andThen c (\<lambda>_. d)"

definition gets :: "('w VmState \<Rightarrow> 'a) \<Rightarrow> ('w, 'a) action" where
  "gets f s = (Val (f s), s)"

definition modify :: "('w VmState \<Rightarrow> 'w VmState) \<Rightarrow> ('w, unit) action" where
  "modify f s = (Val (), f s)"

definition from_result :: "VmError + 'a \<Rightarrow> ('w, 'a) action" where
  "from_result r = (case r of Err e \<Rightarrow> fail e | Ok x \<Rightarrow> ret x)"

text \<open>A \<^verbatim>\<open>match\<close> on the result of a call, as opposed to \<open>?\<close>: panics still pass through.\<close>

definition on_result ::
  "('w, 'a) action \<Rightarrow> (VmError + 'a \<Rightarrow> ('w, 'b) action) \<Rightarrow> ('w, 'b) action" where
  "on_result c f s = (case c s of
     (Val x, s') \<Rightarrow> f (Ok x) s'
   | (Fail e, s') \<Rightarrow> f (Err e) s'
   | (Unwind p, s') \<Rightarrow> (Unwind p, s')
   | (NoFuel, s') \<Rightarrow> (NoFuel, s'))"

text \<open>\<open>catch_unwind\<close>: the panic becomes a value.\<close>

definition catch_unwind :: "('w, 'a) action \<Rightarrow> ('w, Panic + (VmError + 'a)) action" where
  "catch_unwind c s = (case c s of
     (Val x, s') \<Rightarrow> (Val (Ok (Ok x)), s')
   | (Fail e, s') \<Rightarrow> (Val (Ok (Err e)), s')
   | (Unwind p, s') \<Rightarrow> (Val (Err p), s')
   | (NoFuel, s') \<Rightarrow> (NoFuel, s'))"

fun each_action :: "('a \<Rightarrow> ('w, unit) action) \<Rightarrow> 'a list \<Rightarrow> ('w, unit) action" where
  "each_action f [] = ret ()"
| "each_action f (x # xs) = andSeq (f x) (each_action f xs)"

fun map_action :: "('a \<Rightarrow> ('w, 'b) action) \<Rightarrow> 'a list \<Rightarrow> ('w, 'b list) action" where
  "map_action f [] = ret []"
| "map_action f (x # xs) = andThen (f x) (\<lambda>y. andThen (map_action f xs) (\<lambda>ys. ret (y # ys)))"

definition fetch :: "('w VmState \<Rightarrow> 'a list) \<Rightarrow> nat \<Rightarrow> ('w, 'a) action" where
  "fetch tab i s = (if i < length (tab s) then (Val (tab s ! i), s) else (Unwind DanglingPanic, s))"

subsection \<open>Calls into the core\<close>

primrec run_act :: "'w caller \<Rightarrow> 'w HostAct \<Rightarrow> ('w, Value) action" where
  "run_act call (ActDone v w) = (\<lambda>s. (Val v, s\<lparr>world := w\<rparr>))"
| "run_act call (ActThrow v w) = (\<lambda>s. (Unwind (PanicValue v), s\<lparr>world := w\<rparr>))"
| "run_act call (ActPanic w) = (\<lambda>s. (Unwind CorePanic, s\<lparr>world := w\<rparr>))"
| "run_act call (ActCall c this args w k) = (\<lambda>s.
     case call c this args (s\<lparr>world := w\<rparr>) of
       (Val v, s') \<Rightarrow> run_act call (k (Ok v) (world s')) s'
     | (Unwind p, s') \<Rightarrow> run_act call (k (Err p) (world s')) s'
     | (Fail e, s') \<Rightarrow> (Fail e, s')
     | (NoFuel, s') \<Rightarrow> (NoFuel, s'))"

definition prim :: "'w Host \<Rightarrow> 'w caller \<Rightarrow> PrimOp \<Rightarrow> Value list \<Rightarrow> ('w, Value) action" where
  "prim H call op args s = run_act call (prim_op H op args (world s)) s"

text \<open>\<open>Value::function(closure)\<close>.\<close>

definition new_function :: "'w Host \<Rightarrow> Closure \<Rightarrow> ('w, Value) action" where
  "new_function H c s =
     (Val (VFunction (length (closures s))),
      s\<lparr>closures := closures s @ [c], world := on_function H (length (closures s)) (world s)\<rparr>)"

definition host_test :: "('w \<Rightarrow> bool) \<Rightarrow> ('w, bool) action" where
  "host_test p s = (Val (p (world s)), s)"

definition now :: "'w Host \<Rightarrow> ('w, nat) action" where
  "now H s = (case clock_now H (world s) of (t, w) \<Rightarrow> (Val t, s\<lparr>world := w\<rparr>))"

end
