(* ===== verification/VMExec.thy ===== *)
theory VMExec
  imports VMState
begin

text \<open>
  The synchronous part of \<^verbatim>\<open>crates/w3cos-vm/src/lib.rs\<close>: lexical cells, the execution budget,
  \<open>execute_instruction\<close> and \<open>execute_frame\<close>.  The operations take the core \<open>H\<close>, the VM \<open>vm\<close> and the
  function \<open>call\<close> by which the core calls back into closures the VM made; \<open>call\<close> is tied to the
  dispatcher of all closures in the theory \<open>VMRun\<close>.  A frame's registers and environment are
  arguments and results; an error or a panic leaves them as they were, because the source assigns
  to them last.
\<close>

subsection \<open>Lexical cells\<close>

definition new_cell :: "BindingSlot \<Rightarrow> ('w, Cell) action" where
  "new_cell slot s = (Val (length (cells s)), s\<lparr>cells := cells s @ [slot]\<rparr>)"

definition update_cell :: "Cell \<Rightarrow> (BindingSlot \<Rightarrow> BindingSlot) \<Rightarrow> ('w, unit) action" where
  "update_cell c f = andSeq (fetch cells c)
     (modify (\<lambda>s. s\<lparr>cells := (cells s)[c := f (cells s ! c)]\<rparr>))"

definition external_binding_cell :: "'w Host \<Rightarrow> Value \<Rightarrow> Value \<Rightarrow> ('w, Cell) action" where
  "external_binding_cell H getter setter =
     andThen (host_test (is_callable H setter)) (\<lambda>callable.
     new_cell \<lparr> slot_value = VUndefined, initialized = True, external_getter = Some getter,
       external_setter = (if callable then Some setter else None), external_property = None \<rparr>)"

definition property_binding_cell ::
  "'w Host \<Rightarrow> 'w caller \<Rightarrow> ('w \<Rightarrow> bool) \<Rightarrow> Value \<Rightarrow> string \<Rightarrow> ('w, Cell) action" where
  "property_binding_cell H call has_property object key =
     andThen (host_test has_property) (\<lambda>has.
     andSeq (if \<not> has then andSeq (prim H call (P_value_set key) [object, VUndefined]) (ret ())
             else ret ())
     (new_cell \<lparr> slot_value = VUndefined, initialized = True, external_getter = None,
       external_setter = None, external_property = Some (object, key) \<rparr>))"

definition slot_read_value :: "'w Host \<Rightarrow> 'w caller \<Rightarrow> BindingSlot \<Rightarrow> ('w, Value) action" where
  "slot_read_value H call slot = (case external_getter slot of
     Some getter \<Rightarrow> prim H call P_value_call [getter, VUndefined]
   | None \<Rightarrow> (case external_property slot of
       Some (object, key) \<Rightarrow> prim H call (P_value_get key) [object]
     | None \<Rightarrow> ret (slot_value slot)))"

definition tdz_message :: "string \<Rightarrow> string" where
  "tdz_message name = ''Cannot access '' @ [CHR 0x27] @ name @ [CHR 0x27] @ '' before initialization''"

definition immutable_message :: "string \<Rightarrow> string" where
  "immutable_message name = ''Cannot assign to imported binding '' @ [CHR 0x27] @ name @ [CHR 0x27]"

definition cell_read :: "'w Host \<Rightarrow> 'w caller \<Rightarrow> Cell \<Rightarrow> string \<Rightarrow> ('w, Value) action" where
  "cell_read H call c name = andThen (fetch cells c) (\<lambda>slot.
     if \<not> initialized slot then fail (ReferenceError (tdz_message name))
     else slot_read_value H call slot)"

definition cell_initialize :: "'w Host \<Rightarrow> 'w caller \<Rightarrow> Cell \<Rightarrow> Value \<Rightarrow> ('w, unit) action" where
  "cell_initialize H call c v = andThen (fetch cells c) (\<lambda>slot.
     case external_setter slot of
       Some setter \<Rightarrow> andSeq (prim H call P_value_call [setter, VUndefined, v])
                        (update_cell c (\<lambda>x. x\<lparr>initialized := True\<rparr>))
     | None \<Rightarrow> (case external_property slot of
         Some (object, key) \<Rightarrow> andSeq (prim H call (P_value_set key) [object, v])
                                 (update_cell c (\<lambda>x. x\<lparr>initialized := True\<rparr>))
       | None \<Rightarrow> update_cell c (\<lambda>x. x\<lparr>slot_value := v, initialized := True\<rparr>)))"

definition throw_type_error :: "'w Host \<Rightarrow> 'w caller \<Rightarrow> string \<Rightarrow> ('w, 'a) action" where
  "throw_type_error H call msg =
     andThen (prim H call P_type_error [VString msg]) (\<lambda>e. fail (Thrown e))"

definition cell_store :: "'w Host \<Rightarrow> 'w caller \<Rightarrow> Cell \<Rightarrow> string \<Rightarrow> Value \<Rightarrow> ('w, unit) action" where
  "cell_store H call c name v = andThen (fetch cells c) (\<lambda>slot.
     if external_getter slot \<noteq> None then
       (case external_setter slot of
          None \<Rightarrow> throw_type_error H call (immutable_message name)
        | Some setter \<Rightarrow> andThen (host_test (is_callable H setter)) (\<lambda>callable.
            if \<not> callable then throw_type_error H call (immutable_message name)
            else andSeq (prim H call P_value_call [setter, VUndefined, v]) (ret ())))
     else (case external_property slot of
          Some (object, key) \<Rightarrow> andSeq (prim H call (P_value_set key) [object, v]) (ret ())
        | None \<Rightarrow>
            if \<not> initialized slot then fail (ReferenceError (tdz_message name))
            else update_cell c (\<lambda>x. x\<lparr>slot_value := v\<rparr>)))"

subsection \<open>Environments\<close>

definition env_cell :: "Environment \<Rightarrow> BindingId \<Rightarrow> ('w, Cell) action" where
  "env_cell env b = (case env b of None \<Rightarrow> fail (VmMissingBinding b) | Some c \<Rightarrow> ret c)"

definition fresh_slot :: "BindingKind \<Rightarrow> BindingSlot" where
  "fresh_slot k = (if k \<in> {KLet, KConst, KClass, KImport, KCatch} then uninitialized_binding_cell
                   else binding_cell VUndefined)"

fun declare_bindings :: "Binding list \<Rightarrow> Environment \<Rightarrow> ('w, Environment) action" where
  "declare_bindings [] env = ret env"
| "declare_bindings (b # bs) env =
     (if env (binding_id b) \<noteq> None then declare_bindings bs env
      else andThen (new_cell (fresh_slot (binding_kind b))) (\<lambda>c.
             declare_bindings bs (env(binding_id b \<mapsto> c))))"

definition initialize_binding ::
  "'w Host \<Rightarrow> 'w caller \<Rightarrow> Environment \<Rightarrow> BindingId \<Rightarrow> Value \<Rightarrow> ('w, unit) action" where
  "initialize_binding H call env b v =
     andThen (env_cell env b) (\<lambda>c. cell_initialize H call c v)"

definition initialize_environment ::
  "'w Host \<Rightarrow> 'w caller \<Rightarrow> Function \<Rightarrow> Value \<Rightarrow> Value list \<Rightarrow> Environment \<Rightarrow>
     ('w, Environment) action" where
  "initialize_environment H call f this args env0 =
     andThen (declare_bindings (bindings f) env0) (\<lambda>env.
     andSeq (each_action (\<lambda>(b, v). initialize_binding H call env b v) (zip (parameters f) args))
     (andSeq (case arguments_binding f of
        None \<Rightarrow> ret ()
      | Some b \<Rightarrow> andThen (prim H call P_create_array args) (initialize_binding H call env b))
     (andSeq (case rest_parameter f of
        None \<Rightarrow> ret ()
      | Some b \<Rightarrow> andThen (prim H call P_create_array (drop (length (parameters f)) args))
                    (initialize_binding H call env b))
     (andSeq (case this_binding f of
        None \<Rightarrow> ret ()
      | Some b \<Rightarrow> initialize_binding H call env b this)
     (ret env)))))"

subsection \<open>The execution budget\<close>

definition check_heap_limit :: "'w Host \<Rightarrow> Vm \<Rightarrow> ('w, unit) action" where
  "check_heap_limit H vm s = (case max_heap_bytes (vm_limits vm) of
     None \<Rightarrow> (Val (), s)
   | Some limit \<Rightarrow>
       (let used = live_bytes H (world s)
        in if used > limit then (Fail (HeapLimitExceeded used limit), s) else (Val (), s)))"

definition wall_time_exhausted :: "'w Host \<Rightarrow> ('w, bool) action" where
  "wall_time_exhausted H = andThen (gets execution_budget) (\<lambda>b.
     case remaining b of
       None \<Rightarrow> ret False
     | Some left \<Rightarrow> (case active_since b of
         None \<Rightarrow> ret (left = 0)
       | Some started \<Rightarrow> andThen (now H) (\<lambda>t. ret (t - started \<ge> left))))"

definition saturating_succ :: "u64 \<Rightarrow> u64" where
  "saturating_succ n = (if n = - 1 then n else n + 1)"

definition consume_instruction :: "'w Host \<Rightarrow> Vm \<Rightarrow> ('w, unit) action" where
  "consume_instruction H vm =
     andThen (host_test (is_cancelled H)) (\<lambda>cancelled.
     if cancelled then fail Cancelled else
     andSeq (check_heap_limit H vm)
     (andThen (wall_time_exhausted H) (\<lambda>exhausted.
     if exhausted then fail WallClockLimitExceeded else
     andThen (gets (\<lambda>s. saturating_succ (instruction_count s))) (\<lambda>next.
     if next > max_instructions (vm_limits vm) then fail InstructionLimitExceeded
     else modify (\<lambda>s. s\<lparr>instruction_count := next\<rparr>)))))"

definition reset_execution_budget :: "Vm \<Rightarrow> ('w, unit) action" where
  "reset_execution_budget vm =
     modify (\<lambda>s. s\<lparr>execution_budget := new_budget (max_wall_time (vm_limits vm))\<rparr>)"

text \<open>
  \<open>HeapOwner::enter\<close> and the drop of its \<open>HeapScope\<close>, which happens on every way out of the scope.
\<close>

definition with_heap_scope :: "Vm \<Rightarrow> ('w, 'a) action \<Rightarrow> ('w, 'a) action" where
  "with_heap_scope vm body s =
     (let previous = current_owner s;
          (r, s') = body (s\<lparr>current_owner := Some (vm_heap_owner vm)\<rparr>)
      in (r, s'\<lparr>current_owner := previous\<rparr>))"

definition enter_budget :: "'w Host \<Rightarrow> ('w, unit) action" where
  "enter_budget H = andThen (gets execution_budget) (\<lambda>b.
     andSeq (if nesting b = 0
             then andThen (now H) (\<lambda>t. modify (\<lambda>s. s\<lparr>execution_budget :=
                    (execution_budget s)\<lparr>active_since := Some t\<rparr>\<rparr>))
             else ret ())
     (if nesting b = - 1 then unwind ExpectPanic
      else modify (\<lambda>s. s\<lparr>execution_budget := (execution_budget s)\<lparr>nesting := nesting b + 1\<rparr>\<rparr>)))"

text \<open>\<open>Drop for ExecutionSegment\<close>.\<close>

definition leave_budget :: "'w Host \<Rightarrow> ('w, unit) action" where
  "leave_budget H = andThen (gets execution_budget) (\<lambda>b.
     if nesting b = 0 then unwind ExpectPanic
     else andSeq (modify (\<lambda>s. s\<lparr>execution_budget :=
                    (execution_budget s)\<lparr>nesting := nesting b - 1\<rparr>\<rparr>))
       (if nesting b - 1 \<noteq> 0 then ret ()
        else andSeq (modify (\<lambda>s. s\<lparr>execution_budget :=
                       (execution_budget s)\<lparr>active_since := None\<rparr>\<rparr>))
          (case (remaining b, active_since b) of
             (Some left, Some started) \<Rightarrow> andThen (now H) (\<lambda>t.
                modify (\<lambda>s. s\<lparr>execution_budget :=
                  (execution_budget s)\<lparr>remaining := Some (left - (t - started))\<rparr>\<rparr>))
           | _ \<Rightarrow> ret ())))"

text \<open>
  The value \<open>_segment\<close> lives to the end of the function body, so it is dropped whether the body
  returns, fails or unwinds; a failed \<open>expect\<close> in the drop is itself a panic.
\<close>

definition finally_leave :: "'w Host \<Rightarrow> ('w, 'a) action \<Rightarrow> ('w, 'a) action" where
  "finally_leave H body s = (case body s of
     (NoFuel, s') \<Rightarrow> (NoFuel, s')
   | (r, s') \<Rightarrow> (case leave_budget H s' of
       (Unwind p, s'') \<Rightarrow> (Unwind p, s'')
     | (_, s'') \<Rightarrow> (r, s'')))"

definition with_segment :: "'w Host \<Rightarrow> Vm \<Rightarrow> ('w, 'a) action \<Rightarrow> ('w, 'a) action" where
  "with_segment H vm body =
     with_heap_scope vm (andSeq (enter_budget H) (finally_leave H body))"

subsection \<open>Registers\<close>

definition read_register :: "Value list \<Rightarrow> Register \<Rightarrow> ('w, Value) action" where
  "read_register regs r =
     (if unat (reg_no r) < length regs then ret (regs ! unat (reg_no r)) else unwind IndexPanic)"

definition read_registers :: "Value list \<Rightarrow> Register list \<Rightarrow> ('w, Value list) action" where
  "read_registers regs rs = map_action (read_register regs) rs"

definition write_register :: "Value list \<Rightarrow> Register \<Rightarrow> Value \<Rightarrow> ('w, Value list) action" where
  "write_register regs r v =
     (if unat (reg_no r) < length regs then ret (regs[unat (reg_no r) := v]) else unwind IndexPanic)"

subsection \<open>Instructions\<close>

datatype Control = Continue | JumpTo BlockId | ReturnValue Value | ThrowValue Value

type_synonym FrameState = "Value list \<times> Environment"

definition binding_display_name :: "Vm \<Rightarrow> BindingId \<Rightarrow> string" where
  "binding_display_name vm b =
     (case find (\<lambda>x. binding_id x = b) (concat (map bindings (module_functions (vm_module vm)))) of
        Some x \<Rightarrow> binding_name x
      | None \<Rightarrow> ''<binding:'' @ show_nat (unat (binding_no b)) @ ''>'')"

definition constant_value :: "Constant \<Rightarrow> Value" where
  "constant_value c = (case c of CUndefined \<Rightarrow> VUndefined | CNull \<Rightarrow> VNull | CBool b \<Rightarrow> VBool b
                 | CNumber n \<Rightarrow> VNumber n | CString t \<Rightarrow> VString t)"

definition binary_op :: "'w Host \<Rightarrow> 'w caller \<Rightarrow> BinaryOperator \<Rightarrow> Value \<Rightarrow> Value \<Rightarrow> ('w, Value) action"
where
  "binary_op H call operator lhs rhs =
     (let p = (\<lambda>op. prim H call op [lhs, rhs]);
          negated = (\<lambda>op. andThen (p op) (\<lambda>v. prim H call P_logical_not [v]))
      in case operator of
        Subtract \<Rightarrow> p P_subtract
      | Multiply \<Rightarrow> p P_multiply
      | Divide \<Rightarrow> p P_divide
      | Remainder \<Rightarrow> p P_remainder
      | Exponentiate \<Rightarrow> p P_exponentiate
      | AbstractEqual \<Rightarrow> p P_abstract_equal
      | AbstractNotEqual \<Rightarrow> negated P_abstract_equal
      | StrictEqual \<Rightarrow> p P_strict_equal
      | StrictNotEqual \<Rightarrow> negated P_strict_equal
      | LessThan \<Rightarrow> p P_less_than
      | LessThanOrEqual \<Rightarrow> p P_less_than_or_equal
      | GreaterThan \<Rightarrow> p P_greater_than
      | GreaterThanOrEqual \<Rightarrow> p P_greater_than_or_equal
      | LeftShift \<Rightarrow> p P_left_shift
      | SignedRightShift \<Rightarrow> p P_signed_right_shift
      | UnsignedRightShift \<Rightarrow> p P_unsigned_right_shift
      | BitwiseOr \<Rightarrow> p P_bitwise_or
      | BitwiseXor \<Rightarrow> p P_bitwise_xor
      | BitwiseAnd \<Rightarrow> p P_bitwise_and
      | InstanceOf \<Rightarrow> p P_instance_of
      | InOperator \<Rightarrow> p P_in_operator)"

definition unary_prim :: "UnaryOperator \<Rightarrow> PrimOp" where
  "unary_prim operator = (case operator of
     TypeOf \<Rightarrow> P_type_of | Negate \<Rightarrow> P_negate | BitwiseNot \<Rightarrow> P_bitwise_not)"

fun capture_cells :: "Environment \<Rightarrow> BindingId list \<Rightarrow> VmError + Environment" where
  "capture_cells env [] = Ok Map.empty"
| "capture_cells env (b # bs) = (case env b of
     None \<Rightarrow> Err (VmMissingBinding b)
   | Some c \<Rightarrow> bind_result (capture_cells env bs) (\<lambda>captured.
       Ok (captured(b \<mapsto> c))))"

definition store_result :: "FrameState \<Rightarrow> Register \<Rightarrow> Value \<Rightarrow> ('w, Control \<times> FrameState) action" where
  "store_result fs dst v = (case fs of (regs, env) \<Rightarrow>
     andThen (write_register regs dst v) (\<lambda>regs'. ret (Continue, regs', env)))"

text \<open>Read the operands, apply an operation of the core, store its result or drop it.\<close>

definition compute ::
  "'w Host \<Rightarrow> 'w caller \<Rightarrow> PrimOp \<Rightarrow> Register list \<Rightarrow> FrameState \<Rightarrow> Register \<Rightarrow>
     ('w, Control \<times> FrameState) action" where
  "compute H call op rs fs dst =
     andThen (read_registers (fst fs) rs) (\<lambda>vs.
     andThen (prim H call op vs) (store_result fs dst))"

definition perform ::
  "'w Host \<Rightarrow> 'w caller \<Rightarrow> PrimOp \<Rightarrow> Register list \<Rightarrow> FrameState \<Rightarrow>
     ('w, Control \<times> FrameState) action" where
  "perform H call op rs fs =
     andThen (read_registers (fst fs) rs) (\<lambda>vs.
     andSeq (prim H call op vs) (ret (Continue, fs)))"

definition property_registers :: "(Register \<times> Register) list \<Rightarrow> Register list" where
  "property_registers ps = concat (map (\<lambda>(key, value). [key, value]) ps)"

definition refresh_binding ::
  "'w Host \<Rightarrow> Vm \<Rightarrow> 'w caller \<Rightarrow> BindingId \<Rightarrow> FrameState \<Rightarrow> ('w, Control \<times> FrameState) action"
where
  "refresh_binding H vm call b fs = (case fs of (regs, env) \<Rightarrow>
     andThen (env_cell env b) (\<lambda>c.
     andThen (fetch cells c) (\<lambda>slot.
     andThen (if initialized slot
              then andThen (cell_read H call c (binding_display_name vm b)) (\<lambda>v.
                     new_cell (binding_cell v))
              else new_cell uninitialized_binding_cell) (\<lambda>fresh.
     ret (Continue, regs, env(b \<mapsto> fresh))))))"

definition create_closure ::
  "'w Host \<Rightarrow> FunctionId \<Rightarrow> BindingId list \<Rightarrow> FrameState \<Rightarrow> Register \<Rightarrow>
     ('w, Control \<times> FrameState) action" where
  "create_closure H target captured_ids fs dst =
     andThen (from_result (capture_cells (snd fs) captured_ids)) (\<lambda>captured.
     andThen (new_function H (ClosureFunction target captured)) (store_result fs dst))"

definition create_class ::
  "'w Host \<Rightarrow> 'w caller \<Rightarrow> Register \<Rightarrow> Register option \<Rightarrow> Register option \<Rightarrow> FrameState \<Rightarrow>
     Register \<Rightarrow> ('w, Control \<times> FrameState) action" where
  "create_class H call constructor super_class initializer fs dst =
     andThen (read_register (fst fs) constructor) (\<lambda>c.
     andThen (read_registers (fst fs) (option_list super_class)) (\<lambda>super.
     andThen (case initializer of None \<Rightarrow> ret VUndefined | Some r \<Rightarrow> read_register (fst fs) r)
       (\<lambda>init.
     andThen (prim H call (P_create_class (super_class \<noteq> None)) ([c] @ super @ [init]))
       (store_result fs dst))))"

definition call_function ::
  "'w Host \<Rightarrow> 'w caller \<Rightarrow> Register \<Rightarrow> Register \<Rightarrow> Register list \<Rightarrow> FrameState \<Rightarrow> Register \<Rightarrow>
     ('w, Control \<times> FrameState) action" where
  "call_function H call callee this_value arguments fs dst =
     andThen (read_registers (fst fs) arguments) (\<lambda>args.
     andThen (read_register (fst fs) callee) (\<lambda>c.
     andThen (read_register (fst fs) this_value) (\<lambda>t.
     andThen (prim H call P_call (c # t # args)) (store_result fs dst))))"

definition call_method ::
  "'w Host \<Rightarrow> 'w caller \<Rightarrow> Register \<Rightarrow> Register \<Rightarrow> Register list \<Rightarrow> FrameState \<Rightarrow> Register \<Rightarrow>
     ('w, Control \<times> FrameState) action" where
  "call_method H call object key arguments fs dst =
     andThen (read_registers (fst fs) arguments) (\<lambda>args.
     andThen (read_register (fst fs) object) (\<lambda>receiver.
     andThen (read_register (fst fs) key) (\<lambda>k.
     andThen (prim H call P_call_method (receiver # k # args)) (store_result fs dst))))"

definition construct ::
  "'w Host \<Rightarrow> 'w caller \<Rightarrow> Register \<Rightarrow> Register list \<Rightarrow> FrameState \<Rightarrow> Register \<Rightarrow>
     ('w, Control \<times> FrameState) action" where
  "construct H call constructor arguments fs dst =
     andThen (read_registers (fst fs) arguments) (\<lambda>args.
     andThen (read_register (fst fs) constructor) (\<lambda>c.
     andThen (prim H call P_construct (c # args)) (store_result fs dst)))"

definition dynamic_import ::
  "'w Host \<Rightarrow> 'w caller \<Rightarrow> Register \<Rightarrow> FrameState \<Rightarrow> Register \<Rightarrow>
     ('w, Control \<times> FrameState) action" where
  "dynamic_import H call spec fs dst =
     andThen (gets has_dynamic_import) (\<lambda>installed.
     if \<not> installed then fail (Unsupported ''DynamicImport'') else
     andThen (read_register (fst fs) spec) (\<lambda>v.
     andThen (prim H call P_to_js_string [v]) (\<lambda>t.
     andThen (prim H call P_dynamic_import [t]) (store_result fs dst))))"

definition execute_instruction ::
  "'w Host \<Rightarrow> Vm \<Rightarrow> 'w caller \<Rightarrow> Instruction \<Rightarrow> FrameState \<Rightarrow> ('w, Control \<times> FrameState) action"
where
  "execute_instruction H vm call i fs = (case i of
     LoadConstant dst value \<Rightarrow> store_result fs dst (constant_value value)
   | Move dst src \<Rightarrow> andThen (read_register (fst fs) src) (store_result fs dst)
   | LoadBinding dst b \<Rightarrow>
       andThen (env_cell (snd fs) b) (\<lambda>c.
       andThen (cell_read H call c (binding_display_name vm b)) (store_result fs dst))
   | InitializeBinding b value \<Rightarrow>
       andThen (env_cell (snd fs) b) (\<lambda>c.
       andThen (read_register (fst fs) value) (\<lambda>v.
       andSeq (cell_initialize H call c v) (ret (Continue, fs))))
   | StoreBinding b value \<Rightarrow>
       andThen (env_cell (snd fs) b) (\<lambda>c.
       andThen (read_register (fst fs) value) (\<lambda>v.
       andSeq (cell_store H call c (binding_display_name vm b) v) (ret (Continue, fs))))
   | RefreshBinding b \<Rightarrow> refresh_binding H vm call b fs
   | Add dst lhs rhs \<Rightarrow> compute H call P_add [lhs, rhs] fs dst
   | Binary dst operator lhs rhs \<Rightarrow>
       andThen (read_register (fst fs) lhs) (\<lambda>l.
       andThen (read_register (fst fs) rhs) (\<lambda>r.
       andThen (binary_op H call operator l r) (store_result fs dst)))
   | Unary dst operator value \<Rightarrow> compute H call (unary_prim operator) [value] fs dst
   | GetProperty dst object key \<Rightarrow> compute H call P_get_property [object, key] fs dst
   | DeleteProperty dst object key \<Rightarrow> compute H call P_delete_property [object, key] fs dst
   | SetProperty object key value strict \<Rightarrow>
       perform H call (if strict then P_set_property_strict else P_set_property)
         [object, key, value] fs
   | DefineField object key value \<Rightarrow> perform H call P_define_field [object, key, value] fs
   | DefinePrivate object brand name value \<Rightarrow>
       perform H call P_define_private [object, brand, name, value] fs
   | GetPrivate dst object brand name \<Rightarrow> compute H call P_get_private [object, brand, name] fs dst
   | SetPrivate object brand name value \<Rightarrow>
       perform H call P_set_private [object, brand, name, value] fs
   | HasPrivate dst object brand \<Rightarrow> compute H call P_has_private [object, brand] fs dst
   | DefinePrivateMethod brand name value \<Rightarrow>
       perform H call P_define_private_method [brand, name, value] fs
   | DefinePrivateAccessor brand name getter setter \<Rightarrow>
       perform H call (P_define_private_accessor (getter \<noteq> None) (setter \<noteq> None))
         ([brand, name] @ option_list getter @ option_list setter) fs
   | CreateObject dst properties \<Rightarrow>
       compute H call P_create_object (property_registers properties) fs dst
   | CopyDataProperties target source \<Rightarrow>
       perform H call P_copy_data_properties [target, source] fs
   | CreateArray dst elements \<Rightarrow> compute H call P_create_array elements fs dst
   | AppendArrayElement array value \<Rightarrow> perform H call P_append_array_element [array, value] fs
   | AppendIterable array iterable \<Rightarrow> perform H call P_append_iterable [array, iterable] fs
   | ArrayRest dst value start \<Rightarrow> compute H call (P_array_rest start) [value] fs dst
   | ObjectRest dst value excluded \<Rightarrow> compute H call P_object_rest (value # excluded) fs dst
   | CreateClosure dst target captured_ids \<Rightarrow> create_closure H target captured_ids fs dst
   | CreateClass dst constructor super_class initializer \<Rightarrow>
       create_class H call constructor super_class initializer fs dst
   | Call dst callee this_value arguments \<Rightarrow>
       call_function H call callee this_value arguments fs dst
   | CallWithArguments dst callee this_value arguments \<Rightarrow>
       compute H call P_call_with_arguments [callee, this_value, arguments] fs dst
   | CallMethod dst object key arguments \<Rightarrow> call_method H call object key arguments fs dst
   | CallMethodWithArguments dst object key arguments \<Rightarrow>
       compute H call P_call_method_with_arguments [object, key, arguments] fs dst
   | Construct dst constructor arguments \<Rightarrow> construct H call constructor arguments fs dst
   | ConstructWithArguments dst constructor arguments \<Rightarrow>
       compute H call P_construct_with_arguments [constructor, arguments] fs dst
   | DynamicImport dst spec \<Rightarrow> dynamic_import H call spec fs dst
   | ImportMeta dst \<Rightarrow>
       andThen (prim H call (P_value_object [''url'']) [VString (specifier (vm_module vm))])
         (store_result fs dst)
   | NewTarget dst \<Rightarrow> store_result fs dst VUndefined
   | Await _ _ _ \<Rightarrow> fail (Unsupported ''Await'')
   | Yield _ _ _ \<Rightarrow> fail (Unsupported ''Yield'')
   | YieldDelegate _ _ _ \<Rightarrow> fail (Unsupported ''YieldDelegate'')
   | Jump target \<Rightarrow> ret (JumpTo target, fs)
   | Branch condition then_block else_block \<Rightarrow>
       andThen (read_register (fst fs) condition) (\<lambda>v.
       andThen (host_test (to_bool H v)) (\<lambda>b.
       ret (JumpTo (if b then then_block else else_block), fs)))
   | Return value \<Rightarrow> andThen (read_register (fst fs) value) (\<lambda>v. ret (ReturnValue v, fs))
   | Throw value \<Rightarrow> andThen (read_register (fst fs) value) (\<lambda>v. ret (ThrowValue v, fs)))"

end
