(* ===== verification/VMFrame.thy ===== *)
theory VMFrame
  imports VMExec
begin

text \<open>
  Frames of the virtual machine: \<open>execute_frame\<close> with its block loop, and the parts it shares with
  the generator and async drivers, which differ in where a frame keeps its registers.  A driver
  consumes one instruction of the budget, executes it under \<open>catch_unwind\<close>, turns what went wrong
  into a throw where the block is protected, and enters the region's handler or leaves the frame.

  The block loop of the source has no bound of its own, so \<open>run_blocks\<close> takes fuel, one unit for
  each block entered; \<open>NoFuel\<close> is not an outcome of the program.
\<close>

subsection \<open>Exception regions\<close>

definition region_of :: "Function \<Rightarrow> BlockId \<Rightarrow> ExceptionRegion option" where
  "region_of f b = find (\<lambda>r. b \<in> set (protected_blocks r)) (exception_regions f)"

definition handler_block :: "ExceptionRegion \<Rightarrow> BlockId option" where
  "handler_block r = (case catch_block r of None \<Rightarrow> finally_block r | Some b \<Rightarrow> Some b)"

definition find_block :: "Function \<Rightarrow> BlockId \<Rightarrow> Block option" where
  "find_block f b = find (\<lambda>x. block_id x = b) (blocks f)"

definition execution_error_as_throw :: "'w Host \<Rightarrow> 'w caller \<Rightarrow> VmError \<Rightarrow> ('w, Control) action" where
  "execution_error_as_throw H call e = (case e of
     Thrown v \<Rightarrow> ret (ThrowValue v)
   | ReferenceError msg \<Rightarrow>
       andThen (prim H call P_reference_error [VString msg]) (\<lambda>v. ret (ThrowValue v))
   | other \<Rightarrow> fail other)"

subsection \<open>One instruction under \<open>catch_unwind\<close>\<close>

text \<open>
  The \<^verbatim>\<open>match outcome\<close> of the three drivers.  The state \<open>fs\<close> of the frame is the old one when the
  instruction did not complete.
\<close>

definition instruction_control ::
  "'w Host \<Rightarrow> Vm \<Rightarrow> 'w caller \<Rightarrow> Function \<Rightarrow> BlockId \<Rightarrow> ('w, Control \<times> 'f) action \<Rightarrow> 'f \<Rightarrow>
     ('w, Control \<times> 'f) action" where
  "instruction_control H vm call f b act fs = andThen (catch_unwind act) (\<lambda>outcome.
     case outcome of
       Ok (Ok control) \<Rightarrow> andSeq (check_heap_limit H vm) (ret control)
     | Ok (Err e) \<Rightarrow>
         if region_of f b \<noteq> None
         then andThen (execution_error_as_throw H call e) (\<lambda>c. ret (c, fs))
         else fail e
     | Err payload \<Rightarrow> (case payload of
         PanicValue v \<Rightarrow> ret (ThrowValue v, fs)
       | _ \<Rightarrow> fail HostPanic))"

datatype Step = NextBlock BlockId FrameState | Finished Value

definition enter_handler ::
  "Function \<Rightarrow> BlockId \<Rightarrow> Value \<Rightarrow> FrameState \<Rightarrow> ('w, Step) action" where
  "enter_handler f b v fs = (case region_of f b of
     None \<Rightarrow> fail (Thrown v)
   | Some r \<Rightarrow> andThen (write_register (fst fs) (exception_register r) v) (\<lambda>regs.
       case handler_block r of
         None \<Rightarrow> fail (VmMissingBlock (function_id f) b)
       | Some target \<Rightarrow> ret (NextBlock target (regs, snd fs))))"

fun run_instructions ::
  "'w Host \<Rightarrow> Vm \<Rightarrow> 'w caller \<Rightarrow> Function \<Rightarrow> BlockId \<Rightarrow> Instruction list \<Rightarrow> FrameState \<Rightarrow>
     ('w, Step) action" where
  "run_instructions H vm call f b [] fs = fail (VmMissingBlock (function_id f) b)"
| "run_instructions H vm call f b (i # is) fs =
     andSeq (consume_instruction H vm)
     (andThen (instruction_control H vm call f b (execute_instruction H vm call i fs) fs)
       (\<lambda>(control, fs'). case control of
          Continue \<Rightarrow> run_instructions H vm call f b is fs'
        | JumpTo target \<Rightarrow> ret (NextBlock target fs')
        | ReturnValue v \<Rightarrow> ret (Finished v)
        | ThrowValue v \<Rightarrow> enter_handler f b v fs'))"

primrec run_blocks ::
  "'w Host \<Rightarrow> Vm \<Rightarrow> 'w caller \<Rightarrow> Function \<Rightarrow> nat \<Rightarrow> BlockId \<Rightarrow> FrameState \<Rightarrow> ('w, Value) action"
where
  "run_blocks H vm call f 0 b fs = no_fuel"
| "run_blocks H vm call f (Suc n) b fs = (case find_block f b of
     None \<Rightarrow> fail (VmMissingBlock (function_id f) b)
   | Some current \<Rightarrow>
       andThen (run_instructions H vm call f b (instructions current) fs) (\<lambda>step.
       case step of
         NextBlock target fs' \<Rightarrow> run_blocks H vm call f n target fs'
       | Finished v \<Rightarrow> ret v))"

definition execute_frame ::
  "'w Host \<Rightarrow> Vm \<Rightarrow> nat \<Rightarrow> 'w caller \<Rightarrow> Function \<Rightarrow> Value \<Rightarrow> Value list \<Rightarrow> Environment \<Rightarrow>
     ('w, Value) action" where
  "execute_frame H vm n call f this args env0 = with_segment H vm (
     andThen (initialize_environment H call f this args env0) (\<lambda>env.
     run_blocks H vm call f n (function_entry f)
       (replicate (unat (registers f)) VUndefined, env)))"

end
