(* ===== verification/VMGenerator.thy ===== *)
theory VMGenerator
  imports VMFrame
begin

text \<open>
  Generator frames: the state machine of \<open>GeneratorFrame\<close>, the driver of a segment between two
  suspensions, delegation by \<^verbatim>\<open>yield*\<close>, and the resumption of a suspended frame.  The frame lives in
  the table \<open>generators\<close>; its \<open>data\<close> is a \<open>RefCell\<close>, mutably borrowed while an instruction
  runs, so a re-entrant access is a \<open>BorrowPanic\<close>, while its \<open>state\<close> is a \<open>Cell\<close>.
\<close>

subsection \<open>Access to the frame\<close>

definition gen_get_state :: "nat \<Rightarrow> ('w, GeneratorState) action" where
  "gen_get_state i = andThen (fetch generators i) (\<lambda>g. ret (gen_state g))"

definition put_generator :: "nat \<Rightarrow> (GeneratorFrame \<Rightarrow> GeneratorFrame) \<Rightarrow> ('w, unit) action" where
  "put_generator i u = modify (\<lambda>s. s\<lparr>generators := (generators s)[i := u (generators s ! i)]\<rparr>)"

definition gen_set_state :: "nat \<Rightarrow> GeneratorState \<Rightarrow> ('w, unit) action" where
  "gen_set_state i st = andSeq (fetch generators i) (put_generator i (\<lambda>g. g\<lparr>gen_state := st\<rparr>))"

text \<open>\<open>data.borrow()\<close> and \<open>data.borrow_mut()\<close>.\<close>

definition gen_data :: "nat \<Rightarrow> ('w, GeneratorFrame) action" where
  "gen_data i = andThen (fetch generators i) (\<lambda>g.
     if gen_borrowed g then unwind BorrowPanic else ret g)"

definition gen_modify :: "nat \<Rightarrow> (GeneratorFrame \<Rightarrow> GeneratorFrame) \<Rightarrow> ('w, unit) action" where
  "gen_modify i u = andSeq (gen_data i) (put_generator i u)"

definition gen_read_register :: "nat \<Rightarrow> Register \<Rightarrow> ('w, Value) action" where
  "gen_read_register i r = andThen (gen_data i) (\<lambda>g. read_register (gen_registers g) r)"

definition gen_write_register :: "nat \<Rightarrow> Register \<Rightarrow> Value \<Rightarrow> ('w, unit) action" where
  "gen_write_register i r v = andThen (gen_data i) (\<lambda>g.
     andThen (write_register (gen_registers g) r v) (\<lambda>regs.
     put_generator i (\<lambda>g. g\<lparr>gen_registers := regs\<rparr>)))"

definition gen_delegate_to :: "nat \<Rightarrow> Value option \<Rightarrow> ('w, unit) action" where
  "gen_delegate_to i d = gen_modify i (\<lambda>g. g\<lparr>delegate_iterator := d\<rparr>)"

text \<open>One instruction on the borrowed registers and environment; the borrow ends however it ends.\<close>

definition gen_releasing :: "nat \<Rightarrow> ('w, 'a) action \<Rightarrow> ('w, 'a) action" where
  "gen_releasing i act s = (case act s of (r, s') \<Rightarrow>
     (r, snd (put_generator i (\<lambda>g. g\<lparr>gen_borrowed := False\<rparr>) s')))"

definition gen_instruction ::
  "'w Host \<Rightarrow> Vm \<Rightarrow> 'w caller \<Rightarrow> Function \<Rightarrow> BlockId \<Rightarrow> nat \<Rightarrow> Instruction \<Rightarrow>
     ('w, Control \<times> unit) action" where
  "gen_instruction H vm call f b i ins = andThen (gen_data i) (\<lambda>g.
     andSeq (put_generator i (\<lambda>g. g\<lparr>gen_borrowed := True\<rparr>))
     (instruction_control H vm call f b
       (gen_releasing i
         (andThen (execute_instruction H vm call ins (gen_registers g, gen_environment g))
           (\<lambda>(control, regs, env).
             andSeq (put_generator i (\<lambda>g. g\<lparr>gen_registers := regs, gen_environment := env\<rparr>))
               (ret (control, ())))))
       ()))"

subsection \<open>Delegated iterators\<close>

definition not_callable_message :: "string \<Rightarrow> string" where
  "not_callable_message m = ''TypeError: delegated iterator '' @ m @ '' is not callable''"

definition no_method_message :: "string \<Rightarrow> string" where
  "no_method_message m = ''TypeError: delegated iterator has no '' @ m @ '' method''"

definition not_object_message :: string where
  "not_object_message = ''TypeError: delegated iterator result is not an object''"

definition throw_string :: "string \<Rightarrow> ('w, 'a) action" where
  "throw_string t = fail (Thrown (VString t))"

definition generator_optional_iterator_call ::
  "'w Host \<Rightarrow> 'w caller \<Rightarrow> Value \<Rightarrow> string \<Rightarrow> Value list \<Rightarrow> ('w, Value option) action" where
  "generator_optional_iterator_call H call iterator m args =
     andThen (prim H call (P_value_get m) [iterator]) (\<lambda>method_value.
     if is_nullish method_value then ret None else
     andThen (host_test (is_callable H method_value)) (\<lambda>callable.
     if \<not> callable then throw_string (not_callable_message m) else
     andThen (catch_unwind (prim H call P_value_call (method_value # iterator # args))) (\<lambda>result.
     case result of
       Ok (Ok v) \<Rightarrow> ret (Some v)
     | Ok (Err e) \<Rightarrow> fail e
     | Err payload \<Rightarrow> (case payload of PanicValue v \<Rightarrow> fail (Thrown v) | _ \<Rightarrow> fail HostPanic))))"

text \<open>The first half of \<open>generator_optional_iterator_step\<close> is the function above, line by line.\<close>

definition generator_optional_iterator_step ::
  "'w Host \<Rightarrow> 'w caller \<Rightarrow> Value \<Rightarrow> string \<Rightarrow> Value list \<Rightarrow> ('w, (Value \<times> bool) option) action"
where
  "generator_optional_iterator_step H call iterator m args =
     andThen (generator_optional_iterator_call H call iterator m args) (\<lambda>called.
     case called of
       None \<Rightarrow> ret None
     | Some result \<Rightarrow>
         andThen (host_test (\<lambda>w. is_object H result w \<or> is_function H result w)) (\<lambda>structured.
         if \<not> structured then throw_string not_object_message else
         andThen (prim H call (P_value_get ''value'') [result]) (\<lambda>value.
         andThen (prim H call (P_value_get ''done'') [result]) (\<lambda>d.
         andThen (host_test (to_bool H d)) (\<lambda>finished.
         ret (Some (value, finished)))))))"

definition generator_iterator_step ::
  "'w Host \<Rightarrow> 'w caller \<Rightarrow> Value \<Rightarrow> string \<Rightarrow> Value list \<Rightarrow> ('w, Value \<times> bool) action" where
  "generator_iterator_step H call iterator m args =
     andThen (generator_optional_iterator_step H call iterator m args) (\<lambda>r.
     case r of None \<Rightarrow> throw_string (no_method_message m) | Some x \<Rightarrow> ret x)"

definition generator_result :: "'w Host \<Rightarrow> 'w caller \<Rightarrow> Value \<Rightarrow> bool \<Rightarrow> ('w, Value) action" where
  "generator_result H call v d = prim H call (P_value_object [''value'', ''done'']) [v, VBool d]"

definition inject_generator_completion ::
  "nat \<Rightarrow> GeneratorSuspensionPoint \<Rightarrow> Value \<Rightarrow> BlockId \<Rightarrow> ('w, unit) action" where
  "inject_generator_completion i point v target =
     andSeq (gen_delegate_to i None)
     (andSeq (gen_write_register i (result_register point) v)
     (gen_modify i (\<lambda>g. g\<lparr>gen_block := target\<rparr>)))"

definition generator_point :: "Function \<Rightarrow> SuspensionId \<Rightarrow> GeneratorSuspensionPoint option" where
  "generator_point f s =
     find (\<lambda>p. generator_suspension_id p = s) (generator_suspension_points f)"

subsection \<open>Driving a segment\<close>

datatype GeneratorOutcome =
    Yielded SuspensionId Value
  | Delegated SuspensionId Value
  | Awaited SuspensionId Register Value
  | DelegateAwaited SuspensionId AsyncDelegateAction Value
  | CompletedWith Value

datatype GeneratorStep = GeneratorNext BlockId | GeneratorLeave GeneratorOutcome

definition gen_enter_handler ::
  "Function \<Rightarrow> BlockId \<Rightarrow> nat \<Rightarrow> Value \<Rightarrow> ('w, GeneratorStep) action" where
  "gen_enter_handler f b i v = (case region_of f b of
     None \<Rightarrow> fail (Thrown v)
   | Some r \<Rightarrow> andSeq (gen_write_register i (exception_register r) v)
       (case handler_block r of
          None \<Rightarrow> fail (VmMissingBlock (function_id f) b)
        | Some target \<Rightarrow> ret (GeneratorNext target)))"

definition delegate_async ::
  "'w Host \<Rightarrow> 'w caller \<Rightarrow> Function \<Rightarrow> BlockId \<Rightarrow> nat \<Rightarrow> Value \<Rightarrow> SuspensionId \<Rightarrow>
     ('w, GeneratorStep) action" where
  "delegate_async H call f b i iterator suspension =
     andSeq (gen_delegate_to i (Some iterator))
     (on_result (generator_optional_iterator_call H call iterator ''next'' []) (\<lambda>r. case r of
        Ok (Some awaited) \<Rightarrow>
          ret (GeneratorLeave (DelegateAwaited suspension DelegateNext awaited))
      | Ok None \<Rightarrow> gen_enter_handler f b i (VString (no_method_message ''next''))
      | Err (Thrown v) \<Rightarrow> gen_enter_handler f b i v
      | Err e \<Rightarrow> fail e))"

definition delegate_sync ::
  "'w Host \<Rightarrow> 'w caller \<Rightarrow> Function \<Rightarrow> BlockId \<Rightarrow> nat \<Rightarrow> Register \<Rightarrow> Value \<Rightarrow> SuspensionId \<Rightarrow>
     ('w, GeneratorStep) action" where
  "delegate_sync H call f b i dst iterator suspension =
     on_result (generator_iterator_step H call iterator ''next'' []) (\<lambda>r. case r of
        Ok (v, finished) \<Rightarrow>
          if finished then
            (case generator_point f suspension of
               None \<Rightarrow> fail (Unsupported ''missing generator delegation point'')
             | Some point \<Rightarrow> andSeq (gen_write_register i dst v)
                 (ret (GeneratorNext (resume_block point))))
          else andSeq (gen_delegate_to i (Some iterator))
                 (ret (GeneratorLeave (Delegated suspension v)))
      | Err (Thrown v) \<Rightarrow> gen_enter_handler f b i v
      | Err e \<Rightarrow> fail e)"

text \<open>The three instructions a generator driver handles itself.\<close>

definition gen_suspend ::
  "'w Host \<Rightarrow> 'w caller \<Rightarrow> Function \<Rightarrow> BlockId \<Rightarrow> nat \<Rightarrow> Instruction \<Rightarrow>
     ('w, GeneratorStep) action option" where
  "gen_suspend H call f b i ins = (case ins of
     Await dst value suspension \<Rightarrow> Some (andThen (gen_read_register i value) (\<lambda>v.
       ret (GeneratorLeave (Awaited suspension dst v))))
   | Yield dst value suspension \<Rightarrow> Some (andThen (gen_read_register i value) (\<lambda>v.
       ret (GeneratorLeave (Yielded suspension v))))
   | YieldDelegate dst iterator suspension \<Rightarrow> Some (andThen (gen_read_register i iterator) (\<lambda>it.
       if is_async f then delegate_async H call f b i it suspension
       else delegate_sync H call f b i dst it suspension))
   | _ \<Rightarrow> None)"

fun gen_instructions ::
  "'w Host \<Rightarrow> Vm \<Rightarrow> 'w caller \<Rightarrow> Function \<Rightarrow> BlockId \<Rightarrow> nat \<Rightarrow> Instruction list \<Rightarrow>
     ('w, GeneratorStep) action" where
  "gen_instructions H vm call f b i [] = fail (VmMissingBlock (function_id f) b)"
| "gen_instructions H vm call f b i (ins # rest) =
     andSeq (consume_instruction H vm)
     (case gen_suspend H call f b i ins of
        Some act \<Rightarrow> act
      | None \<Rightarrow> andThen (gen_instruction H vm call f b i ins) (\<lambda>(control, _). case control of
          Continue \<Rightarrow> gen_instructions H vm call f b i rest
        | JumpTo target \<Rightarrow> ret (GeneratorNext target)
        | ReturnValue v \<Rightarrow> ret (GeneratorLeave (CompletedWith v))
        | ThrowValue v \<Rightarrow> gen_enter_handler f b i v))"

primrec drive_generator_segment ::
  "'w Host \<Rightarrow> Vm \<Rightarrow> 'w caller \<Rightarrow> nat \<Rightarrow> nat \<Rightarrow> ('w, GeneratorOutcome) action" where
  "drive_generator_segment H vm call i 0 = no_fuel"
| "drive_generator_segment H vm call i (Suc n) = andThen (gen_data i) (\<lambda>g.
     case find_block (gen_function g) (gen_block g) of
       None \<Rightarrow> fail (VmMissingBlock (function_id (gen_function g)) (gen_block g))
     | Some current \<Rightarrow>
         andThen (gen_instructions H vm call (gen_function g) (gen_block g) i (instructions current))
         (\<lambda>step. case step of
            GeneratorNext target \<Rightarrow> andSeq (gen_modify i (\<lambda>g. g\<lparr>gen_block := target\<rparr>))
              (drive_generator_segment H vm call i n)
          | GeneratorLeave result \<Rightarrow> ret result))"

text \<open>
  \<open>call_depth.replace(depth + 1)\<close> and its restoration, which an unwinding panic skips.
\<close>

definition at_depth :: "u32 \<Rightarrow> ('w, 'a) action \<Rightarrow> ('w, 'a) action" where
  "at_depth depth body = andThen (gets call_depth) (\<lambda>previous.
     andSeq (modify (\<lambda>s. s\<lparr>call_depth := depth + 1\<rparr>))
     (on_result body (\<lambda>r. andSeq (modify (\<lambda>s. s\<lparr>call_depth := previous\<rparr>)) (from_result r))))"

definition drive_generator_frame ::
  "'w Host \<Rightarrow> Vm \<Rightarrow> nat \<Rightarrow> 'w caller \<Rightarrow> nat \<Rightarrow> ('w, GeneratorOutcome) action" where
  "drive_generator_frame H vm n call i = with_segment H vm (
     andThen (gen_data i) (\<lambda>g. at_depth (gen_depth g) (drive_generator_segment H vm call i n)))"

subsection \<open>Resuming\<close>

text \<open>
  \<open>prepare_async_delegate_resume\<close>: the iterator's method is called, its promise is the outcome, and
  a missing method completes the delegation at once.
\<close>

definition delegate_method :: "GeneratorResumeKind \<Rightarrow> string \<times> AsyncDelegateAction" where
  "delegate_method kind = (case kind of
     ResumeNext \<Rightarrow> (''next'', DelegateNext)
   | ResumeReturn \<Rightarrow> (''return'', DelegateReturn)
   | ResumeThrow \<Rightarrow> (''throw'', DelegateThrow))"

definition prepare_async_delegate_resume ::
  "'w Host \<Rightarrow> 'w caller \<Rightarrow> nat \<Rightarrow> GeneratorSuspensionPoint \<Rightarrow> Value \<Rightarrow> GeneratorResumeKind \<Rightarrow> Value \<Rightarrow>
     ('w, GeneratorOutcome option) action" where
  "prepare_async_delegate_resume H call i point iterator kind input =
     on_result (generator_optional_iterator_call H call iterator (fst (delegate_method kind)) [input])
     (\<lambda>called. case called of
        Err (Thrown v) \<Rightarrow>
          andSeq (inject_generator_completion i point v (throw_block point)) (ret None)
      | Err e \<Rightarrow> fail e
      | Ok (Some awaited) \<Rightarrow> ret (Some (DelegateAwaited (generator_suspension_id point)
                                (snd (delegate_method kind)) awaited))
      | Ok None \<Rightarrow> (case kind of
          ResumeReturn \<Rightarrow>
            andSeq (inject_generator_completion i point input (return_block point)) (ret None)
        | ResumeNext \<Rightarrow>
            andSeq (inject_generator_completion i point (VString (no_method_message ''next''))
              (throw_block point)) (ret None)
        | ResumeThrow \<Rightarrow>
            on_result (generator_optional_iterator_call H call iterator ''return'' []) (\<lambda>close.
            case close of
              Ok (Some awaited) \<Rightarrow> ret (Some (DelegateAwaited (generator_suspension_id point)
                                     MissingThrowClose awaited))
            | Ok None \<Rightarrow>
                andSeq (inject_generator_completion i point (VString (no_method_message ''throw''))
                  (throw_block point)) (ret None)
            | Err (Thrown v) \<Rightarrow>
                andSeq (inject_generator_completion i point v (throw_block point)) (ret None)
            | Err e \<Rightarrow> fail e)))"

text \<open>
  The delegation branch of \<open>prepare_generator_resume\<close> for a synchronous generator.  A missing
  \<open>throw\<close> method closes the iterator through \<open>return\<close>; \<open>None\<close> says that the completion has been
  injected already.
\<close>

definition complete_with_error :: "nat \<Rightarrow> VmError \<Rightarrow> ('w, 'a) action" where
  "complete_with_error i e = andSeq (gen_set_state i Completed) (fail e)"

definition sync_delegate_throw ::
  "'w Host \<Rightarrow> 'w caller \<Rightarrow> nat \<Rightarrow> GeneratorSuspensionPoint \<Rightarrow> Value \<Rightarrow> Value \<Rightarrow>
     ('w, (VmError + (Value \<times> bool) option) option) action" where
  "sync_delegate_throw H call i point iterator input =
     on_result (generator_optional_iterator_step H call iterator ''throw'' [input]) (\<lambda>result.
     if result = Ok None then
       on_result (generator_optional_iterator_step H call iterator ''return'' []) (\<lambda>close.
       case close of
         Err (Thrown v) \<Rightarrow>
           andSeq (inject_generator_completion i point v (throw_block point)) (ret None)
       | Err e \<Rightarrow> complete_with_error i e
       | Ok _ \<Rightarrow>
           andSeq (inject_generator_completion i point (VString (no_method_message ''throw''))
             (throw_block point)) (ret None))
     else ret (Some result))"

definition sync_delegate_step ::
  "'w Host \<Rightarrow> 'w caller \<Rightarrow> nat \<Rightarrow> GeneratorSuspensionPoint \<Rightarrow> Value \<Rightarrow> GeneratorResumeKind \<Rightarrow> Value \<Rightarrow>
     ('w, (VmError + (Value \<times> bool) option) option) action" where
  "sync_delegate_step H call i point iterator kind input = (case kind of
     ResumeNext \<Rightarrow>
       on_result (generator_optional_iterator_step H call iterator ''next'' [input])
         (\<lambda>r. ret (Some r))
   | ResumeReturn \<Rightarrow>
       on_result (generator_optional_iterator_step H call iterator ''return'' [input])
         (\<lambda>r. ret (Some r))
   | ResumeThrow \<Rightarrow> sync_delegate_throw H call i point iterator input)"

definition settle_delegated ::
  "nat \<Rightarrow> SuspensionId \<Rightarrow> GeneratorSuspensionPoint \<Rightarrow> GeneratorResumeKind \<Rightarrow> Value \<Rightarrow>
     (VmError + (Value \<times> bool) option) option \<Rightarrow> ('w, GeneratorOutcome option) action" where
  "settle_delegated i suspension point kind input delegated =
     (let continue = andSeq (gen_set_state i Executing) (ret None);
          inject = (\<lambda>v target. andSeq (inject_generator_completion i point v target) continue)
      in case delegated of
          None \<Rightarrow> continue
        | Some (Ok None) \<Rightarrow>
            if kind = ResumeReturn then inject input (return_block point)
            else inject (VString ''TypeError: delegated iterator method is missing'')
                   (throw_block point)
        | Some (Ok (Some (v, finished))) \<Rightarrow>
            if \<not> finished then
              andSeq (gen_set_state i (SuspendedDelegate suspension))
                (ret (Some (Delegated suspension v)))
            else inject v (if kind = ResumeReturn then return_block point else resume_block point)
        | Some (Err (Thrown v)) \<Rightarrow> inject v (throw_block point)
        | Some (Err e) \<Rightarrow> complete_with_error i e)"

definition prepare_sync_delegate_resume ::
  "'w Host \<Rightarrow> 'w caller \<Rightarrow> nat \<Rightarrow> SuspensionId \<Rightarrow> GeneratorSuspensionPoint \<Rightarrow> Value \<Rightarrow>
     GeneratorResumeKind \<Rightarrow> Value \<Rightarrow> ('w, GeneratorOutcome option) action" where
  "prepare_sync_delegate_resume H call i suspension point iterator kind input =
     andThen (sync_delegate_step H call i point iterator kind input)
       (settle_delegated i suspension point kind input)"

definition resume_target :: "GeneratorResumeKind \<Rightarrow> GeneratorSuspensionPoint \<Rightarrow> BlockId" where
  "resume_target kind point = (case kind of
     ResumeNext \<Rightarrow> resume_block point
   | ResumeReturn \<Rightarrow> return_block point
   | ResumeThrow \<Rightarrow> throw_block point)"

definition resume_completed ::
  "GeneratorResumeKind \<Rightarrow> Value \<Rightarrow> ('w, GeneratorOutcome option) action" where
  "resume_completed kind input = (case kind of
     ResumeNext \<Rightarrow> ret (Some (CompletedWith VUndefined))
   | ResumeReturn \<Rightarrow> ret (Some (CompletedWith input))
   | ResumeThrow \<Rightarrow> fail (Thrown input))"

definition resume_start ::
  "nat \<Rightarrow> GeneratorResumeKind \<Rightarrow> Value \<Rightarrow> ('w, GeneratorOutcome option) action" where
  "resume_start i kind input = (case kind of
     ResumeNext \<Rightarrow> andSeq (gen_set_state i Executing) (ret None)
   | ResumeReturn \<Rightarrow> andSeq (gen_set_state i Completed) (ret (Some (CompletedWith input)))
   | ResumeThrow \<Rightarrow> complete_with_error i (Thrown input))"

definition resume_yield ::
  "nat \<Rightarrow> SuspensionId \<Rightarrow> GeneratorResumeKind \<Rightarrow> Value \<Rightarrow> ('w, GeneratorOutcome option) action" where
  "resume_yield i suspension kind input = andThen (gen_data i) (\<lambda>g.
     case generator_point (gen_function g) suspension of
       None \<Rightarrow> fail (Unsupported ''missing generator suspension point'')
     | Some point \<Rightarrow>
         andSeq (gen_write_register i (result_register point) input)
         (andSeq (gen_modify i (\<lambda>g. g\<lparr>gen_block := resume_target kind point\<rparr>))
         (andSeq (gen_set_state i Executing) (ret None))))"

definition resume_delegate ::
  "'w Host \<Rightarrow> 'w caller \<Rightarrow> nat \<Rightarrow> SuspensionId \<Rightarrow> GeneratorResumeKind \<Rightarrow> Value \<Rightarrow>
     ('w, GeneratorOutcome option) action" where
  "resume_delegate H call i suspension kind input = andThen (gen_data i) (\<lambda>g.
     case generator_point (gen_function g) suspension of
       None \<Rightarrow> fail (Unsupported ''missing generator delegation point'')
     | Some point \<Rightarrow> (case delegate_iterator g of
         None \<Rightarrow> fail (Unsupported ''missing delegated iterator'')
       | Some iterator \<Rightarrow>
           andSeq (gen_set_state i Executing)
           (if is_async (gen_function g)
            then prepare_async_delegate_resume H call i point iterator kind input
            else prepare_sync_delegate_resume H call i suspension point iterator kind input)))"

definition prepare_generator_resume ::
  "'w Host \<Rightarrow> 'w caller \<Rightarrow> nat \<Rightarrow> GeneratorResumeKind \<Rightarrow> Value \<Rightarrow>
     ('w, GeneratorOutcome option) action" where
  "prepare_generator_resume H call i kind input = andThen (gen_get_state i) (\<lambda>st. case st of
     Executing \<Rightarrow> throw_string ''TypeError: generator is already executing''
   | Completed \<Rightarrow> resume_completed kind input
   | SuspendedStart \<Rightarrow> resume_start i kind input
   | SuspendedYield suspension \<Rightarrow> resume_yield i suspension kind input
   | SuspendedDelegate suspension \<Rightarrow> resume_delegate H call i suspension kind input)"

text \<open>\<open>resume_generator_frame\<close> ends with the outcome's effect on the state.\<close>

definition settle_generator ::
  "'w Host \<Rightarrow> 'w caller \<Rightarrow> nat \<Rightarrow> VmError + GeneratorOutcome \<Rightarrow> ('w, Value) action" where
  "settle_generator H call i result = (case result of
     Ok (Yielded suspension v) \<Rightarrow>
       andSeq (gen_set_state i (SuspendedYield suspension)) (generator_result H call v False)
   | Ok (Delegated suspension v) \<Rightarrow>
       andSeq (gen_set_state i (SuspendedDelegate suspension)) (generator_result H call v False)
   | Ok (Awaited _ _ _) \<Rightarrow>
       complete_with_error i (Unsupported ''await in synchronous generator'')
   | Ok (DelegateAwaited _ _ _) \<Rightarrow>
       complete_with_error i (Unsupported ''asynchronous delegation in synchronous generator'')
   | Ok (CompletedWith v) \<Rightarrow>
       andSeq (gen_set_state i Completed) (generator_result H call v True)
   | Err e \<Rightarrow> complete_with_error i e)"

definition resume_generator_frame ::
  "'w Host \<Rightarrow> Vm \<Rightarrow> nat \<Rightarrow> 'w caller \<Rightarrow> nat \<Rightarrow> GeneratorResumeKind \<Rightarrow> Value \<Rightarrow>
     ('w, Value) action" where
  "resume_generator_frame H vm n call i kind input =
     andThen (prepare_generator_resume H call i kind input) (\<lambda>prepared. case prepared of
       Some result \<Rightarrow> settle_generator H call i (Ok result)
     | None \<Rightarrow> on_result (drive_generator_frame H vm n call i) (settle_generator H call i))"

subsection \<open>Creating a generator\<close>

definition new_generator_frame ::
  "Function \<Rightarrow> Environment \<Rightarrow> u32 \<Rightarrow> GeneratorFrame" where
  "new_generator_frame f env depth =
     \<lparr> gen_state = SuspendedStart, gen_function = f,
       gen_registers = replicate (unat (registers f)) VUndefined, gen_environment = env,
       gen_block = function_entry f, gen_depth = depth, delegate_iterator = None,
       gen_borrowed = False \<rparr>"

definition new_generator :: "GeneratorFrame \<Rightarrow> ('w, nat) action" where
  "new_generator g s = (Val (length (generators s)), s\<lparr>generators := generators s @ [g]\<rparr>)"

definition set_method ::
  "'w Host \<Rightarrow> 'w caller \<Rightarrow> Value \<Rightarrow> string \<Rightarrow> Closure \<Rightarrow> ('w, unit) action" where
  "set_method H call object key c = andThen (new_function H c) (\<lambda>f.
     andSeq (prim H call (P_value_set key) [object, f]) (ret ()))"

definition execute_sync_generator_function ::
  "'w Host \<Rightarrow> 'w caller \<Rightarrow> Function \<Rightarrow> Value \<Rightarrow> Value list \<Rightarrow> Environment \<Rightarrow> u32 \<Rightarrow>
     ('w, Value) action" where
  "execute_sync_generator_function H call f this args env0 depth =
     andThen (initialize_environment H call f this args env0) (\<lambda>env.
     andThen (new_generator (new_generator_frame f env depth)) (\<lambda>i.
     andThen (prim H call (P_value_object []) []) (\<lambda>g.
     andSeq (set_method H call g ''next'' (GeneratorMethod i ResumeNext))
     (andSeq (set_method H call g ''return'' (GeneratorMethod i ResumeReturn))
     (andSeq (set_method H call g ''throw'' (GeneratorMethod i ResumeThrow))
     (andSeq (set_method H call g ''__w3cos_symbol_iterator'' (IterableSelf g))
     (ret g)))))))"

end
