(* ===== verification/VMAsync.thy ===== *)
theory VMAsync
  imports VMGenerator
begin

text \<open>
  Async functions: a frame runs until an \<open>Await\<close>, hands two continuations to the awaited promise and
  leaves; each continuation stores what it got, moves the frame to the block of its suspension
  point and drives the next segment.
\<close>

definition first_argument :: "Value list \<Rightarrow> Value" where
  "first_argument args = (case args of [] \<Rightarrow> VUndefined | v # _ \<Rightarrow> v)"

definition second_argument :: "Value list \<Rightarrow> Value" where
  "second_argument args = (case args of _ # v # _ \<Rightarrow> v | _ \<Rightarrow> VUndefined)"

definition suspension_point :: "Function \<Rightarrow> SuspensionId \<Rightarrow> SuspensionPoint option" where
  "suspension_point f s = find (\<lambda>p. suspension_id p = s) (suspension_points f)"

definition then_call ::
  "'w Host \<Rightarrow> 'w caller \<Rightarrow> Value \<Rightarrow> Closure \<Rightarrow> Closure \<Rightarrow> ('w, unit) action" where
  "then_call H call v on_fulfilled on_rejected =
     andThen (new_function H on_fulfilled) (\<lambda>f.
     andThen (new_function H on_rejected) (\<lambda>r.
     andThen (prim H call P_await_value [v]) (\<lambda>awaited.
     andSeq (prim H call P_call_method [awaited, VString ''then'', f, r]) (ret ()))))"

definition call_value :: "'w Host \<Rightarrow> 'w caller \<Rightarrow> Value \<Rightarrow> Value \<Rightarrow> ('w, unit) action" where
  "call_value H call f v = andSeq (prim H call P_value_call [f, VUndefined, v]) (ret ())"

subsection \<open>The frame\<close>

definition put_async :: "nat \<Rightarrow> (AsyncFrame \<Rightarrow> AsyncFrame) \<Rightarrow> ('w, unit) action" where
  "put_async i u = modify (\<lambda>s. s\<lparr>async_frames := (async_frames s)[i := u (async_frames s ! i)]\<rparr>)"

definition async_data :: "nat \<Rightarrow> ('w, AsyncFrame) action" where
  "async_data i = andThen (fetch async_frames i) (\<lambda>a.
     if async_borrowed a then unwind BorrowPanic else ret a)"

definition async_move :: "nat \<Rightarrow> BlockId \<Rightarrow> ('w, unit) action" where
  "async_move i b = andSeq (async_data i) (put_async i (\<lambda>a. a\<lparr>async_block := b\<rparr>))"

definition async_read_register :: "nat \<Rightarrow> Register \<Rightarrow> ('w, Value) action" where
  "async_read_register i r = andThen (async_data i) (\<lambda>a. read_register (async_registers a) r)"

definition async_write_register :: "nat \<Rightarrow> Register \<Rightarrow> Value \<Rightarrow> ('w, unit) action" where
  "async_write_register i r v = andThen (async_data i) (\<lambda>a.
     andThen (write_register (async_registers a) r v) (\<lambda>regs.
     put_async i (\<lambda>a. a\<lparr>async_registers := regs\<rparr>)))"

definition async_releasing :: "nat \<Rightarrow> ('w, 'a) action \<Rightarrow> ('w, 'a) action" where
  "async_releasing i act s = (case act s of (r, s') \<Rightarrow>
     (r, snd (put_async i (\<lambda>a. a\<lparr>async_borrowed := False\<rparr>) s')))"

definition async_instruction ::
  "'w Host \<Rightarrow> Vm \<Rightarrow> 'w caller \<Rightarrow> Function \<Rightarrow> BlockId \<Rightarrow> nat \<Rightarrow> Instruction \<Rightarrow>
     ('w, Control \<times> unit) action" where
  "async_instruction H vm call f b i ins = andThen (async_data i) (\<lambda>a.
     andSeq (put_async i (\<lambda>a. a\<lparr>async_borrowed := True\<rparr>))
     (instruction_control H vm call f b
       (async_releasing i
         (andThen (execute_instruction H vm call ins (async_registers a, async_environment a))
           (\<lambda>(control, regs, env).
             andSeq (put_async i (\<lambda>a. a\<lparr>async_registers := regs, async_environment := env\<rparr>))
               (ret (control, ())))))
       ()))"

subsection \<open>Driving a segment\<close>

datatype AsyncStep = AsyncNext BlockId | AsyncLeave "Value option"

definition async_enter_handler ::
  "Function \<Rightarrow> BlockId \<Rightarrow> nat \<Rightarrow> Value \<Rightarrow> ('w, AsyncStep) action" where
  "async_enter_handler f b i v = (case region_of f b of
     None \<Rightarrow> fail (Thrown v)
   | Some r \<Rightarrow> andSeq (async_write_register i (exception_register r) v)
       (case handler_block r of
          None \<Rightarrow> fail (VmMissingBlock (function_id f) b)
        | Some target \<Rightarrow> ret (AsyncNext target)))"

definition async_await ::
  "'w Host \<Rightarrow> 'w caller \<Rightarrow> Function \<Rightarrow> nat \<Rightarrow> Value \<Rightarrow> Value \<Rightarrow> Register \<Rightarrow> Register \<Rightarrow>
     SuspensionId \<Rightarrow> ('w, AsyncStep) action" where
  "async_await H call f i resolve reject dst value suspension =
     (case suspension_point f suspension of
        None \<Rightarrow> fail (Unsupported ''missing await suspension point'')
      | Some point \<Rightarrow>
          andThen (async_read_register i value) (\<lambda>v.
          andSeq (then_call H call v
                    (AwaitFulfilled i dst (suspension_resume_block point) resolve reject)
                    (AwaitRejected i dst (reject_block point) resolve reject))
            (ret (AsyncLeave None))))"

definition async_suspend ::
  "'w Host \<Rightarrow> 'w caller \<Rightarrow> Function \<Rightarrow> nat \<Rightarrow> Value \<Rightarrow> Value \<Rightarrow> Instruction \<Rightarrow>
     ('w, AsyncStep) action option" where
  "async_suspend H call f i resolve reject ins = (case ins of
     Await dst value suspension \<Rightarrow> Some (async_await H call f i resolve reject dst value suspension)
   | _ \<Rightarrow> None)"

fun async_instructions ::
  "'w Host \<Rightarrow> Vm \<Rightarrow> 'w caller \<Rightarrow> Function \<Rightarrow> BlockId \<Rightarrow> nat \<Rightarrow> Value \<Rightarrow> Value \<Rightarrow>
     Instruction list \<Rightarrow> ('w, AsyncStep) action" where
  "async_instructions H vm call f b i resolve reject [] = fail (VmMissingBlock (function_id f) b)"
| "async_instructions H vm call f b i resolve reject (ins # rest) =
     andSeq (consume_instruction H vm)
     (case async_suspend H call f i resolve reject ins of
        Some act \<Rightarrow> act
      | None \<Rightarrow> andThen (async_instruction H vm call f b i ins) (\<lambda>(control, _). case control of
          Continue \<Rightarrow> async_instructions H vm call f b i resolve reject rest
        | JumpTo target \<Rightarrow> ret (AsyncNext target)
        | ReturnValue v \<Rightarrow> ret (AsyncLeave (Some v))
        | ThrowValue v \<Rightarrow> async_enter_handler f b i v))"

primrec drive_async_segment ::
  "'w Host \<Rightarrow> Vm \<Rightarrow> 'w caller \<Rightarrow> nat \<Rightarrow> Value \<Rightarrow> Value \<Rightarrow> nat \<Rightarrow> ('w, Value option) action" where
  "drive_async_segment H vm call i resolve reject 0 = no_fuel"
| "drive_async_segment H vm call i resolve reject (Suc n) = andThen (async_data i) (\<lambda>a.
     case find_block (async_function a) (async_block a) of
       None \<Rightarrow> fail (VmMissingBlock (function_id (async_function a)) (async_block a))
     | Some current \<Rightarrow>
         andThen (async_instructions H vm call (async_function a) (async_block a) i resolve reject
                    (instructions current))
         (\<lambda>step. case step of
            AsyncNext target \<Rightarrow> andSeq (async_move i target)
              (drive_async_segment H vm call i resolve reject n)
          | AsyncLeave result \<Rightarrow> ret result))"

definition error_value :: "'w Host \<Rightarrow> VmError \<Rightarrow> Value" where
  "error_value H e = (case e of Thrown v \<Rightarrow> v | _ \<Rightarrow> VString (error_text H e))"

definition drive_async_frame ::
  "'w Host \<Rightarrow> Vm \<Rightarrow> nat \<Rightarrow> 'w caller \<Rightarrow> nat \<Rightarrow> Value \<Rightarrow> Value \<Rightarrow> ('w, unit) action" where
  "drive_async_frame H vm n call i resolve reject = with_segment H vm (
     andThen (async_data i) (\<lambda>a.
     on_result (at_depth (async_depth a) (drive_async_segment H vm call i resolve reject n))
     (\<lambda>result. case result of
        Ok (Some v) \<Rightarrow> call_value H call resolve v
      | Ok None \<Rightarrow> ret ()
      | Err e \<Rightarrow> call_value H call reject (error_value H e))))"

text \<open>The bodies of the closures an async function makes.\<close>

definition async_executor_body ::
  "'w Host \<Rightarrow> Vm \<Rightarrow> nat \<Rightarrow> 'w caller \<Rightarrow> nat \<Rightarrow> Value list \<Rightarrow> ('w, Value) action" where
  "async_executor_body H vm n call i args =
     andSeq (drive_async_frame H vm n call i (first_argument args) (second_argument args))
       (ret VUndefined)"

definition await_settled_body ::
  "'w Host \<Rightarrow> Vm \<Rightarrow> nat \<Rightarrow> 'w caller \<Rightarrow> nat \<Rightarrow> Register \<Rightarrow> BlockId \<Rightarrow> Value \<Rightarrow> Value \<Rightarrow>
     Value list \<Rightarrow> ('w, Value) action" where
  "await_settled_body H vm n call i dst target resolve reject args =
     andSeq (async_write_register i dst (first_argument args))
     (andSeq (async_move i target)
     (andSeq (drive_async_frame H vm n call i resolve reject)
       (ret VUndefined)))"

definition new_async_frame :: "Function \<Rightarrow> Environment \<Rightarrow> u32 \<Rightarrow> AsyncFrame" where
  "new_async_frame f env depth =
     \<lparr> async_function = f, async_registers = replicate (unat (registers f)) VUndefined,
       async_environment = env, async_block = function_entry f, async_depth = depth,
       async_borrowed = False \<rparr>"

definition execute_async_function ::
  "'w Host \<Rightarrow> 'w caller \<Rightarrow> Function \<Rightarrow> Value \<Rightarrow> Value list \<Rightarrow> Environment \<Rightarrow> u32 \<Rightarrow>
     ('w, Value) action" where
  "execute_async_function H call f this args env0 depth =
     andThen (initialize_environment H call f this args env0) (\<lambda>env.
     andThen (gets (\<lambda>s. length (async_frames s))) (\<lambda>i.
     andSeq (modify (\<lambda>s. s\<lparr>async_frames := async_frames s @ [new_async_frame f env depth]\<rparr>))
     (andThen (new_function H (AsyncExecutor i)) (\<lambda>executor.
     prim H call P_promise_new [executor]))))"

end
