(* ===== verification/VMAsyncGenerator.thy ===== *)
theory VMAsyncGenerator
  imports VMAsync
begin

text \<open>
  Async generators: a queue of requests, at most one of them active, on top of a generator frame.
  \<open>drive_async_generator_queue\<close> starts the next request, the outcome of a segment is awaited, and a
  settled request starts the next one.  The source's functions call each other; a settled request
  with the queue not empty re-enters \<open>drive_async_generator_queue\<close> from
  \<open>handle_async_generator_outcome\<close>, so the group takes fuel, one unit per request started.
\<close>

subsection \<open>The frame\<close>

definition ag_fetch :: "nat \<Rightarrow> ('w, AsyncGeneratorFrame) action" where
  "ag_fetch a = fetch async_generators a"

definition put_ag :: "nat \<Rightarrow> (AsyncGeneratorFrame \<Rightarrow> AsyncGeneratorFrame) \<Rightarrow> ('w, unit) action" where
  "put_ag a u = modify (\<lambda>s. s\<lparr>async_generators := (async_generators s)[a := u (async_generators s ! a)]\<rparr>)"

text \<open>\<open>queue.borrow_mut().push_back(request)\<close>.\<close>

definition ag_push :: "nat \<Rightarrow> AsyncGeneratorRequest \<Rightarrow> ('w, unit) action" where
  "ag_push a q = andSeq (ag_fetch a) (put_ag a (\<lambda>x. x\<lparr>ag_queue := ag_queue x @ [q]\<rparr>))"

text \<open>
  The opening of \<open>drive_async_generator_queue\<close>: nothing while a request is active or the queue is
  empty, otherwise the front of the queue becomes the active request.
\<close>

definition ag_start :: "nat \<Rightarrow> ('w, AsyncGeneratorRequest option) action" where
  "ag_start a = andThen (ag_fetch a) (\<lambda>x.
     case ag_active x of
       Some _ \<Rightarrow> ret None
     | None \<Rightarrow> (case ag_queue x of
         [] \<Rightarrow> ret None
       | q # rest \<Rightarrow>
           andSeq (put_ag a (\<lambda>x. x\<lparr>ag_queue := rest, ag_active := Some q\<rparr>)) (ret (Some q))))"

text \<open>\<open>active.borrow_mut().take()\<close>.\<close>

definition ag_take :: "nat \<Rightarrow> ('w, AsyncGeneratorRequest option) action" where
  "ag_take a = andThen (ag_fetch a) (\<lambda>x.
     andSeq (put_ag a (\<lambda>x. x\<lparr>ag_active := None\<rparr>)) (ret (ag_active x)))"

subsection \<open>Awaiting what a segment produced\<close>

definition await_async_generator_completion ::
  "'w Host \<Rightarrow> 'w caller \<Rightarrow> nat \<Rightarrow> Value \<Rightarrow> ('w, unit) action" where
  "await_async_generator_completion H call a completion =
     then_call H call completion (AgCompletionFulfilled a) (AgCompletionRejected a)"

text \<open>
  The functions below pass \<open>Err reason\<close> when the active request is to be rejected and the generator
  completed; \<open>Ok ()\<close> says that the outcome is being awaited.
\<close>

definition await_async_generator_yield ::
  "'w Host \<Rightarrow> 'w caller \<Rightarrow> nat \<Rightarrow> SuspensionId \<Rightarrow> Value \<Rightarrow> bool \<Rightarrow> ('w, string + unit) action" where
  "await_async_generator_yield H call a suspension yielded delegated =
     andThen (ag_fetch a) (\<lambda>x. andThen (gen_data (ag_generator x)) (\<lambda>g.
     case generator_point (gen_function g) suspension of
       None \<Rightarrow> ret (Err ''missing async-generator yield suspension point'')
     | Some point \<Rightarrow>
         andSeq (then_call H call yielded (AgYieldFulfilled a suspension delegated)
                   (AgYieldRejected a point))
           (ret (Ok ()))))"

definition await_async_generator_delegate ::
  "'w Host \<Rightarrow> 'w caller \<Rightarrow> nat \<Rightarrow> SuspensionId \<Rightarrow> AsyncDelegateAction \<Rightarrow> Value \<Rightarrow>
     ('w, string + unit) action" where
  "await_async_generator_delegate H call a suspension action awaited =
     andThen (ag_fetch a) (\<lambda>x. andThen (gen_data (ag_generator x)) (\<lambda>g.
     case generator_point (gen_function g) suspension of
       None \<Rightarrow> ret (Err ''missing async-generator delegation point'')
     | Some point \<Rightarrow>
         andSeq (then_call H call awaited (AgDelegateFulfilled a suspension action point)
                   (AgDelegateRejected a point))
           (ret (Ok ()))))"

definition await_async_generator_await ::
  "'w Host \<Rightarrow> 'w caller \<Rightarrow> nat \<Rightarrow> SuspensionId \<Rightarrow> Register \<Rightarrow> Value \<Rightarrow> ('w, string + unit) action"
where
  "await_async_generator_await H call a suspension dst awaited =
     andThen (ag_fetch a) (\<lambda>x. andThen (gen_data (ag_generator x)) (\<lambda>g.
     case suspension_point (gen_function g) suspension of
       None \<Rightarrow> ret (Err ''missing async-generator await suspension point'')
     | Some point \<Rightarrow>
         andSeq (then_call H call awaited
                   (AgAwaitFulfilled a dst (suspension_resume_block point))
                   (AgAwaitRejected a dst (reject_block point)))
           (ret (Ok ()))))"

subsection \<open>Requests\<close>

text \<open>
  \<open>handle_async_generator_outcome\<close> up to the rejection of the request: \<open>Some reason\<close> says that
  \<open>reject_async_generator_request(frame, reason, true)\<close> follows.
\<close>

definition outcome_rejection :: "('w, string + unit) action \<Rightarrow> ('w, Value option) action" where
  "outcome_rejection act = andThen act (\<lambda>r.
     case r of Err msg \<Rightarrow> ret (Some (VString msg)) | Ok _ \<Rightarrow> ret None)"

definition await_outcome ::
  "'w Host \<Rightarrow> 'w caller \<Rightarrow> nat \<Rightarrow> VmError + GeneratorOutcome \<Rightarrow> ('w, Value option) action" where
  "await_outcome H call a result = (case result of
     Ok (Awaited suspension dst v) \<Rightarrow>
       outcome_rejection (await_async_generator_await H call a suspension dst v)
   | Ok (Yielded suspension v) \<Rightarrow>
       outcome_rejection (await_async_generator_yield H call a suspension v False)
   | Ok (Delegated suspension v) \<Rightarrow>
       outcome_rejection (await_async_generator_yield H call a suspension v True)
   | Ok (DelegateAwaited suspension action v) \<Rightarrow>
       outcome_rejection (await_async_generator_delegate H call a suspension action v)
   | Ok (CompletedWith v) \<Rightarrow>
       andThen (ag_fetch a) (\<lambda>x. andSeq (gen_set_state (ag_generator x) Completed)
         (andSeq (await_async_generator_completion H call a v) (ret None)))
   | Err e \<Rightarrow> ret (Some (error_value H e)))"

definition settle_active ::
  "'w Host \<Rightarrow> 'w caller \<Rightarrow> nat \<Rightarrow> (AsyncGeneratorRequest \<Rightarrow> Value) \<Rightarrow> Value \<Rightarrow> ('w, unit) action"
where
  "settle_active H call a continuation v = andThen (ag_take a) (\<lambda>request. case request of
     None \<Rightarrow> ret ()
   | Some q \<Rightarrow> call_value H call (continuation q) v)"

definition reject_active :: "'w Host \<Rightarrow> 'w caller \<Rightarrow> nat \<Rightarrow> Value \<Rightarrow> ('w, unit) action" where
  "reject_active H call a reason = andThen (ag_fetch a) (\<lambda>x.
     andSeq (gen_set_state (ag_generator x) Completed)
       (settle_active H call a request_reject reason))"

definition run_request ::
  "'w Host \<Rightarrow> Vm \<Rightarrow> nat \<Rightarrow> 'w caller \<Rightarrow> nat \<Rightarrow> AsyncGeneratorRequest \<Rightarrow>
     ('w, VmError + GeneratorOutcome) action" where
  "run_request H vm n call a q = andThen (ag_fetch a) (\<lambda>x.
     on_result (prepare_generator_resume H call (ag_generator x) (request_kind q) (request_input q))
     (\<lambda>prepared. case prepared of
        Ok (Some result) \<Rightarrow> ret (Ok result)
      | Ok None \<Rightarrow> on_result (drive_generator_frame H vm n call (ag_generator x)) ret
      | Err e \<Rightarrow> ret (Err e)))"

text \<open>
  \<open>drive_async_generator_queue\<close>, \<open>handle_async_generator_outcome\<close> and
  \<open>reject_async_generator_request\<close>, which call each other in tail position: start a request, run
  it, await its outcome, and when it is rejected at once start the next.
\<close>

primrec drive_async_generator_queue ::
  "'w Host \<Rightarrow> Vm \<Rightarrow> nat \<Rightarrow> 'w caller \<Rightarrow> nat \<Rightarrow> nat \<Rightarrow> ('w, unit) action" where
  "drive_async_generator_queue H vm n call a 0 = no_fuel"
| "drive_async_generator_queue H vm n call a (Suc k) = andThen (ag_start a) (\<lambda>started.
     case started of
       None \<Rightarrow> ret ()
     | Some q \<Rightarrow>
         andThen (run_request H vm n call a q) (\<lambda>result.
         andThen (await_outcome H call a result) (\<lambda>rejected. case rejected of
           None \<Rightarrow> ret ()
         | Some reason \<Rightarrow> andSeq (reject_active H call a reason)
             (drive_async_generator_queue H vm n call a k))))"

definition resolve_async_generator_request ::
  "'w Host \<Rightarrow> Vm \<Rightarrow> nat \<Rightarrow> 'w caller \<Rightarrow> nat \<Rightarrow> Value \<Rightarrow> ('w, unit) action" where
  "resolve_async_generator_request H vm n call a v =
     andSeq (settle_active H call a request_resolve v)
       (drive_async_generator_queue H vm n call a n)"

definition reject_async_generator_request ::
  "'w Host \<Rightarrow> Vm \<Rightarrow> nat \<Rightarrow> 'w caller \<Rightarrow> nat \<Rightarrow> Value \<Rightarrow> ('w, unit) action" where
  "reject_async_generator_request H vm n call a reason =
     andSeq (reject_active H call a reason)
       (drive_async_generator_queue H vm n call a n)"

definition handle_async_generator_outcome ::
  "'w Host \<Rightarrow> Vm \<Rightarrow> nat \<Rightarrow> 'w caller \<Rightarrow> nat \<Rightarrow> VmError + GeneratorOutcome \<Rightarrow> ('w, unit) action"
where
  "handle_async_generator_outcome H vm n call a result =
     andThen (await_outcome H call a result) (\<lambda>rejected. case rejected of
       None \<Rightarrow> ret ()
     | Some reason \<Rightarrow> reject_async_generator_request H vm n call a reason)"

definition continue_async_generator ::
  "'w Host \<Rightarrow> Vm \<Rightarrow> nat \<Rightarrow> 'w caller \<Rightarrow> nat \<Rightarrow> ('w, unit) action" where
  "continue_async_generator H vm n call a = andThen (ag_fetch a) (\<lambda>x.
     on_result (drive_generator_frame H vm n call (ag_generator x))
       (handle_async_generator_outcome H vm n call a))"

subsection \<open>The bodies of the continuations\<close>

definition ag_await_settled_body ::
  "'w Host \<Rightarrow> Vm \<Rightarrow> nat \<Rightarrow> 'w caller \<Rightarrow> nat \<Rightarrow> Register \<Rightarrow> BlockId \<Rightarrow> Value list \<Rightarrow>
     ('w, Value) action" where
  "ag_await_settled_body H vm n call a dst target args = andThen (ag_fetch a) (\<lambda>x.
     andSeq (gen_write_register (ag_generator x) dst (first_argument args))
     (andSeq (gen_modify (ag_generator x) (\<lambda>g. g\<lparr>gen_block := target\<rparr>))
     (andSeq (continue_async_generator H vm n call a) (ret VUndefined))))"

definition ag_yield_fulfilled_body ::
  "'w Host \<Rightarrow> Vm \<Rightarrow> nat \<Rightarrow> 'w caller \<Rightarrow> nat \<Rightarrow> SuspensionId \<Rightarrow> bool \<Rightarrow> Value list \<Rightarrow>
     ('w, Value) action" where
  "ag_yield_fulfilled_body H vm n call a suspension delegated args = andThen (ag_fetch a) (\<lambda>x.
     andSeq (gen_set_state (ag_generator x)
       (if delegated then SuspendedDelegate suspension else SuspendedYield suspension))
     (andThen (generator_result H call (first_argument args) False) (\<lambda>result.
     andSeq (resolve_async_generator_request H vm n call a result) (ret VUndefined))))"

definition ag_yield_rejected_body ::
  "'w Host \<Rightarrow> Vm \<Rightarrow> nat \<Rightarrow> 'w caller \<Rightarrow> nat \<Rightarrow> GeneratorSuspensionPoint \<Rightarrow> Value list \<Rightarrow>
     ('w, Value) action" where
  "ag_yield_rejected_body H vm n call a point args = andThen (ag_fetch a) (\<lambda>x.
     andSeq (inject_generator_completion (ag_generator x) point (first_argument args)
       (throw_block point))
     (andSeq (gen_set_state (ag_generator x) Executing)
     (andSeq (continue_async_generator H vm n call a) (ret VUndefined))))"

definition ag_inject_and_continue ::
  "'w Host \<Rightarrow> Vm \<Rightarrow> nat \<Rightarrow> 'w caller \<Rightarrow> nat \<Rightarrow> GeneratorSuspensionPoint \<Rightarrow> Value \<Rightarrow> BlockId \<Rightarrow>
     ('w, Value) action" where
  "ag_inject_and_continue H vm n call a point v target = andThen (ag_fetch a) (\<lambda>x.
     andSeq (inject_generator_completion (ag_generator x) point v target)
     (andSeq (continue_async_generator H vm n call a) (ret VUndefined)))"

definition ag_delegate_fulfilled_body ::
  "'w Host \<Rightarrow> Vm \<Rightarrow> nat \<Rightarrow> 'w caller \<Rightarrow> nat \<Rightarrow> SuspensionId \<Rightarrow> AsyncDelegateAction \<Rightarrow>
     GeneratorSuspensionPoint \<Rightarrow> Value list \<Rightarrow> ('w, Value) action" where
  "ag_delegate_fulfilled_body H vm n call a suspension action point args =
     (let result = first_argument args in
     andThen (host_test (\<lambda>w. is_object H result w \<or> is_function H result w)) (\<lambda>structured.
     if \<not> structured then
       ag_inject_and_continue H vm n call a point (VString not_object_message) (throw_block point)
     else if action = MissingThrowClose then
       ag_inject_and_continue H vm n call a point (VString (no_method_message ''throw''))
         (throw_block point)
     else
       andThen (prim H call (P_value_get ''value'') [result]) (\<lambda>value.
       andThen (prim H call (P_value_get ''done'') [result]) (\<lambda>d.
       andThen (host_test (to_bool H d)) (\<lambda>finished.
       if finished then
         ag_inject_and_continue H vm n call a point value
           (if action = DelegateReturn then return_block point else resume_block point)
       else
         andThen (await_async_generator_yield H call a suspension value True) (\<lambda>r.
         andSeq (case r of
             Err msg \<Rightarrow> reject_async_generator_request H vm n call a (VString msg)
           | Ok _ \<Rightarrow> ret ())
         (ret VUndefined)))))))"

definition ag_delegate_rejected_body ::
  "'w Host \<Rightarrow> Vm \<Rightarrow> nat \<Rightarrow> 'w caller \<Rightarrow> nat \<Rightarrow> GeneratorSuspensionPoint \<Rightarrow> Value list \<Rightarrow>
     ('w, Value) action" where
  "ag_delegate_rejected_body H vm n call a point args =
     ag_inject_and_continue H vm n call a point (first_argument args) (throw_block point)"

definition ag_completion_fulfilled_body ::
  "'w Host \<Rightarrow> Vm \<Rightarrow> nat \<Rightarrow> 'w caller \<Rightarrow> nat \<Rightarrow> Value list \<Rightarrow> ('w, Value) action" where
  "ag_completion_fulfilled_body H vm n call a args =
     andThen (generator_result H call (first_argument args) True) (\<lambda>result.
     andSeq (resolve_async_generator_request H vm n call a result) (ret VUndefined))"

definition ag_completion_rejected_body ::
  "'w Host \<Rightarrow> Vm \<Rightarrow> nat \<Rightarrow> 'w caller \<Rightarrow> nat \<Rightarrow> Value list \<Rightarrow> ('w, Value) action" where
  "ag_completion_rejected_body H vm n call a args =
     andSeq (reject_async_generator_request H vm n call a (first_argument args)) (ret VUndefined)"

subsection \<open>The methods of an async generator\<close>

text \<open>\<open>async_generator_enqueue\<close>: a promise whose executor queues the request and drives the queue.\<close>

definition async_generator_enqueue ::
  "'w Host \<Rightarrow> 'w caller \<Rightarrow> nat \<Rightarrow> GeneratorResumeKind \<Rightarrow> Value \<Rightarrow> ('w, Value) action" where
  "async_generator_enqueue H call a kind input =
     andThen (new_function H (AsyncGeneratorExecutor a kind input)) (\<lambda>executor.
     prim H call P_promise_new [executor])"

definition ag_executor_body ::
  "'w Host \<Rightarrow> Vm \<Rightarrow> nat \<Rightarrow> 'w caller \<Rightarrow> nat \<Rightarrow> GeneratorResumeKind \<Rightarrow> Value \<Rightarrow> Value list \<Rightarrow>
     ('w, Value) action" where
  "ag_executor_body H vm n call a kind input args =
     andSeq (ag_push a \<lparr> request_kind = kind, request_input = input,
               request_resolve = first_argument args, request_reject = second_argument args \<rparr>)
     (andSeq (drive_async_generator_queue H vm n call a n) (ret VUndefined))"

definition execute_async_generator_function ::
  "'w Host \<Rightarrow> 'w caller \<Rightarrow> Function \<Rightarrow> Value \<Rightarrow> Value list \<Rightarrow> Environment \<Rightarrow> u32 \<Rightarrow>
     ('w, Value) action" where
  "execute_async_generator_function H call f this args env0 depth =
     andThen (initialize_environment H call f this args env0) (\<lambda>env.
     andThen (new_generator (new_generator_frame f env depth)) (\<lambda>i.
     andThen (gets (\<lambda>s. length (async_generators s))) (\<lambda>a.
     andSeq (modify (\<lambda>s. s\<lparr>async_generators := async_generators s @
               [\<lparr> ag_generator = i, ag_queue = [], ag_active = None \<rparr>]\<rparr>))
     (andThen (prim H call (P_value_object []) []) (\<lambda>g.
     andSeq (set_method H call g ''next'' (AsyncGeneratorMethod a ResumeNext))
     (andSeq (set_method H call g ''return'' (AsyncGeneratorMethod a ResumeReturn))
     (andSeq (set_method H call g ''throw'' (AsyncGeneratorMethod a ResumeThrow))
     (andSeq (set_method H call g ''__w3cos_symbol_async_iterator'' (IterableSelf g))
     (ret g)))))))))"

end
