(* ===== verification/VMRun.thy ===== *)
theory VMRun
  imports VMAsyncGenerator
begin

text \<open>
  The whole machine: \<open>execute_function\<close>, the bodies of all closures the VM hands out, the knot
  between them and the core's calls, and the entry points \<open>run\<close>, \<open>run_with_bindings\<close>,
  \<open>run_with_cells\<close>, \<open>callable\<close> and \<open>invoke\<close>.

  \<open>call_closure n\<close> is the function by which the core calls a closure.  Its fuel bounds the depth of
  such calls nested in each other and the number of blocks of one frame's segment; \<open>NoFuel\<close> passes
  through everything, so a run that gets another outcome gets it for every larger fuel.
\<close>

subsection \<open>Functions\<close>

definition find_function :: "Module \<Rightarrow> FunctionId \<Rightarrow> Function option" where
  "find_function m i = find (\<lambda>f. function_id f = i) (module_functions m)"

definition execute_generator_function ::
  "'w Host \<Rightarrow> 'w caller \<Rightarrow> Function \<Rightarrow> Value \<Rightarrow> Value list \<Rightarrow> Environment \<Rightarrow> u32 \<Rightarrow>
     ('w, Value) action" where
  "execute_generator_function H call f this args captured depth =
     (if is_async f then execute_async_generator_function H call f this args captured depth
      else execute_sync_generator_function H call f this args captured depth)"

definition execute_sync_function ::
  "'w Host \<Rightarrow> Vm \<Rightarrow> nat \<Rightarrow> 'w caller \<Rightarrow> Function \<Rightarrow> Value \<Rightarrow> Value list \<Rightarrow> Environment \<Rightarrow> u32 \<Rightarrow>
     ('w, Value) action" where
  "execute_sync_function H vm n call f this args captured depth =
     andSeq (modify (\<lambda>s. s\<lparr>call_depth := depth + 1\<rparr>))
     (on_result (execute_frame H vm n call f this args captured) (\<lambda>r.
       andSeq (modify (\<lambda>s. s\<lparr>call_depth := depth\<rparr>)) (from_result r)))"

definition execute_function ::
  "'w Host \<Rightarrow> Vm \<Rightarrow> nat \<Rightarrow> 'w caller \<Rightarrow> FunctionId \<Rightarrow> Value \<Rightarrow> Value list \<Rightarrow> Environment \<Rightarrow>
     ('w, Value) action" where
  "execute_function H vm n call i this args captured = with_heap_scope vm (
     case find_function (vm_module vm) i of
       None \<Rightarrow> fail (VmMissingFunction i)
     | Some f \<Rightarrow> andThen (gets call_depth) (\<lambda>depth.
         if depth \<ge> max_call_depth (vm_limits vm) then fail CallDepthExceeded
         else andThen
           (if is_generator f then execute_generator_function H call f this args captured depth
            else if is_async f then execute_async_function H call f this args captured depth
            else execute_sync_function H vm n call f this args captured depth)
           (\<lambda>v. andSeq (check_heap_limit H vm) (ret v))))"

subsection \<open>Entry points\<close>

fun new_cells :: "(BindingId \<times> Value) list \<Rightarrow> Environment \<Rightarrow> ('w, Environment) action" where
  "new_cells [] env = ret env"
| "new_cells ((b, v) # bs) env =
     andThen (new_cell (binding_cell v)) (\<lambda>c. new_cells bs (env(b \<mapsto> c)))"

definition reset_invocation :: "Vm \<Rightarrow> ('w, unit) action" where
  "reset_invocation vm =
     andSeq (modify (\<lambda>s. s\<lparr>instruction_count := 0, call_depth := 0\<rparr>)) (reset_execution_budget vm)"

definition invoke ::
  "'w Host \<Rightarrow> Vm \<Rightarrow> nat \<Rightarrow> 'w caller \<Rightarrow> FunctionId \<Rightarrow> Value \<Rightarrow> Value list \<Rightarrow>
     (BindingId \<times> Value) list \<Rightarrow> ('w, Value) action" where
  "invoke H vm n call i this args bs = andSeq (reset_invocation vm)
     (andThen (new_cells bs Map.empty) (\<lambda>env. execute_function H vm n call i this args env))"

text \<open>
  \<^verbatim>\<open>Err(Thrown(value)) => throw_value(value)\<close> and \<^verbatim>\<open>Err(error) => throw_value(error.to_string())\<close>.
\<close>

definition throwing_errors :: "'w Host \<Rightarrow> ('w, Value) action \<Rightarrow> ('w, Value) action" where
  "throwing_errors H body = on_result body (\<lambda>r. case r of
     Ok v \<Rightarrow> ret v
   | Err e \<Rightarrow> unwind (PanicValue (error_value H e)))"

definition closure_body ::
  "'w Host \<Rightarrow> Vm \<Rightarrow> nat \<Rightarrow> 'w caller \<Rightarrow> Closure \<Rightarrow> Value \<Rightarrow> Value list \<Rightarrow> ('w, Value) action" where
  "closure_body H vm n call c this args = (case c of
     ClosureFunction i captured \<Rightarrow>
       throwing_errors H (execute_function H vm n call i this args captured)
   | CallableFunction i bs \<Rightarrow> throwing_errors H (invoke H vm n call i this args bs)
   | GeneratorMethod i kind \<Rightarrow>
       throwing_errors H (resume_generator_frame H vm n call i kind (first_argument args))
   | IterableSelf v \<Rightarrow> ret v
   | AsyncExecutor i \<Rightarrow> async_executor_body H vm n call i args
   | AwaitFulfilled i dst target resolve reject \<Rightarrow>
       await_settled_body H vm n call i dst target resolve reject args
   | AwaitRejected i dst target resolve reject \<Rightarrow>
       await_settled_body H vm n call i dst target resolve reject args
   | AsyncGeneratorMethod a kind \<Rightarrow> async_generator_enqueue H call a kind (first_argument args)
   | AsyncGeneratorExecutor a kind input \<Rightarrow> ag_executor_body H vm n call a kind input args
   | AgAwaitFulfilled a dst target \<Rightarrow> ag_await_settled_body H vm n call a dst target args
   | AgAwaitRejected a dst target \<Rightarrow> ag_await_settled_body H vm n call a dst target args
   | AgYieldFulfilled a suspension delegated \<Rightarrow>
       ag_yield_fulfilled_body H vm n call a suspension delegated args
   | AgYieldRejected a point \<Rightarrow> ag_yield_rejected_body H vm n call a point args
   | AgDelegateFulfilled a suspension action point \<Rightarrow>
       ag_delegate_fulfilled_body H vm n call a suspension action point args
   | AgDelegateRejected a point \<Rightarrow> ag_delegate_rejected_body H vm n call a point args
   | AgCompletionFulfilled a \<Rightarrow> ag_completion_fulfilled_body H vm n call a args
   | AgCompletionRejected a \<Rightarrow> ag_completion_rejected_body H vm n call a args)"

primrec call_closure :: "'w Host \<Rightarrow> Vm \<Rightarrow> nat \<Rightarrow> 'w caller" where
  "call_closure H vm 0 = (\<lambda>i this args. no_fuel)"
| "call_closure H vm (Suc n) = (\<lambda>i this args. andThen (fetch closures i) (\<lambda>c.
     closure_body H vm n (call_closure H vm n) c this args))"

definition run_with_cells ::
  "'w Host \<Rightarrow> Vm \<Rightarrow> nat \<Rightarrow> Environment \<Rightarrow> ('w, Value) action" where
  "run_with_cells H vm n env = andSeq (reset_invocation vm)
     (execute_function H vm n (call_closure H vm n) (module_entry (vm_module vm)) VUndefined [] env)"

definition run_with_bindings ::
  "'w Host \<Rightarrow> Vm \<Rightarrow> nat \<Rightarrow> (BindingId \<times> Value) list \<Rightarrow> ('w, Value) action" where
  "run_with_bindings H vm n bs =
     andThen (new_cells bs Map.empty) (run_with_cells H vm n)"

definition run :: "'w Host \<Rightarrow> Vm \<Rightarrow> nat \<Rightarrow> ('w, Value) action" where
  "run H vm n = run_with_bindings H vm n []"

definition callable ::
  "'w Host \<Rightarrow> Vm \<Rightarrow> FunctionId \<Rightarrow> (BindingId \<times> Value) list \<Rightarrow> ('w, Value) action" where
  "callable H vm i bs =
     (if \<not> (\<exists>f\<in>set (module_functions (vm_module vm)). function_id f = i)
      then fail (VmMissingFunction i)
      else new_function H (CallableFunction i bs))"

end
