(* ===== verification/VMContract.thy ===== *)
theory VMContract
  imports VMRun
begin

text \<open>
  Reasoning about actions.  \<open>wp c Q X s\<close> holds when \<open>c\<close> started in \<open>s\<close> ends with a value and state
  in \<open>Q\<close>, or with an error or panic and state in \<open>X\<close>; it says nothing about running out of fuel.
  The equations \<open>wp_simps\<close> take an action apart.

  The locale \<open>contract\<close> is the interface of every operation: an invariant \<open>I\<close>, a preorder \<open>R\<close> between
  the states before and after, and the errors and panics \<open>A\<close> that may come out.  The locale
  \<open>core_contract\<close> adds what the core may do, given that the closures it calls obey the contract.
\<close>

subsection \<open>Weakest preconditions\<close>

definition wp ::
  "('w, 'a) action \<Rightarrow> ('a \<Rightarrow> 'w VmState \<Rightarrow> bool) \<Rightarrow> (VmError + Panic \<Rightarrow> 'w VmState \<Rightarrow> bool) \<Rightarrow>
     'w VmState \<Rightarrow> bool" where
  "wp c Q X s = (case c s of
     (Val x, s') \<Rightarrow> Q x s'
   | (Fail e, s') \<Rightarrow> X (Inl e) s'
   | (Unwind p, s') \<Rightarrow> X (Inr p) s'
   | (NoFuel, s') \<Rightarrow> True)"

named_theorems wp_simps \<open>equations of wp\<close>

lemma wp_ret [wp_simps]: "wp (ret x) Q X s = Q x s"
  by (simp add: wp_def ret_def)

lemma wp_fail [wp_simps]: "wp (fail e) Q X s = X (Inl e) s"
  by (simp add: wp_def fail_def)

lemma wp_unwind [wp_simps]: "wp (unwind p) Q X s = X (Inr p) s"
  by (simp add: wp_def unwind_def)

lemma wp_no_fuel [wp_simps]: "wp no_fuel Q X s = True"
  by (simp add: wp_def no_fuel_def)

lemma wp_gets [wp_simps]: "wp (gets f) Q X s = Q (f s) s"
  by (simp add: wp_def gets_def)

lemma wp_modify [wp_simps]: "wp (modify f) Q X s = Q () (f s)"
  by (simp add: wp_def modify_def)

lemma wp_andThen [wp_simps]: "wp (andThen c f) Q X s = wp c (\<lambda>x. wp (f x) Q X) X s"
  by (simp add: wp_def andThen_def split: prod.split Outcome.split)

lemma wp_from_result [wp_simps]:
  "wp (from_result r) Q X s = (case r of Err e \<Rightarrow> X (Inl e) s | Ok x \<Rightarrow> Q x s)"
  by (cases r) (simp_all add: from_result_def wp_simps)

lemma wp_on_result [wp_simps]:
  "wp (on_result c f) Q X s =
     wp c (\<lambda>x. wp (f (Ok x)) Q X)
       (\<lambda>p s'. case p of Inl e \<Rightarrow> wp (f (Err e)) Q X s' | Inr p \<Rightarrow> X (Inr p) s') s"
  by (simp add: wp_def on_result_def split: prod.split Outcome.split)

lemma wp_catch_unwind [wp_simps]:
  "wp (catch_unwind c) Q X s =
     wp c (\<lambda>x. Q (Ok (Ok x)))
       (\<lambda>p s'. case p of Inl e \<Rightarrow> Q (Ok (Err e)) s' | Inr p \<Rightarrow> Q (Err p) s') s"
  by (simp add: wp_def catch_unwind_def split: prod.split Outcome.split)

lemma wp_fetch [wp_simps]:
  "wp (fetch tab i) Q X s =
     (if i < length (tab s) then Q (tab s ! i) s else X (Inr DanglingPanic) s)"
  by (simp add: wp_def fetch_def)

lemma wp_host_test [wp_simps]: "wp (host_test p) Q X s = Q (p (world s)) s"
  by (simp add: wp_def host_test_def)

lemma wp_now [wp_simps]:
  "wp (now H) Q X s = (case clock_now H (world s) of (t, w) \<Rightarrow> Q t (s\<lparr>world := w\<rparr>))"
  by (simp add: wp_def now_def split: prod.split)

lemma wp_new_function:
  "wp (new_function H c) Q X s =
     Q (VFunction (length (closures s)))
       (s\<lparr>closures := closures s @ [c], world := on_function H (length (closures s)) (world s)\<rparr>)"
  by (simp add: wp_def new_function_def)

lemma wp_new_cell:
  "wp (new_cell slot) Q X s = Q (length (cells s)) (s\<lparr>cells := cells s @ [slot]\<rparr>)"
  by (simp add: wp_def new_cell_def)

lemma wp_if [wp_simps]:
  "wp (if b then c else d) Q X s = (if b then wp c Q X s else wp d Q X s)"
  by simp

lemma wp_mono:
  "wp c Q X s \<Longrightarrow> (\<And>x s'. Q x s' \<Longrightarrow> Q' x s') \<Longrightarrow> (\<And>p s'. X p s' \<Longrightarrow> X' p s') \<Longrightarrow> wp c Q' X' s"
  by (auto simp: wp_def split: prod.splits Outcome.splits)

subsection \<open>Contracts\<close>

locale contract =
  fixes I :: "'w VmState \<Rightarrow> bool"
    and R :: "'w VmState \<Rightarrow> 'w VmState \<Rightarrow> bool"
    and A :: "VmError + Panic \<Rightarrow> bool"
  assumes R_refl: "R s s"
    and R_trans: "R s t \<Longrightarrow> R t u \<Longrightarrow> R s u"
begin

definition since :: "'w VmState \<Rightarrow> 'w VmState \<Rightarrow> bool" where
  "since s0 s \<longleftrightarrow> I s \<and> R s0 s"

definition keeps ::
  "('w VmState \<Rightarrow> bool) \<Rightarrow> ('w, 'a) action \<Rightarrow> ('a \<Rightarrow> 'w VmState \<Rightarrow> bool) \<Rightarrow> bool" where
  "keeps P c Q \<longleftrightarrow> (\<forall>s. I s \<longrightarrow> P s \<longrightarrow>
     wp c (\<lambda>x s'. since s s' \<and> Q x s') (\<lambda>p s'. since s s' \<and> A p) s)"

lemma keepsI:
  assumes "\<And>s. since s s \<Longrightarrow> P s \<Longrightarrow>
     wp c (\<lambda>x s'. since s s' \<and> Q x s') (\<lambda>p s'. since s s' \<and> A p) s"
  shows "keeps P c Q"
  using assms by (simp add: keeps_def since_def R_refl)

lemma keeps_use:
  assumes "keeps P c Q" "since s0 s" "P s"
    and "\<And>x s'. since s0 s' \<Longrightarrow> R s s' \<Longrightarrow> Q x s' \<Longrightarrow> Q' x s'"
    and "\<And>p s'. since s0 s' \<Longrightarrow> R s s' \<Longrightarrow> A p \<Longrightarrow> X p s'"
  shows "wp c Q' X s"
proof (rule wp_mono)
  show "wp c (\<lambda>x s'. since s s' \<and> Q x s') (\<lambda>p s'. since s s' \<and> A p) s"
    using assms(1-3) by (auto simp: keeps_def since_def)
next
  fix x s'
  assume "since s s' \<and> Q x s'"
  then show "Q' x s'"
    using assms(2) by (intro assms(4)) (auto simp: since_def intro: R_trans)
next
  fix p s'
  assume "since s s' \<and> A p"
  then show "X p s'"
    using assms(2) by (intro assms(5)) (auto simp: since_def intro: R_trans)
qed

lemma keeps_weaken:
  "keeps P c Q \<Longrightarrow> (\<And>s. P' s \<Longrightarrow> P s) \<Longrightarrow> (\<And>x s. Q x s \<Longrightarrow> Q' x s) \<Longrightarrow> keeps P' c Q'"
  by (rule keepsI) (auto elim!: keeps_use)

lemma keeps_ret: "keeps (\<lambda>s. Q x s) (ret x) Q"
  by (rule keepsI) (simp add: wp_simps)

lemma keeps_map_action:
  assumes "\<And>x. x \<in> set xs \<Longrightarrow> keeps (\<lambda>_. True) (f x) (\<lambda>_ _. True)"
  shows "keeps (\<lambda>_. True) (map_action f xs) (\<lambda>ys _. length ys = length xs)"
  using assms
proof (induction xs)
  case Nil
  show ?case by (rule keepsI) (simp add: wp_simps)
next
  case (Cons x xs)
  show ?case
    by (rule keepsI) (auto simp: wp_simps intro!: Cons.prems[THEN keeps_use] Cons.IH[OF Cons.prems, THEN keeps_use])
qed

lemma keeps_each_action:
  assumes "\<And>x. x \<in> set xs \<Longrightarrow> keeps (\<lambda>_. True) (f x) (\<lambda>_ _. True)"
  shows "keeps (\<lambda>_. True) (each_action f xs) (\<lambda>_ _. True)"
  using assms
proof (induction xs)
  case Nil
  show ?case by (rule keepsI) (simp add: wp_simps)
next
  case (Cons x xs)
  show ?case
    by (rule keepsI) (auto simp: wp_simps intro!: Cons.prems[THEN keeps_use] Cons.IH[OF Cons.prems, THEN keeps_use])
qed

end

subsection \<open>What the core may do\<close>

locale core_contract = contract I R A
  for I :: "'w VmState \<Rightarrow> bool" and R and A +
  fixes H :: "'w Host" and call :: "'w caller"
  assumes I_world: "I s \<Longrightarrow> I (s\<lparr>world := w\<rparr>)"
    and R_world: "R s (s\<lparr>world := w\<rparr>)"
    and I_cells: "I s \<Longrightarrow> I (s\<lparr>cells := cs\<rparr>)"
    and R_cells: "R s (s\<lparr>cells := cs\<rparr>)"
    and A_throw: "A (Inr (PanicValue v))"
    and A_core: "A (Inr CorePanic)"
    and A_dangling: "A (Inr DanglingPanic)"
    and A_reference: "A (Inl (ReferenceError msg))"
    and A_thrown: "A (Inl (Thrown v))"
    and call_keeps: "keeps (\<lambda>_. True) (call i this args) (\<lambda>_ _. True)"
begin

lemma since_world: "since s0 s \<Longrightarrow> since s0 (s\<lparr>world := w\<rparr>)"
  by (auto simp: since_def intro: I_world R_world R_trans)

lemma since_cells: "since s0 s \<Longrightarrow> since s0 (s\<lparr>cells := cs\<rparr>)"
  by (auto simp: since_def intro: I_cells R_cells R_trans)

lemma keeps_run_act: "keeps (\<lambda>_. True) (run_act call act) (\<lambda>_ _. True)"
proof (induction act)
  case (ActDone v w)
  show ?case by (rule keepsI) (simp add: wp_def since_world)
next
  case (ActThrow v w)
  show ?case by (rule keepsI) (simp add: wp_def since_world A_throw)
next
  case (ActPanic w)
  show ?case by (rule keepsI) (simp add: wp_def since_world A_core)
next
  case (ActCall c this args w k)
  have step: "wp (run_act call (ActCall c this args w k)) Q X s =
      wp (call c this args) (\<lambda>v s'. wp (run_act call (k (Ok v) (world s'))) Q X s')
        (\<lambda>p s'. case p of Inl e \<Rightarrow> X (Inl e) s' | Inr p \<Rightarrow> wp (run_act call (k (Err p) (world s'))) Q X s')
        (s\<lparr>world := w\<rparr>)" for Q X and s :: "'w VmState"
    by (simp add: wp_def split: prod.split Outcome.split)
  have k: "keeps (\<lambda>_. True) (run_act call (k r v)) (\<lambda>_ _. True)" for r v
    by (rule ActCall.IH[of "k r"]) simp_all
  show ?case
    by (rule keepsI)
      (auto simp del: run_act.simps simp add: step intro!: call_keeps[THEN keeps_use] k[THEN keeps_use] since_world
        split: sum.split)
qed

lemma keeps_prim: "keeps (\<lambda>_. True) (prim H call op args) (\<lambda>_ _. True)"
proof (rule keepsI)
  fix s
  have "wp (prim H call op args) Q X s = wp (run_act call (prim_op H op args (world s))) Q X s" for Q X
    by (simp add: wp_def prim_def)
  then show "since s s \<Longrightarrow>
      wp (prim H call op args) (\<lambda>x s'. since s s' \<and> True) (\<lambda>p s'. since s s' \<and> A p) s"
    by (auto intro!: keeps_run_act[THEN keeps_use])
qed

lemma keeps_now: "keeps (\<lambda>_. True) (now H) (\<lambda>_ _. True)"
  by (rule keepsI) (auto simp: wp_simps since_world split: prod.split)

lemma keeps_new_cell: "keeps (\<lambda>_. True) (new_cell slot) (\<lambda>_ _. True)"
  by (rule keepsI) (simp add: wp_new_cell since_cells)

lemma keeps_update_cell: "keeps (\<lambda>_. True) (update_cell c f) (\<lambda>_ _. True)"
  by (rule keepsI) (simp add: wp_simps update_cell_def since_cells A_dangling)

lemmas core_use = keeps_prim[THEN keeps_use] keeps_now[THEN keeps_use] keeps_new_cell[THEN keeps_use]
  keeps_update_cell[THEN keeps_use]

lemma keeps_slot_read_value: "keeps (\<lambda>_. True) (slot_read_value H call slot) (\<lambda>_ _. True)"
  by (rule keepsI) (auto simp: slot_read_value_def wp_simps intro!: core_use split: option.split)

lemma keeps_cell_read: "keeps (\<lambda>_. True) (cell_read H call c name) (\<lambda>_ _. True)"
  by (rule keepsI)
    (auto simp: cell_read_def wp_simps A_dangling A_reference
      intro!: keeps_slot_read_value[THEN keeps_use])

lemma keeps_cell_initialize: "keeps (\<lambda>_. True) (cell_initialize H call c v) (\<lambda>_ _. True)"
  by (rule keepsI)
    (auto simp: cell_initialize_def wp_simps A_dangling intro!: core_use split: option.split)

lemma keeps_throw_type_error: "keeps (\<lambda>_. True) (throw_type_error H call msg) (\<lambda>_ _. True)"
  by (rule keepsI) (auto simp: throw_type_error_def wp_simps A_thrown intro!: core_use)

lemma keeps_cell_store: "keeps (\<lambda>_. True) (cell_store H call c name v) (\<lambda>_ _. True)"
  by (rule keepsI)
    (auto simp: cell_store_def wp_simps A_dangling A_reference
      intro!: core_use keeps_throw_type_error[THEN keeps_use] split: option.split)

lemma keeps_env_cell: "b \<in> dom env \<Longrightarrow> keeps (\<lambda>_. True) (env_cell env b) (\<lambda>_ _. True)"
  by (rule keepsI) (auto simp: env_cell_def wp_simps)

lemma keeps_declare_bindings:
  "keeps (\<lambda>_. True) (declare_bindings bs env)
     (\<lambda>env' _. dom env' = dom env \<union> binding_id ` set bs)"
proof (induction bs arbitrary: env)
  case Nil
  show ?case by (rule keepsI) (simp add: wp_simps)
next
  case (Cons b bs)
  show ?case
    by (rule keepsI)
      (auto simp: wp_simps set_eq_iff domIff intro!: core_use Cons.IH[THEN keeps_use]
        split: if_splits; blast)
qed

lemma keeps_initialize_binding:
  "b \<in> dom env \<Longrightarrow> keeps (\<lambda>_. True) (initialize_binding H call env b v) (\<lambda>_ _. True)"
  by (rule keepsI)
    (auto simp: initialize_binding_def wp_simps
      intro!: keeps_env_cell[THEN keeps_use] keeps_cell_initialize[THEN keeps_use])

lemma keeps_binary_op: "keeps (\<lambda>_. True) (binary_op H call operator l r) (\<lambda>_ _. True)"
  by (rule keepsI) (cases operator; auto simp: binary_op_def Let_def wp_simps intro!: core_use)

end

end
