(* ===== verification/VMInvariant.thy ===== *)
theory VMInvariant
  imports VMContract
begin

text \<open>
  The contract of the virtual machine for a validated module.  The invariant says that closures,
  generator frames, async frames and async generators refer to functions, blocks, registers and
  bindings that exist, that the instruction count is within its limit and that the wall clock runs
  exactly while a segment is open.  The preorder says what survives every operation: frames keep
  their function, the heap owner is restored and, unless the embedder made a \<open>callable\<close>, segments
  stay balanced, the time allowance only shrinks and the instruction count only grows.  The allowed
  errors are those a valid program can meet: none of them is a missing function, block or binding,
  or an instruction that no driver handles, and no panic is a register out of bounds.
\<close>

subsection \<open>Definitions\<close>

definition module_function :: "Vm \<Rightarrow> Function \<Rightarrow> bool" where
  "module_function vm f \<longleftrightarrow> f \<in> set (module_functions (vm_module vm))"

definition ag_function :: "'w VmState \<Rightarrow> nat \<Rightarrow> Function" where
  "ag_function s a = gen_function (generators s ! ag_generator (async_generators s ! a))"

definition closure_ok :: "Vm \<Rightarrow> 'w VmState \<Rightarrow> Closure \<Rightarrow> bool" where
  "closure_ok vm s c = (case c of
     ClosureFunction i env \<Rightarrow>
       \<exists>f. module_function vm f \<and> function_id f = i \<and> set (captures f) \<subseteq> dom env
   | CallableFunction i bs \<Rightarrow>
       \<exists>f. module_function vm f \<and> function_id f = i \<and> set (captures f) \<subseteq> fst ` set bs
   | GeneratorMethod i _ \<Rightarrow> i < length (generators s) \<and> \<not> is_async (gen_function (generators s ! i))
   | AwaitFulfilled i dst target _ _ \<Rightarrow> i < length (async_frames s) \<and>
       wf_register (async_function (async_frames s ! i)) dst \<and>
       target \<in> block_ids (async_function (async_frames s ! i))
   | AwaitRejected i dst target _ _ \<Rightarrow> i < length (async_frames s) \<and>
       wf_register (async_function (async_frames s ! i)) dst \<and>
       target \<in> block_ids (async_function (async_frames s ! i))
   | AgAwaitFulfilled a dst target \<Rightarrow> a < length (async_generators s) \<and>
       wf_register (ag_function s a) dst \<and> target \<in> block_ids (ag_function s a)
   | AgAwaitRejected a dst target \<Rightarrow> a < length (async_generators s) \<and>
       wf_register (ag_function s a) dst \<and> target \<in> block_ids (ag_function s a)
   | AgYieldFulfilled a suspension _ \<Rightarrow> a < length (async_generators s) \<and>
       suspension \<in> generator_suspension_ids (ag_function s a)
   | AgYieldRejected a point \<Rightarrow> a < length (async_generators s) \<and>
       point \<in> set (generator_suspension_points (ag_function s a))
   | AgDelegateFulfilled a suspension _ point \<Rightarrow> a < length (async_generators s) \<and>
       suspension \<in> generator_suspension_ids (ag_function s a) \<and>
       point \<in> set (generator_suspension_points (ag_function s a))
   | AgDelegateRejected a point \<Rightarrow> a < length (async_generators s) \<and>
       point \<in> set (generator_suspension_points (ag_function s a))
   | AsyncExecutor i \<Rightarrow> i < length (async_frames s)
   | AsyncGeneratorMethod a _ \<Rightarrow> a < length (async_generators s)
   | AsyncGeneratorExecutor a _ _ \<Rightarrow> a < length (async_generators s)
   | AgCompletionFulfilled a \<Rightarrow> a < length (async_generators s)
   | AgCompletionRejected a \<Rightarrow> a < length (async_generators s)
   | IterableSelf _ \<Rightarrow> True)"

definition suspended_at :: "GeneratorState \<Rightarrow> SuspensionId set" where
  "suspended_at st = (case st of SuspendedYield p \<Rightarrow> {p} | SuspendedDelegate p \<Rightarrow> {p} | _ \<Rightarrow> {})"

definition generator_ok :: "Vm \<Rightarrow> GeneratorFrame \<Rightarrow> bool" where
  "generator_ok vm g \<longleftrightarrow>
     module_function vm (gen_function g) \<and> is_generator (gen_function g) \<and>
     length (gen_registers g) = unat (registers (gen_function g)) \<and>
     accessible_bindings (gen_function g) \<subseteq> dom (gen_environment g) \<and>
     gen_block g \<in> block_ids (gen_function g) \<and>
     suspended_at (gen_state g) \<subseteq> generator_suspension_ids (gen_function g)"

definition async_ok :: "Vm \<Rightarrow> AsyncFrame \<Rightarrow> bool" where
  "async_ok vm a \<longleftrightarrow>
     module_function vm (async_function a) \<and> is_async (async_function a) \<and>
     \<not> is_generator (async_function a) \<and>
     length (async_registers a) = unat (registers (async_function a)) \<and>
     accessible_bindings (async_function a) \<subseteq> dom (async_environment a) \<and>
     async_block a \<in> block_ids (async_function a)"

definition ag_ok :: "'w VmState \<Rightarrow> AsyncGeneratorFrame \<Rightarrow> bool" where
  "ag_ok s x \<longleftrightarrow> ag_generator x < length (generators s) \<and>
     is_async (gen_function (generators s ! ag_generator x))"

definition budget_ok :: "Vm \<Rightarrow> 'w VmState \<Rightarrow> bool" where
  "budget_ok vm s \<longleftrightarrow> instruction_count s \<le> max_instructions (vm_limits vm) \<and>
     (nesting (execution_budget s) = 0 \<longleftrightarrow> active_since (execution_budget s) = None)"

definition vm_inv :: "Vm \<Rightarrow> 'w VmState \<Rightarrow> bool" where
  "vm_inv vm s \<longleftrightarrow> wf_module (vm_module vm) \<and>
     (\<forall>c\<in>set (closures s). closure_ok vm s c) \<and>
     (\<forall>g\<in>set (generators s). generator_ok vm g) \<and>
     (\<forall>a\<in>set (async_frames s). async_ok vm a) \<and>
     (\<forall>x\<in>set (async_generators s). ag_ok s x) \<and>
     budget_ok vm s"

definition no_callables :: "'w VmState \<Rightarrow> bool" where
  "no_callables s \<longleftrightarrow> (\<forall>c\<in>set (closures s). \<forall>i bs. c \<noteq> CallableFunction i bs)"

definition allowance_le :: "nat option \<Rightarrow> nat option \<Rightarrow> bool" where
  "allowance_le x y = (case (x, y) of
     (None, None) \<Rightarrow> True | (Some m, Some n) \<Rightarrow> m \<le> n | _ \<Rightarrow> False)"

definition same_frames :: "'w VmState \<Rightarrow> 'w VmState \<Rightarrow> bool" where
  "same_frames s t \<longleftrightarrow>
     length (generators s) \<le> length (generators t) \<and>
     (\<forall>i<length (generators s). gen_function (generators t ! i) = gen_function (generators s ! i)) \<and>
     length (async_frames s) \<le> length (async_frames t) \<and>
     (\<forall>i<length (async_frames s).
        async_function (async_frames t ! i) = async_function (async_frames s ! i)) \<and>
     length (async_generators s) \<le> length (async_generators t) \<and>
     (\<forall>i<length (async_generators s).
        ag_generator (async_generators t ! i) = ag_generator (async_generators s ! i))"

definition balanced :: "'w VmState \<Rightarrow> 'w VmState \<Rightarrow> bool" where
  "balanced s t \<longleftrightarrow> no_callables t \<and>
     nesting (execution_budget t) = nesting (execution_budget s) \<and>
     allowance_le (remaining (execution_budget t)) (remaining (execution_budget s)) \<and>
     instruction_count s \<le> instruction_count t"

definition sync_module :: "Vm \<Rightarrow> bool" where
  "sync_module vm \<longleftrightarrow> (\<forall>f. module_function vm f \<longrightarrow> \<not> is_async f \<and> \<not> is_generator f)"

definition function_closure :: "Closure \<Rightarrow> bool" where
  "function_closure c = (case c of ClosureFunction _ _ \<Rightarrow> True | _ \<Rightarrow> False)"

definition sync_run :: "Vm \<Rightarrow> 'w VmState \<Rightarrow> bool" where
  "sync_run vm s \<longleftrightarrow> sync_module vm \<and> (\<forall>c\<in>set (closures s). function_closure c)"

text \<open>The closures the VM makes while it runs.\<close>

definition vm_closure :: "Vm \<Rightarrow> Closure \<Rightarrow> bool" where
  "vm_closure vm c \<longleftrightarrow> (\<forall>i bs. c \<noteq> CallableFunction i bs) \<and> (sync_module vm \<longrightarrow> function_closure c)"

definition vm_grows :: "Vm \<Rightarrow> 'w VmState \<Rightarrow> 'w VmState \<Rightarrow> bool" where
  "vm_grows vm s t \<longleftrightarrow> same_frames s t \<and> current_owner t = current_owner s \<and>
     (sync_run vm s \<longrightarrow> sync_run vm t \<and> call_depth s \<le> call_depth t) \<and>
     (no_callables s \<longrightarrow> balanced s t)"

definition allowed_error :: "VmError \<Rightarrow> bool" where
  "allowed_error e = (case e of
     InvalidModule _ \<Rightarrow> False
   | VmMissingFunction _ \<Rightarrow> False
   | VmMissingBlock _ _ \<Rightarrow> False
   | VmMissingBinding _ \<Rightarrow> False
   | Unsupported what \<Rightarrow> what = ''DynamicImport'' \<or> what = ''missing delegated iterator''
   | _ \<Rightarrow> True)"

definition allowed :: "VmError + Panic \<Rightarrow> bool" where
  "allowed p = (case p of Inl e \<Rightarrow> allowed_error e | Inr panic \<Rightarrow> panic \<noteq> IndexPanic)"

subsection \<open>The contract\<close>

lemma allowance_le_refl [simp]: "allowance_le x x"
  by (cases x) (simp_all add: allowance_le_def)

lemma allowance_le_trans [trans]: "allowance_le x y \<Longrightarrow> allowance_le y z \<Longrightarrow> allowance_le x z"
  by (auto simp: allowance_le_def split: option.splits)

lemma same_frames_refl: "same_frames s s"
  by (simp add: same_frames_def)

lemma same_frames_trans: "same_frames s t \<Longrightarrow> same_frames t u \<Longrightarrow> same_frames s u"
  by (simp add: same_frames_def)

lemma balanced_trans: "balanced s t \<Longrightarrow> balanced t u \<Longrightarrow> balanced s u"
  unfolding balanced_def by (auto intro: allowance_le_trans)

lemma vm_closure_simps [simp]:
  "vm_closure vm (ClosureFunction i env)"
  "\<not> sync_module vm \<Longrightarrow> vm_closure vm c \<longleftrightarrow> (\<forall>i bs. c \<noteq> CallableFunction i bs)"
  by (simp_all add: vm_closure_def function_closure_def)

lemma sync_run_no_callables: "sync_run vm s \<Longrightarrow> no_callables s"
  by (auto simp: sync_run_def no_callables_def function_closure_def)

lemma not_sync_module:
  "module_function vm f \<Longrightarrow> is_async f \<or> is_generator f \<Longrightarrow> \<not> sync_module vm"
  by (auto simp: sync_module_def)

lemma vm_grows_refl: "vm_grows vm s s"
  by (simp add: vm_grows_def same_frames_refl balanced_def)

lemma vm_grows_trans: "vm_grows vm s t \<Longrightarrow> vm_grows vm t u \<Longrightarrow> vm_grows vm s u"
  unfolding vm_grows_def
  by (auto intro: same_frames_trans balanced_trans) (auto simp: balanced_def intro: allowance_le_trans)

interpretation vm: contract "vm_inv vm" "vm_grows vm" allowed for vm
  by unfold_locales (rule vm_grows_refl, erule vm_grows_trans, assumption)

lemma same_frames_closure_ok: "same_frames s t \<Longrightarrow> \<forall>x\<in>set (async_generators s). ag_ok s x \<Longrightarrow>
    closure_ok vm s c \<Longrightarrow> closure_ok vm t c"
proof -
  assume grows: "same_frames s t" and ags: "\<forall>x\<in>set (async_generators s). ag_ok s x"
    and ok: "closure_ok vm s c"
  have ag: "ag_function t a = ag_function s a \<and> a < length (async_generators t)"
    if "a < length (async_generators s)" for a
    using grows ags that by (auto simp: ag_function_def same_frames_def ag_ok_def all_set_conv_all_nth)
  show "closure_ok vm t c"
    using ok grows ag by (cases c) (auto simp: closure_ok_def same_frames_def)
qed

lemma same_frames_ag_ok: "same_frames s t \<Longrightarrow> ag_ok s x \<Longrightarrow> ag_ok t x"
  by (auto simp: same_frames_def ag_ok_def)

end
