(* ===== verification/VMSound.thy ===== *)
theory VMSound
  imports VMInvariant
begin

text \<open>
  Every operation of a synchronous frame keeps the contract of \<open>VMInvariant\<close>, given that the
  closures called by the core do.
\<close>

subsection \<open>Updates that keep the invariant\<close>

lemma closure_ok_tables:
  assumes "generators t = generators s" "async_frames t = async_frames s"
    "async_generators t = async_generators s"
  shows "closure_ok vm t c = closure_ok vm s c"
  using assms by (cases c) (simp_all add: closure_ok_def ag_function_def)

lemma ag_ok_tables: "generators t = generators s \<Longrightarrow> ag_ok t x = ag_ok s x"
  by (simp add: ag_ok_def)

lemma vm_inv_tables:
  assumes "vm_inv vm s" "budget_ok vm t"
    and "generators t = generators s" "async_frames t = async_frames s"
    and "async_generators t = async_generators s" "closures t = closures s"
  shows "vm_inv vm t"
  using assms by (simp add: vm_inv_def closure_ok_tables[OF assms(3-5)] ag_ok_tables[OF assms(3)])

lemma vm_inv_budget: "vm_inv vm s \<Longrightarrow> budget_ok vm s"
  by (simp add: vm_inv_def)

lemma vm_grows_tables:
  assumes "generators t = generators s" "async_frames t = async_frames s"
    and "async_generators t = async_generators s" "closures t = closures s"
    and "current_owner t = current_owner s" "execution_budget t = execution_budget s"
    and "instruction_count s \<le> instruction_count t" "call_depth s \<le> call_depth t"
  shows "vm_grows vm s t"
  using assms by (simp add: vm_grows_def same_frames_def balanced_def no_callables_def sync_run_def)

lemma allowed_simps [simp]:
  "allowed (Inl e) = allowed_error e" "allowed (Inr p) \<longleftrightarrow> p \<noteq> IndexPanic"
  by (simp_all add: allowed_def)

lemma allowed_error_simps [simp]:
  "allowed_error (ReferenceError msg)" "allowed_error (Thrown v)" "allowed_error HostPanic"
  "allowed_error Cancelled" "allowed_error (HeapLimitExceeded u l)" "allowed_error WallClockLimitExceeded"
  "allowed_error InstructionLimitExceeded" "allowed_error CallDepthExceeded"
  "allowed_error (Unsupported ''DynamicImport'')"
  "allowed_error (Unsupported ''missing delegated iterator'')"
  "\<not> allowed_error (VmMissingFunction i)" "\<not> allowed_error (VmMissingBlock i b)"
  "\<not> allowed_error (VmMissingBinding x)"
  by (simp_all add: allowed_error_def)

lemma unat_saturating_succ: "n \<noteq> - 1 \<Longrightarrow> unat (saturating_succ n) = Suc (unat n)"
  by (simp add: saturating_succ_def unat_inc)

lemma saturating_succ_le: "n \<le> saturating_succ n"
  by (cases "n = - 1") (simp add: saturating_succ_def, simp add: word_le_nat_alt unat_saturating_succ)

subsection \<open>Frames\<close>

definition frame_ok :: "Function \<Rightarrow> FrameState \<Rightarrow> bool" where
  "frame_ok f fs \<longleftrightarrow> length (fst fs) = unat (registers f) \<and> accessible_bindings f \<subseteq> dom (snd fs)"

definition control_ok :: "Function \<Rightarrow> Instruction \<Rightarrow> Control \<Rightarrow> bool" where
  "control_ok f i c \<longleftrightarrow>
     (\<forall>t. c = JumpTo t \<longrightarrow> t \<in> block_ids f) \<and> (c = Continue \<longrightarrow> \<not> is_terminator i)"

lemma capture_cells_Ok:
  "set bs \<subseteq> dom env \<Longrightarrow> \<exists>captured. capture_cells env bs = Ok captured \<and> dom captured = set bs"
proof (induction bs)
  case Nil
  show ?case by simp
next
  case (Cons b bs)
  then obtain captured c where "capture_cells env bs = Ok captured" "dom captured = set bs" "env b = Some c"
    by auto
  then show ?case by simp
qed

lemma wf_module_bindings:
  assumes "wf_module m" "f \<in> set (module_functions m)"
  shows "wf_function m f"
  using assms by (simp add: wf_module_def)

subsection \<open>Budget and registers\<close>

locale vm_contract = core_contract "vm_inv vm" "vm_grows vm" allowed H call
  for vm :: Vm and H :: "'w Host" and call :: "'w caller"
begin

lemma since_inv: "since s0 s \<Longrightarrow> vm_inv vm s"
  by (simp add: since_def)

lemma since_tables:
  assumes "since s0 s" "budget_ok vm t" "generators t = generators s"
    and "async_frames t = async_frames s" "async_generators t = async_generators s"
    and "closures t = closures s" "current_owner t = current_owner s"
    and "execution_budget t = execution_budget s" "instruction_count s \<le> instruction_count t"
    and "call_depth s \<le> call_depth t"
  shows "since s0 t"
  using assms
  by (auto simp: since_def elim!: vm_inv_tables intro!: vm_grows_tables vm_grows_trans[of vm s0 s t])

lemma keeps_check_heap_limit: "keeps (\<lambda>_. True) (check_heap_limit H vm) (\<lambda>_ _. True)"
  by (rule keepsI) (simp add: wp_def check_heap_limit_def Let_def split: option.split)

lemma since_count:
  assumes "since s0 s" "saturating_succ (instruction_count s) \<le> max_instructions (vm_limits vm)"
  shows "since s0 (s\<lparr>instruction_count := saturating_succ (instruction_count s)\<rparr>)"
  by (rule since_tables[OF assms(1)])
    (use assms(2) since_inv[OF assms(1), THEN vm_inv_budget] in
      \<open>simp_all add: budget_ok_def saturating_succ_le\<close>)

lemma keeps_wall_time_exhausted: "keeps (\<lambda>_. True) (wall_time_exhausted H) (\<lambda>_ _. True)"
  by (rule keepsI)
    (auto simp: wall_time_exhausted_def wp_simps intro!: since_world split: option.split)

lemma keeps_consume_instruction: "keeps (\<lambda>_. True) (consume_instruction H vm) (\<lambda>_ _. True)"
  by (rule keepsI)
    (auto simp: consume_instruction_def wp_simps linorder_not_less
      intro!: keeps_check_heap_limit[THEN keeps_use] keeps_wall_time_exhausted[THEN keeps_use]
        since_count)

lemma keeps_read_register:
  "unat (reg_no r) < length regs \<Longrightarrow> keeps (\<lambda>_. True) (read_register regs r) (\<lambda>_ _. True)"
  by (rule keepsI) (simp add: read_register_def wp_simps)

lemma keeps_read_registers:
  "\<forall>r\<in>set rs. unat (reg_no r) < length regs \<Longrightarrow>
   keeps (\<lambda>_. True) (read_registers regs rs) (\<lambda>vs _. length vs = length rs)"
  by (simp add: read_registers_def keeps_map_action keeps_read_register)

lemma keeps_write_register:
  "unat (reg_no r) < length regs \<Longrightarrow>
   keeps (\<lambda>_. True) (write_register regs r v) (\<lambda>regs' _. length regs' = length regs)"
  by (rule keepsI) (simp add: write_register_def wp_simps)

subsection \<open>Instructions\<close>

lemma since_new_function:
  assumes "since s0 s" "closure_ok vm s c" "vm_closure vm c"
  shows "since s0 (s\<lparr>closures := closures s @ [c], world := w\<rparr>)"
proof -
  let ?t = "s\<lparr>closures := closures s @ [c], world := w\<rparr>"
  have "closure_ok vm ?t c' = closure_ok vm s c'" for c'
    by (rule closure_ok_tables) simp_all
  moreover have "ag_ok ?t x = ag_ok s x" for x
    by (rule ag_ok_tables) simp
  moreover have "vm_inv vm s"
    by (rule since_inv[OF assms(1)])
  ultimately have "vm_inv vm ?t"
    using assms(2) by (auto simp: vm_inv_def budget_ok_def)
  moreover have "vm_grows vm s ?t"
    using assms(3)
    by (auto simp: vm_grows_def same_frames_def balanced_def no_callables_def sync_run_def vm_closure_def)
  ultimately show ?thesis
    using assms(1) by (auto simp: since_def intro: vm_grows_trans)
qed

lemma keeps_new_function:
  "keeps (\<lambda>s. closure_ok vm s c \<and> vm_closure vm c) (new_function H c) (\<lambda>_ _. True)"
  by (rule keepsI) (simp add: wp_new_function since_new_function)

lemma frame_register: "frame_ok f fs \<Longrightarrow> wf_register f r \<Longrightarrow> unat (reg_no r) < length (fst fs)"
  by (simp add: frame_ok_def wf_register_def word_less_nat_alt)

lemma frame_binding: "frame_ok f fs \<Longrightarrow> b \<in> accessible_bindings f \<Longrightarrow> \<exists>c. snd fs b = Some c"
  by (auto simp: frame_ok_def)

lemma keeps_store_result:
  "frame_ok f fs \<Longrightarrow> wf_register f dst \<Longrightarrow>
   keeps (\<lambda>_. True) (store_result fs dst v) (\<lambda>r _. frame_ok f (snd r) \<and> fst r = Continue)"
  by (rule keepsI; frule (1) frame_register)
    (auto simp: store_result_def wp_simps frame_ok_def split: prod.split
      intro!: keeps_write_register[THEN keeps_use])

lemma keeps_compute:
  "frame_ok f fs \<Longrightarrow> wf_register f dst \<Longrightarrow> \<forall>r\<in>set rs. wf_register f r \<Longrightarrow>
   keeps (\<lambda>_. True) (compute H call op rs fs dst)
     (\<lambda>r _. frame_ok f (snd r) \<and> fst r = Continue)"
  by (rule keepsI)
    (auto simp: compute_def wp_simps frame_register
      intro!: keeps_read_registers[THEN keeps_use] keeps_prim[THEN keeps_use]
        keeps_store_result[THEN keeps_use])

lemma keeps_perform:
  "frame_ok f fs \<Longrightarrow> \<forall>r\<in>set rs. wf_register f r \<Longrightarrow>
   keeps (\<lambda>_. True) (perform H call op rs fs) (\<lambda>r _. frame_ok f (snd r) \<and> fst r = Continue)"
  by (rule keepsI)
    (auto simp: perform_def wp_simps frame_register
      intro!: keeps_read_registers[THEN keeps_use] keeps_prim[THEN keeps_use])

end

context vm_contract
begin

lemma keeps_refresh_binding:
  "frame_ok f fs \<Longrightarrow> b \<in> accessible_bindings f \<Longrightarrow>
   keeps (\<lambda>_. True) (refresh_binding H vm call b fs)
     (\<lambda>r _. frame_ok f (snd r) \<and> fst r = Continue)"
  by (rule keepsI; frule (1) frame_binding)
    (auto simp: refresh_binding_def wp_simps A_dangling frame_ok_def split: prod.split
      intro!: keeps_env_cell[THEN keeps_use] keeps_cell_read[THEN keeps_use]
        keeps_new_cell[THEN keeps_use]; blast dest: subsetD)

lemma keeps_create_closure:
  assumes "frame_ok f fs" "wf_register f dst" "set bs \<subseteq> accessible_bindings f"
    and "\<exists>h\<in>set (module_functions (vm_module vm)). function_id h = target \<and> captures h = bs"
  shows "keeps (\<lambda>_. True) (create_closure H target bs fs dst)
    (\<lambda>r _. frame_ok f (snd r) \<and> fst r = Continue)"
proof -
  have "set bs \<subseteq> dom (snd fs)"
    using assms(1,3) by (auto simp: frame_ok_def)
  from capture_cells_Ok[OF this] obtain captured
    where captured: "capture_cells (snd fs) bs = Ok captured" "dom captured = set bs"
    by blast
  have "closure_ok vm s (ClosureFunction target captured)" for s
    using assms(4) captured(2) by (auto simp: closure_ok_def module_function_def)
  then show ?thesis
    by (intro keepsI)
      (auto simp: create_closure_def wp_simps captured(1)
        intro!: keeps_new_function[THEN keeps_use] keeps_store_result[OF assms(1,2), THEN keeps_use])
qed

lemma keeps_create_class:
  assumes "frame_ok f fs" "wf_register f dst" "wf_register f c"
    and "\<forall>r\<in>set_option super \<union> set_option init. wf_register f r"
  shows "keeps (\<lambda>_. True) (create_class H call c super init fs dst)
    (\<lambda>r _. frame_ok f (snd r) \<and> fst r = Continue)"
  using assms
  by (intro keepsI)
    (auto simp: create_class_def wp_simps frame_register split: option.split
      intro!: keeps_read_register[THEN keeps_use] keeps_read_registers[THEN keeps_use]
        keeps_prim[THEN keeps_use] keeps_store_result[THEN keeps_use])

lemma keeps_call_function:
  "frame_ok f fs \<Longrightarrow> wf_register f dst \<Longrightarrow> wf_register f a \<Longrightarrow> wf_register f b \<Longrightarrow> \<forall>r\<in>set args. wf_register f r \<Longrightarrow>
   keeps (\<lambda>_. True) (call_function H call a b args fs dst)
     (\<lambda>r _. frame_ok f (snd r) \<and> fst r = Continue)"
  by (rule keepsI)
    (auto simp: call_function_def wp_simps frame_register
      intro!: keeps_read_register[THEN keeps_use] keeps_read_registers[THEN keeps_use]
        keeps_prim[THEN keeps_use] keeps_store_result[THEN keeps_use])

lemma keeps_call_method:
  "frame_ok f fs \<Longrightarrow> wf_register f dst \<Longrightarrow> wf_register f a \<Longrightarrow> wf_register f b \<Longrightarrow> \<forall>r\<in>set args. wf_register f r \<Longrightarrow>
   keeps (\<lambda>_. True) (call_method H call a b args fs dst)
     (\<lambda>r _. frame_ok f (snd r) \<and> fst r = Continue)"
  by (rule keepsI)
    (auto simp: call_method_def wp_simps frame_register
      intro!: keeps_read_register[THEN keeps_use] keeps_read_registers[THEN keeps_use]
        keeps_prim[THEN keeps_use] keeps_store_result[THEN keeps_use])

lemma keeps_construct:
  "frame_ok f fs \<Longrightarrow> wf_register f dst \<Longrightarrow> wf_register f a \<Longrightarrow> \<forall>r\<in>set args. wf_register f r \<Longrightarrow>
   keeps (\<lambda>_. True) (construct H call a args fs dst)
     (\<lambda>r _. frame_ok f (snd r) \<and> fst r = Continue)"
  by (rule keepsI)
    (auto simp: construct_def wp_simps frame_register
      intro!: keeps_read_register[THEN keeps_use] keeps_read_registers[THEN keeps_use]
        keeps_prim[THEN keeps_use] keeps_store_result[THEN keeps_use])

lemma keeps_dynamic_import:
  "frame_ok f fs \<Longrightarrow> wf_register f dst \<Longrightarrow> wf_register f a \<Longrightarrow>
   keeps (\<lambda>_. True) (dynamic_import H call a fs dst)
     (\<lambda>r _. frame_ok f (snd r) \<and> fst r = Continue)"
  by (rule keepsI)
    (auto simp: dynamic_import_def wp_simps frame_register
      intro!: keeps_read_register[THEN keeps_use]
        keeps_prim[THEN keeps_use] keeps_store_result[THEN keeps_use])

lemmas instruction_use = keeps_read_register[THEN keeps_use] keeps_prim[THEN keeps_use]
  keeps_store_result[THEN keeps_use] keeps_compute[THEN keeps_use] keeps_perform[THEN keeps_use]
  keeps_env_cell[THEN keeps_use] keeps_cell_read[THEN keeps_use]
  keeps_cell_initialize[THEN keeps_use] keeps_cell_store[THEN keeps_use]
  keeps_refresh_binding[THEN keeps_use] keeps_binary_op[THEN keeps_use]
  keeps_create_closure[THEN keeps_use] keeps_create_class[THEN keeps_use]
  keeps_call_function[THEN keeps_use] keeps_call_method[THEN keeps_use]
  keeps_construct[THEN keeps_use] keeps_dynamic_import[THEN keeps_use]

end

definition suspends :: "Instruction \<Rightarrow> bool" where
  "suspends i = (case i of Await _ _ _ \<Rightarrow> True | Yield _ _ _ \<Rightarrow> True | YieldDelegate _ _ _ \<Rightarrow> True
                 | _ \<Rightarrow> False)"

context vm_contract
begin

lemma keeps_continue:
  assumes "keeps (\<lambda>_. True) act (\<lambda>r _. frame_ok f (snd r) \<and> fst r = Continue)" "\<not> is_terminator i"
  shows "keeps (\<lambda>_. True) act (\<lambda>r _. frame_ok f (snd r) \<and> control_ok f i (fst r))"
  by (rule keeps_weaken[OF assms(1)]) (use assms(2) in \<open>auto simp: control_ok_def\<close>)

text \<open>The instructions that read and write registers, bindings and cells, or end the block.\<close>

lemma keeps_register_actions:
  assumes "frame_ok f fs" "wf_register f r"
  shows
    "wf_register f dst \<Longrightarrow> keeps (\<lambda>_. True) (andThen (read_register (fst fs) r) (store_result fs dst))
       (\<lambda>r _. frame_ok f (snd r) \<and> fst r = Continue)"
    "wf_register f q \<Longrightarrow> wf_register f dst \<Longrightarrow>
     keeps (\<lambda>_. True) (andThen (read_register (fst fs) r) (\<lambda>x. andThen (read_register (fst fs) q) (\<lambda>y.
       andThen (binary_op H call operator x y) (store_result fs dst))))
       (\<lambda>r _. frame_ok f (snd r) \<and> fst r = Continue)"
  by (rule keepsI, insert assms, auto simp: wp_simps frame_register intro!: instruction_use)+

lemma keeps_load_binding:
  "frame_ok f fs \<Longrightarrow> b \<in> accessible_bindings f \<Longrightarrow> wf_register f r \<Longrightarrow>
   keeps (\<lambda>_. True) (andThen (env_cell (snd fs) b) (\<lambda>c.
       andThen (cell_read H call c name) (store_result fs r)))
     (\<lambda>r _. frame_ok f (snd r) \<and> fst r = Continue)"
  by (rule keepsI; frule (1) frame_binding)
    (auto simp: wp_simps frame_register intro!: instruction_use)

lemma keeps_binding_initialization:
  "frame_ok f fs \<Longrightarrow> b \<in> accessible_bindings f \<Longrightarrow> wf_register f r \<Longrightarrow>
   keeps (\<lambda>_. True) (andThen (env_cell (snd fs) b) (\<lambda>c. andThen (read_register (fst fs) r) (\<lambda>v.
       andSeq (cell_initialize H call c v) (ret (Continue, fs)))))
     (\<lambda>r _. frame_ok f (snd r) \<and> fst r = Continue)"
  by (rule keepsI; frule (1) frame_binding)
    (auto simp: wp_simps frame_register intro!: instruction_use)

lemma keeps_store_binding:
  "frame_ok f fs \<Longrightarrow> b \<in> accessible_bindings f \<Longrightarrow> wf_register f r \<Longrightarrow>
   keeps (\<lambda>_. True) (andThen (env_cell (snd fs) b) (\<lambda>c. andThen (read_register (fst fs) r) (\<lambda>v.
       andSeq (cell_store H call c name v) (ret (Continue, fs)))))
     (\<lambda>r _. frame_ok f (snd r) \<and> fst r = Continue)"
  by (rule keepsI; frule (1) frame_binding)
    (auto simp: wp_simps frame_register intro!: instruction_use)

lemma keeps_terminator:
  assumes "frame_ok f fs" "is_terminator i" "set (branch_targets i) \<subseteq> block_ids f"
    and "\<forall>r\<in>set (instruction_registers i). wf_register f r"
  shows "keeps (\<lambda>_. True) (execute_instruction H vm call i fs)
    (\<lambda>r _. frame_ok f (snd r) \<and> control_ok f i (fst r))"
proof (rule keepsI)
  fix s
  assume "since s s"
  then show "wp (execute_instruction H vm call i fs)
      (\<lambda>r s'. since s s' \<and> frame_ok f (snd r) \<and> control_ok f i (fst r)) (\<lambda>p s'. since s s' \<and> allowed p) s"
    using assms
    by (cases i)
      (auto simp: execute_instruction_def instruction_registers_def branch_targets_def
        is_terminator_def control_ok_def wp_simps frame_register intro!: keeps_read_register[THEN keeps_use])
qed

lemma keeps_import_meta:
  "frame_ok f fs \<Longrightarrow> wf_register f dst \<Longrightarrow>
   keeps (\<lambda>_. True) (andThen (prim H call op vs) (store_result fs dst))
     (\<lambda>r _. frame_ok f (snd r) \<and> fst r = Continue)"
  by (rule keepsI) (auto simp: wp_simps intro!: instruction_use)

lemma keeps_execute_instruction:
  assumes "frame_ok f fs" "wf_instruction (vm_module vm) f i" "\<not> suspends i"
  shows "keeps (\<lambda>_. True) (execute_instruction H vm call i fs)
    (\<lambda>r _. frame_ok f (snd r) \<and> control_ok f i (fst r))"
proof (cases "is_terminator i")
  case True
  with assms show ?thesis by (intro keeps_terminator) (auto simp: wf_instruction_def)
next
  case False
  note frame = assms(1)
  have regs: "\<forall>r\<in>set (instruction_registers i). wf_register f r"
    and binds: "set (instruction_bindings i) \<subseteq> accessible_bindings f"
    and kind: "wf_instruction_kind (vm_module vm) f i"
    using assms(2) by (simp_all add: wf_instruction_def)
  show ?thesis
    by (rule keeps_continue[OF _ False], insert regs binds kind assms(3) False,
      cases i;
      simp add: execute_instruction_def instruction_registers_def instruction_bindings_def
        wf_instruction_kind_def suspends_def is_terminator_def property_registers_def)
      (auto intro!: keeps_store_result keeps_compute keeps_perform keeps_register_actions
        keeps_load_binding keeps_binding_initialization keeps_store_binding keeps_refresh_binding keeps_create_closure keeps_create_class
        keeps_call_function keeps_call_method keeps_construct keeps_dynamic_import
        keeps_import_meta frame)
qed

end

end
