(* ===== verification/VMFrameSound.thy ===== *)
theory VMFrameSound
  imports VMSound
begin

text \<open>
  The contract for frames: heap scopes and segments are left as they were entered, a protected
  block's handler exists, a block's instructions end in a terminator, so a synchronous frame never
  runs off a block or into a missing one.
\<close>

subsection \<open>Scopes\<close>

lemma wp_with_heap_scope:
  "wp (with_heap_scope vm body) Q X s =
     wp body (\<lambda>x s'. Q x (s'\<lparr>current_owner := current_owner s\<rparr>))
       (\<lambda>p s'. X p (s'\<lparr>current_owner := current_owner s\<rparr>))
       (s\<lparr>current_owner := Some (vm_heap_owner vm)\<rparr>)"
  by (simp add: wp_def with_heap_scope_def Let_def split: prod.split Outcome.split)

lemma vm_inv_owner [simp]: "vm_inv vm (s\<lparr>current_owner := z\<rparr>) = vm_inv vm s"
proof -
  have "closure_ok vm (s\<lparr>current_owner := z\<rparr>) c = closure_ok vm s c" for c
    by (rule closure_ok_tables) simp_all
  moreover have "ag_ok (s\<lparr>current_owner := z\<rparr>) x = ag_ok s x" for x
    by (rule ag_ok_tables) simp
  ultimately show ?thesis by (simp add: vm_inv_def budget_ok_def)
qed

lemma vm_grows_scope:
  "vm_grows vm (s\<lparr>current_owner := z\<rparr>) t \<Longrightarrow> vm_grows vm s (t\<lparr>current_owner := current_owner s\<rparr>)"
  by (auto simp: vm_grows_def same_frames_def balanced_def no_callables_def sync_run_def)

text \<open>The state right after a segment was opened in \<open>s\<close>, and right after it was closed.\<close>

definition same_but_budget :: "'w VmState \<Rightarrow> 'w VmState \<Rightarrow> bool" where
  "same_but_budget s t \<longleftrightarrow>
     instruction_count t = instruction_count s \<and> call_depth t = call_depth s \<and>
     current_owner t = current_owner s \<and> cells t = cells s \<and> closures t = closures s \<and>
     generators t = generators s \<and> async_frames t = async_frames s \<and>
     async_generators t = async_generators s"

definition entered :: "'w VmState \<Rightarrow> 'w VmState \<Rightarrow> bool" where
  "entered s t \<longleftrightarrow> same_but_budget s t \<and> nesting (execution_budget s) \<noteq> - 1 \<and>
     nesting (execution_budget t) = nesting (execution_budget s) + 1 \<and>
     active_since (execution_budget t) \<noteq> None \<and>
     remaining (execution_budget t) = remaining (execution_budget s)"

definition left :: "'w VmState \<Rightarrow> 'w VmState \<Rightarrow> bool" where
  "left t u \<longleftrightarrow> same_but_budget t u \<and> nesting (execution_budget t) \<noteq> 0 \<and>
     nesting (execution_budget u) = nesting (execution_budget t) - 1 \<and>
     (nesting (execution_budget u) = 0 \<longrightarrow> active_since (execution_budget u) = None) \<and>
     (nesting (execution_budget u) \<noteq> 0 \<longrightarrow>
        active_since (execution_budget u) = active_since (execution_budget t)) \<and>
     allowance_le (remaining (execution_budget u)) (remaining (execution_budget t))"

lemma wp_enter_budget:
  assumes "budget_ok vm s" "\<And>t. entered s t \<Longrightarrow> Q () t" "X (Inr ExpectPanic) s"
  shows "wp (enter_budget H) Q X s"
  using assms
  by (auto simp: enter_budget_def wp_simps entered_def same_but_budget_def budget_ok_def
      split: prod.split)

lemma wp_leave_budget:
  assumes "\<And>u. left t u \<Longrightarrow> Q () u" "nesting (execution_budget t) = 0 \<Longrightarrow> X (Inr ExpectPanic) t"
  shows "wp (leave_budget H) Q X t"
  using assms
  by (auto simp: leave_budget_def wp_simps left_def same_but_budget_def allowance_le_def
      split: prod.split option.split)

lemma wp_finally_leave:
  "wp (finally_leave H body) Q X s =
     wp body (\<lambda>x. wp (leave_budget H) (\<lambda>_. Q x) (\<lambda>p s'. case p of Inl _ \<Rightarrow> Q x s' | Inr _ \<Rightarrow> X p s'))
       (\<lambda>p. wp (leave_budget H) (\<lambda>_. X p) (\<lambda>p' s'. case p' of Inl _ \<Rightarrow> X p s' | Inr _ \<Rightarrow> X p' s')) s"
proof -
  have "fst (leave_budget H s) \<noteq> NoFuel" for s :: "'a VmState"
    by (auto simp: leave_budget_def andThen_def gets_def unwind_def modify_def ret_def now_def
        split: prod.split option.split)
  then show ?thesis
    by (auto simp: wp_def finally_leave_def split: prod.splits Outcome.splits) (metis fst_conv)+
qed

lemma segment_inv:
  assumes "vm_inv vm s" "entered s t"
  shows "vm_inv vm t"
proof (rule vm_inv_tables[OF assms(1)])
  show "budget_ok vm t"
    using assms(2) vm_inv_budget[OF assms(1)]
    by (auto simp: entered_def same_but_budget_def budget_ok_def eq_neg_iff_add_eq_0)
qed (use assms(2) in \<open>simp_all add: entered_def same_but_budget_def\<close>)

lemma left_inv:
  assumes "vm_inv vm t" "left t u"
  shows "vm_inv vm u"
proof (rule vm_inv_tables[OF assms(1)])
  show "budget_ok vm u"
    using assms(2) vm_inv_budget[OF assms(1)]
    by (cases "nesting (execution_budget t) = 1")
      (auto simp: left_def same_but_budget_def budget_ok_def)
qed (use assms(2) in \<open>simp_all add: left_def same_but_budget_def\<close>)

lemma segment_grows:
  assumes "entered s t" "vm_grows vm t u" "left u v"
  shows "vm_grows vm s v"
  using assms
  by (auto simp: entered_def left_def same_but_budget_def vm_grows_def same_frames_def balanced_def
      no_callables_def sync_run_def intro: allowance_le_trans)

lemma segment_grows_panic:
  assumes "entered s t" "vm_grows vm t u" "nesting (execution_budget u) = 0"
  shows "vm_grows vm s u"
proof -
  have "nesting (execution_budget s) + 1 \<noteq> 0"
    using assms(1) by (simp add: entered_def eq_neg_iff_add_eq_0[symmetric])
  then show ?thesis
    using assms
    by (auto simp: entered_def same_but_budget_def vm_grows_def same_frames_def balanced_def
        no_callables_def sync_run_def)
qed

text \<open>A precondition on frames that neither scopes nor segments can change.\<close>

definition frame_condition :: "('w VmState \<Rightarrow> bool) \<Rightarrow> bool" where
  "frame_condition P \<longleftrightarrow> (\<forall>s t. P s \<longrightarrow> generators t = generators s \<longrightarrow>
     async_frames t = async_frames s \<longrightarrow> async_generators t = async_generators s \<longrightarrow> P t)"

lemma frame_condition_True [simp]: "frame_condition (\<lambda>_. True)"
  by (simp add: frame_condition_def)

context vm_contract
begin

lemma keeps_with_heap_scope:
  assumes "keeps P body (\<lambda>x _. Q x)" and "\<And>s z. P s \<Longrightarrow> P (s\<lparr>current_owner := z\<rparr>)"
  shows "keeps P (with_heap_scope vm body) (\<lambda>x _. Q x)"
proof (rule keepsI)
  fix s
  assume "since s s" "P s"
  let ?s = "s\<lparr>current_owner := Some (vm_heap_owner vm)\<rparr>"
  have "since ?s ?s"
    using \<open>since s s\<close> by (simp add: since_def R_refl)
  have "since s (t\<lparr>current_owner := current_owner s\<rparr>)" if "since ?s t" for t
    using that by (auto simp: since_def intro: vm_grows_scope)
  then show "wp (with_heap_scope vm body) (\<lambda>x s'. since s s' \<and> Q x) (\<lambda>p s'. since s s' \<and> allowed p) s"
    unfolding wp_with_heap_scope
    by (auto intro!: assms(1)[THEN keeps_use, OF \<open>since ?s ?s\<close>] assms(2) simp: \<open>P s\<close>)
qed

lemma keeps_segment:
  assumes "keeps P body (\<lambda>x _. Q x)"
    and P: "\<And>s t. P s \<Longrightarrow> same_but_budget s t \<Longrightarrow> P t"
  shows "keeps P (andSeq (enter_budget H) (finally_leave H body)) (\<lambda>x _. Q x)"
proof (rule keepsI)
  fix s
  assume s: "since s s" "P s"
  have leave: "wp (leave_budget H) (\<lambda>_. Q') X u"
    if t: "entered s t" and u: "since t u"
      and Q': "\<And>v. since s v \<Longrightarrow> Q' v" and X: "\<And>v. since s v \<Longrightarrow> X (Inr ExpectPanic) v"
    for t u :: "'w VmState" and Q' and X :: "VmError + Panic \<Rightarrow> 'w VmState \<Rightarrow> bool"
  proof (rule wp_leave_budget)
    fix v
    assume "left u v"
    with t u have "vm_inv vm v" "vm_grows vm s v"
      by (auto simp: since_def intro: left_inv segment_grows)
    then show "Q' v" by (intro Q') (simp add: since_def)
  next
    assume "nesting (execution_budget u) = 0"
    with t u show "X (Inr ExpectPanic) u"
      by (intro X) (auto simp: since_def intro: segment_grows_panic)
  qed
  have enter: "since t t" "P t" if "entered s t" for t
    using s that by (auto simp: since_def R_refl entered_def intro: segment_inv P)
  show "wp (andSeq (enter_budget H) (finally_leave H body)) (\<lambda>x s'. since s s' \<and> Q x)
      (\<lambda>p s'. since s s' \<and> allowed p) s"
    unfolding wp_andThen wp_finally_leave
    by (rule wp_enter_budget[OF since_inv[OF s(1), THEN vm_inv_budget]])
      (auto intro!: assms(1)[THEN keeps_use] intro: enter elim: leave simp: s)
qed

lemma keeps_with_segment:
  assumes "keeps P body (\<lambda>x _. Q x)" "frame_condition P"
  shows "keeps P (with_segment H vm body) (\<lambda>x _. Q x)"
  unfolding with_segment_def
  using assms(2)
  by (intro keeps_with_heap_scope keeps_segment assms(1))
    (auto simp: frame_condition_def same_but_budget_def)

end

subsection \<open>Frames\<close>

lemma find_block_Some:
  "b \<in> block_ids f \<Longrightarrow> \<exists>current. find_block f b = Some current \<and> current \<in> set (blocks f)"
  using find_ex[of "blocks f" "\<lambda>x. block_id x = b"]
  by (auto simp: find_block_def block_ids_def dest: find_SomeD)

lemma wf_block_instructions:
  assumes "wf_block m f b"
  shows "instructions b \<noteq> []" "is_terminator (last (instructions b))"
    "\<forall>i\<in>set (instructions b). wf_instruction m f i"
  using assms by (auto simp: wf_block_def)

lemma wf_function_region:
  assumes "wf_function m f" "region_of f b = Some r"
  shows "wf_register f (exception_register r)" "\<exists>t. handler_block r = Some t \<and> t \<in> block_ids f"
proof -
  have "wf_region f r"
    using assms find_SomeD unfolding region_of_def wf_function_def by fast
  then show "wf_register f (exception_register r)" "\<exists>t. handler_block r = Some t \<and> t \<in> block_ids f"
    by (auto simp: wf_region_def handler_block_def split: option.splits)
qed

lemma not_suspends:
  "wf_instruction m f i \<Longrightarrow> \<not> is_async f \<Longrightarrow> \<not> is_generator f \<Longrightarrow> \<not> suspends i"
  by (cases i) (auto simp: wf_instruction_def wf_instruction_kind_def suspends_def)

definition step_ok :: "Function \<Rightarrow> Step \<Rightarrow> bool" where
  "step_ok f step = (case step of
     NextBlock t fs \<Rightarrow> t \<in> block_ids f \<and> frame_ok f fs | Finished _ \<Rightarrow> True)"

context vm_contract
begin

lemma module_function_wf: "since s0 s \<Longrightarrow> module_function vm f \<Longrightarrow> wf_function (vm_module vm) f"
  using wf_module_bindings[of "vm_module vm" f] by (auto simp: since_def vm_inv_def module_function_def)

lemma keeps_initialize_environment:
  assumes "set (captures f) \<subseteq> dom env0" "wf_parameters f"
  shows "keeps (\<lambda>_. True) (initialize_environment H call f this args env0)
    (\<lambda>env _. accessible_bindings f \<subseteq> dom env)"
proof -
  define good where "good = (\<lambda>env. accessible_bindings f \<subseteq> dom (env :: Environment))"
  have declare_good: "keeps (\<lambda>_. True) (declare_bindings (bindings f) env0) (\<lambda>env _. good env)"
    using assms(1)
    by (intro keeps_weaken[OF keeps_declare_bindings])
      (auto simp: good_def accessible_bindings_def local_bindings_def)
  have init: "keeps (\<lambda>_. True) (initialize_binding H call env b v) (\<lambda>_ _. True)"
    if "good env" "b \<in> local_bindings f" for env b v
    using that by (intro keeps_initialize_binding) (auto simp: good_def accessible_bindings_def)
  have declared: "b \<in> local_bindings f"
    if "b \<in> set (parameters f) \<or> rest_parameter f = Some b \<or> arguments_binding f = Some b \<or>
      this_binding f = Some b" for b
    using that assms(2) by (auto simp: wf_parameters_def intro: has_kind_local)
  have params: "keeps (\<lambda>_. True) (each_action (\<lambda>(b, v). initialize_binding H call env b v)
      (zip (parameters f) args)) (\<lambda>_ _. True)" if "good env" for env
    by (rule keeps_each_action) (auto dest!: set_zip_leftD intro!: init that declared)
  have "keeps (\<lambda>_. True) (initialize_environment H call f this args env0) (\<lambda>env _. good env)"
    by (rule keepsI)
      (auto simp: initialize_environment_def wp_simps declared split: option.split
        intro!: declare_good[THEN keeps_use] params[THEN keeps_use]
          keeps_prim[THEN keeps_use] init[THEN keeps_use])
  then show ?thesis by (simp add: good_def)
qed

lemma keeps_execution_error_as_throw:
  "allowed_error e \<Longrightarrow>
   keeps (\<lambda>_. True) (execution_error_as_throw H call e) (\<lambda>c _. \<exists>v. c = ThrowValue v)"
  by (rule keepsI; cases e)
    (auto simp: execution_error_as_throw_def wp_simps intro!: keeps_prim[THEN keeps_use])

lemma keeps_instruction_control:
  assumes "keeps P act (\<lambda>x _. Q x)" "\<And>v. Q (ThrowValue v, fs)"
  shows "keeps P (instruction_control H vm call f b act fs) (\<lambda>x _. Q x)"
  by (rule keepsI)
    (auto simp: instruction_control_def wp_simps assms(2) split: sum.split Panic.split
      intro!: assms(1)[THEN keeps_use] keeps_check_heap_limit[THEN keeps_use]
        keeps_execution_error_as_throw[THEN keeps_use])

lemma keeps_enter_handler:
  assumes "wf_function m f" "frame_ok f fs"
  shows "keeps (\<lambda>_. True) (enter_handler f b v fs) (\<lambda>step _. step_ok f step)"
proof (cases "region_of f b")
  case None
  then show ?thesis by (intro keepsI) (simp add: enter_handler_def wp_simps)
next
  case (Some r)
  from wf_function_region[OF assms(1) Some] obtain t where
    r: "wf_register f (exception_register r)" "handler_block r = Some t" "t \<in> block_ids f"
    by blast
  show ?thesis
    using assms(2) r frame_register[OF assms(2) r(1)]
    by (intro keepsI)
      (auto simp: enter_handler_def wp_simps Some step_ok_def frame_ok_def
        intro!: keeps_write_register[THEN keeps_use])
qed

lemma keeps_first_instruction:
  assumes "wf_function (vm_module vm) f" "\<not> is_async f" "\<not> is_generator f"
    and i: "wf_instruction (vm_module vm) f i" and fs: "frame_ok f fs"
    and rest: "\<And>fs'. frame_ok f fs' \<Longrightarrow> \<not> is_terminator i \<Longrightarrow>
      keeps (\<lambda>_. True) (run_instructions H vm call f b rest fs') (\<lambda>step _. step_ok f step)"
  shows "keeps (\<lambda>_. True)
    (andThen (instruction_control H vm call f b (execute_instruction H vm call i fs) fs)
      (\<lambda>(control, fs'). case control of
         Continue \<Rightarrow> run_instructions H vm call f b rest fs'
       | JumpTo target \<Rightarrow> ret (NextBlock target fs')
       | ReturnValue v \<Rightarrow> ret (Finished v)
       | ThrowValue v \<Rightarrow> enter_handler f b v fs')) (\<lambda>step _. step_ok f step)"
proof -
  have control: "keeps (\<lambda>_. True)
      (instruction_control H vm call f b (execute_instruction H vm call i fs) fs)
      (\<lambda>r _. frame_ok f (snd r) \<and> control_ok f i (fst r))"
    by (rule keeps_instruction_control[OF keeps_execute_instruction])
      (simp_all add: i fs not_suspends[OF i assms(2,3)] control_ok_def)
  show ?thesis
    by (rule keepsI)
      (auto simp: wp_simps step_ok_def control_ok_def split: prod.split Control.split
        intro!: control[THEN keeps_use] rest[THEN keeps_use]
          keeps_enter_handler[OF assms(1), THEN keeps_use])
qed

lemma keeps_run_instructions:
  assumes "wf_function (vm_module vm) f" "\<not> is_async f" "\<not> is_generator f"
    and "\<forall>i\<in>set is. wf_instruction (vm_module vm) f i" "is \<noteq> []" "is_terminator (last is)"
    and "frame_ok f fs"
  shows "keeps (\<lambda>_. True) (run_instructions H vm call f b is fs) (\<lambda>step _. step_ok f step)"
  using assms(4-)
proof (induction "is" arbitrary: fs)
  case Nil
  then show ?case by simp
next
  case (Cons i rest)
  have rest: "keeps (\<lambda>_. True) (run_instructions H vm call f b rest fs') (\<lambda>step _. step_ok f step)"
    if "frame_ok f fs'" "\<not> is_terminator i" for fs'
    using Cons.prems that by (intro Cons.IH) (auto split: if_splits)
  show ?case
    unfolding run_instructions.simps
    by (rule keepsI, unfold wp_andThen[of "consume_instruction _ _"])
      (use Cons.prems in \<open>auto intro!: keeps_consume_instruction[THEN keeps_use]
        keeps_first_instruction[OF assms(1-3) _ _ rest, THEN keeps_use]\<close>)
qed

lemma keeps_run_blocks:
  assumes "wf_function (vm_module vm) f" "\<not> is_async f" "\<not> is_generator f"
    and "b \<in> block_ids f" "frame_ok f fs"
  shows "keeps (\<lambda>_. True) (run_blocks H vm call f n b fs) (\<lambda>_ _. True)"
  using assms(4-)
proof (induction n arbitrary: b fs)
  case 0
  show ?case by (rule keepsI) (simp add: wp_simps)
next
  case (Suc n)
  from find_block_Some[OF Suc.prems(1)] obtain current
    where current: "find_block f b = Some current" "current \<in> set (blocks f)" by blast
  then have "wf_block (vm_module vm) f current"
    using assms(1) by (simp add: wf_function_def)
  note block = wf_block_instructions[OF this]
  show ?case
    by (rule keepsI)
      (auto simp: wp_simps current step_ok_def split: Step.split
        intro!: keeps_run_instructions[OF assms(1-3) block(3,1,2) Suc.prems(2), THEN keeps_use]
          Suc.IH[THEN keeps_use])
qed

lemma keeps_execute_frame:
  assumes "wf_function (vm_module vm) f" "\<not> is_async f" "\<not> is_generator f"
    and "set (captures f) \<subseteq> dom env0"
  shows "keeps (\<lambda>_. True) (execute_frame H vm n call f this args env0) (\<lambda>_ _. True)"
proof -
  have f: "wf_parameters f" "function_entry f \<in> block_ids f"
    using assms(1) by (simp_all add: wf_function_def)
  have "keeps (\<lambda>_. True) (andThen (initialize_environment H call f this args env0) (\<lambda>env.
     run_blocks H vm call f n (function_entry f)
       (replicate (unat (registers f)) VUndefined, env))) (\<lambda>_ _. True)"
    by (rule keepsI)
      (auto simp: wp_simps frame_ok_def
        intro!: keeps_initialize_environment[OF assms(4) f(1), THEN keeps_use]
          keeps_run_blocks[OF assms(1-3) f(2), THEN keeps_use])
  then show ?thesis
    unfolding execute_frame_def by (simp add: keeps_with_segment)
qed

end

end
