(* ===== verification/VMGeneratorSound.thy ===== *)
theory VMGeneratorSound
  imports VMFrameSound
begin

text \<open>
  The contract for generators.  A frame of the table is identified by its index and its function,
  which no operation changes; an outcome of a segment names a suspension point of that function, and
  an \<open>Await\<close> can only come out of an async one.
\<close>

subsection \<open>Frames of the table\<close>

definition gen_at :: "nat \<Rightarrow> Function \<Rightarrow> 'w VmState \<Rightarrow> bool" where
  "gen_at i f s \<longleftrightarrow> i < length (generators s) \<and> gen_function (generators s ! i) = f"

lemma frame_condition_gen_at [simp]: "frame_condition (gen_at i f)"
  by (simp add: frame_condition_def gen_at_def)

definition outcome_ok :: "Function \<Rightarrow> GeneratorOutcome \<Rightarrow> bool" where
  "outcome_ok f outcome = (case outcome of
     Yielded p _ \<Rightarrow> p \<in> generator_suspension_ids f
   | Delegated p _ \<Rightarrow> p \<in> generator_suspension_ids f
   | Awaited p dst _ \<Rightarrow> is_async f \<and> p \<in> suspension_ids f \<and> wf_register f dst
   | DelegateAwaited p _ _ \<Rightarrow> is_async f \<and> p \<in> generator_suspension_ids f
   | CompletedWith _ \<Rightarrow> True)"

definition generator_step_ok :: "Function \<Rightarrow> GeneratorStep \<Rightarrow> bool" where
  "generator_step_ok f step = (case step of
     GeneratorNext target \<Rightarrow> target \<in> block_ids f | GeneratorLeave outcome \<Rightarrow> outcome_ok f outcome)"

lemma generator_point_Some:
  assumes "wf_function m f" "p \<in> generator_suspension_ids f"
  obtains point where "generator_point f p = Some point" "wf_generator_suspension f point"
    "point \<in> set (generator_suspension_points f)" "generator_suspension_id point = p"
proof -
  from assms(2) have "\<exists>x\<in>set (generator_suspension_points f). generator_suspension_id x = p"
    by (auto simp: generator_suspension_ids_def)
  from find_ex[OF this] obtain point where point: "generator_point f p = Some point"
    by (auto simp: generator_point_def)
  with find_SomeD[OF point[unfolded generator_point_def]] assms(1) show thesis
    by (intro that[of point]) (auto simp: wf_function_def)
qed

lemma wp_gen_releasing:
  "wp (gen_releasing i act) Q X s =
     wp act (\<lambda>x s'. wp (put_generator i (\<lambda>g. g\<lparr>gen_borrowed := False\<rparr>)) (\<lambda>_. Q x) X s')
       (\<lambda>p s'. wp (put_generator i (\<lambda>g. g\<lparr>gen_borrowed := False\<rparr>)) (\<lambda>_. X p) X s') s"
  by (simp add: wp_def gen_releasing_def put_generator_def modify_def
      split: prod.split Outcome.split)

definition generator_of :: "Vm \<Rightarrow> Function \<Rightarrow> GeneratorFrame \<Rightarrow> bool" where
  "generator_of vm f g \<longleftrightarrow> generator_ok vm g \<and> gen_function g = f"

lemma generator_of_update [simp]:
  "generator_of vm f (g\<lparr>gen_borrowed := z\<rparr>) = generator_of vm f g"
  "generator_of vm f (g\<lparr>delegate_iterator := d\<rparr>) = generator_of vm f g"
  by (simp_all add: generator_of_def generator_ok_def)

lemma generator_of_change:
  "generator_of vm f g \<Longrightarrow> length regs = unat (registers f) \<Longrightarrow>
   generator_of vm f (g\<lparr>gen_registers := regs\<rparr>)"
  "generator_of vm f g \<Longrightarrow> frame_ok f (regs, env) \<Longrightarrow>
   generator_of vm f (g\<lparr>gen_registers := regs, gen_environment := env\<rparr>)"
  "generator_of vm f g \<Longrightarrow> target \<in> block_ids f \<Longrightarrow>
   generator_of vm f (g\<lparr>gen_block := target\<rparr>)"
  "generator_of vm f g \<Longrightarrow> suspended_at st \<subseteq> generator_suspension_ids f \<Longrightarrow>
   generator_of vm f (g\<lparr>gen_state := st\<rparr>)"
  by (auto simp: generator_of_def generator_ok_def frame_ok_def)

lemma generator_of_register:
  "generator_of vm f g \<Longrightarrow> wf_register f r \<Longrightarrow> unat (reg_no r) < length (gen_registers g)"
  by (auto simp: generator_of_def generator_ok_def wf_register_def word_less_nat_alt)

lemma generator_of_length:
  "generator_of vm f g \<Longrightarrow> length (gen_registers g) = unat (registers f)"
  by (auto simp: generator_of_def generator_ok_def)

lemma generator_of_frame: "generator_of vm f g \<Longrightarrow> frame_ok f (gen_registers g, gen_environment g)"
  by (auto simp: frame_ok_def generator_of_def generator_ok_def)

lemma generator_of_function: "generator_of vm f g \<Longrightarrow> gen_function g = f"
  by (simp add: generator_of_def)

lemma generator_of_block: "generator_of vm f g \<Longrightarrow> gen_block g \<in> block_ids f"
  by (auto simp: generator_of_def generator_ok_def)

context vm_contract
begin

lemma since_gen_at: "since s0 s \<Longrightarrow> gen_at i f s0 \<Longrightarrow> gen_at i f s"
  by (auto simp: since_def vm_grows_def same_frames_def gen_at_def)

lemma gen_at_of: "since s0 s \<Longrightarrow> gen_at i f s \<Longrightarrow> generator_of vm f (generators s ! i)"
  by (auto simp: since_def vm_inv_def gen_at_def generator_of_def)

lemma gen_at_not_sync: "since s0 s \<Longrightarrow> gen_at i f s \<Longrightarrow> \<not> sync_module vm"
  using gen_at_of[of s0 s i f] not_sync_module[of vm f]
  by (auto simp: generator_of_def generator_ok_def)

lemma generator_of_wf: "since s0 s \<Longrightarrow> generator_of vm f g \<Longrightarrow> wf_function (vm_module vm) f"
  by (auto simp: generator_of_def generator_ok_def intro: module_function_wf)

lemma since_put_generator:
  assumes "since s0 s" "gen_at i f s" "generator_of vm f g"
  shows "since s0 (s\<lparr>generators := (generators s)[i := g]\<rparr>)"
proof -
  let ?t = "s\<lparr>generators := (generators s)[i := g]\<rparr>"
  have same: "same_frames s ?t"
    using assms(2,3) by (auto simp: same_frames_def gen_at_def generator_of_def nth_list_update)
  have inv: "vm_inv vm s" by (rule since_inv[OF assms(1)])
  then have "\<forall>x\<in>set (async_generators s). ag_ok s x" by (simp add: vm_inv_def)
  from same_frames_closure_ok[OF same this] same_frames_ag_ok[OF same] inv assms(3)
  have "vm_inv vm ?t"
    by (auto simp: vm_inv_def budget_ok_def generator_of_def
        dest!: set_update_subset_insert[THEN subsetD])
  moreover have "vm_grows vm s ?t"
    using same by (simp add: vm_grows_def balanced_def no_callables_def sync_run_def)
  ultimately show ?thesis
    using assms(1) by (auto simp: since_def intro: vm_grows_trans)
qed

lemma keeps_put_generator:
  assumes "\<And>g. generator_of vm f g \<Longrightarrow> generator_of vm f (u g)"
  shows "keeps (gen_at i f) (put_generator i u) (\<lambda>_ _. True)"
  by (rule keepsI; frule (1) gen_at_of)
    (auto simp: put_generator_def wp_simps assms intro!: since_put_generator)

lemma keeps_gen_get_state:
  "keeps (gen_at i f) (gen_get_state i) (\<lambda>st _. suspended_at st \<subseteq> generator_suspension_ids f)"
  by (rule keepsI; frule (1) gen_at_of)
    (auto simp: gen_get_state_def wp_simps gen_at_def generator_of_def generator_ok_def)

lemma keeps_gen_set_state:
  "suspended_at st \<subseteq> generator_suspension_ids f \<Longrightarrow>
   keeps (gen_at i f) (gen_set_state i st) (\<lambda>_ _. True)"
  by (rule keepsI)
    (auto simp: gen_set_state_def wp_simps generator_of_change(4)
      intro!: keeps_put_generator[where f = f, THEN keeps_use])

lemma keeps_gen_data: "keeps (gen_at i f) (gen_data i) (\<lambda>g _. generator_of vm f g)"
  by (rule keepsI; frule (1) gen_at_of) (auto simp: gen_data_def wp_simps)

lemma keeps_gen_modify:
  assumes "\<And>g. generator_of vm f g \<Longrightarrow> generator_of vm f (u g)"
  shows "keeps (gen_at i f) (gen_modify i u) (\<lambda>_ _. True)"
  by (rule keepsI)
    (auto simp: gen_modify_def wp_simps intro: since_gen_at
      intro!: keeps_gen_data[THEN keeps_use] keeps_put_generator[OF assms, THEN keeps_use])

lemma keeps_gen_read_register:
  "wf_register f r \<Longrightarrow> keeps (gen_at i f) (gen_read_register i r) (\<lambda>_ _. True)"
  by (rule keepsI)
    (auto simp: gen_read_register_def wp_simps generator_of_register
      intro!: keeps_gen_data[THEN keeps_use] keeps_read_register[THEN keeps_use])

lemma keeps_gen_write_register:
  "wf_register f r \<Longrightarrow> keeps (gen_at i f) (gen_write_register i r v) (\<lambda>_ _. True)"
  by (rule keepsI)
    (auto simp: gen_write_register_def wp_simps generator_of_length wf_register_def word_less_nat_alt
      intro!: keeps_gen_data[THEN keeps_use]
        keeps_write_register[THEN keeps_use] keeps_put_generator[where f = f, THEN keeps_use]
      ; blast intro: since_gen_at generator_of_change)

lemma keeps_gen_delegate_to: "keeps (gen_at i f) (gen_delegate_to i d) (\<lambda>_ _. True)"
  unfolding gen_delegate_to_def by (rule keeps_gen_modify) simp

lemma keeps_gen_move:
  "target \<in> block_ids f \<Longrightarrow>
   keeps (gen_at i f) (gen_modify i (\<lambda>g. g\<lparr>gen_block := target\<rparr>)) (\<lambda>_ _. True)"
  by (rule keeps_gen_modify) (rule generator_of_change)

lemma keeps_gen_releasing:
  assumes "keeps (gen_at i f) act (\<lambda>x _. Q x)"
  shows "keeps (gen_at i f) (gen_releasing i act) (\<lambda>x _. Q x)"
  by (rule keepsI)
    (auto simp: wp_gen_releasing intro: since_gen_at
      intro!: assms[THEN keeps_use] keeps_put_generator[where f = f, THEN keeps_use])

lemma keeps_gen_instruction:
  assumes "wf_instruction (vm_module vm) f ins" "\<not> suspends ins"
  shows "keeps (gen_at i f) (gen_instruction H vm call f b i ins) (\<lambda>r _. control_ok f ins (fst r))"
proof -
  define act where "act = (\<lambda>g :: GeneratorFrame.
      andThen (execute_instruction H vm call ins (gen_registers g, gen_environment g))
           (\<lambda>(control, regs, env).
             andSeq (put_generator i (\<lambda>g. g\<lparr>gen_registers := regs, gen_environment := env\<rparr>))
               (ret (control, ()))))" for g
  have act: "keeps (gen_at i f) (act g) (\<lambda>r _. control_ok f ins (fst r))" if "generator_of vm f g" for g
    by (rule keepsI)
      (auto simp: act_def wp_simps split: prod.split intro: since_gen_at generator_of_change
        intro!: keeps_execute_instruction[OF generator_of_frame[OF that] assms, THEN keeps_use]
          keeps_put_generator[where f = f, THEN keeps_use])
  have control: "keeps (gen_at i f) (instruction_control H vm call f b (gen_releasing i (act g)) ())
      (\<lambda>r _. control_ok f ins (fst r))" if "generator_of vm f g" for g
    by (rule keeps_instruction_control[OF keeps_gen_releasing[OF act[OF that]]])
      (simp add: control_ok_def)
  show ?thesis
    unfolding gen_instruction_def act_def[symmetric, THEN fun_cong, simplified]
    by (rule keepsI)
      (auto simp: wp_simps intro: since_gen_at
        intro!: keeps_gen_data[THEN keeps_use] keeps_put_generator[where f = f, THEN keeps_use]
          control[THEN keeps_use])
qed

subsection \<open>Delegated iterators\<close>

lemma keeps_generator_optional_iterator_call:
  "keeps (\<lambda>_. True) (generator_optional_iterator_call H call iterator m args) (\<lambda>_ _. True)"
  by (rule keepsI)
    (auto simp: generator_optional_iterator_call_def throw_string_def wp_simps
      split: sum.split Panic.split intro!: keeps_prim[THEN keeps_use])

lemma keeps_generator_optional_iterator_step:
  "keeps (\<lambda>_. True) (generator_optional_iterator_step H call iterator m args) (\<lambda>_ _. True)"
  by (rule keepsI)
    (auto simp: generator_optional_iterator_step_def throw_string_def wp_simps split: option.split
      intro!: keeps_prim[THEN keeps_use] keeps_generator_optional_iterator_call[THEN keeps_use])

lemma keeps_generator_iterator_step:
  "keeps (\<lambda>_. True) (generator_iterator_step H call iterator m args) (\<lambda>_ _. True)"
  by (rule keepsI)
    (auto simp: generator_iterator_step_def throw_string_def wp_simps split: option.split
      intro!: keeps_generator_optional_iterator_step[THEN keeps_use])

lemma keeps_generator_result: "keeps (\<lambda>_. True) (generator_result H call v d) (\<lambda>_ _. True)"
  unfolding generator_result_def by (rule keeps_prim)

lemma keeps_inject_generator_completion:
  assumes "wf_register f (result_register point)" "target \<in> block_ids f"
  shows "keeps (gen_at i f) (inject_generator_completion i point v target) (\<lambda>_ _. True)"
proof (rule keepsI)
  fix s
  assume s: "since s s" "gen_at i f s"
  then show "wp (inject_generator_completion i point v target) (\<lambda>x s'. since s s' \<and> True)
      (\<lambda>p s'. since s s' \<and> allowed p) s"
    by (auto simp: inject_generator_completion_def wp_simps
        intro!: keeps_gen_delegate_to[where f = f, THEN keeps_use]
          keeps_gen_write_register[OF assms(1), THEN keeps_use]
          keeps_gen_move[OF assms(2), THEN keeps_use] since_gen_at[OF _ s(2)])
qed

subsection \<open>Segments\<close>

lemma keeps_gen_enter_handler:
  assumes "wf_function (vm_module vm) f"
  shows "keeps (gen_at i f) (gen_enter_handler f b i v) (\<lambda>step _. generator_step_ok f step)"
proof (cases "region_of f b")
  case None
  then show ?thesis by (intro keepsI) (simp add: gen_enter_handler_def wp_simps)
next
  case (Some r)
  from wf_function_region[OF assms Some] obtain t where
    r: "wf_register f (exception_register r)" "handler_block r = Some t" "t \<in> block_ids f"
    by blast
  show ?thesis
    by (rule keepsI)
      (auto simp: gen_enter_handler_def wp_simps Some r generator_step_ok_def
        intro!: keeps_gen_write_register[OF r(1), THEN keeps_use])
qed

lemma keeps_delegate_async:
  assumes "wf_function (vm_module vm) f" "is_async f" "p \<in> generator_suspension_ids f"
  shows "keeps (gen_at i f) (delegate_async H call f b i iterator p)
    (\<lambda>step _. generator_step_ok f step)"
proof (rule keepsI)
  fix s
  assume s: "since s s" "gen_at i f s"
  show "wp (delegate_async H call f b i iterator p) (\<lambda>step s'. since s s' \<and> generator_step_ok f step)
      (\<lambda>p s'. since s s' \<and> allowed p) s"
    using s assms
    by (auto simp: delegate_async_def wp_simps generator_step_ok_def[of f "GeneratorLeave _"]
        outcome_ok_def split: option.split VmError.split sum.split
        intro!: keeps_gen_delegate_to[where f = f, THEN keeps_use]
          keeps_generator_optional_iterator_call[THEN keeps_use]
          keeps_gen_enter_handler[OF assms(1), THEN keeps_use] since_gen_at[OF _ s(2)])
qed

lemma keeps_delegate_sync:
  assumes "wf_function (vm_module vm) f" "wf_register f dst" "p \<in> generator_suspension_ids f"
  shows "keeps (gen_at i f) (delegate_sync H call f b i dst iterator p)
    (\<lambda>step _. generator_step_ok f step)"
proof -
  from generator_point_Some[OF assms(1,3)] obtain point where
    point: "generator_point f p = Some point" "wf_generator_suspension f point" by blast
  then have resume: "resume_block point \<in> block_ids f"
    by (simp add: wf_generator_suspension_def)
  show ?thesis
  proof (rule keepsI)
    fix s
    assume s: "since s s" "gen_at i f s"
    show "wp (delegate_sync H call f b i dst iterator p)
        (\<lambda>step s'. since s s' \<and> generator_step_ok f step) (\<lambda>p s'. since s s' \<and> allowed p) s"
      using s assms(3) resume
      by (auto simp: delegate_sync_def wp_simps generator_step_ok_def[of f "GeneratorLeave _"]
          generator_step_ok_def[of f "GeneratorNext _"] outcome_ok_def point(1)
          split: VmError.split sum.split
          intro!: keeps_gen_delegate_to[where f = f, THEN keeps_use]
            keeps_generator_iterator_step[THEN keeps_use]
            keeps_gen_write_register[OF assms(2), THEN keeps_use]
            keeps_gen_enter_handler[OF assms(1), THEN keeps_use] since_gen_at[OF _ s(2)])
  qed
qed

lemma keeps_gen_suspend:
  assumes "wf_function (vm_module vm) f" "wf_instruction (vm_module vm) f ins"
    and "gen_suspend H call f b i ins = Some act"
  shows "keeps (gen_at i f) act (\<lambda>step _. generator_step_ok f step)"
proof (rule keepsI)
  fix s
  assume s: "since s s" "gen_at i f s"
  show "wp act (\<lambda>step s'. since s s' \<and> generator_step_ok f step) (\<lambda>p s'. since s s' \<and> allowed p) s"
    using assms s
    by (cases ins)
      (auto simp: gen_suspend_def wp_simps wf_instruction_def wf_instruction_kind_def
        instruction_registers_def generator_step_ok_def[of f "GeneratorLeave _"] outcome_ok_def
        intro!: keeps_gen_read_register[where f = f, THEN keeps_use]
          keeps_delegate_async[THEN keeps_use] keeps_delegate_sync[THEN keeps_use]
          since_gen_at[OF _ s(2)])
qed

lemma gen_suspend_None: "gen_suspend H call f b i ins = None \<longleftrightarrow> \<not> suspends ins"
  by (cases ins) (auto simp: gen_suspend_def suspends_def)

lemma not_terminator_suspends: "suspends i \<Longrightarrow> \<not> is_terminator i"
  by (cases i) (auto simp: suspends_def is_terminator_def)

lemma keeps_gen_instructions:
  assumes "wf_function (vm_module vm) f"
    and "\<forall>ins\<in>set is. wf_instruction (vm_module vm) f ins" "is \<noteq> []" "is_terminator (last is)"
  shows "keeps (gen_at i f) (gen_instructions H vm call f b i is)
    (\<lambda>step _. generator_step_ok f step)"
  using assms(2-)
proof (induction "is")
  case Nil
  then show ?case by simp
next
  case (Cons ins rest)
  have ins: "wf_instruction (vm_module vm) f ins" using Cons.prems(1) by simp
  have rest: "keeps (gen_at i f) (gen_instructions H vm call f b i rest)
      (\<lambda>step _. generator_step_ok f step)" if "\<not> is_terminator ins"
    using Cons.prems that by (intro Cons.IH) (auto split: if_splits)
  show ?case
  proof (rule keepsI)
    fix s
    assume s: "since s s" "gen_at i f s"
    show "wp (gen_instructions H vm call f b i (ins # rest))
        (\<lambda>step s'. since s s' \<and> generator_step_ok f step) (\<lambda>p s'. since s s' \<and> allowed p) s"
    proof (cases "gen_suspend H call f b i ins")
      case None
      then have "\<not> suspends ins" by (simp add: gen_suspend_None)
      then show ?thesis
        using s
        by (auto simp: wp_simps None control_ok_def generator_step_ok_def[of f "GeneratorNext _"]
            generator_step_ok_def[of f "GeneratorLeave _"] outcome_ok_def
            split: prod.split Control.split
            intro!: keeps_consume_instruction[THEN keeps_use]
              keeps_gen_instruction[OF ins, THEN keeps_use] rest[THEN keeps_use]
              keeps_gen_enter_handler[OF assms(1), THEN keeps_use] since_gen_at[OF _ s(2)])
    next
      case (Some act)
      then show ?thesis
        using s
        by (auto simp: wp_simps intro!: keeps_consume_instruction[THEN keeps_use]
            keeps_gen_suspend[OF assms(1) ins Some, THEN keeps_use] since_gen_at[OF _ s(2)])
    qed
  qed
qed

lemma keeps_drive_generator_segment:
  "keeps (gen_at i f) (drive_generator_segment H vm call i n) (\<lambda>outcome _. outcome_ok f outcome)"
proof (induction n)
  case 0
  show ?case by (rule keepsI) (simp add: wp_simps)
next
  case (Suc n)
  have blocks: "keeps (gen_at i f) (gen_instructions H vm call f b i (instructions current))
      (\<lambda>step _. generator_step_ok f step)"
    if "wf_function (vm_module vm) f" "current \<in> set (blocks f)" for b current
  proof -
    have "wf_block (vm_module vm) f current" using that by (simp add: wf_function_def)
    note block = wf_block_instructions[OF this]
    show ?thesis by (rule keeps_gen_instructions[OF that(1) block(3,1,2)])
  qed
  show ?case
  proof (rule keepsI)
    fix s
    assume s: "since s s" "gen_at i f s"
    have "wp (case find_block (gen_function g) (gen_block g) of
       None \<Rightarrow> fail (VmMissingBlock (function_id (gen_function g)) (gen_block g))
     | Some current \<Rightarrow>
         andThen (gen_instructions H vm call (gen_function g) (gen_block g) i (instructions current))
         (\<lambda>step. case step of
            GeneratorNext target \<Rightarrow> andSeq (gen_modify i (\<lambda>g. g\<lparr>gen_block := target\<rparr>))
              (drive_generator_segment H vm call i n)
          | GeneratorLeave result \<Rightarrow> ret result))
       (\<lambda>outcome s'. since s s' \<and> outcome_ok f outcome) (\<lambda>p s'. since s s' \<and> allowed p) s'"
      if s': "since s s'" and g: "generator_of vm f g" for g s'
    proof -
      note wf = generator_of_wf[OF s' g]
      from find_block_Some[OF generator_of_block[OF g]] obtain current where
        current: "find_block f (gen_block g) = Some current" "current \<in> set (blocks f)" by blast
      show ?thesis
        using s'
        by (auto simp: wp_simps generator_of_function[OF g] current(1) generator_step_ok_def
            split: GeneratorStep.split
            intro!: blocks[OF wf current(2), THEN keeps_use] Suc.IH[THEN keeps_use]
              keeps_gen_move[where f = f, THEN keeps_use] since_gen_at[OF _ s(2)])
    qed
    then show "wp (drive_generator_segment H vm call i (Suc n))
        (\<lambda>outcome s'. since s s' \<and> outcome_ok f outcome) (\<lambda>p s'. since s s' \<and> allowed p) s"
      using s by (auto simp: wp_andThen intro!: keeps_gen_data[THEN keeps_use])
  qed
qed

lemma since_call_depth:
  assumes "since s0 s" "\<not> sync_module vm"
  shows "since s0 (s\<lparr>call_depth := d\<rparr>)"
proof -
  have "vm_inv vm (s\<lparr>call_depth := d\<rparr>)"
    by (rule vm_inv_tables[OF since_inv[OF assms(1)]])
      (use since_inv[OF assms(1), THEN vm_inv_budget] in \<open>simp_all add: budget_ok_def\<close>)
  moreover have "vm_grows vm s (s\<lparr>call_depth := d\<rparr>)"
    using assms(2) by (simp add: vm_grows_def same_frames_def balanced_def no_callables_def sync_run_def)
  ultimately show ?thesis
    using assms(1) by (auto simp: since_def intro: vm_grows_trans)
qed

lemma keeps_at_depth:
  assumes "keeps P body (\<lambda>x _. Q x)" "frame_condition P" "\<not> sync_module vm"
  shows "keeps P (at_depth d body) (\<lambda>x _. Q x)"
  using assms(2)
  by (intro keepsI)
    (auto simp: at_depth_def wp_simps frame_condition_def split: sum.split
      intro!: assms(1)[THEN keeps_use] since_call_depth assms(3))

lemma keeps_drive_generator_frame:
  "keeps (gen_at i f) (drive_generator_frame H vm n call i) (\<lambda>outcome _. outcome_ok f outcome)"
  unfolding drive_generator_frame_def
proof (rule keeps_with_segment[OF _ frame_condition_gen_at], rule keepsI)
  fix s
  assume s: "since s s" "gen_at i f s"
  note sync = gen_at_not_sync[OF s]
  from s show "wp (andThen (gen_data i) (\<lambda>g. at_depth (gen_depth g) (drive_generator_segment H vm call i n)))
      (\<lambda>x s'. since s s' \<and> outcome_ok f x) (\<lambda>p s'. since s s' \<and> allowed p) s"
    by (auto simp: wp_simps intro!: keeps_gen_data[where f = f, THEN keeps_use] since_gen_at[OF _ s(2)]
        keeps_at_depth[OF keeps_drive_generator_segment frame_condition_gen_at sync, THEN keeps_use])
qed

subsection \<open>Resuming\<close>

definition prepared_ok :: "Function \<Rightarrow> GeneratorOutcome option \<Rightarrow> bool" where
  "prepared_ok f r \<longleftrightarrow> (\<forall>outcome. r = Some outcome \<longrightarrow> outcome_ok f outcome)"

lemma prepared_ok_simps [simp]:
  "prepared_ok f None" "prepared_ok f (Some outcome) = outcome_ok f outcome"
  by (simp_all add: prepared_ok_def)

lemma keeps_injections:
  assumes "wf_generator_suspension f point"
  shows "keeps (gen_at i f) (inject_generator_completion i point v (throw_block point)) (\<lambda>_ _. True)"
    and "keeps (gen_at i f) (inject_generator_completion i point v (return_block point)) (\<lambda>_ _. True)"
    and "keeps (gen_at i f) (inject_generator_completion i point v (resume_block point)) (\<lambda>_ _. True)"
  using assms by (simp_all add: wf_generator_suspension_def keeps_inject_generator_completion)

lemma keeps_complete_with_error:
  "allowed_error e \<Longrightarrow> keeps (gen_at i f) (complete_with_error i e) (\<lambda>_ _. False)"
  by (rule keepsI)
    (auto simp: complete_with_error_def wp_simps suspended_at_def
      intro!: keeps_gen_set_state[where f = f, THEN keeps_use])

lemma suspended_at_simps [simp]:
  "suspended_at Executing = {}" "suspended_at Completed = {}" "suspended_at SuspendedStart = {}"
  "suspended_at (SuspendedYield p) = {p}" "suspended_at (SuspendedDelegate p) = {p}"
  by (simp_all add: suspended_at_def)

lemma keeps_prepare_async_delegate_resume:
  assumes "is_async f" "wf_generator_suspension f point"
    and "generator_suspension_id point \<in> generator_suspension_ids f"
  shows "keeps (gen_at i f) (prepare_async_delegate_resume H call i point iterator kind input)
    (\<lambda>r _. prepared_ok f r)"
proof (rule keepsI)
  fix s
  assume s: "since s s" "gen_at i f s"
  then show "wp (prepare_async_delegate_resume H call i point iterator kind input)
      (\<lambda>r s'. since s s' \<and> prepared_ok f r) (\<lambda>p s'. since s s' \<and> allowed p) s"
    using assms(1,3)
    by (cases kind)
      (auto simp: prepare_async_delegate_resume_def wp_simps outcome_ok_def
        split: option.split VmError.split sum.split
        intro!: keeps_generator_optional_iterator_call[THEN keeps_use]
          keeps_injections[OF assms(2), THEN keeps_use] since_gen_at[OF _ s(2)])
qed

lemma keeps_sync_delegate_step:
  assumes "wf_generator_suspension f point"
  shows "keeps (gen_at i f) (sync_delegate_step H call i point iterator kind input)
    (\<lambda>r _. \<forall>e. r = Some (Err e) \<longrightarrow> allowed_error e)"
proof (rule keepsI)
  fix s
  assume s: "since s s" "gen_at i f s"
  then show "wp (sync_delegate_step H call i point iterator kind input)
      (\<lambda>r s'. since s s' \<and> (\<forall>e. r = Some (Err e) \<longrightarrow> allowed_error e))
      (\<lambda>p s'. since s s' \<and> allowed p) s"
    by (cases kind)
      (auto simp: sync_delegate_step_def sync_delegate_throw_def wp_simps
        split: option.split VmError.split sum.split
        intro!: keeps_generator_optional_iterator_step[THEN keeps_use]
          keeps_complete_with_error[where f = f, THEN keeps_use]
          keeps_injections[OF assms, THEN keeps_use] since_gen_at[OF _ s(2)])
qed

lemma keeps_settle_delegated:
  assumes "wf_generator_suspension f point" "p \<in> generator_suspension_ids f"
    and "\<forall>e. delegated = Some (Err e) \<longrightarrow> allowed_error e"
  shows "keeps (gen_at i f) (settle_delegated i p point kind input delegated)
    (\<lambda>r _. prepared_ok f r)"
proof (rule keepsI)
  fix s
  assume s: "since s s" "gen_at i f s"
  note rules = keeps_gen_set_state[where f = f, THEN keeps_use]
    keeps_complete_with_error[where f = f, THEN keeps_use]
    keeps_injections[OF assms(1), THEN keeps_use] since_gen_at[OF _ s(2)]
  show "wp (settle_delegated i p point kind input delegated)
      (\<lambda>r s'. since s s' \<and> prepared_ok f r) (\<lambda>p s'. since s s' \<and> allowed p) s"
  proof (cases "\<exists>e. delegated = Some (Err e)")
    case True
    then obtain e where e: "delegated = Some (Err e)" by blast
    with assms(3) show ?thesis
      using s by (cases e) (auto simp: settle_delegated_def e Let_def wp_simps intro!: rules)
  next
    case False
    then show ?thesis
      using s assms(2)
      by (auto simp: settle_delegated_def Let_def wp_simps outcome_ok_def
          split: option.split sum.split intro!: rules)
  qed
qed

lemma keeps_prepare_sync_delegate_resume:
  assumes "wf_generator_suspension f point" "p \<in> generator_suspension_ids f"
  shows "keeps (gen_at i f) (prepare_sync_delegate_resume H call i p point iterator kind input)
    (\<lambda>r _. prepared_ok f r)"
proof (rule keepsI)
  fix s
  assume s: "since s s" "gen_at i f s"
  then show "wp (prepare_sync_delegate_resume H call i p point iterator kind input)
      (\<lambda>r s'. since s s' \<and> prepared_ok f r) (\<lambda>p s'. since s s' \<and> allowed p) s"
    by (auto simp: prepare_sync_delegate_resume_def wp_simps
        intro!: keeps_sync_delegate_step[OF assms(1), THEN keeps_use]
          keeps_settle_delegated[OF assms, THEN keeps_use] since_gen_at[OF _ s(2)])
qed

lemma keeps_resume_yield:
  assumes "p \<in> generator_suspension_ids f"
  shows "keeps (gen_at i f) (resume_yield i p kind input) (\<lambda>r _. prepared_ok f r)"
proof (rule keepsI)
  fix s
  assume s: "since s s" "gen_at i f s"
  from generator_point_Some[OF generator_of_wf[OF s(1) gen_at_of[OF s]] assms] obtain point where
    point: "generator_point f p = Some point" "wf_generator_suspension f point" by blast
  then have wf: "wf_register f (result_register point)" "resume_target kind point \<in> block_ids f"
    by (cases kind; simp add: wf_generator_suspension_def resume_target_def)+
  show "wp (resume_yield i p kind input) (\<lambda>r s'. since s s' \<and> prepared_ok f r)
      (\<lambda>p s'. since s s' \<and> allowed p) s"
    using s
    by (auto simp: resume_yield_def wp_simps generator_of_function point(1)
        intro!: keeps_gen_data[where f = f, THEN keeps_use]
          keeps_gen_write_register[OF wf(1), THEN keeps_use] keeps_gen_move[OF wf(2), THEN keeps_use]
          keeps_gen_set_state[where f = f, THEN keeps_use] since_gen_at[OF _ s(2)])
qed

lemma keeps_resume_delegate:
  assumes "p \<in> generator_suspension_ids f"
  shows "keeps (gen_at i f) (resume_delegate H call i p kind input) (\<lambda>r _. prepared_ok f r)"
proof (rule keepsI)
  fix s
  assume s: "since s s" "gen_at i f s"
  from generator_point_Some[OF generator_of_wf[OF s(1) gen_at_of[OF s]] assms] obtain point where
    point: "generator_point f p = Some point" "wf_generator_suspension f point"
      "generator_suspension_id point = p" by blast
  with assms have id: "generator_suspension_id point \<in> generator_suspension_ids f" by simp
  show "wp (resume_delegate H call i p kind input) (\<lambda>r s'. since s s' \<and> prepared_ok f r)
      (\<lambda>p s'. since s s' \<and> allowed p) s"
    using s
    by (auto simp: resume_delegate_def wp_simps generator_of_function point(1)
        split: option.split intro!: keeps_gen_data[where f = f, THEN keeps_use]
          keeps_gen_set_state[where f = f, THEN keeps_use] since_gen_at[OF _ s(2)]
          keeps_prepare_async_delegate_resume[OF _ point(2) id, THEN keeps_use]
          keeps_prepare_sync_delegate_resume[OF point(2) assms, THEN keeps_use])
qed

lemma keeps_prepare_generator_resume:
  "keeps (gen_at i f) (prepare_generator_resume H call i kind input) (\<lambda>r _. prepared_ok f r)"
proof (rule keepsI)
  fix s
  assume s: "since s s" "gen_at i f s"
  note rules = keeps_gen_set_state[where f = f, THEN keeps_use]
    keeps_complete_with_error[where f = f, THEN keeps_use] since_gen_at[OF _ s(2)]
  have completed: "keeps (gen_at i f) (resume_completed kind input) (\<lambda>r _. prepared_ok f r)"
    by (rule keepsI; cases kind) (auto simp: resume_completed_def wp_simps outcome_ok_def)
  have start: "keeps (gen_at i f) (resume_start i kind input) (\<lambda>r _. prepared_ok f r)"
    by (rule keepsI; cases kind)
      (auto simp: resume_start_def wp_simps outcome_ok_def
        intro!: keeps_gen_set_state[where f = f, THEN keeps_use]
          keeps_complete_with_error[where f = f, THEN keeps_use])
  show "wp (prepare_generator_resume H call i kind input) (\<lambda>r s'. since s s' \<and> prepared_ok f r)
      (\<lambda>p s'. since s s' \<and> allowed p) s"
    using s
    by (auto simp: prepare_generator_resume_def throw_string_def wp_simps split: GeneratorState.split
        intro!: keeps_gen_get_state[where f = f, THEN keeps_use] completed[THEN keeps_use]
          start[THEN keeps_use] keeps_resume_yield[where f = f, THEN keeps_use]
          keeps_resume_delegate[where f = f, THEN keeps_use] since_gen_at[OF _ s(2)])
qed

lemma keeps_settle_generator:
  assumes "\<not> is_async f" "\<forall>outcome. r = Ok outcome \<longrightarrow> outcome_ok f outcome"
    and "\<forall>e. r = Err e \<longrightarrow> allowed_error e"
  shows "keeps (gen_at i f) (settle_generator H call i r) (\<lambda>_ _. True)"
proof (rule keepsI)
  fix s
  assume s: "since s s" "gen_at i f s"
  note rules = keeps_gen_set_state[where f = f, THEN keeps_use]
    keeps_complete_with_error[where f = f, THEN keeps_use]
    keeps_generator_result[THEN keeps_use] since_gen_at[OF _ s(2)]
  show "wp (settle_generator H call i r) (\<lambda>x s'. since s s' \<and> True) (\<lambda>p s'. since s s' \<and> allowed p) s"
  proof (cases r)
    case (Inl e)
    then show ?thesis
      using s assms(3) by (auto simp: settle_generator_def wp_simps intro!: rules)
  next
    case (Inr outcome)
    then show ?thesis
      using s assms(1,2)
      by (cases outcome) (auto simp: settle_generator_def wp_simps outcome_ok_def intro!: rules)
  qed
qed

lemma keeps_resume_generator_frame:
  assumes "\<not> is_async f"
  shows "keeps (gen_at i f) (resume_generator_frame H vm n call i kind input) (\<lambda>_ _. True)"
proof (rule keepsI)
  fix s
  assume s: "since s s" "gen_at i f s"
  then show "wp (resume_generator_frame H vm n call i kind input) (\<lambda>x s'. since s s' \<and> True)
      (\<lambda>p s'. since s s' \<and> allowed p) s"
    by (auto simp: resume_generator_frame_def wp_simps prepared_ok_def
        split: option.split sum.split
        intro!: keeps_prepare_generator_resume[where f = f, THEN keeps_use]
          keeps_drive_generator_frame[where f = f, THEN keeps_use]
          keeps_settle_generator[OF assms, THEN keeps_use] since_gen_at[OF _ s(2)])
qed

subsection \<open>Creating a generator\<close>

lemma since_new_frames:
  assumes "since s0 s" "\<forall>g\<in>set gs. generator_ok vm g" "\<forall>a\<in>set as. async_ok vm a"
    and "\<forall>x\<in>set xs. ag_ok s x"
  shows "since s0 (s\<lparr>generators := generators s @ gs, async_frames := async_frames s @ as,
    async_generators := async_generators s @ xs\<rparr>)"
proof -
  let ?t = "s\<lparr>generators := generators s @ gs, async_frames := async_frames s @ as,
    async_generators := async_generators s @ xs\<rparr>"
  have same: "same_frames s ?t"
    by (auto simp: same_frames_def nth_append)
  have inv: "vm_inv vm s" by (rule since_inv[OF assms(1)])
  then have "\<forall>x\<in>set (async_generators s). ag_ok s x" by (simp add: vm_inv_def)
  from same_frames_closure_ok[OF same this] same_frames_ag_ok[OF same] inv assms(2-4)
  have "vm_inv vm ?t"
    by (auto simp: vm_inv_def budget_ok_def)
  moreover have "vm_grows vm s ?t"
    using same by (simp add: vm_grows_def balanced_def no_callables_def sync_run_def)
  ultimately show ?thesis
    using assms(1) by (auto simp: since_def intro: vm_grows_trans)
qed

lemma keeps_new_generator:
  "generator_ok vm g \<Longrightarrow> keeps (\<lambda>_. True) (new_generator g) (\<lambda>i s. gen_at i (gen_function g) s)"
proof (rule keepsI)
  fix s
  assume "generator_ok vm g" "since s s"
  from since_new_frames[of s s "[g]" "[]" "[]"] this
  have "since s (s\<lparr>generators := generators s @ [g]\<rparr>)" by simp
  then show "wp (new_generator g) (\<lambda>i s'. since s s' \<and> gen_at i (gen_function g) s')
      (\<lambda>p s'. since s s' \<and> allowed p) s"
    by (simp add: wp_def new_generator_def gen_at_def)
qed

lemma keeps_set_method:
  "keeps (\<lambda>s. closure_ok vm s c \<and> vm_closure vm c) (set_method H call v key c)
     (\<lambda>_ _. True)"
  by (rule keepsI)
    (auto simp: set_method_def wp_simps
      intro!: keeps_new_function[THEN keeps_use] keeps_prim[THEN keeps_use])

lemma gen_function_new: "gen_function (new_generator_frame f env depth) = f"
  by (simp add: new_generator_frame_def)

lemma generator_ok_new:
  assumes "module_function vm f" "wf_function (vm_module vm) f" "is_generator f"
    and "accessible_bindings f \<subseteq> dom env"
  shows "generator_ok vm (new_generator_frame f env depth)"
  using assms by (simp add: generator_ok_def new_generator_frame_def wf_function_def)

lemma keeps_execute_sync_generator_function:
  assumes "module_function vm f" "is_generator f" "\<not> is_async f" "set (captures f) \<subseteq> dom env0"
  shows "keeps (\<lambda>_. True) (execute_sync_generator_function H call f this args env0 depth)
    (\<lambda>_ _. True)"
proof (rule keepsI)
  fix s
  assume s: "since s s"
  note wf = module_function_wf[OF s assms(1)]
  then have params: "wf_parameters f" by (simp add: wf_function_def)
  have sync: "\<not> sync_module vm" using not_sync_module[OF assms(1)] assms(2) by blast
  have ok: "closure_ok vm u (GeneratorMethod i kind)" if "gen_at i f t" "since t u" for i kind t u
    using since_gen_at[OF that(2,1)] assms(3) by (auto simp: closure_ok_def gen_at_def)
  have rest: "wp (andThen (prim H call (P_value_object []) []) (\<lambda>g.
       andSeq (set_method H call g ''next'' (GeneratorMethod i ResumeNext))
       (andSeq (set_method H call g ''return'' (GeneratorMethod i ResumeReturn))
       (andSeq (set_method H call g ''throw'' (GeneratorMethod i ResumeThrow))
       (andSeq (set_method H call g ''__w3cos_symbol_iterator'' (IterableSelf g))
       (ret g))))))
      (\<lambda>x s'. since t s' \<and> True) (\<lambda>p s'. since t s' \<and> allowed p) t"
    if t: "since t t" "gen_at i f t" for i t
    using t(1)
    by (auto simp: wp_simps sync closure_ok_def[of _ _ "IterableSelf _"]
        intro!: keeps_prim[THEN keeps_use] keeps_set_method[THEN keeps_use] ok[OF t(2)])
  have rest_keeps: "keeps (gen_at i f) (andThen (prim H call (P_value_object []) []) (\<lambda>g.
       andSeq (set_method H call g ''next'' (GeneratorMethod i ResumeNext))
       (andSeq (set_method H call g ''return'' (GeneratorMethod i ResumeReturn))
       (andSeq (set_method H call g ''throw'' (GeneratorMethod i ResumeThrow))
       (andSeq (set_method H call g ''__w3cos_symbol_iterator'' (IterableSelf g))
       (ret g)))))) (\<lambda>_ _. True)" for i
    by (rule keepsI) (rule rest)
  show "wp (execute_sync_generator_function H call f this args env0 depth)
      (\<lambda>x s'. since s s' \<and> True) (\<lambda>p s'. since s s' \<and> allowed p) s"
    unfolding execute_sync_generator_function_def wp_andThen[of "initialize_environment _ _ _ _ _ _"]
      wp_andThen[of "new_generator _"]
    using s
    by (auto intro!: keeps_initialize_environment[OF assms(4) params, THEN keeps_use]
        keeps_new_generator[OF generator_ok_new[OF assms(1) wf assms(2)], THEN keeps_use]
        rest_keeps[THEN keeps_use] simp: gen_function_new)
qed

end

end
