(* ===== verification/VMAsyncSound.thy ===== *)
theory VMAsyncSound
  imports VMGeneratorSound
begin

text \<open>
  The contract for async functions and async generators: every continuation handed to a promise
  names a block and a register of the function it resumes.
\<close>

subsection \<open>Async frames\<close>

definition async_at :: "nat \<Rightarrow> Function \<Rightarrow> 'w VmState \<Rightarrow> bool" where
  "async_at i f s \<longleftrightarrow> i < length (async_frames s) \<and> async_function (async_frames s ! i) = f"

lemma frame_condition_async_at [simp]: "frame_condition (async_at i f)"
  by (simp add: frame_condition_def async_at_def)

definition async_of :: "Vm \<Rightarrow> Function \<Rightarrow> AsyncFrame \<Rightarrow> bool" where
  "async_of vm f a \<longleftrightarrow> async_ok vm a \<and> async_function a = f"

lemma async_of_borrowed [simp]: "async_of vm f (a\<lparr>async_borrowed := z\<rparr>) = async_of vm f a"
  by (simp add: async_of_def async_ok_def)

lemma async_of_change:
  "async_of vm f a \<Longrightarrow> length regs = unat (registers f) \<Longrightarrow>
   async_of vm f (a\<lparr>async_registers := regs\<rparr>)"
  "async_of vm f a \<Longrightarrow> frame_ok f (regs, env) \<Longrightarrow>
   async_of vm f (a\<lparr>async_registers := regs, async_environment := env\<rparr>)"
  "async_of vm f a \<Longrightarrow> target \<in> block_ids f \<Longrightarrow> async_of vm f (a\<lparr>async_block := target\<rparr>)"
  by (auto simp: async_of_def async_ok_def frame_ok_def)

lemma async_of_register:
  "async_of vm f a \<Longrightarrow> wf_register f r \<Longrightarrow> unat (reg_no r) < length (async_registers a)"
  by (auto simp: async_of_def async_ok_def wf_register_def word_less_nat_alt)

lemma async_of_length: "async_of vm f a \<Longrightarrow> length (async_registers a) = unat (registers f)"
  by (auto simp: async_of_def async_ok_def)

lemma async_of_frame: "async_of vm f a \<Longrightarrow> frame_ok f (async_registers a, async_environment a)"
  by (auto simp: frame_ok_def async_of_def async_ok_def)

lemma async_of_function: "async_of vm f a \<Longrightarrow> async_function a = f"
  by (simp add: async_of_def)

lemma async_of_block: "async_of vm f a \<Longrightarrow> async_block a \<in> block_ids f"
  by (auto simp: async_of_def async_ok_def)

lemma async_of_kind: "async_of vm f a \<Longrightarrow> is_async f \<and> \<not> is_generator f"
  by (auto simp: async_of_def async_ok_def)

lemma suspension_point_Some:
  assumes "wf_function m f" "p \<in> suspension_ids f"
  obtains point where "suspension_point f p = Some point"
    "suspension_resume_block point \<in> block_ids f" "reject_block point \<in> block_ids f"
proof -
  from assms(2) have "\<exists>x\<in>set (suspension_points f). suspension_id x = p"
    by (auto simp: suspension_ids_def)
  from find_ex[OF this] obtain point where point: "suspension_point f p = Some point"
    by (auto simp: suspension_point_def)
  with find_SomeD[OF point[unfolded suspension_point_def]] assms(1) show thesis
    by (intro that[of point]) (auto simp: wf_function_def wf_suspension_def)
qed

lemma wp_async_releasing:
  "wp (async_releasing i act) Q X s =
     wp act (\<lambda>x s'. wp (put_async i (\<lambda>a. a\<lparr>async_borrowed := False\<rparr>)) (\<lambda>_. Q x) X s')
       (\<lambda>p s'. wp (put_async i (\<lambda>a. a\<lparr>async_borrowed := False\<rparr>)) (\<lambda>_. X p) X s') s"
  by (simp add: wp_def async_releasing_def put_async_def modify_def
      split: prod.split Outcome.split)

definition async_step_ok :: "Function \<Rightarrow> AsyncStep \<Rightarrow> bool" where
  "async_step_ok f step = (case step of AsyncNext target \<Rightarrow> target \<in> block_ids f | AsyncLeave _ \<Rightarrow> True)"

context vm_contract
begin

lemma since_async_at: "since s0 s \<Longrightarrow> async_at i f s0 \<Longrightarrow> async_at i f s"
  by (auto simp: since_def vm_grows_def same_frames_def async_at_def)

lemma async_at_of: "since s0 s \<Longrightarrow> async_at i f s \<Longrightarrow> async_of vm f (async_frames s ! i)"
  by (auto simp: since_def vm_inv_def async_at_def async_of_def)

lemma async_at_not_sync: "since s0 s \<Longrightarrow> async_at i f s \<Longrightarrow> \<not> sync_module vm"
  using async_at_of[of s0 s i f] not_sync_module[of vm f] by (auto simp: async_of_def async_ok_def)

lemma async_of_wf: "since s0 s \<Longrightarrow> async_of vm f a \<Longrightarrow> wf_function (vm_module vm) f"
  by (auto simp: async_of_def async_ok_def intro: module_function_wf)

lemma since_put_async:
  assumes "since s0 s" "async_at i f s" "async_of vm f a"
  shows "since s0 (s\<lparr>async_frames := (async_frames s)[i := a]\<rparr>)"
proof -
  let ?t = "s\<lparr>async_frames := (async_frames s)[i := a]\<rparr>"
  have same: "same_frames s ?t"
    using assms(2,3) by (auto simp: same_frames_def async_at_def async_of_def nth_list_update)
  have inv: "vm_inv vm s" by (rule since_inv[OF assms(1)])
  then have "\<forall>x\<in>set (async_generators s). ag_ok s x" by (simp add: vm_inv_def)
  from same_frames_closure_ok[OF same this] same_frames_ag_ok[OF same] inv assms(3)
  have "vm_inv vm ?t"
    by (auto simp: vm_inv_def budget_ok_def async_of_def
        dest!: set_update_subset_insert[THEN subsetD])
  moreover have "vm_grows vm s ?t"
    using same by (simp add: vm_grows_def balanced_def no_callables_def sync_run_def)
  ultimately show ?thesis
    using assms(1) by (auto simp: since_def intro: vm_grows_trans)
qed

lemma keeps_put_async:
  assumes "\<And>a. async_of vm f a \<Longrightarrow> async_of vm f (u a)"
  shows "keeps (async_at i f) (put_async i u) (\<lambda>_ _. True)"
  by (rule keepsI; frule (1) async_at_of)
    (auto simp: put_async_def wp_simps assms intro!: since_put_async)

lemma keeps_async_data: "keeps (async_at i f) (async_data i) (\<lambda>a _. async_of vm f a)"
  by (rule keepsI; frule (1) async_at_of) (auto simp: async_data_def wp_simps)

lemma keeps_async_move:
  "target \<in> block_ids f \<Longrightarrow> keeps (async_at i f) (async_move i target) (\<lambda>_ _. True)"
  by (rule keepsI)
    (auto simp: async_move_def wp_simps intro!: keeps_async_data[where f = f, THEN keeps_use]
        keeps_put_async[where f = f, THEN keeps_use]; blast intro: since_async_at async_of_change)

lemma keeps_async_read_register:
  "wf_register f r \<Longrightarrow> keeps (async_at i f) (async_read_register i r) (\<lambda>_ _. True)"
  by (rule keepsI)
    (auto simp: async_read_register_def wp_simps async_of_register
      intro!: keeps_async_data[THEN keeps_use] keeps_read_register[THEN keeps_use])

lemma keeps_async_write_register:
  "wf_register f r \<Longrightarrow> keeps (async_at i f) (async_write_register i r v) (\<lambda>_ _. True)"
  by (rule keepsI)
    (auto simp: async_write_register_def wp_simps async_of_length wf_register_def word_less_nat_alt
      intro!: keeps_async_data[THEN keeps_use] keeps_write_register[THEN keeps_use]
        keeps_put_async[where f = f, THEN keeps_use]; blast intro: since_async_at async_of_change)

lemma keeps_async_releasing:
  assumes "keeps (async_at i f) act (\<lambda>x _. Q x)"
  shows "keeps (async_at i f) (async_releasing i act) (\<lambda>x _. Q x)"
  by (rule keepsI)
    (auto simp: wp_async_releasing intro: since_async_at
      intro!: assms[THEN keeps_use] keeps_put_async[where f = f, THEN keeps_use])

lemma keeps_async_instruction:
  assumes "wf_instruction (vm_module vm) f ins" "\<not> suspends ins"
  shows "keeps (async_at i f) (async_instruction H vm call f b i ins) (\<lambda>r _. control_ok f ins (fst r))"
proof -
  define act where "act = (\<lambda>a :: AsyncFrame.
      andThen (execute_instruction H vm call ins (async_registers a, async_environment a))
           (\<lambda>(control, regs, env).
             andSeq (put_async i (\<lambda>a. a\<lparr>async_registers := regs, async_environment := env\<rparr>))
               (ret (control, ()))))"
  have act: "keeps (async_at i f) (act a) (\<lambda>r _. control_ok f ins (fst r))" if "async_of vm f a" for a
    by (rule keepsI)
      (auto simp: act_def wp_simps split: prod.split intro: since_async_at async_of_change
        intro!: keeps_execute_instruction[OF async_of_frame[OF that] assms, THEN keeps_use]
          keeps_put_async[where f = f, THEN keeps_use])
  have control: "keeps (async_at i f) (instruction_control H vm call f b (async_releasing i (act a)) ())
      (\<lambda>r _. control_ok f ins (fst r))" if "async_of vm f a" for a
    by (rule keeps_instruction_control[OF keeps_async_releasing[OF act[OF that]]])
      (simp add: control_ok_def)
  show ?thesis
    unfolding async_instruction_def act_def[symmetric, THEN fun_cong, simplified]
    by (rule keepsI)
      (auto simp: wp_simps intro: since_async_at
        intro!: keeps_async_data[THEN keeps_use] keeps_put_async[where f = f, THEN keeps_use]
          control[THEN keeps_use])
qed

lemma keeps_async_enter_handler:
  assumes "wf_function (vm_module vm) f"
  shows "keeps (async_at i f) (async_enter_handler f b i v) (\<lambda>step _. async_step_ok f step)"
proof (cases "region_of f b")
  case None
  then show ?thesis by (intro keepsI) (simp add: async_enter_handler_def wp_simps)
next
  case (Some r)
  from wf_function_region[OF assms Some] obtain t where
    r: "wf_register f (exception_register r)" "handler_block r = Some t" "t \<in> block_ids f"
    by blast
  show ?thesis
    by (rule keepsI)
      (auto simp: async_enter_handler_def wp_simps Some r async_step_ok_def
        intro!: keeps_async_write_register[OF r(1), THEN keeps_use])
qed

lemma keeps_then_call:
  "keeps (\<lambda>s. (closure_ok vm s c \<and> vm_closure vm c) \<and>
      (closure_ok vm s d \<and> vm_closure vm d))
     (then_call H call v c d) (\<lambda>_ _. True)"
proof (rule keepsI)
  fix s
  assume s: "since s s"
    and ok: "(closure_ok vm s c \<and> vm_closure vm c) \<and>
      (closure_ok vm s d \<and> vm_closure vm d)"
  have later: "closure_ok vm t d" if "since s t" for t
    using that s ok same_frames_closure_ok[of s t vm d] by (auto simp: since_def vm_grows_def vm_inv_def)
  show "wp (then_call H call v c d) (\<lambda>_ s'. since s s' \<and> True) (\<lambda>p s'. since s s' \<and> allowed p) s"
    using s ok
    by (auto simp: then_call_def wp_simps later
        intro!: keeps_new_function[THEN keeps_use] keeps_prim[THEN keeps_use])
qed

lemma keeps_async_await:
  assumes "wf_function (vm_module vm) f" "p \<in> suspension_ids f" "wf_register f dst"
    and "wf_register f value"
  shows "keeps (async_at i f) (async_await H call f i resolve reject dst value p)
    (\<lambda>step _. async_step_ok f step)"
proof (rule keepsI)
  fix s
  assume s: "since s s" "async_at i f s"
  from suspension_point_Some[OF assms(1,2)] obtain point where
    point: "suspension_point f p = Some point" "suspension_resume_block point \<in> block_ids f"
      "reject_block point \<in> block_ids f" by blast
  have ok: "closure_ok vm t (AwaitFulfilled i dst (suspension_resume_block point) resolve reject)"
    "closure_ok vm t (AwaitRejected i dst (reject_block point) resolve reject)" if "since s t" for t
    using since_async_at[OF that s(2)] assms(3) point by (simp_all add: closure_ok_def async_at_def)
  show "wp (async_await H call f i resolve reject dst value p)
      (\<lambda>step s'. since s s' \<and> async_step_ok f step) (\<lambda>p s'. since s s' \<and> allowed p) s"
    using s
    by (auto simp: async_await_def point(1) wp_simps async_step_ok_def ok async_at_not_sync[OF s]
        intro!: keeps_async_read_register[OF assms(4), THEN keeps_use] keeps_then_call[THEN keeps_use])
qed

lemma async_suspend_None:
  "\<not> is_generator f \<Longrightarrow> wf_instruction m f ins \<Longrightarrow>
   async_suspend H call f i resolve reject ins = None \<longleftrightarrow> \<not> suspends ins"
  by (cases ins) (auto simp: async_suspend_def suspends_def wf_instruction_def wf_instruction_kind_def)

lemma keeps_async_suspend:
  assumes "wf_function (vm_module vm) f" "wf_instruction (vm_module vm) f ins"
    and "async_suspend H call f i resolve reject ins = Some act"
  shows "keeps (async_at i f) act (\<lambda>step _. async_step_ok f step)"
  using assms
  by (cases ins) (auto simp: async_suspend_def wf_instruction_def wf_instruction_kind_def
      instruction_registers_def intro!: keeps_async_await)

lemma keeps_async_instructions:
  assumes "wf_function (vm_module vm) f" "\<not> is_generator f"
    and "\<forall>ins\<in>set is. wf_instruction (vm_module vm) f ins" "is \<noteq> []" "is_terminator (last is)"
  shows "keeps (async_at i f) (async_instructions H vm call f b i resolve reject is)
    (\<lambda>step _. async_step_ok f step)"
  using assms(3-)
proof (induction "is")
  case Nil
  then show ?case by simp
next
  case (Cons ins rest)
  have ins: "wf_instruction (vm_module vm) f ins" using Cons.prems(1) by simp
  have rest: "keeps (async_at i f) (async_instructions H vm call f b i resolve reject rest)
      (\<lambda>step _. async_step_ok f step)" if "\<not> is_terminator ins"
    using Cons.prems that by (intro Cons.IH) (auto split: if_splits)
  show ?case
  proof (rule keepsI)
    fix s
    assume s: "since s s" "async_at i f s"
    show "wp (async_instructions H vm call f b i resolve reject (ins # rest))
        (\<lambda>step s'. since s s' \<and> async_step_ok f step) (\<lambda>p s'. since s s' \<and> allowed p) s"
    proof (cases "async_suspend H call f i resolve reject ins")
      case None
      then have "\<not> suspends ins" using async_suspend_None[OF assms(2) ins] by blast
      then show ?thesis
        using s
        by (auto simp: wp_simps None control_ok_def async_step_ok_def[of f "AsyncNext _"]
            async_step_ok_def[of f "AsyncLeave _"]
            split: prod.split Control.split
            intro!: keeps_consume_instruction[THEN keeps_use]
              keeps_async_instruction[OF ins, THEN keeps_use] rest[THEN keeps_use]
              keeps_async_enter_handler[OF assms(1), THEN keeps_use] since_async_at[OF _ s(2)])
    next
      case (Some act)
      then show ?thesis
        using s
        by (auto simp: wp_simps intro!: keeps_consume_instruction[THEN keeps_use]
            keeps_async_suspend[OF assms(1) ins Some, THEN keeps_use] since_async_at[OF _ s(2)])
    qed
  qed
qed

lemma keeps_drive_async_segment:
  "keeps (async_at i f) (drive_async_segment H vm call i resolve reject n) (\<lambda>_ _. True)"
proof (induction n)
  case 0
  show ?case by (rule keepsI) (simp add: wp_simps)
next
  case (Suc n)
  show ?case
  proof (rule keepsI)
    fix s
    assume s: "since s s" "async_at i f s"
    have "wp (case find_block (async_function a) (async_block a) of
       None \<Rightarrow> fail (VmMissingBlock (function_id (async_function a)) (async_block a))
     | Some current \<Rightarrow>
         andThen (async_instructions H vm call (async_function a) (async_block a) i resolve reject
                    (instructions current))
         (\<lambda>step. case step of
            AsyncNext target \<Rightarrow> andSeq (async_move i target)
              (drive_async_segment H vm call i resolve reject n)
          | AsyncLeave result \<Rightarrow> ret result))
       (\<lambda>outcome s'. since s s' \<and> True) (\<lambda>p s'. since s s' \<and> allowed p) s'"
      if s': "since s s'" and a: "async_of vm f a" for a s'
    proof -
      note wf = async_of_wf[OF s' a]
      from find_block_Some[OF async_of_block[OF a]] obtain current where
        current: "find_block f (async_block a) = Some current" "current \<in> set (blocks f)" by blast
      then have "wf_block (vm_module vm) f current" using wf by (simp add: wf_function_def)
      note block = wf_block_instructions[OF this]
      have kind: "\<not> is_generator f" using async_of_kind[OF a] by blast
      show ?thesis
        using s'
        by (auto simp: wp_simps async_of_function[OF a] current(1) async_step_ok_def
            split: AsyncStep.split
            intro!: keeps_async_instructions[OF wf kind block(3,1,2), THEN keeps_use]
              Suc.IH[THEN keeps_use]
              keeps_async_move[where f = f, THEN keeps_use] since_async_at[OF _ s(2)])
    qed
    then show "wp (drive_async_segment H vm call i resolve reject (Suc n))
        (\<lambda>outcome s'. since s s' \<and> True) (\<lambda>p s'. since s s' \<and> allowed p) s"
      using s by (auto simp: wp_andThen intro!: keeps_async_data[where f = f, THEN keeps_use])
  qed
qed

lemma keeps_call_value: "keeps (\<lambda>_. True) (call_value H call f v) (\<lambda>_ _. True)"
  by (rule keepsI) (auto simp: call_value_def wp_simps intro!: keeps_prim[THEN keeps_use])

lemma keeps_drive_async_frame:
  "keeps (async_at i f) (drive_async_frame H vm n call i resolve reject) (\<lambda>_ _. True)"
  unfolding drive_async_frame_def
proof (rule keeps_with_segment[OF _ frame_condition_async_at], rule keepsI)
  fix s
  assume s: "since s s" "async_at i f s"
  note sync = async_at_not_sync[OF s]
  from s show "wp (andThen (async_data i) (\<lambda>a.
     on_result (at_depth (async_depth a) (drive_async_segment H vm call i resolve reject n))
     (\<lambda>result. case result of
        Ok (Some v) \<Rightarrow> call_value H call resolve v
      | Ok None \<Rightarrow> ret ()
      | Err e \<Rightarrow> call_value H call reject (error_value H e))))
      (\<lambda>x s'. since s s' \<and> True) (\<lambda>p s'. since s s' \<and> allowed p) s"
    by (auto simp: wp_simps split: option.split sum.split
        intro!: keeps_async_data[where f = f, THEN keeps_use] since_async_at[OF _ s(2)]
        keeps_call_value[THEN keeps_use]
        keeps_at_depth[OF keeps_drive_async_segment frame_condition_async_at sync, THEN keeps_use])
qed

end

end
