(* ===== verification/VMMachineSound.thy ===== *)
theory VMMachineSound
  imports VMAsyncSound
begin

text \<open>
  The contract for async generators, for the body of every closure and, by induction on the depth of
  nested calls, for the dispatcher \<open>call_closure\<close>: the assumption on the core's calls is discharged
  and holds for every core.
\<close>

subsection \<open>Async generators\<close>

definition ag_index :: "'w VmState \<Rightarrow> nat \<Rightarrow> nat" where
  "ag_index s a = ag_generator (async_generators s ! a)"

definition ag_at :: "nat \<Rightarrow> Function \<Rightarrow> 'w VmState \<Rightarrow> bool" where
  "ag_at a f s \<longleftrightarrow> a < length (async_generators s) \<and> gen_at (ag_index s a) f s \<and> is_async f"

lemma frame_condition_ag_at [simp]: "frame_condition (ag_at a f)"
  by (simp add: frame_condition_def ag_at_def gen_at_def ag_index_def)

context vm_contract
begin

lemma since_ag_at: "since s0 s \<Longrightarrow> ag_at a f s0 \<Longrightarrow> ag_at a f s"
  by (auto simp: since_def vm_grows_def same_frames_def ag_at_def gen_at_def ag_index_def)

lemma ag_at_gen_at: "ag_at a f s \<Longrightarrow> gen_at (ag_index s a) f s"
  by (simp add: ag_at_def)

lemma ag_fetch_use:
  assumes "since s0 s" "ag_at a f s0" "\<And>x. ag_generator x = ag_index s0 a \<Longrightarrow> Q x s"
  shows "wp (ag_fetch a) Q X s"
  using assms since_ag_at[OF assms(1,2)]
  by (auto simp: ag_fetch_def wp_simps ag_at_def since_def vm_grows_def same_frames_def ag_index_def)

lemma since_put_ag:
  assumes "since s0 s" "a < length (async_generators s)"
    and "ag_generator x = ag_generator (async_generators s ! a)"
  shows "since s0 (s\<lparr>async_generators := (async_generators s)[a := x]\<rparr>)"
proof -
  let ?t = "s\<lparr>async_generators := (async_generators s)[a := x]\<rparr>"
  have same: "same_frames s ?t"
    using assms(2,3) by (auto simp: same_frames_def nth_list_update)
  have inv: "vm_inv vm s" by (rule since_inv[OF assms(1)])
  then have ags: "\<forall>x\<in>set (async_generators s). ag_ok s x" by (simp add: vm_inv_def)
  moreover from this have "ag_ok s x"
    using assms(2,3) nth_mem[OF assms(2)] by (auto simp: ag_ok_def)
  ultimately have "vm_inv vm ?t"
    using same_frames_closure_ok[OF same ags] same_frames_ag_ok[OF same] inv
    by (auto simp: vm_inv_def budget_ok_def dest!: set_update_subset_insert[THEN subsetD])
  moreover have "vm_grows vm s ?t"
    using same by (simp add: vm_grows_def balanced_def no_callables_def sync_run_def)
  ultimately show ?thesis
    using assms(1) by (auto simp: since_def intro: vm_grows_trans)
qed

lemma keeps_put_ag:
  assumes "\<And>x. ag_generator (u x) = ag_generator x"
  shows "keeps (ag_at a f) (put_ag a u) (\<lambda>_ _. True)"
  by (rule keepsI) (auto simp: put_ag_def wp_simps assms ag_at_def intro!: since_put_ag)

lemma keeps_ag_push: "keeps (ag_at a f) (ag_push a q) (\<lambda>_ _. True)"
proof (rule keepsI)
  fix s
  assume s: "since s s" "ag_at a f s"
  then show "wp (ag_push a q) (\<lambda>_ s'. since s s' \<and> True) (\<lambda>p s'. since s s' \<and> allowed p) s"
    by (auto simp: ag_push_def wp_simps intro!: ag_fetch_use[OF _ s(2)]
        keeps_put_ag[where f = f, THEN keeps_use] since_ag_at[OF _ s(2)])
qed

lemma keeps_ag_start: "keeps (ag_at a f) (ag_start a) (\<lambda>_ _. True)"
proof (rule keepsI)
  fix s
  assume s: "since s s" "ag_at a f s"
  then show "wp (ag_start a) (\<lambda>_ s'. since s s' \<and> True) (\<lambda>p s'. since s s' \<and> allowed p) s"
    by (auto simp: ag_start_def wp_simps split: option.split list.split
        intro!: ag_fetch_use[OF _ s(2)]
        keeps_put_ag[where f = f, THEN keeps_use] since_ag_at[OF _ s(2)])
qed

lemma keeps_ag_take: "keeps (ag_at a f) (ag_take a) (\<lambda>_ _. True)"
proof (rule keepsI)
  fix s
  assume s: "since s s" "ag_at a f s"
  then show "wp (ag_take a) (\<lambda>_ s'. since s s' \<and> True) (\<lambda>p s'. since s s' \<and> allowed p) s"
    by (auto simp: ag_take_def wp_simps
        intro!: ag_fetch_use[OF _ s(2)]
        keeps_put_ag[where f = f, THEN keeps_use] since_ag_at[OF _ s(2)])
qed

lemma ag_closures:
  assumes "ag_at a f s"
  shows "closure_ok vm s (AgCompletionFulfilled a)" "closure_ok vm s (AgCompletionRejected a)"
    "closure_ok vm s (AsyncGeneratorExecutor a kind input)"
    "closure_ok vm s (AsyncGeneratorMethod a kind)"
    "wf_register f dst \<Longrightarrow> target \<in> block_ids f \<Longrightarrow> closure_ok vm s (AgAwaitFulfilled a dst target)"
    "wf_register f dst \<Longrightarrow> target \<in> block_ids f \<Longrightarrow> closure_ok vm s (AgAwaitRejected a dst target)"
    "p \<in> generator_suspension_ids f \<Longrightarrow> closure_ok vm s (AgYieldFulfilled a p d)"
    "point \<in> set (generator_suspension_points f) \<Longrightarrow> closure_ok vm s (AgYieldRejected a point)"
    "p \<in> generator_suspension_ids f \<Longrightarrow> point \<in> set (generator_suspension_points f) \<Longrightarrow>
       closure_ok vm s (AgDelegateFulfilled a p action point)"
    "point \<in> set (generator_suspension_points f) \<Longrightarrow> closure_ok vm s (AgDelegateRejected a point)"
  using assms by (simp_all add: closure_ok_def ag_at_def gen_at_def ag_function_def ag_index_def)

lemma ag_at_not_sync: "since s0 s \<Longrightarrow> ag_at a f s \<Longrightarrow> \<not> sync_module vm"
  by (rule gen_at_not_sync[OF _ ag_at_gen_at])

lemma keeps_await_async_generator_completion:
  "keeps (ag_at a f) (await_async_generator_completion H call a v) (\<lambda>_ _. True)"
  by (rule keepsI; frule (1) ag_at_not_sync)
    (auto simp: await_async_generator_completion_def ag_closures intro!: keeps_then_call[THEN keeps_use])

lemma keeps_await_async_generator_yield:
  assumes "wf_function (vm_module vm) f" "p \<in> generator_suspension_ids f"
  shows "keeps (ag_at a f) (await_async_generator_yield H call a p v d) (\<lambda>_ _. True)"
proof (rule keepsI)
  fix s
  assume s: "since s s" "ag_at a f s"
  from generator_point_Some[OF assms] obtain point where
    point: "generator_point f p = Some point" "point \<in> set (generator_suspension_points f)" by blast
  note gen = since_gen_at[OF _ ag_at_gen_at[OF s(2)]]
  show "wp (await_async_generator_yield H call a p v d) (\<lambda>_ s'. since s s' \<and> True)
      (\<lambda>p s'. since s s' \<and> allowed p) s"
    using s assms(2)
    by (auto simp: await_async_generator_yield_def wp_simps generator_of_function point ag_at_not_sync[OF s]
        intro!: ag_closures[where f = f] since_ag_at[OF _ s(2)] ag_fetch_use[OF _ s(2)] gen
          keeps_gen_data[where f = f, THEN keeps_use] keeps_then_call[THEN keeps_use];
        auto simp: point intro: since_ag_at[OF _ s(2)])
qed

lemma keeps_await_async_generator_delegate:
  assumes "wf_function (vm_module vm) f" "p \<in> generator_suspension_ids f"
  shows "keeps (ag_at a f) (await_async_generator_delegate H call a p action v) (\<lambda>_ _. True)"
proof (rule keepsI)
  fix s
  assume s: "since s s" "ag_at a f s"
  from generator_point_Some[OF assms] obtain point where
    point: "generator_point f p = Some point" "point \<in> set (generator_suspension_points f)" by blast
  note gen = since_gen_at[OF _ ag_at_gen_at[OF s(2)]]
  show "wp (await_async_generator_delegate H call a p action v) (\<lambda>_ s'. since s s' \<and> True)
      (\<lambda>p s'. since s s' \<and> allowed p) s"
    using s assms(2)
    by (auto simp: await_async_generator_delegate_def wp_simps generator_of_function point ag_at_not_sync[OF s]
        intro!: ag_closures[where f = f] since_ag_at[OF _ s(2)] ag_fetch_use[OF _ s(2)] gen
          keeps_gen_data[where f = f, THEN keeps_use] keeps_then_call[THEN keeps_use];
        auto simp: point intro: since_ag_at[OF _ s(2)])
qed

lemma keeps_await_async_generator_await:
  assumes "wf_function (vm_module vm) f" "p \<in> suspension_ids f" "wf_register f dst"
  shows "keeps (ag_at a f) (await_async_generator_await H call a p dst v) (\<lambda>_ _. True)"
proof (rule keepsI)
  fix s
  assume s: "since s s" "ag_at a f s"
  from suspension_point_Some[OF assms(1,2)] obtain point where
    point: "suspension_point f p = Some point" "suspension_resume_block point \<in> block_ids f"
      "reject_block point \<in> block_ids f" by blast
  note gen = since_gen_at[OF _ ag_at_gen_at[OF s(2)]]
  show "wp (await_async_generator_await H call a p dst v) (\<lambda>_ s'. since s s' \<and> True)
      (\<lambda>p s'. since s s' \<and> allowed p) s"
    using s assms(2,3)
    by (auto simp: await_async_generator_await_def wp_simps generator_of_function point ag_at_not_sync[OF s]
        intro!: ag_closures[where f = f] since_ag_at[OF _ s(2)] ag_fetch_use[OF _ s(2)] gen
          keeps_gen_data[where f = f, THEN keeps_use] keeps_then_call[THEN keeps_use];
        auto simp: point intro: since_ag_at[OF _ s(2)])
qed

lemma ag_at_wf: "since s0 s \<Longrightarrow> ag_at a f s \<Longrightarrow> wf_function (vm_module vm) f"
  using generator_of_wf gen_at_of ag_at_gen_at by blast

lemma keeps_settle_active: "keeps (ag_at a f) (settle_active H call a k v) (\<lambda>_ _. True)"
  by (rule keepsI)
    (auto simp: settle_active_def wp_simps split: option.split
      intro!: keeps_ag_take[where f = f, THEN keeps_use] keeps_call_value[THEN keeps_use])

lemma keeps_reject_active: "keeps (ag_at a f) (reject_active H call a reason) (\<lambda>_ _. True)"
proof (rule keepsI)
  fix s
  assume s: "since s s" "ag_at a f s"
  show "wp (reject_active H call a reason) (\<lambda>_ s'. since s s' \<and> True) (\<lambda>p s'. since s s' \<and> allowed p) s"
    using s
    by (auto simp: reject_active_def wp_simps
        intro!: ag_fetch_use[OF _ s(2)] keeps_gen_set_state[where f = f, THEN keeps_use]
          keeps_settle_active[where f = f, THEN keeps_use] since_ag_at[OF _ s(2)]
          since_gen_at[OF _ ag_at_gen_at[OF s(2)]])
qed

lemma keeps_run_request:
  "keeps (ag_at a f) (run_request H vm n call a q)
     (\<lambda>r _. \<forall>outcome. r = Ok outcome \<longrightarrow> outcome_ok f outcome)"
proof (rule keepsI)
  fix s
  assume s: "since s s" "ag_at a f s"
  show "wp (run_request H vm n call a q)
      (\<lambda>r s'. since s s' \<and> (\<forall>outcome. r = Ok outcome \<longrightarrow> outcome_ok f outcome))
      (\<lambda>p s'. since s s' \<and> allowed p) s"
    using s
    by (auto simp: run_request_def wp_simps prepared_ok_def split: sum.split option.split
        intro!: ag_fetch_use[OF _ s(2)] keeps_prepare_generator_resume[where f = f, THEN keeps_use]
          keeps_drive_generator_frame[where f = f, THEN keeps_use]
          since_gen_at[OF _ ag_at_gen_at[OF s(2)]])
qed

lemma keeps_outcome_rejection:
  "keeps P act (\<lambda>_ _. True) \<Longrightarrow> keeps P (outcome_rejection act) (\<lambda>_ _. True)"
  by (rule keepsI) (auto simp: outcome_rejection_def wp_simps split: sum.split elim!: keeps_use)

lemma keeps_await_outcome:
  assumes "wf_function (vm_module vm) f" "\<forall>outcome. r = Ok outcome \<longrightarrow> outcome_ok f outcome"
  shows "keeps (ag_at a f) (await_outcome H call a r) (\<lambda>_ _. True)"
proof (cases r)
  case (Inl e)
  then show ?thesis by (intro keepsI) (simp add: await_outcome_def wp_simps)
next
  case (Inr outcome)
  show ?thesis
  proof (cases outcome)
    case (CompletedWith v)
    show ?thesis
    proof (rule keepsI)
      fix s
      assume s: "since s s" "ag_at a f s"
      show "wp (await_outcome H call a r) (\<lambda>_ s'. since s s' \<and> True)
          (\<lambda>p s'. since s s' \<and> allowed p) s"
        using s unfolding Inr CompletedWith
        by (auto simp: await_outcome_def wp_simps
            intro!: ag_fetch_use[OF _ s(2)] keeps_gen_set_state[where f = f, THEN keeps_use]
              keeps_await_async_generator_completion[where f = f, THEN keeps_use]
              since_ag_at[OF _ s(2)] since_gen_at[OF _ ag_at_gen_at[OF s(2)]])
    qed
  qed (use assms Inr in \<open>auto simp: await_outcome_def outcome_ok_def
      intro!: keeps_outcome_rejection keeps_await_async_generator_yield
        keeps_await_async_generator_delegate keeps_await_async_generator_await\<close>)
qed

lemma keeps_drive_async_generator_queue:
  assumes "wf_function (vm_module vm) f"
  shows "keeps (ag_at a f) (drive_async_generator_queue H vm n call a k) (\<lambda>_ _. True)"
proof (induction k)
  case 0
  show ?case by (rule keepsI) (simp add: wp_simps)
next
  case (Suc k)
  show ?case
  proof (rule keepsI)
    fix s
    assume s: "since s s" "ag_at a f s"
    show "wp (drive_async_generator_queue H vm n call a (Suc k)) (\<lambda>_ s'. since s s' \<and> True)
        (\<lambda>p s'. since s s' \<and> allowed p) s"
      using s
      by (auto simp: wp_simps split: option.split
          intro!: keeps_ag_start[where f = f, THEN keeps_use]
            keeps_run_request[where f = f, THEN keeps_use]
            keeps_await_outcome[OF assms, THEN keeps_use]
            keeps_reject_active[where f = f, THEN keeps_use]
            Suc.IH[THEN keeps_use] since_ag_at[OF _ s(2)])
  qed
qed

lemma keeps_resolve_async_generator_request:
  assumes "wf_function (vm_module vm) f"
  shows "keeps (ag_at a f) (resolve_async_generator_request H vm n call a v) (\<lambda>_ _. True)"
proof (rule keepsI)
  fix s
  assume s: "since s s" "ag_at a f s"
  show "wp (resolve_async_generator_request H vm n call a v) (\<lambda>_ s'. since s s' \<and> True)
      (\<lambda>p s'. since s s' \<and> allowed p) s"
    using s
    by (auto simp: resolve_async_generator_request_def wp_simps
        intro!: keeps_settle_active[where f = f, THEN keeps_use]
          keeps_drive_async_generator_queue[OF assms, THEN keeps_use] since_ag_at[OF _ s(2)])
qed

lemma keeps_reject_async_generator_request:
  assumes "wf_function (vm_module vm) f"
  shows "keeps (ag_at a f) (reject_async_generator_request H vm n call a v) (\<lambda>_ _. True)"
proof (rule keepsI)
  fix s
  assume s: "since s s" "ag_at a f s"
  show "wp (reject_async_generator_request H vm n call a v) (\<lambda>_ s'. since s s' \<and> True)
      (\<lambda>p s'. since s s' \<and> allowed p) s"
    using s
    by (auto simp: reject_async_generator_request_def wp_simps
        intro!: keeps_reject_active[where f = f, THEN keeps_use]
          keeps_drive_async_generator_queue[OF assms, THEN keeps_use] since_ag_at[OF _ s(2)])
qed

lemma keeps_handle_async_generator_outcome:
  assumes "wf_function (vm_module vm) f" "\<forall>outcome. r = Ok outcome \<longrightarrow> outcome_ok f outcome"
  shows "keeps (ag_at a f) (handle_async_generator_outcome H vm n call a r) (\<lambda>_ _. True)"
proof (rule keepsI)
  fix s
  assume s: "since s s" "ag_at a f s"
  show "wp (handle_async_generator_outcome H vm n call a r) (\<lambda>_ s'. since s s' \<and> True)
      (\<lambda>p s'. since s s' \<and> allowed p) s"
    using s
    by (auto simp: handle_async_generator_outcome_def wp_simps split: option.split
        intro!: keeps_await_outcome[OF assms, THEN keeps_use]
          keeps_reject_async_generator_request[OF assms(1), THEN keeps_use] since_ag_at[OF _ s(2)])
qed

lemma keeps_continue_async_generator:
  "keeps (ag_at a f) (continue_async_generator H vm n call a) (\<lambda>_ _. True)"
proof (rule keepsI)
  fix s
  assume s: "since s s" "ag_at a f s"
  note wf = ag_at_wf[OF s]
  show "wp (continue_async_generator H vm n call a) (\<lambda>_ s'. since s s' \<and> True)
      (\<lambda>p s'. since s s' \<and> allowed p) s"
    using s
    by (auto simp: continue_async_generator_def wp_simps split: sum.split
        intro!: ag_fetch_use[OF _ s(2)] keeps_drive_generator_frame[where f = f, THEN keeps_use]
          keeps_handle_async_generator_outcome[OF wf, THEN keeps_use]
          since_ag_at[OF _ s(2)] since_gen_at[OF _ ag_at_gen_at[OF s(2)]])
qed

subsection \<open>The bodies of the closures\<close>

lemma keeps_ag_await_settled_body:
  assumes "wf_register f dst" "target \<in> block_ids f"
  shows "keeps (ag_at a f) (ag_await_settled_body H vm n call a dst target args) (\<lambda>_ _. True)"
proof (rule keepsI)
  fix s
  assume s: "since s s" "ag_at a f s"
  show "wp (ag_await_settled_body H vm n call a dst target args) (\<lambda>_ s'. since s s' \<and> True)
      (\<lambda>p s'. since s s' \<and> allowed p) s"
    using s
    by (auto simp: ag_await_settled_body_def wp_simps
        intro!: ag_fetch_use[OF _ s(2)] keeps_gen_write_register[OF assms(1), THEN keeps_use]
          keeps_gen_move[OF assms(2), THEN keeps_use]
          keeps_continue_async_generator[where f = f, THEN keeps_use]
          since_ag_at[OF _ s(2)] since_gen_at[OF _ ag_at_gen_at[OF s(2)]])
qed

lemma keeps_ag_yield_fulfilled_body:
  assumes "p \<in> generator_suspension_ids f"
  shows "keeps (ag_at a f) (ag_yield_fulfilled_body H vm n call a p d args) (\<lambda>_ _. True)"
proof (rule keepsI)
  fix s
  assume s: "since s s" "ag_at a f s"
  note wf = ag_at_wf[OF s]
  show "wp (ag_yield_fulfilled_body H vm n call a p d args) (\<lambda>_ s'. since s s' \<and> True)
      (\<lambda>p s'. since s s' \<and> allowed p) s"
    using s assms
    by (auto simp: ag_yield_fulfilled_body_def wp_simps
        intro!: ag_fetch_use[OF _ s(2)] keeps_gen_set_state[where f = f, THEN keeps_use]
          keeps_generator_result[THEN keeps_use]
          keeps_resolve_async_generator_request[OF wf, THEN keeps_use]
          since_ag_at[OF _ s(2)] since_gen_at[OF _ ag_at_gen_at[OF s(2)]])
qed

lemma generator_points_wf:
  "wf_function m f \<Longrightarrow> point \<in> set (generator_suspension_points f) \<Longrightarrow> wf_generator_suspension f point"
  by (simp add: wf_function_def)

lemma keeps_ag_yield_rejected_body:
  assumes "point \<in> set (generator_suspension_points f)"
  shows "keeps (ag_at a f) (ag_yield_rejected_body H vm n call a point args) (\<lambda>_ _. True)"
proof (rule keepsI)
  fix s
  assume s: "since s s" "ag_at a f s"
  note point = generator_points_wf[OF ag_at_wf[OF s] assms]
  show "wp (ag_yield_rejected_body H vm n call a point args) (\<lambda>_ s'. since s s' \<and> True)
      (\<lambda>p s'. since s s' \<and> allowed p) s"
    using s
    by (auto simp: ag_yield_rejected_body_def wp_simps
        intro!: ag_fetch_use[OF _ s(2)] keeps_gen_set_state[where f = f, THEN keeps_use]
          keeps_injections[OF point, THEN keeps_use]
          keeps_continue_async_generator[where f = f, THEN keeps_use]
          since_ag_at[OF _ s(2)] since_gen_at[OF _ ag_at_gen_at[OF s(2)]])
qed

lemma keeps_ag_inject_and_continue:
  assumes "wf_register f (result_register point)" "target \<in> block_ids f"
  shows "keeps (ag_at a f) (ag_inject_and_continue H vm n call a point v target) (\<lambda>_ _. True)"
proof (rule keepsI)
  fix s
  assume s: "since s s" "ag_at a f s"
  show "wp (ag_inject_and_continue H vm n call a point v target) (\<lambda>_ s'. since s s' \<and> True)
      (\<lambda>p s'. since s s' \<and> allowed p) s"
    using s
    by (auto simp: ag_inject_and_continue_def wp_simps
        intro!: ag_fetch_use[OF _ s(2)] keeps_inject_generator_completion[OF assms, THEN keeps_use]
          keeps_continue_async_generator[where f = f, THEN keeps_use]
          since_ag_at[OF _ s(2)] since_gen_at[OF _ ag_at_gen_at[OF s(2)]])
qed

lemma keeps_ag_delegate_fulfilled_body:
  assumes "p \<in> generator_suspension_ids f" "point \<in> set (generator_suspension_points f)"
  shows "keeps (ag_at a f) (ag_delegate_fulfilled_body H vm n call a p action point args) (\<lambda>_ _. True)"
proof (rule keepsI)
  fix s
  assume s: "since s s" "ag_at a f s"
  note wf = ag_at_wf[OF s]
  have point: "wf_register f (result_register point)" "throw_block point \<in> block_ids f"
    "return_block point \<in> block_ids f" "resume_block point \<in> block_ids f"
    using generator_points_wf[OF wf assms(2)] by (simp_all add: wf_generator_suspension_def)
  show "wp (ag_delegate_fulfilled_body H vm n call a p action point args) (\<lambda>_ s'. since s s' \<and> True)
      (\<lambda>p s'. since s s' \<and> allowed p) s"
    using s
    by (auto simp: ag_delegate_fulfilled_body_def Let_def wp_simps point split: sum.split
        intro!: keeps_ag_inject_and_continue[OF point(1), THEN keeps_use]
          keeps_prim[THEN keeps_use] keeps_await_async_generator_yield[OF wf assms(1), THEN keeps_use]
          keeps_reject_async_generator_request[OF wf, THEN keeps_use] since_ag_at[OF _ s(2)])
qed

lemma keeps_ag_delegate_rejected_body:
  assumes "point \<in> set (generator_suspension_points f)"
  shows "keeps (ag_at a f) (ag_delegate_rejected_body H vm n call a point args) (\<lambda>_ _. True)"
proof (rule keepsI)
  fix s
  assume s: "since s s" "ag_at a f s"
  have point: "wf_register f (result_register point)" "throw_block point \<in> block_ids f"
    using generator_points_wf[OF ag_at_wf[OF s] assms] by (simp_all add: wf_generator_suspension_def)
  show "wp (ag_delegate_rejected_body H vm n call a point args) (\<lambda>_ s'. since s s' \<and> True)
      (\<lambda>p s'. since s s' \<and> allowed p) s"
    unfolding ag_delegate_rejected_body_def
    using s by (auto intro!: keeps_ag_inject_and_continue[OF point, THEN keeps_use])
qed

lemma keeps_ag_completion_bodies:
  "keeps (ag_at a f) (ag_completion_fulfilled_body H vm n call a args) (\<lambda>_ _. True)"
  "keeps (ag_at a f) (ag_completion_rejected_body H vm n call a args) (\<lambda>_ _. True)"
proof -
  show "keeps (ag_at a f) (ag_completion_fulfilled_body H vm n call a args) (\<lambda>_ _. True)"
  proof (rule keepsI)
    fix s
    assume s: "since s s" "ag_at a f s"
    note wf = ag_at_wf[OF s]
    show "wp (ag_completion_fulfilled_body H vm n call a args) (\<lambda>_ s'. since s s' \<and> True)
        (\<lambda>p s'. since s s' \<and> allowed p) s"
      using s by (auto simp: ag_completion_fulfilled_body_def wp_simps
          intro!: keeps_generator_result[THEN keeps_use] since_ag_at[OF _ s(2)]
            keeps_resolve_async_generator_request[OF wf, THEN keeps_use])
  qed
  show "keeps (ag_at a f) (ag_completion_rejected_body H vm n call a args) (\<lambda>_ _. True)"
  proof (rule keepsI)
    fix s
    assume s: "since s s" "ag_at a f s"
    note wf = ag_at_wf[OF s]
    show "wp (ag_completion_rejected_body H vm n call a args) (\<lambda>_ s'. since s s' \<and> True)
        (\<lambda>p s'. since s s' \<and> allowed p) s"
      using s by (auto simp: ag_completion_rejected_body_def wp_simps
          intro!: keeps_reject_async_generator_request[OF wf, THEN keeps_use])
  qed
qed

lemma keeps_ag_executor_body:
  "keeps (ag_at a f) (ag_executor_body H vm n call a kind input args) (\<lambda>_ _. True)"
proof (rule keepsI)
  fix s
  assume s: "since s s" "ag_at a f s"
  note wf = ag_at_wf[OF s]
  show "wp (ag_executor_body H vm n call a kind input args) (\<lambda>_ s'. since s s' \<and> True)
      (\<lambda>p s'. since s s' \<and> allowed p) s"
    using s by (auto simp: ag_executor_body_def wp_simps
        intro!: keeps_ag_push[where f = f, THEN keeps_use] since_ag_at[OF _ s(2)]
          keeps_drive_async_generator_queue[OF wf, THEN keeps_use])
qed

lemma keeps_async_generator_enqueue:
  "keeps (ag_at a f) (async_generator_enqueue H call a kind input) (\<lambda>_ _. True)"
  by (rule keepsI; frule (1) ag_at_not_sync)
    (auto simp: async_generator_enqueue_def wp_simps ag_closures
      intro!: keeps_new_function[THEN keeps_use] keeps_prim[THEN keeps_use])

lemma keeps_async_executor_body:
  "keeps (async_at i f) (async_executor_body H vm n call i args) (\<lambda>_ _. True)"
  by (rule keepsI)
    (auto simp: async_executor_body_def wp_simps
      intro!: keeps_drive_async_frame[where f = f, THEN keeps_use])

lemma keeps_await_settled_body:
  assumes "wf_register f dst" "target \<in> block_ids f"
  shows "keeps (async_at i f) (await_settled_body H vm n call i dst target resolve reject args)
    (\<lambda>_ _. True)"
proof (rule keepsI)
  fix s
  assume s: "since s s" "async_at i f s"
  show "wp (await_settled_body H vm n call i dst target resolve reject args)
      (\<lambda>_ s'. since s s' \<and> True) (\<lambda>p s'. since s s' \<and> allowed p) s"
    using s by (auto simp: await_settled_body_def wp_simps
        intro!: keeps_async_write_register[OF assms(1), THEN keeps_use]
          keeps_async_move[OF assms(2), THEN keeps_use]
          keeps_drive_async_frame[where f = f, THEN keeps_use] since_async_at[OF _ s(2)])
qed

subsection \<open>Functions and entry points\<close>

lemma keeps_execute_async_function:
  assumes "module_function vm f" "is_async f" "\<not> is_generator f" "set (captures f) \<subseteq> dom env0"
  shows "keeps (\<lambda>_. True) (execute_async_function H call f this args env0 depth) (\<lambda>_ _. True)"
proof (rule keepsI)
  fix s
  assume s: "since s s"
  note wf = module_function_wf[OF s assms(1)]
  then have params: "wf_parameters f" "function_entry f \<in> block_ids f"
    by (simp_all add: wf_function_def)
  have sync: "\<not> sync_module vm" using not_sync_module[OF assms(1)] assms(2) by blast
  have pushed: "since s (t\<lparr>async_frames := async_frames t @ [new_async_frame f env depth]\<rparr>)"
    if "since s t" "accessible_bindings f \<subseteq> dom env" for t env
  proof -
    have "async_ok vm (new_async_frame f env depth)"
      using assms(1-3) params(2) that(2) by (simp add: async_ok_def new_async_frame_def)
    with since_new_frames[of s t "[]" "[new_async_frame f env depth]" "[]"] that(1)
    show ?thesis by simp
  qed
  show "wp (execute_async_function H call f this args env0 depth) (\<lambda>_ s'. since s s' \<and> True)
      (\<lambda>p s'. since s s' \<and> allowed p) s"
    using s by (auto simp: execute_async_function_def wp_simps closure_ok_def sync
        intro!: keeps_initialize_environment[OF assms(4) params(1), THEN keeps_use] pushed
          keeps_new_function[THEN keeps_use] keeps_prim[THEN keeps_use])
qed

lemma keeps_execute_async_generator_function:
  assumes "module_function vm f" "is_generator f" "is_async f" "set (captures f) \<subseteq> dom env0"
  shows "keeps (\<lambda>_. True) (execute_async_generator_function H call f this args env0 depth)
    (\<lambda>_ _. True)"
proof (rule keepsI)
  fix s
  assume s: "since s s"
  note wf = module_function_wf[OF s assms(1)]
  then have params: "wf_parameters f" by (simp add: wf_function_def)
  define frame where
    "frame = (\<lambda>i. \<lparr> ag_generator = i, ag_queue = [], ag_active = None \<rparr> :: AsyncGeneratorFrame)"
  have rest_keeps: "keeps (ag_at a f) (andThen (prim H call (P_value_object []) []) (\<lambda>g.
     andSeq (set_method H call g ''next'' (AsyncGeneratorMethod a ResumeNext))
     (andSeq (set_method H call g ''return'' (AsyncGeneratorMethod a ResumeReturn))
     (andSeq (set_method H call g ''throw'' (AsyncGeneratorMethod a ResumeThrow))
     (andSeq (set_method H call g ''__w3cos_symbol_async_iterator'' (IterableSelf g))
     (ret g)))))) (\<lambda>_ _. True)" for a
  proof (rule keepsI)
    fix t
    assume t: "since t t" "ag_at a f t"
    show "wp (andThen (prim H call (P_value_object []) []) (\<lambda>g.
       andSeq (set_method H call g ''next'' (AsyncGeneratorMethod a ResumeNext))
       (andSeq (set_method H call g ''return'' (AsyncGeneratorMethod a ResumeReturn))
       (andSeq (set_method H call g ''throw'' (AsyncGeneratorMethod a ResumeThrow))
       (andSeq (set_method H call g ''__w3cos_symbol_async_iterator'' (IterableSelf g))
       (ret g)))))) (\<lambda>_ s'. since t s' \<and> True) (\<lambda>p s'. since t s' \<and> allowed p) t"
      using t
      by (auto simp: wp_simps ag_at_not_sync[OF t] closure_ok_def[of _ _ "IterableSelf _"]
          intro!: keeps_prim[THEN keeps_use] keeps_set_method[THEN keeps_use]
            ag_closures(4)[where f = f] since_ag_at[OF _ t(2)])
  qed
  have pushed: "since s (t\<lparr>async_generators := async_generators t @ [frame i]\<rparr>) \<and>
      ag_at (length (async_generators t)) f (t\<lparr>async_generators := async_generators t @ [frame i]\<rparr>)"
    if "since s t" "gen_at i f t" for t i
  proof
    have "ag_ok t (frame i)"
      using that(2) assms(3) by (simp add: ag_ok_def gen_at_def frame_def)
    with since_new_frames[of s t "[]" "[]" "[frame i]"] that(1)
    show "since s (t\<lparr>async_generators := async_generators t @ [frame i]\<rparr>)" by simp
    show "ag_at (length (async_generators t)) f (t\<lparr>async_generators := async_generators t @ [frame i]\<rparr>)"
      using that(2) assms(3) by (simp add: ag_at_def ag_index_def gen_at_def frame_def)
  qed
  show "wp (execute_async_generator_function H call f this args env0 depth)
      (\<lambda>_ s'. since s s' \<and> True) (\<lambda>p s'. since s s' \<and> allowed p) s"
    unfolding execute_async_generator_function_def wp_andThen[of "initialize_environment _ _ _ _ _ _"]
      wp_andThen[of "new_generator _"] wp_andThen[of "gets _"] wp_andThen[of "modify _"] wp_gets
      wp_modify frame_def[symmetric, THEN fun_cong, simplified]
    using s
    by (auto intro!: keeps_initialize_environment[OF assms(4) params, THEN keeps_use]
        keeps_new_generator[OF generator_ok_new[OF assms(1) wf assms(2)], THEN keeps_use]
        rest_keeps[THEN keeps_use] pushed[THEN conjunct1] pushed[THEN conjunct2]
        simp: gen_function_new)
qed

lemma keeps_execute_sync_function:
  assumes "wf_function (vm_module vm) f" "\<not> is_async f" "\<not> is_generator f"
    and "set (captures f) \<subseteq> dom env0"
  shows "keeps (\<lambda>s. call_depth s = depth \<and> depth < max_call_depth (vm_limits vm))
    (execute_sync_function H vm n call f this args env0 depth) (\<lambda>_ _. True)"
proof (rule keepsI)
  fix s
  assume s: "since s s" and depth: "call_depth s = depth \<and> depth < max_call_depth (vm_limits vm)"
  then have deeper: "depth < depth + 1"
    by (blast intro: less_inc)
  have enter: "since s (s\<lparr>call_depth := depth + 1\<rparr>)"
    using s depth deeper since_inv[OF s, THEN vm_inv_budget]
    by (auto simp: budget_ok_def elim!: since_tables)
  have leave: "since s (t\<lparr>call_depth := depth\<rparr>)" if "since s t" for t
  proof -
    have "vm_inv vm (t\<lparr>call_depth := depth\<rparr>)"
      by (rule vm_inv_tables[OF since_inv[OF that]])
        (use since_inv[OF that, THEN vm_inv_budget] in \<open>simp_all add: budget_ok_def\<close>)
    moreover have "vm_grows vm s (t\<lparr>call_depth := depth\<rparr>)"
      using that depth
      by (auto simp: since_def vm_grows_def same_frames_def balanced_def no_callables_def sync_run_def)
    ultimately show ?thesis by (simp add: since_def)
  qed
  show "wp (execute_sync_function H vm n call f this args env0 depth) (\<lambda>_ s'. since s s' \<and> True)
      (\<lambda>p s'. since s s' \<and> allowed p) s"
    using s enter
    by (auto simp: execute_sync_function_def wp_simps split: sum.split
        intro!: keeps_execute_frame[OF assms, THEN keeps_use] leave)
qed

lemma find_function_Some:
  assumes "wf_module m" "f \<in> set (module_functions m)" "function_id f = i"
  shows "find_function m i = Some f"
  using find_distinct_key[of function_id "module_functions m" f] assms
  by (auto simp: find_function_def wf_module_def)

lemma keeps_execute_function:
  assumes "module_function vm f" "function_id f = i" "set (captures f) \<subseteq> dom env0"
  shows "keeps (\<lambda>_. True) (execute_function H vm n call i this args env0) (\<lambda>_ _. True)"
proof -
  have body: "keeps (\<lambda>_. True)
     (case find_function (vm_module vm) i of
       None \<Rightarrow> fail (VmMissingFunction i)
     | Some f \<Rightarrow> andThen (gets call_depth) (\<lambda>depth.
         if depth \<ge> max_call_depth (vm_limits vm) then fail CallDepthExceeded
         else andThen
           (if is_generator f then execute_generator_function H call f this args env0 depth
            else if is_async f then execute_async_function H call f this args env0 depth
            else execute_sync_function H vm n call f this args env0 depth)
           (\<lambda>v. andSeq (check_heap_limit H vm) (ret v)))) (\<lambda>_ _. True)"
  proof (rule keepsI)
    fix s
    assume s: "since s s"
    note wf = module_function_wf[OF s assms(1)]
    have f: "find_function (vm_module vm) i = Some f"
      using since_inv[OF s] assms(1,2)
      by (auto simp: vm_inv_def module_function_def intro: find_function_Some)
    show "wp (case find_function (vm_module vm) i of
       None \<Rightarrow> fail (VmMissingFunction i)
     | Some f \<Rightarrow> andThen (gets call_depth) (\<lambda>depth.
         if depth \<ge> max_call_depth (vm_limits vm) then fail CallDepthExceeded
         else andThen
           (if is_generator f then execute_generator_function H call f this args env0 depth
            else if is_async f then execute_async_function H call f this args env0 depth
            else execute_sync_function H vm n call f this args env0 depth)
           (\<lambda>v. andSeq (check_heap_limit H vm) (ret v))))
      (\<lambda>_ s'. since s s' \<and> True) (\<lambda>p s'. since s s' \<and> allowed p) s"
      using s
      by (auto simp: f wp_simps execute_generator_function_def
          intro!: keeps_execute_sync_generator_function[OF assms(1) _ _ assms(3), THEN keeps_use]
            keeps_execute_async_generator_function[OF assms(1) _ _ assms(3), THEN keeps_use]
            keeps_execute_async_function[OF assms(1) _ _ assms(3), THEN keeps_use]
            keeps_execute_sync_function[OF wf _ _ assms(3), THEN keeps_use]
            keeps_check_heap_limit[THEN keeps_use])
  qed
  show ?thesis
    unfolding execute_function_def by (rule keeps_with_heap_scope[OF body]) simp
qed

lemma keeps_new_cells:
  "keeps (\<lambda>_. True) (new_cells bs env) (\<lambda>env' _. dom env' = dom env \<union> fst ` set bs)"
proof (induction bs env rule: new_cells.induct)
  case (1 env)
  show ?case by (rule keepsI) (simp add: wp_simps)
next
  case (2 b v bs env)
  show ?case
    by (rule keepsI)
      (auto simp: wp_simps set_eq_iff domIff intro!: keeps_new_cell[THEN keeps_use] 2[THEN keeps_use]
        split: if_splits; blast)
qed

lemma vm_inv_reset:
  assumes "vm_inv vm s"
  shows "vm_inv vm (s\<lparr>instruction_count := 0, call_depth := 0,
    execution_budget := new_budget (max_wall_time (vm_limits vm))\<rparr>)"
  by (rule vm_inv_tables[OF assms]) (simp_all add: budget_ok_def new_budget_def)

lemma keeps_invoke:
  assumes "module_function vm f" "function_id f = i" "set (captures f) \<subseteq> fst ` set bs"
  shows "keeps (\<lambda>s. \<not> no_callables s) (invoke H vm n call i this args bs) (\<lambda>_ _. True)"
proof (rule keepsI)
  fix s :: "'w VmState"
  let ?t = "s\<lparr>instruction_count := 0, call_depth := 0,
    execution_budget := new_budget (max_wall_time (vm_limits vm))\<rparr>"
  assume s: "since s s" "\<not> no_callables s"
  then have "since s ?t"
    using vm_inv_reset[OF since_inv[OF s(1)]] sync_run_no_callables[of vm s]
    by (auto simp: since_def vm_grows_def same_frames_def)
  then show "wp (invoke H vm n call i this args bs) (\<lambda>_ s'. since s s' \<and> True)
      (\<lambda>p s'. since s s' \<and> allowed p) s"
    using assms(3)
    by (auto simp: invoke_def reset_invocation_def reset_execution_budget_def wp_simps
        intro!: keeps_new_cells[THEN keeps_use] keeps_execute_function[OF assms(1,2), THEN keeps_use])
qed

lemma keeps_throwing_errors:
  "keeps P act (\<lambda>_ _. True) \<Longrightarrow> keeps P (throwing_errors H act) (\<lambda>_ _. True)"
  by (rule keepsI) (auto simp: throwing_errors_def wp_simps split: sum.split elim!: keeps_use)

lemma ag_closure_at:
  assumes "since s0 s" "a < length (async_generators s)"
  shows "ag_at a (ag_function s a) s"
proof -
  have "ag_ok s (async_generators s ! a)"
    using assms by (auto simp: since_def vm_inv_def)
  then show ?thesis
    using assms(2) by (simp add: ag_at_def ag_index_def gen_at_def ag_function_def ag_ok_def)
qed

lemma keeps_closure_body:
  "keeps (\<lambda>s. closure_ok vm s c \<and> c \<in> set (closures s)) (closure_body H vm n call c this args) (\<lambda>_ _. True)"
proof (rule keepsI)
  fix s
  assume s: "since s s" and ok: "closure_ok vm s c \<and> c \<in> set (closures s)"
  have use: "wp act (\<lambda>_ s'. since s s' \<and> True) (\<lambda>p s'. since s s' \<and> allowed p) s"
    if "keeps P act (\<lambda>_ _. True)" "P s" for P and act :: "('w, Value) action"
    using that s by (auto intro!: keeps_use[OF that(1)])
  have use_ag: "wp act (\<lambda>_. since s) (\<lambda>p s'. since s s' \<and> allowed p) s"
    if "keeps (ag_at a (ag_function s a)) act (\<lambda>_ _. True)" "a < length (async_generators s)"
    for a and act :: "('w, Value) action"
    using use[OF that(1) ag_closure_at[OF s that(2)]] by simp
  show "wp (closure_body H vm n call c this args) (\<lambda>_ s'. since s s' \<and> True)
      (\<lambda>p s'. since s s' \<and> allowed p) s"
  proof (cases c)
    case (ClosureFunction i env)
    with ok obtain f where f: "module_function vm f" "function_id f = i" "set (captures f) \<subseteq> dom env"
      by (auto simp: closure_ok_def)
    show ?thesis
      unfolding ClosureFunction closure_body_def Closure.case
      by (rule use[OF keeps_throwing_errors[OF keeps_execute_function[OF f]]]) simp
  next
    case (CallableFunction i bs)
    with ok obtain f where "module_function vm f" "function_id f = i"
      "set (captures f) \<subseteq> fst ` set bs" and "\<not> no_callables s"
      by (auto simp: closure_ok_def no_callables_def)
    then show ?thesis
      unfolding CallableFunction closure_body_def Closure.case
      by (intro use[OF keeps_throwing_errors[OF keeps_invoke]])
  next
    case (GeneratorMethod i kind)
    then have "\<not> is_async (gen_function (generators s ! i))" "gen_at i (gen_function (generators s ! i)) s"
      using ok by (auto simp: closure_ok_def gen_at_def)
    then show ?thesis
      unfolding GeneratorMethod closure_body_def Closure.case
      by (intro use[OF keeps_throwing_errors[OF keeps_resume_generator_frame]])
  next
    case (IterableSelf v)
    with s show ?thesis by (simp add: closure_body_def wp_simps)
  next
    case (AsyncExecutor i)
    then have "async_at i (async_function (async_frames s ! i)) s"
      using ok by (auto simp: closure_ok_def async_at_def)
    then show ?thesis
      unfolding AsyncExecutor closure_body_def Closure.case by (intro use[OF keeps_async_executor_body])
  next
    case (AwaitFulfilled i dst target resolve reject)
    let ?f = "async_function (async_frames s ! i)"
    from AwaitFulfilled ok have "wf_register ?f dst" "target \<in> block_ids ?f" "async_at i ?f s"
      by (auto simp: closure_ok_def async_at_def)
    then show ?thesis
      unfolding AwaitFulfilled closure_body_def Closure.case by (intro use[OF keeps_await_settled_body])
  next
    case (AwaitRejected i dst target resolve reject)
    let ?f = "async_function (async_frames s ! i)"
    from AwaitRejected ok have "wf_register ?f dst" "target \<in> block_ids ?f" "async_at i ?f s"
      by (auto simp: closure_ok_def async_at_def)
    then show ?thesis
      unfolding AwaitRejected closure_body_def Closure.case by (intro use[OF keeps_await_settled_body])
  qed (use ok in \<open>auto simp: closure_ok_def closure_body_def
    intro!: use_ag keeps_async_generator_enqueue keeps_ag_executor_body
      keeps_ag_await_settled_body keeps_ag_yield_fulfilled_body keeps_ag_yield_rejected_body
      keeps_ag_delegate_fulfilled_body keeps_ag_delegate_rejected_body keeps_ag_completion_bodies\<close>)
qed

end

subsection \<open>The dispatcher obeys the contract\<close>

lemma vm_inv_world: "vm_inv vm s \<Longrightarrow> vm_inv vm (s\<lparr>world := w\<rparr>)"
  by (rule vm_inv_tables) (simp_all add: vm_inv_def budget_ok_def)

lemma vm_inv_cells: "vm_inv vm s \<Longrightarrow> vm_inv vm (s\<lparr>cells := cs\<rparr>)"
  by (rule vm_inv_tables) (simp_all add: vm_inv_def budget_ok_def)

lemma vm_contractI:
  assumes "\<And>i this args. vm.keeps vm (\<lambda>_. True) (call i this args) (\<lambda>_ _. True)"
  shows "vm_contract vm call"
  by unfold_locales
    (auto simp: vm_inv_world vm_inv_cells assms intro!: vm_grows_tables)

theorem call_closure_contract:
  fixes H :: "'w Host"
  shows "vm_contract vm (call_closure H vm n)"
proof (induction n)
  case 0
  show ?case by (rule vm_contractI, rule vm.keepsI) (simp add: wp_simps)
next
  case (Suc n)
  show ?case
  proof (rule vm_contractI, rule vm.keepsI)
    fix i this args and s :: "'w VmState"
    assume s: "vm.since vm s s"
    have "closure_ok vm s c" if "c \<in> set (closures s)" for c
      using s that by (auto simp: vm.since_def vm_inv_def)
    with s show "wp (call_closure H vm (Suc n) i this args) (\<lambda>_ s'. vm.since vm s s' \<and> True)
        (\<lambda>p s'. vm.since vm s s' \<and> allowed p) s"
      by (auto simp: wp_simps intro!: vm_contract.keeps_closure_body[OF Suc, THEN vm.keeps_use])
  qed
qed

interpretation machine: vm_contract vm H "call_closure H vm n" for vm H n
  by (rule call_closure_contract)

end
