(* ===== verification/VMTotal.thy ===== *)
theory VMTotal
  imports VMMachineSound
begin

text \<open>
  Termination of synchronous programs.  An action family \<open>c\<close> indexed by fuel \<open>settles\<close> in a state when
  some fuel gives an outcome and every larger fuel gives the same one.  The locale \<open>settling_calls\<close>
  states the assumption on the closures the core calls (they settle from every state deep enough);
  inside it a frame settles, because every block it enters consumes an instruction of the budget.
  The assumption is discharged by induction on the call depth that is left.
\<close>

subsection \<open>Actions that need no fuel\<close>

definition fuel_free :: "('w, 'a) action \<Rightarrow> bool" where
  "fuel_free c \<longleftrightarrow> (\<forall>s. fst (c s) \<noteq> NoFuel)"

named_theorems fuel_free_intros \<open>actions that need no fuel\<close>

lemma fuel_free_basic [fuel_free_intros]:
  "fuel_free (ret x)" "fuel_free (fail e)" "fuel_free (unwind p)" "fuel_free (gets f)" "fuel_free (modify u)"
  "fuel_free (fetch tab i)" "fuel_free (host_test t)" "fuel_free (now H)" "fuel_free (new_function H c)"
  "fuel_free (new_cell slot)"
  by (simp_all add: fuel_free_def ret_def fail_def unwind_def gets_def modify_def fetch_def host_test_def
      now_def new_function_def new_cell_def split: prod.split)

lemma fuel_free_andThen [fuel_free_intros]:
  "fuel_free c \<Longrightarrow> (\<And>x. fuel_free (f x)) \<Longrightarrow> fuel_free (andThen c f)"
  unfolding fuel_free_def andThen_def
  by (auto split: prod.split Outcome.split) (metis fst_conv)

lemma fuel_free_from_result [fuel_free_intros]: "fuel_free (from_result r)"
  by (cases r) (simp_all add: from_result_def fuel_free_basic)

lemma fuel_free_if [fuel_free_intros]: "(b \<Longrightarrow> fuel_free c) \<Longrightarrow> (\<not> b \<Longrightarrow> fuel_free d) \<Longrightarrow> fuel_free (if b then c else d)"
  by simp

lemma fuel_free_option [fuel_free_intros]:
  "fuel_free c \<Longrightarrow> (\<And>y. fuel_free (f y)) \<Longrightarrow> fuel_free (case x of None \<Rightarrow> c | Some y \<Rightarrow> f y)"
  by (cases x) simp_all

lemma fuel_free_prod [fuel_free_intros]: "(\<And>a b. fuel_free (f a b)) \<Longrightarrow> fuel_free (case x of (a, b) \<Rightarrow> f a b)"
  by (cases x) simp

lemma fuel_free_map_action [fuel_free_intros]: "(\<And>x. fuel_free (f x)) \<Longrightarrow> fuel_free (map_action f xs)"
  by (induction xs) (auto intro!: fuel_free_intros)

lemma fuel_free_update_cell [fuel_free_intros]: "fuel_free (update_cell c u)"
  unfolding update_cell_def by (intro fuel_free_intros)

lemma fuel_free_env_cell [fuel_free_intros]: "fuel_free (env_cell env b)"
  unfolding env_cell_def by (intro fuel_free_intros)

lemma fuel_free_check_heap_limit [fuel_free_intros]: "fuel_free (check_heap_limit H vm)"
  by (simp add: fuel_free_def check_heap_limit_def Let_def split: option.split)

lemma fuel_free_consume_instruction [fuel_free_intros]: "fuel_free (consume_instruction H vm)"
  unfolding consume_instruction_def wall_time_exhausted_def by (intro fuel_free_intros)

lemma fuel_free_registers [fuel_free_intros]:
  "fuel_free (read_register regs r)" "fuel_free (read_registers regs rs)" "fuel_free (write_register regs r v)"
  unfolding read_register_def read_registers_def write_register_def by (intro fuel_free_intros)+

lemma fuel_free_store_result [fuel_free_intros]: "fuel_free (store_result fs dst v)"
  unfolding store_result_def by (intro fuel_free_intros)

lemma fuel_free_create_closure [fuel_free_intros]: "fuel_free (create_closure H i bs fs dst)"
  unfolding create_closure_def by (intro fuel_free_intros)

lemma fuel_free_declare_bindings [fuel_free_intros]: "fuel_free (declare_bindings bs env)"
  by (induction bs arbitrary: env) (auto intro!: fuel_free_intros)

lemma fuel_free_new_cells [fuel_free_intros]: "fuel_free (new_cells bs env)"
  by (induction bs env rule: new_cells.induct) (auto intro!: fuel_free_intros simp del: fun_upd_apply)

lemma fuel_free_budget [fuel_free_intros]: "fuel_free (enter_budget H)" "fuel_free (leave_budget H)"
  unfolding enter_budget_def leave_budget_def by (intro fuel_free_intros)+

lemma fuel_free_enter_handler [fuel_free_intros]: "fuel_free (enter_handler f b v fs)"
  unfolding enter_handler_def by (intro fuel_free_intros)

lemma fuel_free_reset [fuel_free_intros]: "fuel_free (reset_invocation vm)"
  unfolding reset_invocation_def reset_execution_budget_def by (intro fuel_free_intros)

subsection \<open>Settling families\<close>

definition settles :: "(nat \<Rightarrow> ('w, 'a) action) \<Rightarrow> 'w VmState \<Rightarrow> bool" where
  "settles c s \<longleftrightarrow> (\<exists>N r. fst r \<noteq> NoFuel \<and> (\<forall>n\<ge>N. c n s = r))"

lemma settles_const: "fuel_free c \<Longrightarrow> settles (\<lambda>_. c) s"
  unfolding settles_def fuel_free_def by (intro exI[of _ 0] exI[of _ "c s"]) simp

lemma settles_case:
  assumes "settles c s"
    and "\<And>n r. fst r \<noteq> NoFuel \<Longrightarrow> c n s = r \<Longrightarrow>
      \<exists>M t. fst t \<noteq> NoFuel \<and> (\<forall>m\<ge>M. g m r = t)"
    and "\<And>n. d n s = g n (c n s)"
  shows "settles d s"
proof -
  from assms(1) obtain N r where r: "fst r \<noteq> NoFuel" "\<forall>n\<ge>N. c n s = r"
    by (auto simp: settles_def)
  from assms(2)[of r N] r obtain M t where t: "fst t \<noteq> NoFuel" "\<forall>m\<ge>M. g m r = t" by auto
  then have "\<forall>n\<ge>max N M. d n s = t" using r(2) by (simp add: assms(3))
  with t(1) show ?thesis unfolding settles_def by blast
qed

lemma settles_andThen:
  assumes "settles c s" "\<And>n. wp (c n) (\<lambda>x s'. settles (\<lambda>n. f n x) s') (\<lambda>_ _. True) s"
  shows "settles (\<lambda>n. andThen (c n) (f n)) s"
proof (rule settles_case[OF assms(1)])
  fix n r
  assume "fst r \<noteq> NoFuel" "c n s = r"
  then show "\<exists>M t. fst t \<noteq> NoFuel \<and> (\<forall>m\<ge>M. (case r of
     (Val x, s') \<Rightarrow> f m x s'
   | (Fail e, s') \<Rightarrow> (Fail e, s')
   | (Unwind p, s') \<Rightarrow> (Unwind p, s')
   | (NoFuel, s') \<Rightarrow> (NoFuel, s')) = t)"
    using assms(2)[of n]
    by (cases r; cases "fst r") (auto simp: wp_def settles_def)
qed (simp add: andThen_def)

lemma settles_on_result:
  assumes "settles c s"
    and "\<And>n. wp (c n) (\<lambda>x s'. settles (\<lambda>n. f n (Ok x)) s')
      (\<lambda>p s'. case p of Inl e \<Rightarrow> settles (\<lambda>n. f n (Err e)) s' | Inr _ \<Rightarrow> True) s"
  shows "settles (\<lambda>n. on_result (c n) (f n)) s"
proof (rule settles_case[OF assms(1)])
  fix n r
  assume "fst r \<noteq> NoFuel" "c n s = r"
  then show "\<exists>M t. fst t \<noteq> NoFuel \<and> (\<forall>m\<ge>M. (case r of
     (Val x, s') \<Rightarrow> f m (Ok x) s'
   | (Fail e, s') \<Rightarrow> f m (Err e) s'
   | (Unwind p, s') \<Rightarrow> (Unwind p, s')
   | (NoFuel, s') \<Rightarrow> (NoFuel, s')) = t)"
    using assms(2)[of n]
    by (cases r; cases "fst r") (auto simp: wp_def settles_def)
qed (simp add: on_result_def)

lemma settles_catch_unwind: "settles c s \<Longrightarrow> settles (\<lambda>n. catch_unwind (c n)) s"
proof (erule settles_case)
  fix n r
  assume "fst r \<noteq> NoFuel" "c n s = r"
  then show "\<exists>M t. fst t \<noteq> NoFuel \<and> (\<forall>m\<ge>M. (case r of
     (Val x, s') \<Rightarrow> (Val (Ok (Ok x)), s')
   | (Fail e, s') \<Rightarrow> (Val (Ok (Err e)), s')
   | (Unwind p, s') \<Rightarrow> (Val (Err p), s')
   | (NoFuel, s') \<Rightarrow> (NoFuel, s')) = t)"
    by (cases r; cases "fst r") auto
qed (simp add: catch_unwind_def)

lemma settles_if:
  "(b \<Longrightarrow> settles c s) \<Longrightarrow> (\<not> b \<Longrightarrow> settles d s) \<Longrightarrow> settles (\<lambda>n. if b then c n else d n) s"
  by (cases b) simp_all

lemma settles_option:
  "(x = None \<Longrightarrow> settles c s) \<Longrightarrow> (\<And>y. x = Some y \<Longrightarrow> settles (\<lambda>n. f n y) s) \<Longrightarrow>
   settles (\<lambda>n. case x of None \<Rightarrow> c n | Some y \<Rightarrow> f n y) s"
  by (cases x) simp_all

lemma settles_sum:
  "(\<And>y. x = Inl y \<Longrightarrow> settles (\<lambda>n. c n y) s) \<Longrightarrow> (\<And>y. x = Inr y \<Longrightarrow> settles (\<lambda>n. f n y) s) \<Longrightarrow>
   settles (\<lambda>n. case x of Inl y \<Rightarrow> c n y | Inr y \<Rightarrow> f n y) s"
  by (cases x) simp_all

lemma settles_prod:
  "(\<And>a b. x = (a, b) \<Longrightarrow> settles (\<lambda>n. f n a b) s) \<Longrightarrow> settles (\<lambda>n. case x of (a, b) \<Rightarrow> f n a b) s"
  by (cases x) simp

lemma wp_top: "(\<And>x s. Q x s) \<Longrightarrow> wp c Q (\<lambda>_ _. True) s"
  by (auto simp: wp_def split: prod.split Outcome.split)

text \<open>When what follows needs no fuel.\<close>

lemma settles_last:
  "settles c s \<Longrightarrow> (\<And>x. fuel_free (f x)) \<Longrightarrow> settles (\<lambda>n. andThen (c n) f) s"
  by (rule settles_andThen) (auto intro!: wp_top settles_const)

lemmas settles_intros = settles_const settles_andThen settles_on_result settles_catch_unwind
  settles_if settles_option settles_sum settles_prod

subsection \<open>Calls that settle\<close>

text \<open>The states a synchronous run passes through once \<open>d\<close> calls are open.\<close>

definition deep :: "Vm \<Rightarrow> u32 \<Rightarrow> 'w VmState \<Rightarrow> bool" where
  "deep vm d s \<longleftrightarrow> sync_run vm s \<and> d \<le> call_depth s"

locale settling_calls =
  fixes vm :: Vm and H :: "'w Host" and call :: "nat \<Rightarrow> 'w caller" and d :: u32
  assumes contract: "vm_contract vm (call n)"
    and call_settles: "vm_inv vm s \<Longrightarrow> deep vm d s \<Longrightarrow> settles (\<lambda>n. call n i this args) s"

sublocale settling_calls \<subseteq> each: vm_contract vm H "call n" for n
  by (rule contract)

context settling_calls
begin

definition ready :: "'w VmState \<Rightarrow> 'w VmState \<Rightarrow> bool" where
  "ready s0 s \<longleftrightarrow> vm.since vm s0 s \<and> deep vm d s0"

lemma ready_deep: "ready s0 s \<Longrightarrow> deep vm d s"
  by (auto simp: ready_def vm.since_def vm_grows_def deep_def)

lemma ready_inv: "ready s0 s \<Longrightarrow> vm_inv vm s"
  by (simp add: ready_def vm.since_def)

lemma ready_self: "ready s0 s \<Longrightarrow> ready s s"
  using ready_deep[of s0 s] by (simp add: ready_def vm.since_def vm_grows_refl)

lemma ready_since: "ready s0 s \<Longrightarrow> vm.since vm s0 s"
  by (simp add: ready_def)

lemma ready_next: "ready s0 s \<Longrightarrow> vm.since vm s0 s' \<Longrightarrow> ready s0 s'"
  by (simp add: ready_def)

lemma ready_world: "ready s0 s \<Longrightarrow> ready s0 (s\<lparr>world := w\<rparr>)"
  by (auto simp: ready_def intro: each.since_world)

text \<open>How a \<open>keeps\<close> fact gives the intermediate state of \<open>settles_andThen\<close>.\<close>

lemma ready_wp:
  assumes "vm.keeps vm P c Q" "ready s0 s" "P s"
    and "\<And>x s'. ready s0 s' \<Longrightarrow> Q x s' \<Longrightarrow> Q' x s'" "\<And>p s'. ready s0 s' \<Longrightarrow> X p s'"
  shows "wp c Q' X s"
  by (rule vm.keeps_use[OF assms(1) ready_since[OF assms(2)] assms(3)])
    (auto intro: assms(4,5) ready_next[OF assms(2)])

lemma settles_call: "ready s0 s \<Longrightarrow> settles (\<lambda>n. call n i this args) s"
  by (rule call_settles[OF ready_inv ready_deep])

lemma settles_run_act: "ready s0 s \<Longrightarrow> settles (\<lambda>n. run_act (call n) act) s"
proof (induction act arbitrary: s)
  case (ActCall c this args w k)
  have ready: "ready s0 (s\<lparr>world := w\<rparr>)"
    by (rule ready_world[OF ActCall.prems])
  have cont: "settles (\<lambda>n. run_act (call n) (k r (world s'))) s'" if "ready s0 s'" for r s'
    by (rule ActCall.IH[OF rangeI rangeI that])
  have post: "wp (call n c this args) (\<lambda>v. ready s0) (\<lambda>p. ready s0) (s\<lparr>world := w\<rparr>)" for n
    by (rule ready_wp[OF each.call_keeps ready]) simp_all
  have "settles (\<lambda>n. run_act (call n) (ActCall c this args w k)) s"
  proof (rule settles_case[where c = "\<lambda>n t. call n c this args (t\<lparr>world := w\<rparr>)"])
    show "settles (\<lambda>n t. call n c this args (t\<lparr>world := w\<rparr>)) s"
      using settles_call[OF ready] by (simp add: settles_def)
  next
    fix n r
    assume "fst r \<noteq> NoFuel" "call n c this args (s\<lparr>world := w\<rparr>) = r"
    then show "\<exists>M t. fst t \<noteq> NoFuel \<and> (\<forall>m\<ge>M. (case r of
         (Val v, s') \<Rightarrow> run_act (call m) (k (Ok v) (world s')) s'
       | (Unwind p, s') \<Rightarrow> run_act (call m) (k (Err p) (world s')) s'
       | (Fail e, s') \<Rightarrow> (Fail e, s')
       | (NoFuel, s') \<Rightarrow> (NoFuel, s')) = t)"
      using post[of n] cont
      by (cases r; cases "fst r") (auto simp: wp_def settles_def)
  qed simp
  then show ?case .
qed (auto simp: settles_def)

lemma settles_prim: "ready s0 s \<Longrightarrow> settles (\<lambda>n. prim H (call n) op args) s"
  using settles_run_act[of s0 s] by (simp add: settles_def prim_def)

lemma settles_step:
  assumes "vm.keeps vm P (c 0) Q" "\<And>n. vm.keeps vm P (c n) Q"
    and "ready s0 s" "P s" "settles c s"
    and "\<And>x s'. ready s0 s' \<Longrightarrow> Q x s' \<Longrightarrow> settles (\<lambda>n. f n x) s'"
  shows "settles (\<lambda>n. andThen (c n) (f n)) s"
  by (rule settles_andThen[OF assms(5)]) (rule ready_wp[OF assms(2,3,4,6)], simp_all)

lemma settles_prim_then:
  "ready s0 s \<Longrightarrow> (\<And>x s'. ready s0 s' \<Longrightarrow> settles (\<lambda>n. f n x) s') \<Longrightarrow>
   settles (\<lambda>n. andThen (prim H (call n) op args) (f n)) s"
  by (rule settles_step[OF each.keeps_prim each.keeps_prim]) (auto intro: settles_prim)

text \<open>Reads of the state and other actions that leave it as it is.\<close>

lemma settles_ret_then: "settles (\<lambda>n. f n x) s \<Longrightarrow> settles (\<lambda>n. andThen (ret x) (f n)) s"
  by (rule settles_andThen; simp add: wp_simps settles_const fuel_free_basic)

lemma settles_gets_then: "settles (\<lambda>n. f n (g s)) s \<Longrightarrow> settles (\<lambda>n. andThen (gets g) (f n)) s"
  by (rule settles_andThen; simp add: wp_simps settles_const fuel_free_basic)

lemma settles_host_test_then:
  "settles (\<lambda>n. f n (t (world s))) s \<Longrightarrow> settles (\<lambda>n. andThen (host_test t) (f n)) s"
  by (rule settles_andThen; simp add: wp_simps settles_const fuel_free_basic)

lemma settles_modify_then:
  "settles (\<lambda>n. f n ()) (u s) \<Longrightarrow> settles (\<lambda>n. andThen (modify u) (f n)) s"
  by (rule settles_andThen; simp add: wp_simps settles_const fuel_free_basic)

lemma settles_fetch_then:
  "(i < length (tab s) \<Longrightarrow> settles (\<lambda>n. f n (tab s ! i)) s) \<Longrightarrow>
   settles (\<lambda>n. andThen (fetch tab i) (f n)) s"
  by (rule settles_andThen) (simp_all add: wp_simps settles_const fuel_free_basic)

lemma settles_register_then:
  "(\<And>x. settles (\<lambda>n. f n x) s) \<Longrightarrow> settles (\<lambda>n. andThen (read_register regs r) (f n)) s"
  by (rule settles_andThen)
    (simp_all add: wp_simps settles_const fuel_free_registers read_register_def fuel_free_intros)

lemma wp_read_registers:
  "(\<And>xs. Q xs s) \<Longrightarrow> wp (read_registers regs rs) Q (\<lambda>_ _. True) s"
  by (induction rs arbitrary: Q)
    (auto simp: read_registers_def read_register_def wp_simps)

lemma settles_registers_then:
  "(\<And>xs. settles (\<lambda>n. f n xs) s) \<Longrightarrow> settles (\<lambda>n. andThen (read_registers regs rs) (f n)) s"
  by (rule settles_andThen) (auto intro: settles_const fuel_free_registers wp_read_registers)

lemmas settles_thens = settles_prim_then settles_ret_then settles_gets_then
  settles_host_test_then settles_fetch_then
  settles_register_then settles_registers_then settles_prim settles_const fuel_free_intros
  settles_if settles_option settles_prod

subsection \<open>Cells and instructions\<close>

lemma settles_slot_read_value: "ready s0 s \<Longrightarrow> settles (\<lambda>n. slot_read_value H (call n) slot) s"
  unfolding slot_read_value_def by (intro settles_thens)

lemma settles_cell_read: "ready s0 s \<Longrightarrow> settles (\<lambda>n. cell_read H (call n) c name) s"
  unfolding cell_read_def by (intro settles_thens settles_slot_read_value)

lemma settles_cell_initialize: "ready s0 s \<Longrightarrow> settles (\<lambda>n. cell_initialize H (call n) c v) s"
  unfolding cell_initialize_def by (intro settles_thens)

lemma settles_throw_type_error: "ready s0 s \<Longrightarrow> settles (\<lambda>n. throw_type_error H (call n) msg) s"
  unfolding throw_type_error_def by (intro settles_thens)

lemma settles_cell_store: "ready s0 s \<Longrightarrow> settles (\<lambda>n. cell_store H (call n) c name v) s"
  unfolding cell_store_def by (intro settles_thens settles_throw_type_error)

lemma settles_env_cell_then:
  "(\<And>c. env b = Some c \<Longrightarrow> settles (\<lambda>n. f n c) s) \<Longrightarrow>
   settles (\<lambda>n. andThen (env_cell env b) (f n)) s"
  by (rule settles_andThen)
    (auto simp: env_cell_def wp_simps split: option.split intro!: settles_const fuel_free_intros)

lemma settles_initialize_binding:
  "ready s0 s \<Longrightarrow> settles (\<lambda>n. initialize_binding H (call n) env b v) s"
  unfolding initialize_binding_def by (intro settles_env_cell_then settles_cell_initialize)

lemma settles_binary_op: "ready s0 s \<Longrightarrow> settles (\<lambda>n. binary_op H (call n) operator l r) s"
  by (cases operator) (auto simp: binary_op_def Let_def intro!: settles_thens)

lemma settles_compute: "ready s0 s \<Longrightarrow> settles (\<lambda>n. compute H (call n) op rs fs dst) s"
  unfolding compute_def by (intro settles_thens)

lemma settles_perform: "ready s0 s \<Longrightarrow> settles (\<lambda>n. perform H (call n) op rs fs) s"
  unfolding perform_def by (intro settles_thens)

lemma settles_cell_read_then:
  assumes "ready s0 s" "\<And>x s'. ready s0 s' \<Longrightarrow> settles (\<lambda>n. f n x) s'"
  shows "settles (\<lambda>n. andThen (cell_read H (call n) c name) (f n)) s"
  using assms
  by (intro settles_step[OF each.keeps_cell_read each.keeps_cell_read]) (auto intro: settles_cell_read)

lemma settles_refresh_binding: "ready s0 s \<Longrightarrow> settles (\<lambda>n. refresh_binding H vm (call n) b fs) s"
  unfolding refresh_binding_def
  by (intro settles_prod settles_env_cell_then settles_fetch_then settles_last settles_if
      settles_cell_read settles_const fuel_free_intros)

lemma settles_create_class:
  "ready s0 s \<Longrightarrow> settles (\<lambda>n. create_class H (call n) c super init fs dst) s"
  unfolding create_class_def
  by (cases init; simp only: option.case; intro settles_thens)

lemma settles_call_function:
  "ready s0 s \<Longrightarrow> settles (\<lambda>n. call_function H (call n) a b args fs dst) s"
  unfolding call_function_def by (intro settles_thens)

lemma settles_call_method:
  "ready s0 s \<Longrightarrow> settles (\<lambda>n. call_method H (call n) a b args fs dst) s"
  unfolding call_method_def by (intro settles_thens)

lemma settles_construct: "ready s0 s \<Longrightarrow> settles (\<lambda>n. construct H (call n) a args fs dst) s"
  unfolding construct_def by (intro settles_thens)

lemma settles_dynamic_import: "ready s0 s \<Longrightarrow> settles (\<lambda>n. dynamic_import H (call n) a fs dst) s"
  unfolding dynamic_import_def by (intro settles_thens)

lemma settles_execute_instruction:
  "ready s0 s \<Longrightarrow> settles (\<lambda>n. execute_instruction H vm (call n) i fs) s"
  by (cases i; simp add: execute_instruction_def split del: if_split;
      intro settles_if settles_compute settles_perform settles_refresh_binding settles_create_class
        settles_call_function settles_call_method settles_construct settles_dynamic_import
        settles_env_cell_then settles_register_then settles_last settles_prim settles_cell_read
        settles_cell_initialize settles_cell_store settles_binary_op settles_const fuel_free_intros)

subsection \<open>Frames\<close>

lemma settles_execution_error_as_throw:
  "ready s0 s \<Longrightarrow> settles (\<lambda>n. execution_error_as_throw H (call n) e) s"
  by (cases e; simp add: execution_error_as_throw_def; intro settles_thens)

lemma settles_panic_control:
  "settles (\<lambda>n. case p of PanicValue v \<Rightarrow> ret (ThrowValue v, fs) | _ \<Rightarrow> fail HostPanic) s"
  by (cases p) (auto intro!: settles_const fuel_free_intros)

lemma settles_instruction_control:
  assumes "ready s0 s" "settles act s" "\<And>n. vm.keeps vm P (act n) Q" "P s"
  shows "settles (\<lambda>n. instruction_control H vm (call n) f b (act n) fs) s"
  unfolding instruction_control_def
proof (rule settles_andThen[OF settles_catch_unwind[OF assms(2)]], unfold wp_catch_unwind,
    rule ready_wp[OF assms(3,1,4)], goal_cases)
  case (1 n x s')
  then show ?case by (auto intro!: settles_const fuel_free_intros)
next
  case (2 n p s')
  then show ?case
    by (cases p)
      (simp_all add: settles_panic_control settles_if settles_last settles_execution_error_as_throw
        settles_const fuel_free_intros split del: if_split)
qed

end

end
