(* ===== verification/VMTermination.thy ===== *)
theory VMTermination
  imports VMTotal
begin

text \<open>
  Synchronous programs end.  Each block a frame enters consumes an instruction, so a frame enters at
  most as many blocks as the limit leaves instructions; each call raises the call depth, so calls nest
  at most to the limit.  Hence for a module without async functions and generators some fuel gives
  every run an outcome of the program, and more fuel gives the same one, whatever the embedder does
  and whatever its clock and cancellation token say.  The instruction limit must lie below the largest
  64-bit number, where the counter of the source saturates and the limit never fires.
\<close>

subsection \<open>The instruction count grows with each block\<close>

lemma wp_conj:
  "wp c Q X s \<Longrightarrow> wp c Q' X' s \<Longrightarrow> wp c (\<lambda>x t. Q x t \<and> Q' x t) (\<lambda>p t. X p t \<and> X' p t) s"
  by (auto simp: wp_def split: prod.split Outcome.split)

lemma wp_consume_counts:
  assumes "max_instructions (vm_limits vm) < - 1"
  shows "wp (consume_instruction H vm) (\<lambda>_ t. instruction_count s < instruction_count t) (\<lambda>_ _. True) s"
proof -
  have "instruction_count s < saturating_succ (instruction_count s)"
    if "\<not> max_instructions (vm_limits vm) < saturating_succ (instruction_count s)"
    using assms that by (auto simp: saturating_succ_def word_less_nat_alt unat_inc)
  then show ?thesis
    by (auto simp: consume_instruction_def wp_simps check_heap_limit_def wall_time_exhausted_def wp_def
        andThen_def gets_def ret_def fail_def host_test_def now_def modify_def Let_def
        split: option.split prod.split)
qed

context vm_contract
begin

lemma keeps_run_instructions_counts:
  assumes "max_instructions (vm_limits vm) < - 1"
    and "wf_function (vm_module vm) f" "\<not> is_async f" "\<not> is_generator f"
    and "\<forall>i\<in>set is. wf_instruction (vm_module vm) f i" "is \<noteq> []" "is_terminator (last is)"
    and "frame_ok f fs"
  shows "keeps (\<lambda>s. no_callables s \<and> instruction_count s = k) (run_instructions H vm call f b is fs)
    (\<lambda>step s'. step_ok f step \<and> k < instruction_count s')"
proof (rule keepsI)
  fix s
  assume s: "since s s" "no_callables s \<and> instruction_count s = k"
  obtain i rest where is_cons: "is = i # rest" using assms(6) by (cases "is") auto
  have "wp (run_instructions H vm call f b is fs)
      (\<lambda>step s'. since s s' \<and> step_ok f step) (\<lambda>p s'. since s s' \<and> allowed p) s"
    by (rule keeps_use[OF keeps_run_instructions[OF assms(2-8)] s(1)]) simp_all
  moreover have "wp (run_instructions H vm call f b is fs)
      (\<lambda>step s'. k < instruction_count s') (\<lambda>_ _. True) s"
    unfolding is_cons run_instructions.simps wp_andThen[of "consume_instruction _ _"]
  proof (rule wp_mono[OF wp_conj[OF wp_consume_counts[OF assms(1)]
        keeps_use[OF keeps_consume_instruction s(1), of "\<lambda>_ t. since s t" "\<lambda>_ _. True"]]], goal_cases)
    case (4 x t)
    then have t: "since t t" "no_callables t" "k < instruction_count t"
      using s(2) by (auto simp: since_def vm_grows_refl vm_grows_def balanced_def)
    have "k < instruction_count u" if "since t u" for u
      using that t by (auto simp: since_def vm_grows_def balanced_def)
    then show ?case
      using is_cons assms(5-8)
      by (intro keeps_use[OF keeps_first_instruction[OF assms(2-4) _ _
            keeps_run_instructions[OF assms(2-4)]] t(1)]) (auto split: if_splits)
  qed simp_all
  ultimately show "wp (run_instructions H vm call f b is fs)
      (\<lambda>step s'. since s s' \<and> step_ok f step \<and> k < instruction_count s')
      (\<lambda>p s'. since s s' \<and> allowed p) s"
    by (rule wp_mono[OF wp_conj]) auto
qed

end

subsection \<open>Frames settle\<close>

lemma settles_shift: "settles (\<lambda>n. c (Suc n)) s \<longleftrightarrow> settles c s"
proof
  assume "settles (\<lambda>n. c (Suc n)) s"
  then obtain N r where r: "fst r \<noteq> NoFuel" "\<forall>n\<ge>N. c (Suc n) s = r" by (auto simp: settles_def)
  have "c n s = r" if "n \<ge> Suc N" for n
    using r(2) that by (cases n) auto
  with r(1) show "settles c s" unfolding settles_def by blast
next
  assume "settles c s"
  then show "settles (\<lambda>n. c (Suc n)) s" unfolding settles_def by (meson le_SucI)
qed

text \<open>An action that only turns the outcome of another into its own.\<close>

lemma settles_through:
  assumes "settles c t" "\<And>n. d n s = g (c n t)" "\<And>r. fst r \<noteq> NoFuel \<Longrightarrow> fst (g r) \<noteq> NoFuel"
  shows "settles d s"
proof -
  from assms(1) obtain N r where "fst r \<noteq> NoFuel" "\<forall>n\<ge>N. c n t = r" by (auto simp: settles_def)
  then have "fst (g r) \<noteq> NoFuel" "\<forall>n\<ge>N. d n s = g r" by (simp_all add: assms(2,3))
  then show ?thesis unfolding settles_def by blast
qed

lemma settles_with_heap_scope:
  "settles c (s\<lparr>current_owner := Some (vm_heap_owner vm)\<rparr>) \<Longrightarrow> settles (\<lambda>n. with_heap_scope vm (c n)) s"
  by (erule settles_through[where g = "\<lambda>(r, s'). (r, s'\<lparr>current_owner := current_owner s\<rparr>)"])
    (auto simp: with_heap_scope_def Let_def)

lemma settles_finally_leave: "settles c s \<Longrightarrow> settles (\<lambda>n. finally_leave H (c n)) s"
  by (erule settles_through[where g = "\<lambda>(r, s'). finally_leave H (\<lambda>_. (r, s')) s"])
    (auto simp: finally_leave_def split: prod.split Outcome.split)

context settling_calls
begin

lemma settles_each_action_initialize:
  assumes "ready s0 s" "\<And>b v. (b, v) \<in> set bvs \<Longrightarrow> b \<in> dom env"
  shows "settles (\<lambda>n. each_action (\<lambda>(b, v). initialize_binding H (call n) env b v) bvs) s"
  using assms
proof (induction bvs arbitrary: s)
  case Nil
  then show ?case by (simp add: settles_const fuel_free_basic)
next
  case (Cons bv bvs)
  obtain b v where bv: "bv = (b, v)" by (cases bv)
  have env: "b \<in> dom env" using Cons.prems(2)[of b v] by (simp add: bv)
  show ?case
    unfolding each_action.simps bv prod.case
    by (rule settles_step[OF each.keeps_initialize_binding[OF env] each.keeps_initialize_binding[OF env]
          Cons.prems(1)]) (use Cons in \<open>auto intro: settles_initialize_binding\<close>)
qed

lemma settles_optional_binding:
  assumes "ready s0 s" "\<And>b. x = Some b \<Longrightarrow> settles (\<lambda>n. act n b) s"
    and "\<And>n b. x = Some b \<Longrightarrow> vm.keeps vm (\<lambda>_. True) (act n b) (\<lambda>_ _. True)"
    and "\<And>s'. ready s0 s' \<Longrightarrow> settles f s'"
  shows "settles (\<lambda>n. andSeq (case x of None \<Rightarrow> ret () | Some b \<Rightarrow> act n b) (f n)) s"
proof (cases x)
  case None
  then show ?thesis using assms(1,4) by (simp add: settles_ret_then)
next
  case (Some b)
  show ?thesis
    unfolding Some option.case
    by (rule settles_step[OF assms(3) assms(3) assms(1)]) (use Some assms in auto)
qed

lemma settles_initialize_environment:
  assumes "ready s0 s" "set (captures f) \<subseteq> dom env0" "wf_parameters f"
  shows "settles (\<lambda>n. initialize_environment H (call n) f this args env0) s"
proof -
  have declared: "b \<in> local_bindings f"
    if "b \<in> set (parameters f) \<or> rest_parameter f = Some b \<or> arguments_binding f = Some b \<or>
      this_binding f = Some b" for b
    using that assms(3) by (auto simp: wf_parameters_def intro: has_kind_local)
  have good: "vm.keeps vm (\<lambda>_. True)
      (declare_bindings (bindings f) env0 :: ('w, Environment) action)
      (\<lambda>env _. accessible_bindings f \<subseteq> dom env)"
    by (rule vm.keeps_weaken[OF each.keeps_declare_bindings])
      (use assms(2) in \<open>auto simp: accessible_bindings_def local_bindings_def\<close>)
  show ?thesis
    unfolding initialize_environment_def
  proof (rule settles_step[OF good good assms(1)])
    fix env :: Environment and s1
    assume s1: "ready s0 s1" and env: "accessible_bindings f \<subseteq> dom (env :: Environment)"
    have dom: "b \<in> dom env" if "b \<in> local_bindings f" for b
      using env that by (auto simp: accessible_bindings_def)
    have init: "vm.keeps vm (\<lambda>_. True) (initialize_binding H (call n) env b v) (\<lambda>_ _. True)"
      if "b \<in> local_bindings f" for b v n
      by (rule each.keeps_initialize_binding[OF dom[OF that]])
    have array: "vm.keeps vm (\<lambda>_. True)
        (andThen (prim H (call n) op xs) (initialize_binding H (call n) env b)) (\<lambda>_ _. True)"
      if "b \<in> local_bindings f" for b op xs n
      by (rule vm.keepsI)
        (auto simp: wp_simps intro!: each.keeps_prim[THEN vm.keeps_use] init[OF that, THEN vm.keeps_use])
    have params: "vm.keeps vm (\<lambda>_. True) (each_action (\<lambda>(b, v). initialize_binding H (call n) env b v)
        (zip (parameters f) args)) (\<lambda>_ _. True)" for n
      by (rule vm.keeps_each_action) (auto dest!: set_zip_leftD intro!: init declared)
    show "settles (\<lambda>n. andSeq (each_action (\<lambda>(b, v). initialize_binding H (call n) env b v)
        (zip (parameters f) args))
     (andSeq (case arguments_binding f of
        None \<Rightarrow> ret ()
      | Some b \<Rightarrow> andThen (prim H (call n) P_create_array args) (initialize_binding H (call n) env b))
     (andSeq (case rest_parameter f of
        None \<Rightarrow> ret ()
      | Some b \<Rightarrow> andThen (prim H (call n) P_create_array (drop (length (parameters f)) args))
                    (initialize_binding H (call n) env b))
     (andSeq (case this_binding f of
        None \<Rightarrow> ret ()
      | Some b \<Rightarrow> initialize_binding H (call n) env b this)
     (ret env))))) s1"
      by (rule settles_step[OF params params s1 TrueI settles_each_action_initialize[OF s1]])
        (auto dest!: set_zip_leftD intro!: dom declared settles_optional_binding array init
          settles_prim_then settles_initialize_binding settles_const fuel_free_intros)
  qed (simp_all add: settles_const fuel_free_intros)
qed

lemma settles_run_instructions:
  assumes "ready s0 s" "wf_function (vm_module vm) f" "\<not> is_async f" "\<not> is_generator f"
    and "\<forall>i\<in>set is. wf_instruction (vm_module vm) f i" "frame_ok f fs"
  shows "settles (\<lambda>n. run_instructions H vm (call n) f b is fs) s"
  using assms(1,5-)
proof (induction "is" arbitrary: fs s)
  case Nil
  then show ?case by (simp add: settles_const fuel_free_intros)
next
  case (Cons i rest)
  have i: "wf_instruction (vm_module vm) f i" "\<not> suspends i"
    using Cons.prems(2) assms(3,4) not_suspends by auto
  have act: "vm.keeps vm (\<lambda>_. True) (execute_instruction H vm (call n) i fs)
      (\<lambda>r _. frame_ok f (snd r) \<and> control_ok f i (fst r))" for n
    by (rule each.keeps_execute_instruction) (simp_all add: i Cons.prems)
  have control: "vm.keeps vm (\<lambda>_. True)
      (instruction_control H vm (call n) f b (execute_instruction H vm (call n) i fs) fs)
      (\<lambda>r _. frame_ok f (snd r) \<and> control_ok f i (fst r))" for n
    by (rule each.keeps_instruction_control[OF act]) (simp_all add: Cons.prems control_ok_def)
  show ?case
    unfolding run_instructions.simps
  proof (rule settles_step[OF each.keeps_consume_instruction each.keeps_consume_instruction
        Cons.prems(1) TrueI])
    fix s1
    assume s1: "ready s0 s1"
    show "settles (\<lambda>n. andThen
        (instruction_control H vm (call n) f b (execute_instruction H vm (call n) i fs) fs)
        (\<lambda>(control, fs'). case control of
          Continue \<Rightarrow> run_instructions H vm (call n) f b rest fs'
        | JumpTo target \<Rightarrow> ret (NextBlock target fs')
        | ReturnValue v \<Rightarrow> ret (Finished v)
        | ThrowValue v \<Rightarrow> enter_handler f b v fs')) s1"
    proof (rule settles_step[OF control control s1 TrueI
          settles_instruction_control[OF s1 settles_execute_instruction[OF s1] act TrueI]])
      fix x s2
      assume "ready s0 s2" "frame_ok f (snd x) \<and> control_ok f i (fst x)"
      then show "settles (\<lambda>n. case x of (control, fs') \<Rightarrow> (case control of
          Continue \<Rightarrow> run_instructions H vm (call n) f b rest fs'
        | JumpTo target \<Rightarrow> ret (NextBlock target fs')
        | ReturnValue v \<Rightarrow> ret (Finished v)
        | ThrowValue v \<Rightarrow> enter_handler f b v fs')) s2"
        using Cons.prems
        by (cases x; cases "fst x") (auto intro!: Cons.IH settles_const fuel_free_intros)
    qed
  qed (simp add: settles_const fuel_free_intros)
qed

text \<open>The instructions that are left bound the number of blocks a frame enters.\<close>

lemma settles_run_blocks:
  assumes "max_instructions (vm_limits vm) < - 1"
    and "ready s0 s" "wf_function (vm_module vm) f" "\<not> is_async f" "\<not> is_generator f"
    and "b \<in> block_ids f" "frame_ok f fs"
  shows "settles (\<lambda>n. run_blocks H vm (call (n + k)) f n b fs) s"
  using assms(2,6-)
proof (induction "unat (max_instructions (vm_limits vm)) - unat (instruction_count s)"
    arbitrary: s b fs k rule: less_induct)
  case less
  from find_block_Some[OF less.prems(2)] obtain current
    where current: "find_block f b = Some current" "current \<in> set (blocks f)" by blast
  then have "wf_block (vm_module vm) f current"
    using assms(3) by (simp add: wf_function_def)
  note block = wf_block_instructions[OF this]
  have here: "no_callables s \<and> instruction_count s = instruction_count s"
    using ready_deep[OF less.prems(1)] by (auto simp: deep_def intro: sync_run_no_callables)
  have step: "settles (\<lambda>n. run_instructions H vm (call (n + Suc k)) f b (instructions current) fs) s"
    using settles_run_instructions[OF less.prems(1) assms(3-5) block(3) less.prems(3), of b]
    unfolding settles_def by (meson trans_le_add1)
  have keeps: "vm.keeps vm (\<lambda>s'. no_callables s' \<and> instruction_count s' = instruction_count s)
      (run_instructions H vm (call n) f b (instructions current) fs)
      (\<lambda>step s'. step_ok f step \<and> instruction_count s < instruction_count s')" for n
    by (rule each.keeps_run_instructions_counts[OF assms(1,3-5) block(3,1,2) less.prems(3)])
  have next_block: "settles (\<lambda>n. run_blocks H vm (call (n + Suc k)) f n target fs') s'"
    if "ready s0 s'" "step_ok f (NextBlock target fs')" "instruction_count s < instruction_count s'"
    for s' target fs'
  proof (rule less.hyps)
    have "instruction_count s' \<le> max_instructions (vm_limits vm)"
      using ready_inv[OF that(1)] by (simp add: vm_inv_def budget_ok_def)
    then show "unat (max_instructions (vm_limits vm)) - unat (instruction_count s')
        < unat (max_instructions (vm_limits vm)) - unat (instruction_count s)"
      using that(3) by (simp add: word_le_nat_alt word_less_nat_alt)
  qed (use that in \<open>simp_all add: step_ok_def\<close>)
  have "settles (\<lambda>n. run_blocks H vm (call (Suc n + k)) f (Suc n) b fs) s"
    unfolding run_blocks.simps current option.case add_Suc add_Suc_right[symmetric]
  proof (rule settles_step[OF keeps keeps less.prems(1) here step], goal_cases)
    case (1 x s')
    then show ?case
      by (cases x) (auto intro!: next_block[unfolded add_Suc_right] settles_const fuel_free_intros)
  qed
  then show ?case by (rule settles_shift[THEN iffD1])
qed

lemma ready_here: "vm_inv vm s \<Longrightarrow> deep vm d s \<Longrightarrow> ready s s"
  by (simp add: ready_def vm.since_def vm_grows_refl)

lemma settles_execute_frame:
  assumes "max_instructions (vm_limits vm) < - 1"
    and "vm_inv vm s" "deep vm d s" "wf_function (vm_module vm) f" "\<not> is_async f" "\<not> is_generator f"
    and "set (captures f) \<subseteq> dom env0"
  shows "settles (\<lambda>n. execute_frame H vm n (call n) f this args env0) s"
proof -
  let ?s = "s\<lparr>current_owner := Some (vm_heap_owner vm)\<rparr>"
  have f: "wf_parameters f" "function_entry f \<in> block_ids f"
    using assms(4) by (simp_all add: wf_function_def)
  have body: "settles (\<lambda>n. andThen (initialize_environment H (call n) f this args env0) (\<lambda>env.
     run_blocks H vm (call n) f n (function_entry f)
       (replicate (unat (registers f)) VUndefined, env))) t" if t: "ready t t" for t
    by (rule settles_step[OF each.keeps_initialize_environment[OF assms(7) f(1)]
          each.keeps_initialize_environment[OF assms(7) f(1)] t TrueI
          settles_initialize_environment[OF t assms(7) f(1)]])
      (use settles_run_blocks[OF assms(1) _ assms(4-6) f(2), where k = 0] in
        \<open>simp add: frame_ok_def\<close>)
  have inv: "vm_inv vm ?s" "deep vm d ?s"
    using assms(2,3) by (simp_all add: deep_def sync_run_def)
  have "ready t t" if "entered ?s t" for t
    using segment_inv[OF inv(1) that] inv(2) that
    by (auto simp: entered_def same_but_budget_def deep_def sync_run_def intro!: ready_here)
  then have "settles (\<lambda>n. andSeq (enter_budget H) (finally_leave H
     (andThen (initialize_environment H (call n) f this args env0) (\<lambda>env.
        run_blocks H vm (call n) f n (function_entry f)
          (replicate (unat (registers f)) VUndefined, env))))) ?s"
    by (intro settles_andThen[where c = "\<lambda>_. enter_budget H"] settles_const fuel_free_intros
        wp_enter_budget[OF vm_inv_budget[OF inv(1)]] settles_finally_leave body) simp_all
  then show ?thesis
    unfolding execute_frame_def with_segment_def by (rule settles_with_heap_scope)
qed

end

subsection \<open>Functions and closures settle\<close>

lemma settles_on_result_last:
  "settles c s \<Longrightarrow> (\<And>r. fuel_free (f r)) \<Longrightarrow> settles (\<lambda>n. on_result (c n) f) s"
  by (erule settles_through[where g = "\<lambda>r. on_result (\<lambda>_. r) f s"])
    (auto simp: on_result_def fuel_free_def split: prod.split Outcome.split)

lemma settles_modify_first: "settles c (u s) \<Longrightarrow> settles (\<lambda>n. andSeq (modify u) (c n)) s"
  by (erule settles_through[where g = id]) (simp_all add: andThen_def modify_def)

lemma settles_execute_function:
  assumes "max_instructions (vm_limits vm) < - 1"
    and calls: "d < max_call_depth (vm_limits vm) \<Longrightarrow> settling_calls vm call (d + 1)"
    and "vm_inv vm s" "deep vm d s"
    and f: "module_function vm f" "function_id f = i" "set (captures f) \<subseteq> dom env0"
  shows "settles (\<lambda>n. execute_function H vm n (call n) i this args env0) s"
proof -
  let ?s = "s\<lparr>current_owner := Some (vm_heap_owner vm)\<rparr>"
  have found: "find_function (vm_module vm) i = Some f"
    using assms(3) f by (auto simp: vm_inv_def module_function_def intro: machine.find_function_Some)
  have sync: "\<not> is_async f" "\<not> is_generator f"
    using assms(4) f(1) by (auto simp: deep_def sync_run_def sync_module_def)
  have wf: "wf_function (vm_module vm) f"
    using assms(3) f(1) by (simp add: vm_inv_def wf_module_def module_function_def)
  have frame: "settles (\<lambda>n. execute_frame H vm n (call n) f this args env0)
      (?s\<lparr>call_depth := call_depth s + 1\<rparr>)" if depth: "call_depth s < max_call_depth (vm_limits vm)"
  proof (rule settling_calls.settles_execute_frame[OF calls assms(1) _ _ wf sync f(3)])
    have le: "d \<le> call_depth s" using assms(4) by (simp add: deep_def)
    then show "d < max_call_depth (vm_limits vm)" using depth by simp
    show "vm_inv vm (?s\<lparr>call_depth := call_depth s + 1\<rparr>)"
      by (rule vm_inv_tables[of vm s]) (use assms(3) in \<open>simp_all add: vm_inv_def budget_ok_def\<close>)
    have "d + 1 \<le> call_depth s + 1"
      using le depth by (rule inc_mono)
    then show "deep vm (d + 1) (?s\<lparr>call_depth := call_depth s + 1\<rparr>)"
      using assms(4) by (simp add: deep_def sync_run_def)
  qed
  have "settles (\<lambda>n. case find_function (vm_module vm) i of
       None \<Rightarrow> fail (VmMissingFunction i)
     | Some f \<Rightarrow> andThen (gets call_depth) (\<lambda>depth.
         if depth \<ge> max_call_depth (vm_limits vm) then fail CallDepthExceeded
         else andThen
           (if is_generator f then execute_generator_function H (call n) f this args env0 depth
            else if is_async f then execute_async_function H (call n) f this args env0 depth
            else execute_sync_function H vm n (call n) f this args env0 depth)
           (\<lambda>v. andSeq (check_heap_limit H vm) (ret v)))) ?s"
    unfolding found option.case execute_sync_function_def
    by (rule settles_through[where t = ?s and g = id and c = "\<lambda>n. if call_depth s \<ge> max_call_depth (vm_limits vm)
         then fail CallDepthExceeded
         else andThen (andSeq (modify (\<lambda>t. t\<lparr>call_depth := call_depth s + 1\<rparr>))
           (on_result (execute_frame H vm n (call n) f this args env0) (\<lambda>r.
             andSeq (modify (\<lambda>t. t\<lparr>call_depth := call_depth s\<rparr>)) (from_result r))))
           (\<lambda>v. andSeq (check_heap_limit H vm) (ret v))"])
      (auto simp: andThen_def[of "gets _"] gets_def frame sync linorder_not_le
        intro!: settles_if settles_last settles_modify_first settles_on_result_last
          settles_const fuel_free_intros)
  then show ?thesis
    unfolding execute_function_def by (rule settles_with_heap_scope)
qed

subsection \<open>The dispatcher and the entry points settle\<close>

lemma deep_closures:
  assumes "vm_inv vm s" "deep vm d s" "c \<in> set (closures s)"
  shows "\<exists>i env f. c = ClosureFunction i env \<and> module_function vm f \<and> function_id f = i \<and>
    set (captures f) \<subseteq> dom env"
proof -
  have "function_closure c" "closure_ok vm s c"
    using assms by (auto simp: deep_def sync_run_def vm_inv_def)
  then show ?thesis by (cases c) (auto simp: function_closure_def closure_ok_def)
qed

lemma settles_throwing_errors: "settles c s \<Longrightarrow> settles (\<lambda>n. throwing_errors H (c n)) s"
  unfolding throwing_errors_def
  by (erule settles_on_result_last) (auto intro: fuel_free_intros split: sum.split)

lemma settles_call_closure:
  fixes s :: "'w VmState"
  assumes "max_instructions (vm_limits vm) < - 1" "vm_inv vm s" "deep vm d s"
  shows "settles (\<lambda>n. call_closure H vm n i this args) s"
  using assms(2,3)
proof (induction "unat (max_call_depth (vm_limits vm)) - unat d" arbitrary: d s i this args rule: less_induct)
  case less
  have deeper: "settling_calls vm (call_closure H vm) (d + 1)" if "d < max_call_depth (vm_limits vm)"
  proof (unfold_locales)
    fix t :: "'w VmState" and i this args
    assume t: "vm_inv vm t" "deep vm (d + 1) t"
    have "d \<noteq> - 1" using that by auto
    then have "unat (d + 1) = Suc (unat d)" "unat d < unat (max_call_depth (vm_limits vm))"
      using that by (simp_all add: word_less_nat_alt unat_inc)
    then show "settles (\<lambda>n. call_closure H vm n i this args) t"
      by (intro less.hyps[OF _ t]) simp
  qed
  have "settles (\<lambda>n. call_closure H vm (Suc n) i this args) s"
  proof (cases "i < length (closures s)")
    case True
    obtain j env f where c: "closures s ! i = ClosureFunction j env" "module_function vm f"
        "function_id f = j" "set (captures f) \<subseteq> dom env"
      using deep_closures[OF less.prems, of "closures s ! i"] True by auto
    have "settles (\<lambda>n. closure_body H vm n (call_closure H vm n) (closures s ! i) this args) s"
      unfolding closure_body_def c(1) Closure.case
      by (intro settles_throwing_errors
          settles_execute_function[OF assms(1) deeper less.prems c(2-4)])
    then show ?thesis
      by (elim settles_through[where g = id]) (simp_all add: andThen_def fetch_def True)
  next
    case False
    then show ?thesis
      using settles_const[OF fuel_free_basic(3), of DanglingPanic s]
      by (simp add: settles_def andThen_def fetch_def unwind_def)
  qed
  then show ?case by (rule settles_shift[THEN iffD1])
qed

lemma settling_call_closure:
  "max_instructions (vm_limits vm) < - 1 \<Longrightarrow> settling_calls vm (call_closure H vm) d"
  by unfold_locales (rule settles_call_closure)

lemma settles_run_with_cells:
  assumes "max_instructions (vm_limits vm) < - 1" "vm_inv vm s" "sync_run vm s"
    and f: "module_function vm f" "function_id f = module_entry (vm_module vm)"
      "set (captures f) \<subseteq> dom env"
  shows "settles (\<lambda>n. run_with_cells H vm n env) s"
proof -
  let ?s = "s\<lparr>instruction_count := 0, call_depth := 0,
    execution_budget := new_budget (max_wall_time (vm_limits vm))\<rparr>"
  have "deep vm 0 ?s"
    using assms(3) by (simp add: deep_def sync_run_def)
  then have "settles (\<lambda>n. execute_function H vm n (call_closure H vm n)
      (module_entry (vm_module vm)) VUndefined [] env) ?s"
    by (intro settles_execute_function[OF assms(1) settling_call_closure[OF assms(1)]
          machine.vm_inv_reset[OF assms(2)] _ f])
  then show ?thesis
    unfolding run_with_cells_def reset_invocation_def reset_execution_budget_def
    by (elim settles_through[where g = id]) (simp_all add: andThen_def modify_def)
qed

lemma settles_run_with_bindings:
  assumes "max_instructions (vm_limits vm) < - 1" "vm_inv vm s" "sync_run vm s"
    and f: "module_function vm f" "function_id f = module_entry (vm_module vm)"
      "set (captures f) \<subseteq> fst ` set bs"
  shows "settles (\<lambda>n. run_with_bindings H vm n bs) s"
  unfolding run_with_bindings_def
proof (rule settles_andThen)
  have "vm.since vm s s"
    using assms(2) by (simp add: vm.since_def vm_grows_refl)
  then show "wp (new_cells bs Map.empty) (\<lambda>env s'. settles (\<lambda>n. run_with_cells H vm n env) s')
      (\<lambda>_ _. True) s"
    by (rule machine.keeps_new_cells[THEN vm.keeps_use])
      (use assms in \<open>auto simp: vm.since_def vm_grows_def intro!: settles_run_with_cells[OF _ _ _ f(1,2)]\<close>)
qed (simp add: settles_const fuel_free_intros)

end
