(* ===== verification/VMExample.thy ===== *)
theory VMExample
  imports VMTermination
begin

text \<open>
  A small embedder and a few modules, at which the properties of the virtual machine are evaluated.
  The embedder's operations return \<open>undefined\<close> without calling back, its heap is empty and its clock
  stands still.
\<close>

definition quiet_host :: "unit Host" where
  "quiet_host =
     \<lparr> prim_op = \<lambda>_ _ w. ActDone VUndefined w, on_function = \<lambda>_ w. w, is_cancelled = \<lambda>_. False,
       live_bytes = \<lambda>_. 0, clock_now = \<lambda>w. (0, w), to_bool = \<lambda>_ _. False,
       is_callable = \<lambda>_ _. False, is_object = \<lambda>_ _. False, is_function = \<lambda>_ _. False,
       error_text = \<lambda>_. [] \<rparr>"

definition example_function :: "FunctionId \<Rightarrow> Binding list \<Rightarrow> Block list \<Rightarrow> Function" where
  "example_function i bs body =
     \<lparr> function_id = i, function_name = None, parameters = [], rest_parameter = None,
       arguments_binding = None, bindings = bs, captures = [], this_binding = None, registers = 2,
       function_entry = BlockId 0, blocks = body, exception_regions = [], suspension_points = [],
       generator_suspension_points = [], is_async = False, is_generator = False,
       own_name_length = None, function_span = None \<rparr>"

definition example_block :: "u32 \<Rightarrow> Instruction list \<Rightarrow> Block" where
  "example_block b is = \<lparr> block_id = BlockId b, instructions = is, block_span = None \<rparr>"

text \<open>\<open>return true\<close>, and \<open>while (true) {}\<close>.\<close>

definition return_module :: Module where
  "return_module = new_module ''m'' (FunctionId 0)
     [example_function (FunctionId 0) []
       [example_block 0 [LoadConstant (Register 0) (CBool True), Return (Register 0)]]]"

definition loop_module :: Module where
  "loop_module = new_module ''m'' (FunctionId 0)
     [example_function (FunctionId 0) [] [example_block 0 [Jump (BlockId 0)]]]"

definition example_limits :: Limits where
  "example_limits =
     \<lparr> max_instructions = 2, max_call_depth = 2, max_heap_bytes = Some 64, max_wall_time = Some 9 \<rparr>"

definition example_vm :: "Module \<Rightarrow> Vm" where
  "example_vm m = \<lparr> vm_module = m, vm_limits = example_limits, vm_heap_owner = 7 \<rparr>"

lemma return_module_valid: "validate return_module = Ok ()"
  by code_simp

lemma loop_module_valid: "validate loop_module = Ok ()"
  by code_simp

lemmas step_defs = andThen_def ret_def fail_def unwind_def gets_def modify_def fetch_def on_result_def
  catch_unwind_def from_result_def host_test_def now_def prim_def new_function_def no_fuel_def

lemmas run_defs = run_def run_with_bindings_def run_with_cells_def reset_invocation_def
  reset_execution_budget_def execute_function_def execute_sync_function_def execute_frame_def
  with_segment_def with_heap_scope_def enter_budget_def leave_budget_def finally_leave_def
  initialize_environment_def consume_instruction_def check_heap_limit_def wall_time_exhausted_def
  instruction_control_def execute_instruction_def store_result_def write_register_def
  read_register_def constant_value_def find_function_def find_block_def saturating_succ_def

lemmas example_defs = example_vm_def example_limits_def return_module_def loop_module_def
  new_module_def example_function_def example_block_def new_state_def new_budget_def quiet_host_def

lemma run_return_module:
  "fst (run quiet_host (example_vm return_module) (Suc 0) (new_state () example_limits)) = Val (VBool True)"
  by (simp add: step_defs run_defs example_defs)

lemma run_loop_module:
  "fst (run quiet_host (example_vm loop_module) (Suc (Suc (Suc 0))) (new_state () example_limits)) =
     Fail InstructionLimitExceeded"
  by (simp add: step_defs run_defs example_defs region_of_def)

end
