(* ===== verification/VMActivation.thy ===== *)
theory VMActivation
  imports VMExample
begin

text \<open>
  Activations: where the machine stands inside a function.  \<open>activation H vm n f b is fs s\<close> says that
  in state \<open>s\<close> a frame of \<open>f\<close> with registers and environment \<open>fs\<close> is in block \<open>b\<close> and has the
  instructions \<open>is\<close> of the block before it.  The rules are the moves of the drivers: entering a
  synchronous function, resuming a generator or async frame, going on after an instruction, jumping,
  and entering a handler after a throw.  A state in which a frame is entered is any state with the
  invariant of the machine, since calls come from inside operations of the core.

  An error of a frame becomes a thrown value in its caller, and a register panic becomes
  \<open>HostPanic\<close>, so that a program without faults is best stated here, where the faults arise.
\<close>

subsection \<open>Activations\<close>

inductive activation ::
  "'w Host \<Rightarrow> Vm \<Rightarrow> nat \<Rightarrow> Function \<Rightarrow> BlockId \<Rightarrow> Instruction list \<Rightarrow> FrameState \<Rightarrow> 'w VmState \<Rightarrow> bool"
  for H vm n f where
  entered: "vm_inv vm s \<Longrightarrow> module_function vm f \<Longrightarrow> \<not> is_async f \<Longrightarrow> \<not> is_generator f \<Longrightarrow>
    set (captures f) \<subseteq> dom captured \<Longrightarrow>
    initialize_environment H (call_closure H vm n) f this args captured s = (Val env, s') \<Longrightarrow>
    find_block f (function_entry f) = Some current \<Longrightarrow>
    activation H vm n f (function_entry f) (instructions current)
      (replicate (unat (registers f)) VUndefined, env) s'"
| generator: "vm_inv vm s \<Longrightarrow> g \<in> set (generators s) \<Longrightarrow> gen_function g = f \<Longrightarrow>
    find_block f (gen_block g) = Some current \<Longrightarrow>
    activation H vm n f (gen_block g) (instructions current) (gen_registers g, gen_environment g) s"
| awaiting: "vm_inv vm s \<Longrightarrow> a \<in> set (async_frames s) \<Longrightarrow> async_function a = f \<Longrightarrow>
    find_block f (async_block a) = Some current \<Longrightarrow>
    activation H vm n f (async_block a) (instructions current)
      (async_registers a, async_environment a) s"
| continued: "activation H vm n f b (i # is) fs s \<Longrightarrow> consume_instruction H vm s = (Val (), s1) \<Longrightarrow>
    instruction_control H vm (call_closure H vm n) f b
      (execute_instruction H vm (call_closure H vm n) i fs) fs s1 = (Val (Continue, fs'), s2) \<Longrightarrow>
    activation H vm n f b is fs' s2"
| jumped: "activation H vm n f b (i # is) fs s \<Longrightarrow> consume_instruction H vm s = (Val (), s1) \<Longrightarrow>
    instruction_control H vm (call_closure H vm n) f b
      (execute_instruction H vm (call_closure H vm n) i fs) fs s1 = (Val (JumpTo t, fs'), s2) \<Longrightarrow>
    find_block f t = Some current \<Longrightarrow> activation H vm n f t (instructions current) fs' s2"
| caught: "activation H vm n f b (i # is) fs s \<Longrightarrow> consume_instruction H vm s = (Val (), s1) \<Longrightarrow>
    instruction_control H vm (call_closure H vm n) f b
      (execute_instruction H vm (call_closure H vm n) i fs) fs s1 = (Val (ThrowValue v, fs'), s2) \<Longrightarrow>
    enter_handler f b v fs' s2 = (Val (NextBlock t fs''), s3) \<Longrightarrow>
    find_block f t = Some current \<Longrightarrow> activation H vm n f t (instructions current) fs'' s3"

subsection \<open>What holds in every activation\<close>

text \<open>The rest of a block: valid instructions up to a terminator.\<close>

definition code_ok :: "Vm \<Rightarrow> Function \<Rightarrow> Instruction list \<Rightarrow> bool" where
  "code_ok vm f is \<longleftrightarrow> is \<noteq> [] \<and> is_terminator (last is) \<and>
     (\<forall>i\<in>set is. wf_instruction (vm_module vm) f i)"

definition stands :: "Vm \<Rightarrow> Function \<Rightarrow> Instruction list \<Rightarrow> FrameState \<Rightarrow> 'w VmState \<Rightarrow> bool" where
  "stands vm f is fs s \<longleftrightarrow> vm_inv vm s \<and> module_function vm f \<and> frame_ok f fs \<and> code_ok vm f is"

lemma keeps_result:
  assumes "vm.keeps vm P c Q" "vm_inv vm s" "P s" "c s = (Val x, s')"
  shows "vm_inv vm s' \<and> Q x s'"
proof -
  have "wp c (\<lambda>x s'. vm.since vm s s' \<and> Q x s') (\<lambda>_ _. True) s"
    by (rule vm.keeps_use[OF assms(1), of s, OF _ assms(3)])
      (use assms(2) in \<open>simp_all add: vm.since_def vm_grows_refl\<close>)
  then show ?thesis
    using assms(4) by (simp add: wp_def vm.since_def)
qed

lemma vm_inv_function:
  "vm_inv vm s \<Longrightarrow> module_function vm f \<Longrightarrow> wf_function (vm_module vm) f"
  using wf_module_bindings by (auto simp: vm_inv_def module_function_def)

lemma code_ok_block:
  assumes "wf_function (vm_module vm) f" "find_block f b = Some current"
  shows "code_ok vm f (instructions current)"
proof -
  have "current \<in> set (blocks f)"
    using assms(2) by (auto simp: find_block_def dest: find_SomeD)
  then have "wf_block (vm_module vm) f current"
    using assms(1) by (simp add: wf_function_def)
  from wf_block_instructions[OF this] show ?thesis
    by (simp add: code_ok_def)
qed

lemma code_ok_rest: "code_ok vm f (i # is) \<Longrightarrow> \<not> is_terminator i \<Longrightarrow> code_ok vm f is"
  by (auto simp: code_ok_def split: if_splits)

lemma code_ok_first: "code_ok vm f (i # is) \<Longrightarrow> wf_instruction (vm_module vm) f i"
  by (simp add: code_ok_def)

lemma stands_consume:
  "stands vm f is fs s \<Longrightarrow> consume_instruction H vm s = (Val (), s1) \<Longrightarrow> stands vm f is fs s1"
  using keeps_result[OF machine.keeps_consume_instruction, of vm s H "()" s1]
  by (simp add: stands_def)

lemma execute_suspends:
  "suspends i \<Longrightarrow> \<exists>what. execute_instruction H vm call i fs = fail (Unsupported what)"
  by (cases i) (auto simp: suspends_def execute_instruction_def)

text \<open>One instruction of an activation, and what its driver makes of the result.\<close>

lemma keeps_activation:
  assumes "frame_ok f fs" "code_ok vm f (i # is)" "\<not> suspends i"
  shows "vm.keeps vm (\<lambda>_. True) (execute_instruction H vm (call_closure H vm n) i fs)
    (\<lambda>r _. frame_ok f (snd r) \<and> control_ok f i (fst r))"
  by (rule machine.keeps_execute_instruction[OF assms(1) code_ok_first[OF assms(2)] assms(3)])

lemma stands_control:
  assumes "stands vm f (i # is) fs s" "consume_instruction H vm s = (Val (), s1)"
    and "instruction_control H vm (call_closure H vm n) f b
      (execute_instruction H vm (call_closure H vm n) i fs) fs s1 = (Val (c, fs'), s2)"
  shows "vm_inv vm s2 \<and> frame_ok f fs' \<and> control_ok f i c"
proof (cases "suspends i")
  case True
  then obtain what where "execute_instruction H vm (call_closure H vm n) i fs = fail (Unsupported what)"
    using execute_suspends by blast
  with assms(3) show ?thesis
    by (simp add: instruction_control_def execution_error_as_throw_def step_defs split: if_splits)
next
  case False
  have s1: "stands vm f (i # is) fs s1"
    by (rule stands_consume[OF assms(1,2)])
  then have "frame_ok f fs" "code_ok vm f (i # is)" "vm_inv vm s1"
    by (simp_all add: stands_def)
  note execute = keeps_activation[OF this(1,2) False]
  have "vm.keeps vm (\<lambda>_. True) (instruction_control H vm (call_closure H vm n) f b
      (execute_instruction H vm (call_closure H vm n) i fs) fs)
      (\<lambda>r _. frame_ok f (snd r) \<and> control_ok f i (fst r))"
    by (rule machine.keeps_instruction_control[OF execute])
      (simp add: control_ok_def \<open>frame_ok f fs\<close>)
  from keeps_result[OF this \<open>vm_inv vm s1\<close> TrueI assms(3)] show ?thesis
    by simp
qed

lemma stands_block:
  assumes "vm_inv vm s" "module_function vm f" "frame_ok f fs" "find_block f t = Some current"
  shows "stands vm f (instructions current) fs s"
  using assms code_ok_block[OF vm_inv_function[OF assms(1,2)]] by (simp add: stands_def)

lemma activation_stands: "activation H vm n f b is fs s \<Longrightarrow> stands vm f is fs s"
proof (induction rule: activation.induct)
  case (entered s captured this args env s' current)
  note wf = vm_inv_function[OF entered(1,2)]
  then have "wf_parameters f"
    by (simp add: wf_function_def)
  from keeps_result[OF machine.keeps_initialize_environment[OF entered(5) this] entered(1) TrueI
      entered(6)]
  show ?case
    by (intro stands_block[OF _ entered(2) _ entered(7)]) (simp_all add: frame_ok_def)
next
  case (generator s g current)
  then have "generator_ok vm g"
    by (simp add: vm_inv_def)
  with generator show ?case
    by (intro stands_block[OF _ _ _ generator(4)]) (auto simp: generator_ok_def frame_ok_def)
next
  case (awaiting s a current)
  then have "async_ok vm a"
    by (simp add: vm_inv_def)
  with awaiting show ?case
    by (intro stands_block[OF _ _ _ awaiting(4)]) (auto simp: async_ok_def frame_ok_def)
next
  case (continued b i "is" fs s s1 fs' s2)
  from stands_control[OF continued.IH continued(2,3)] continued.IH show ?case
    by (auto simp: stands_def control_ok_def intro: code_ok_rest)
next
  case (jumped b i "is" fs s s1 t fs' s2 current)
  from stands_control[OF jumped.IH jumped(2,3)] jumped.IH jumped(4) show ?case
    by (auto simp: stands_def[of vm f "i # is"] intro: stands_block)
next
  case (caught b i "is" fs s s1 v fs' s2 t fs'' s3 current)
  from stands_control[OF caught.IH caught(2,3)] caught.IH
  have now: "vm_inv vm s2" "frame_ok f fs'" "module_function vm f"
    by (auto simp: stands_def)
  from keeps_result[OF machine.keeps_enter_handler[OF vm_inv_function[OF now(1,3)] now(2)] now(1) TrueI
      caught(4)]
  show ?case
    using now(3) caught(5) by (auto simp: step_ok_def intro: stands_block)
qed

text \<open>No fault: an instruction neither indexes a missing register nor fails for want of a part.\<close>

definition faultless :: "Function \<Rightarrow> (Control \<times> FrameState) Outcome \<Rightarrow> bool" where
  "faultless f r = (case r of
     Val (JumpTo t, _) \<Rightarrow> find_block f t \<noteq> None
   | Fail e \<Rightarrow> allowed_error e
   | Unwind p \<Rightarrow> p \<noteq> IndexPanic
   | _ \<Rightarrow> True)"

text \<open>A throw reaches a handler that exists, or leaves the frame where the block is not protected.\<close>

definition handled :: "Function \<Rightarrow> BlockId \<Rightarrow> Value \<Rightarrow> Step Outcome \<Rightarrow> bool" where
  "handled f b v r = (case r of
     Val (NextBlock t _) \<Rightarrow> find_block f t \<noteq> None
   | Fail e \<Rightarrow> region_of f b = None \<and> e = Thrown v
   | _ \<Rightarrow> False)"

lemma block_ids_find: "t \<in> block_ids f \<Longrightarrow> find_block f t \<noteq> None"
  using find_block_Some by fastforce

lemma enter_handler_handled:
  assumes "wf_function m f" "frame_ok f fs"
  shows "handled f b v (fst (enter_handler f b v fs s))"
proof (cases "region_of f b")
  case None
  then show ?thesis by (simp add: enter_handler_def handled_def step_defs)
next
  case (Some r)
  from wf_function_region[OF assms(1) Some] obtain t where
    "wf_register f (exception_register r)" "handler_block r = Some t" "find_block f t \<noteq> None"
    using block_ids_find by blast
  then show ?thesis
    using assms(2)
    by (simp add: Some enter_handler_def handled_def write_register_def step_defs frame_ok_def
        wf_register_def word_less_nat_alt)
qed

lemma execute_faultless:
  assumes "stands vm f (i # is) fs s" "\<not> suspends i"
    and "execute_instruction H vm (call_closure H vm n) i fs s = (r, s')" "r \<noteq> NoFuel"
  shows "faultless f r \<and> vm_inv vm s'"
proof -
  have "wp (execute_instruction H vm (call_closure H vm n) i fs)
      (\<lambda>r s'. vm.since vm s s' \<and> frame_ok f (snd r) \<and> control_ok f i (fst r))
      (\<lambda>p s'. vm.since vm s s' \<and> allowed p) s"
    using assms(1,2)
    by (intro vm.keeps_use[OF keeps_activation, of f fs vm i "is" s])
      (auto simp: stands_def vm.since_def vm_grows_refl)
  with assms(3,4) show ?thesis
    by (auto simp: wp_def faultless_def control_ok_def vm.since_def
        dest: block_ids_find split: Outcome.splits Control.split)
qed

end
