(* ===== verification/VMProperties.thy ===== *)
theory VMProperties
  imports VMActivation
begin

text \<open>
  What the virtual machine promises its embedder.  The states an embedder can bring about are the
  \<open>reachable\<close> ones: it may run the module, ask for callables, call any closure it was handed, in any
  order and any number of times, and do what it likes to its own world in between.
\<close>

subsection \<open>Outcomes and states of the contract\<close>

definition sound_outcome :: "'a Outcome \<Rightarrow> bool" where
  "sound_outcome r = (case r of Fail e \<Rightarrow> allowed_error e | Unwind p \<Rightarrow> p \<noteq> IndexPanic | _ \<Rightarrow> True)"

text \<open>The bindings given for a function contain all it captures.\<close>

definition supplies :: "Vm \<Rightarrow> FunctionId \<Rightarrow> BindingId set \<Rightarrow> bool" where
  "supplies vm i bs \<longleftrightarrow>
     (\<exists>f\<in>set (module_functions (vm_module vm)). function_id f = i \<and> set (captures f) \<subseteq> bs)"

lemma wp_outcome:
  assumes "wp c Q X s" "c s = (r, s')" "r \<noteq> NoFuel"
  obtains x where "r = Val x" "Q x s'" | e where "r = Fail e" "X (Inl e) s'"
    | p where "r = Unwind p" "X (Inr p) s'"
  using assms by (cases r) (auto simp: wp_def)

lemma keeps_outcome:
  assumes "vm.keeps vm P c Q" "vm_inv vm s" "P s" "c s = (r, s')" "r \<noteq> NoFuel"
  shows "vm_inv vm s' \<and> vm_grows vm s s' \<and> sound_outcome r"
proof -
  have "wp c (\<lambda>_ s'. vm.since vm s s') (\<lambda>p s'. vm.since vm s s' \<and> allowed p) s"
    by (rule vm.keeps_use[OF assms(1), of s, OF _ assms(3)])
      (use assms(2) in \<open>simp_all add: vm.since_def vm_grows_refl\<close>)
  then show ?thesis
    using assms(4,5)
    by (elim wp_outcome) (auto simp: vm.since_def sound_outcome_def allowed_def)
qed

lemma call_outcome:
  assumes "vm_inv vm s" "call_closure H vm n c this args s = (r, s')" "r \<noteq> NoFuel"
  shows "vm_inv vm s' \<and> vm_grows vm s s' \<and> sound_outcome r"
  by (rule keeps_outcome[OF machine.call_keeps assms(1) TrueI assms(2,3)])





subsection \<open>Reachable states\<close>


lemma vm_new_Ok:
  "vm_new m limits owner = Ok vm \<longleftrightarrow>
     wf_module m \<and> vm = \<lparr> vm_module = m, vm_limits = limits, vm_heap_owner = owner \<rparr>"
  using validate_accepts[of m] by (auto simp: vm_new_def split: sum.split)

lemma vm_inv_new_state: "wf_module (vm_module vm) \<Longrightarrow> vm_inv vm (new_state w limits)"
  by (simp add: vm_inv_def new_state_def budget_ok_def new_budget_def)


lemma new_state_closures: "closures (new_state w limits) = []"
  by (simp add: new_state_def)





subsection \<open>Validated programs\<close>


lemma vm_new_example:
  "validate m = Ok () \<Longrightarrow> vm_new m example_limits 7 = Ok (example_vm m)"
  by (simp add: vm_new_def example_vm_def)



definition return_function :: Function where
  "return_function = hd (module_functions return_module)"

lemma return_function_simps [simp]:
  "function_entry return_function = BlockId 0" "registers return_function = 2"
  "\<not> is_async return_function" "\<not> is_generator return_function" "captures return_function = []"
  "find_block return_function (BlockId 0) =
     Some (example_block 0 [LoadConstant (Register 0) (CBool True), Return (Register 0)])"
  "module_function (example_vm return_module) return_function"
  by (simp_all add: return_function_def find_block_def module_function_def example_defs)






text \<open>
  C4. Budget discipline: while no callable was made, a call leaves the heap owner and the nesting of
  execution segments as they were, whether it returns, fails or panics; the instruction count never
  falls and never passes the limit, and the wall-clock allowance never grows.
\<close>

theorem call_balanced:
  assumes "vm_inv vm s" "no_callables s"
    and "call_closure H vm n c this args s = (r, s')" "r \<noteq> NoFuel"
  shows "no_callables s' \<and> current_owner s' = current_owner s \<and>
    nesting (execution_budget s') = nesting (execution_budget s) \<and>
    allowance_le (remaining (execution_budget s')) (remaining (execution_budget s)) \<and>
    instruction_count s \<le> instruction_count s' \<and>
    instruction_count s' \<le> max_instructions (vm_limits vm)"
proof -
  have "vm_inv vm s'" "vm_grows vm s s'"
    using call_outcome[OF assms(1,3,4)] by simp_all
  then show ?thesis
    using assms(2) by (simp add: vm_grows_def balanced_def vm_inv_def budget_ok_def)
qed

definition closure_state :: "unit VmState" where
  "closure_state = (new_state () example_limits)
     \<lparr>instruction_count := 0, closures := [ClosureFunction (FunctionId 0) Map.empty]\<rparr>"

lemma closure_state_inv: "vm_inv (example_vm return_module) closure_state"
  using validate_accepts[of return_module] return_module_valid
  by (simp add: vm_inv_def closure_state_def budget_ok_def closure_ok_def module_function_def example_defs)

lemma call_closure_example:
  "fst (call_closure quiet_host (example_vm return_module) (Suc (Suc 0)) 0 VUndefined [] closure_state) =
     Val (VBool True)"
  by (simp add: closure_state_def closure_body_def throwing_errors_def step_defs run_defs example_defs)

lemma call_balanced_witness:
  "nesting (execution_budget (snd (call_closure quiet_host (example_vm return_module) (Suc (Suc 0)) 0
     VUndefined [] closure_state))) = 0"
  using call_balanced[OF closure_state_inv _ prod.collapse[symmetric], of quiet_host "Suc (Suc 0)" 0
      VUndefined "[]"] call_closure_example
  by (simp add: closure_state_def no_callables_def example_defs)

text \<open>
  C5. Termination: a run of a validated module without async functions and generators, in a VM that
  made no callable, has an outcome of the program, the same for all fuel from some amount on, for
  every embedder and every input, when the instruction limit is below the largest 64-bit number.
\<close>

theorem run_terminates:
  assumes "vm_new m limits owner = Ok vm" "sync_module vm" "max_instructions limits < - 1"
    and "supplies vm (module_entry m) (fst ` set bs)"
  shows "\<exists>N r s'. r \<noteq> NoFuel \<and>
    (\<forall>n\<ge>N. run_with_bindings H vm n bs (new_state w limits) = (r, s'))"
proof -
  obtain f where f: "module_function vm f" "function_id f = module_entry (vm_module vm)"
      "set (captures f) \<subseteq> fst ` set bs"
    using assms(1,4) by (auto simp: supplies_def module_function_def vm_new_Ok)
  have "settles (\<lambda>n. run_with_bindings H vm n bs) (new_state w limits)"
    by (rule settles_run_with_bindings[OF _ _ _ f])
      (use assms in \<open>auto simp: vm_new_Ok vm_inv_new_state sync_run_def new_state_closures\<close>)
  then show ?thesis
    unfolding settles_def by (metis prod.collapse)
qed

lemma run_terminates_witness:
  "\<exists>N r s'. r \<noteq> NoFuel \<and> (\<forall>n\<ge>N. run_with_bindings quiet_host (example_vm loop_module) n []
     (new_state () example_limits) = (r, s'))"
  by (rule run_terminates[OF vm_new_example[OF loop_module_valid]])
    (simp_all add: sync_module_def module_function_def supplies_def example_defs)

subsection \<open>Limits\<close>

lemma over_limit:
  fixes m c :: u64
  shows "c \<noteq> - 1 \<Longrightarrow> m < c + 1 \<longleftrightarrow> \<not> c < m" "m < - 1 \<longleftrightarrow> m \<noteq> - 1" "\<not> - 1 < m"
  by (simp_all add: word_less_nat_alt unat_inc less_Suc_eq_le linorder_not_less)
    (metis word_order.not_eq_extremum word_less_nat_alt, metis word_order.extremum word_le_nat_alt)

definition clock_check :: "'w Host \<Rightarrow> 'w VmState \<Rightarrow> bool \<times> 'w" where
  "clock_check H s = (case (remaining (execution_budget s), active_since (execution_budget s)) of
     (None, _) \<Rightarrow> (False, world s)
   | (Some rest, None) \<Rightarrow> (rest = 0, world s)
   | (Some rest, Some t0) \<Rightarrow> (case clock_now H (world s) of (t, w) \<Rightarrow> (rest \<le> t - t0, w)))"

lemma wall_time_exhausted_check:
  "wall_time_exhausted H s = (case clock_check H s of (b, w) \<Rightarrow> (Val b, s\<lparr>world := w\<rparr>))"
  by (simp add: wall_time_exhausted_def clock_check_def step_defs split: option.split prod.split)

text \<open>
  C20. The instruction budget, on every branch and in the source's order: cancellation, then the heap
  limit, then the wall clock, then the count.  An instruction is granted exactly when the count is
  below the limit, and raises it by one; a refused one changes nothing but what reading the clock
  does to the world.  Only a limit of the largest 64-bit number grants without end.
\<close>

theorem consume_instruction_cases:
  "consume_instruction H vm s =
    (if is_cancelled H (world s) then (Fail Cancelled, s)
     else case check_heap_limit H vm s of
       (Val _, _) \<Rightarrow> (case clock_check H s of (exhausted, w) \<Rightarrow>
         if exhausted then (Fail WallClockLimitExceeded, s\<lparr>world := w\<rparr>)
         else if instruction_count s < max_instructions (vm_limits vm)
           then (Val (), s\<lparr>world := w, instruction_count := instruction_count s + 1\<rparr>)
         else if instruction_count s = - 1 \<and> max_instructions (vm_limits vm) = - 1
           then (Val (), s\<lparr>world := w\<rparr>)
         else (Fail InstructionLimitExceeded, s\<lparr>world := w\<rparr>))
     | failed \<Rightarrow> failed)"
proof -
  have "check_heap_limit H vm s = (Val (), s) \<or> (\<exists>e. check_heap_limit H vm s = (Fail e, s))"
    by (auto simp: check_heap_limit_def Let_def split: option.split)
  then show ?thesis
    by (cases "instruction_count s = - 1")
      (auto simp: consume_instruction_def step_defs wall_time_exhausted_check over_limit
        saturating_succ_def split: prod.split)
qed

end
