(* ===== verification/VMLaws.thy ===== *)
theory VMLaws
  imports VMExample
begin

text \<open>
  Laws of single operations of the virtual machine: lexical cells and what closures capture,
  exception regions and the errors they cannot catch, the generator state machine, and the request
  queue of an async generator.  They hold for every embedder.
\<close>

subsection \<open>Lexical cells\<close>

lemma slot_sels [simp]:
  "external_getter (binding_cell v) = None" "external_setter (binding_cell v) = None"
  "external_property (binding_cell v) = None" "slot_value (binding_cell v) = v"
  "initialized (binding_cell v)"
  "external_getter uninitialized_binding_cell = None" "external_setter uninitialized_binding_cell = None"
  "external_property uninitialized_binding_cell = None" "\<not> initialized uninitialized_binding_cell"
  by (simp_all add: binding_cell_def uninitialized_binding_cell_def)

lemma slot_updates [simp]:
  "uninitialized_binding_cell\<lparr>slot_value := v, initialized := True\<rparr> = binding_cell v"
  "(binding_cell u)\<lparr>slot_value := v\<rparr> = binding_cell v"
  by (simp_all add: binding_cell_def uninitialized_binding_cell_def)

lemmas cell_defs = cell_read_def cell_initialize_def cell_store_def slot_read_value_def update_cell_def

text \<open>
  C21. The temporal dead zone: a cell that is not initialised can be neither read nor assigned, both
  fail with a ReferenceError and change nothing; initialising it makes it readable with the value
  given and touches no other cell.
\<close>

theorem temporal_dead_zone:
  assumes "c < length (cells s)" "cells s ! c = uninitialized_binding_cell"
  shows "cell_read H call c name s = (Fail (ReferenceError (tdz_message name)), s) \<and>
    cell_store H call c name v s = (Fail (ReferenceError (tdz_message name)), s) \<and>
    andSeq (cell_initialize H call c v) (cell_read H call c name) s =
      (Val v, s\<lparr>cells := (cells s)[c := binding_cell v]\<rparr>)"
  using assms by (simp add: cell_defs step_defs)

definition two_cells :: "unit VmState" where
  "two_cells = (new_state () example_limits)
     \<lparr>cells := [uninitialized_binding_cell, binding_cell VNull]\<rparr>"

lemma temporal_dead_zone_witness:
  "fst (cell_read quiet_host (\<lambda>_ _ _. no_fuel) 0 ''x'' two_cells) =
     Fail (ReferenceError (tdz_message ''x''))"
  using temporal_dead_zone[of 0 two_cells] by (simp add: two_cells_def)

text \<open>
  Assignment: what is stored in an ordinary initialised cell is what is read from it next, and
  all other cells keep their values.
\<close>

theorem store_then_read:
  assumes "c < length (cells s)" "cells s ! c = binding_cell u"
  shows "andSeq (cell_store H call c name v) (cell_read H call c name) s =
    (Val v, s\<lparr>cells := (cells s)[c := binding_cell v]\<rparr>)"
  using assms by (simp add: cell_defs step_defs)

lemma store_then_read_witness:
  "fst (andSeq (cell_store quiet_host (\<lambda>_ _ _. no_fuel) 1 ''x'' (VBool True))
     (cell_read quiet_host (\<lambda>_ _ _. no_fuel) 1 ''x'') two_cells) = Val (VBool True)"
  using store_then_read[of 1 two_cells VNull] by (simp add: two_cells_def)

text \<open>
  Per-iteration bindings: \<open>RefreshBinding\<close> rebinds the name to a new cell with the current
  value and leaves the old cell as it is, so that closures made in earlier iterations keep theirs;
  a binding in its dead zone gets a fresh dead cell.
\<close>

theorem refresh_binding_fresh:
  assumes "env b = Some c" "c < length (cells s)"
    and "cells s ! c = binding_cell v \<or> cells s ! c = uninitialized_binding_cell"
  shows "refresh_binding H vm call b (regs, env) s =
    (Val (Continue, regs, env(b \<mapsto> length (cells s))), s\<lparr>cells := cells s @ [cells s ! c]\<rparr>)"
  using assms by (auto simp: refresh_binding_def env_cell_def new_cell_def cell_defs step_defs)

lemma refresh_binding_fresh_witness:
  "fst (refresh_binding quiet_host (example_vm return_module) (\<lambda>_ _ _. no_fuel) (BindingId 0)
     ([], [BindingId 0 \<mapsto> 1]) two_cells) = Val (Continue, [], [BindingId 0 \<mapsto> 2])"
  using refresh_binding_fresh[of "[BindingId 0 \<mapsto> 1]" "BindingId 0" 1 two_cells VNull]
  by (simp add: two_cells_def numeral_2_eq_2)

lemma capture_cells_restrict:
  "set bs \<subseteq> dom env \<Longrightarrow> capture_cells env bs = Ok (env |` set bs)"
proof (induction bs)
  case Nil
  then show ?case by simp
next
  case (Cons b bs)
  then obtain c where "env b = Some c" by auto
  with Cons show ?case
    by (auto simp: restrict_map_def fun_eq_iff)
qed

text \<open>
  Capture by reference: a closure holds exactly the cells of the names it captures, not copies
  of their values, and creating it changes no cell.
\<close>

theorem create_closure_captures:
  assumes "set bs \<subseteq> dom env" "unat (reg_no dst) < length regs"
  shows "create_closure H target bs (regs, env) dst s =
    (Val (Continue, regs[unat (reg_no dst) := VFunction (length (closures s))], env),
     s\<lparr>closures := closures s @ [ClosureFunction target (env |` set bs)],
       world := on_function H (length (closures s)) (world s)\<rparr>)"
  using assms
  by (simp add: create_closure_def capture_cells_restrict store_result_def write_register_def step_defs)

lemma create_closure_captures_witness:
  "snd (create_closure quiet_host (FunctionId 3) [BindingId 0] ([VNull], [BindingId 0 \<mapsto> 1])
     (Register 0) two_cells) =
   two_cells\<lparr>closures := [ClosureFunction (FunctionId 3) [BindingId 0 \<mapsto> 1]]\<rparr>"
  using create_closure_captures[of "[BindingId 0]" "[BindingId 0 \<mapsto> 1]" "Register 0" "[VNull]"
      quiet_host "FunctionId 3" two_cells]
  by (simp add: two_cells_def example_defs restrict_map_insert)

subsection \<open>Exceptions\<close>

text \<open>
  Protected blocks: when an instruction budget allows it, a \<open>throw\<close> in a block of an exception
  region continues at the region's catch block, or at its finally block when there is no catch, with
  the thrown value in the region's exception register and everything else of the frame unchanged;
  outside every region the value leaves the frame as an error.
\<close>

theorem throw_finds_handler:
  assumes "consume_instruction H vm s = (Val (), s1)" "check_heap_limit H vm s1 = (Val (), s1)"
    and "unat (reg_no src) < length regs"
    and "\<forall>r. region_of f b = Some r \<longrightarrow> unat (reg_no (exception_register r)) < length regs"
  shows "run_instructions H vm call f b (Throw src # rest) (regs, env) s =
    (case region_of f b of
       None \<Rightarrow> (Fail (Thrown (regs ! unat (reg_no src))), s1)
     | Some r \<Rightarrow> (case handler_block r of
         None \<Rightarrow> (Fail (VmMissingBlock (function_id f) b), s1)
       | Some target \<Rightarrow> (Val (NextBlock target
           (regs[unat (reg_no (exception_register r)) := regs ! unat (reg_no src)], env)), s1)))"
  using assms
  by (auto simp: instruction_control_def execute_instruction_def read_register_def enter_handler_def
      write_register_def step_defs split: option.split)

definition guarded_function :: Function where
  "guarded_function = (example_function (FunctionId 0) [] [])
     \<lparr>exception_regions := [\<lparr> protected_blocks = [BlockId 0], catch_block = None,
       finally_block = Some (BlockId 5), exception_register = Register 1 \<rparr>]\<rparr>"

lemma throw_finds_handler_witness:
  "fst (run_instructions quiet_host (example_vm return_module) (\<lambda>_ _ _. no_fuel) guarded_function
     (BlockId 0) [Throw (Register 0)] ([VBool True, VNull], Map.empty) (new_state () example_limits)) =
   Val (NextBlock (BlockId 5) ([VBool True, VBool True], Map.empty))"
  using throw_finds_handler[of quiet_host "example_vm return_module" "new_state () example_limits"
      "(new_state () example_limits)\<lparr>instruction_count := 1\<rparr>" "Register 0" "[VBool True, VNull]"
      guarded_function "BlockId 0" "\<lambda>_ _ _. no_fuel" "[]" Map.empty]
  by (simp add: guarded_function_def region_of_def handler_block_def step_defs run_defs example_defs)

definition catchable :: "VmError \<Rightarrow> bool" where
  "catchable e \<longleftrightarrow> (\<exists>v. e = Thrown v) \<or> (\<exists>t. e = ReferenceError t)"

text \<open>
  What a program cannot catch: an instruction that fails for a resource limit, cancellation or
  a panic of the embedder leaves the frame with that error even in a protected block, while a thrown
  value is turned into a throw that the region handles.
\<close>

theorem limits_not_catchable:
  assumes "act s = (Fail e, s')" "\<not> catchable e"
  shows "instruction_control H vm call f b act fs s = (Fail e, s')"
  using assms
  by (cases e) (auto simp: catchable_def instruction_control_def execution_error_as_throw_def step_defs)

lemma limits_not_catchable_witness:
  "instruction_control quiet_host (example_vm return_module) (\<lambda>_ _ _. no_fuel) guarded_function
     (BlockId 0) (fail CallDepthExceeded) () (new_state () example_limits) =
   (Fail CallDepthExceeded, new_state () example_limits)"
  by (rule limits_not_catchable) (simp_all add: fail_def catchable_def)

subsection \<open>Generators\<close>

text \<open>
  A generator that has completed stays completed: \<open>next\<close> answers undefined and done, \<open>return\<close>
  gives its argument back as done, \<open>throw\<close> throws its argument; no instruction runs and the frame
  does not change.
\<close>

theorem completed_generator:
  assumes "i < length (generators s)" "gen_state (generators s ! i) = Completed"
  shows "resume_generator_frame H vm n call i ResumeNext x s = generator_result H call VUndefined True s \<and>
    resume_generator_frame H vm n call i ResumeReturn x s = generator_result H call x True s \<and>
    resume_generator_frame H vm n call i ResumeThrow x s = (Fail (Thrown x), s)"
proof -
  have "(generators s ! i)\<lparr>gen_state := Completed\<rparr> = generators s ! i"
    using assms(2) by (cases "generators s ! i") simp
  then have same: "s\<lparr>generators := (generators s)[i := (generators s ! i)\<lparr>gen_state := Completed\<rparr>]\<rparr> = s"
    by simp
  show ?thesis
    using assms same
    by (simp add: resume_generator_frame_def prepare_generator_resume_def gen_get_state_def
        gen_set_state_def put_generator_def resume_completed_def settle_generator_def step_defs)
qed

definition generator_state :: "GeneratorState \<Rightarrow> unit VmState" where
  "generator_state st = (new_state () example_limits)
     \<lparr>generators := [(new_generator_frame guarded_function Map.empty 0)\<lparr>gen_state := st\<rparr>]\<rparr>"

lemma completed_generator_witness:
  "resume_generator_frame quiet_host (example_vm return_module) 0 (\<lambda>_ _ _. no_fuel) 0 ResumeThrow VNull
     (generator_state Completed) = (Fail (Thrown VNull), generator_state Completed)"
  using completed_generator[of 0 "generator_state Completed"] by (simp add: generator_state_def)

text \<open>
  A generator that is running cannot be resumed: the re-entrant call throws and changes nothing.
  One that has not started is completed by \<open>return\<close> and \<open>throw\<close> without running an instruction.
\<close>

theorem unstarted_or_running_generator:
  assumes "i < length (generators s)"
  shows "(gen_state (generators s ! i) = Executing \<longrightarrow>
      resume_generator_frame H vm n call i kind x s =
        (Fail (Thrown (VString ''TypeError: generator is already executing'')), s)) \<and>
    (gen_state (generators s ! i) = SuspendedStart \<longrightarrow>
      (let s' = s\<lparr>generators := (generators s)[i := (generators s ! i)\<lparr>gen_state := Completed\<rparr>]\<rparr>
       in resume_generator_frame H vm n call i ResumeReturn x s = generator_result H call x True s' \<and>
          resume_generator_frame H vm n call i ResumeThrow x s = (Fail (Thrown x), s')))"
  using assms
  by (simp add: resume_generator_frame_def prepare_generator_resume_def gen_get_state_def throw_string_def
      gen_set_state_def put_generator_def resume_start_def settle_generator_def complete_with_error_def
      Let_def step_defs)

lemma unstarted_or_running_generator_witness:
  "resume_generator_frame quiet_host (example_vm return_module) 0 (\<lambda>_ _ _. no_fuel) 0 ResumeThrow VNull
     (generator_state SuspendedStart) = (Fail (Thrown VNull), generator_state Completed)"
  using unstarted_or_running_generator[of 0 "generator_state SuspendedStart"]
  by (simp add: generator_state_def Let_def)

text \<open>
  Resuming at a yield: the value sent in becomes the result of the yield, and the frame goes on
  at the point's resume, return or throw block according to \<open>next\<close>, \<open>return\<close> or \<open>throw\<close>; all other
  registers, the bindings and every other frame are kept.
\<close>

theorem resume_at_yield:
  assumes "i < length (generators s)" "generators s ! i = g" "gen_state g = SuspendedYield p"
    and "\<not> gen_borrowed g" "generator_point (gen_function g) p = Some point"
    and "unat (reg_no (result_register point)) < length (gen_registers g)"
  shows "prepare_generator_resume H call i kind x s = (Val None, s\<lparr>generators := (generators s)
    [i := g\<lparr>gen_registers := (gen_registers g)[unat (reg_no (result_register point)) := x],
            gen_block := resume_target kind point, gen_state := Executing\<rparr>]\<rparr>)"
  using assms
  by (simp add: prepare_generator_resume_def gen_get_state_def resume_yield_def gen_data_def
      gen_write_register_def write_register_def put_generator_def gen_modify_def gen_set_state_def step_defs)

definition yielding_function :: Function where
  "yielding_function = (example_function (FunctionId 0) [] [])
     \<lparr>is_generator := True, generator_suspension_points := [\<lparr> generator_suspension_id = SuspensionId 4,
        yield_block = BlockId 0, result_register = Register 1, resume_block = BlockId 1,
        throw_block = BlockId 2, return_block = BlockId 3, generator_live_registers = [] \<rparr>]\<rparr>"

definition yielded_state :: "unit VmState" where
  "yielded_state = (new_state () example_limits)
     \<lparr>generators := [(new_generator_frame yielding_function Map.empty 0)
        \<lparr>gen_state := SuspendedYield (SuspensionId 4)\<rparr>]\<rparr>"

lemma resume_at_yield_witness:
  "map gen_block (generators (snd (prepare_generator_resume quiet_host (\<lambda>_ _ _. no_fuel) 0 ResumeReturn
     VNull yielded_state))) = [BlockId 3]"
  using resume_at_yield[of 0 yielded_state _ "SuspensionId 4"]
  by (simp add: yielded_state_def new_generator_frame_def generator_point_def yielding_function_def
      example_defs resume_target_def)

subsection \<open>The queue of an async generator\<close>

text \<open>Serve one request: start it, and settle it.\<close>

definition ag_serve :: "nat \<Rightarrow> ('w, AsyncGeneratorRequest option) action" where
  "ag_serve a = andThen (ag_start a) (\<lambda>q. andSeq (ag_take a) (ret q))"

lemma ag_put_put:
  "(async_generators s)[a := x, a := y] = (async_generators s)[a := y]"
  by simp

lemma ag_push_step:
  "a < length (async_generators s) \<Longrightarrow> ag_push a q s = (Val (), s\<lparr>async_generators :=
     (async_generators s)[a := (async_generators s ! a)
       \<lparr>ag_queue := ag_queue (async_generators s ! a) @ [q]\<rparr>]\<rparr>)"
  by (simp add: ag_push_def ag_fetch_def put_ag_def step_defs)

lemma ag_push_all:
  assumes "a < length (async_generators s)"
  shows "each_action (ag_push a) qs s = (Val (), s\<lparr>async_generators :=
     (async_generators s)[a := (async_generators s ! a)
       \<lparr>ag_queue := ag_queue (async_generators s ! a) @ qs\<rparr>]\<rparr>)"
  using assms
proof (induction qs arbitrary: s)
  case Nil
  then show ?case by (simp add: ret_def)
next
  case (Cons q qs)
  then show ?case by (simp add: andThen_def[of "ag_push a q"] ag_push_step)
qed

lemma ag_serve_step:
  assumes "a < length (async_generators s)"
    and "async_generators s ! a = \<lparr> ag_generator = g, ag_queue = q # qs, ag_active = None \<rparr>"
  shows "ag_serve a s = (Val (Some q), s\<lparr>async_generators :=
    (async_generators s)[a := \<lparr> ag_generator = g, ag_queue = qs, ag_active = None \<rparr>]\<rparr>)"
  using assms by (simp add: ag_serve_def ag_start_def ag_take_def ag_fetch_def put_ag_def step_defs)

lemma ag_serve_all:
  assumes "a < length (async_generators s)"
    and "async_generators s ! a = \<lparr> ag_generator = g, ag_queue = qs, ag_active = None \<rparr>"
  shows "map_action (\<lambda>_. ag_serve a) qs s = (Val (map Some qs), s\<lparr>async_generators :=
    (async_generators s)[a := \<lparr> ag_generator = g, ag_queue = [], ag_active = None \<rparr>]\<rparr>)"
  using assms
proof (induction qs arbitrary: s)
  case Nil
  then have "(async_generators s)[a := \<lparr> ag_generator = g, ag_queue = [], ag_active = None \<rparr>] =
      async_generators s"
    by (metis list_update_id)
  then show ?case by (simp add: ret_def)
next
  case (Cons q qs)
  then show ?case
    by (simp add: andThen_def ag_serve_step ret_def)
qed

text \<open>
  Requests of an async generator are served first in, first out: requests queued on an idle
  generator are started one by one in the order of the calls, none is lost or served twice, and the
  generator is idle again at the end.  While a request is active, no other is started.
\<close>

theorem requests_in_order:
  assumes "a < length (async_generators s)"
    and "async_generators s ! a = \<lparr> ag_generator = g, ag_queue = [], ag_active = None \<rparr>"
  shows "andSeq (each_action (ag_push a) qs) (map_action (\<lambda>_. ag_serve a) qs) s = (Val (map Some qs), s)"
    (is "?l = ?r")
proof -
  have "(async_generators s)[a := \<lparr> ag_generator = g, ag_queue = [], ag_active = None \<rparr>] =
      async_generators s"
    using assms(2) by (metis list_update_id)
  then show ?thesis
    using assms ag_serve_all[of a "s\<lparr>async_generators := (async_generators s)
      [a := \<lparr> ag_generator = g, ag_queue = qs, ag_active = None \<rparr>]\<rparr>" g qs]
    by (simp add: andThen_def[of "each_action _ _"] ag_push_all)
qed

definition two_requests :: "AsyncGeneratorRequest list" where
  "two_requests =
     [\<lparr> request_kind = ResumeNext, request_input = VNull, request_resolve = VFunction 0,
        request_reject = VFunction 1 \<rparr>,
      \<lparr> request_kind = ResumeThrow, request_input = VBool True, request_resolve = VFunction 2,
        request_reject = VFunction 3 \<rparr>]"

lemma requests_in_order_witness:
  "fst (andSeq (each_action (ag_push 0) two_requests) (map_action (\<lambda>_. ag_serve 0) two_requests)
     ((new_state () example_limits)
       \<lparr>async_generators := [\<lparr> ag_generator = 0, ag_queue = [], ag_active = None \<rparr>]\<rparr>)) =
   Val (map Some two_requests)"
  by (subst requests_in_order) simp_all

text \<open>
  At most one request of an async generator is active: with one active, driving the queue does
  nothing, however many requests wait.
\<close>

theorem one_request_at_a_time:
  assumes "a < length (async_generators s)" "ag_active (async_generators s ! a) = Some q"
  shows "drive_async_generator_queue H vm n call a (Suc k) s = (Val (), s)"
  using assms by (simp add: ag_start_def ag_fetch_def step_defs)

lemma one_request_at_a_time_witness:
  "fst (drive_async_generator_queue quiet_host (example_vm return_module) 0 (\<lambda>_ _ _. no_fuel) 0 (Suc 0)
     ((new_state () example_limits)\<lparr>async_generators := [\<lparr> ag_generator = 0,
       ag_queue = two_requests, ag_active = Some (hd two_requests) \<rparr>]\<rparr>)) = Val ()"
  by (subst one_request_at_a_time[where q = "hd two_requests"]) simp_all

subsection \<open>Calls\<close>

definition depth_restored :: "u32 \<Rightarrow> 'a Outcome \<times> 'w VmState \<Rightarrow> bool" where
  "depth_restored depth result = (case result of
     (Val _, s) \<Rightarrow> call_depth s = depth | (Fail _, s) \<Rightarrow> call_depth s = depth | _ \<Rightarrow> True)"

lemma depth_restored_sync: "depth_restored depth (execute_sync_function H vm n call f this args env depth s)"
proof -
  obtain r t where "execute_frame H vm n call f this args env (s\<lparr>call_depth := depth + 1\<rparr>) = (r, t)"
    by fastforce
  then show ?thesis
    by (cases r) (simp_all add: depth_restored_def execute_sync_function_def step_defs)
qed

lemma depth_restored_checked:
  assumes "depth_restored depth (c s)"
  shows "depth_restored depth (andThen c (\<lambda>v. andSeq (check_heap_limit H vm) (ret v)) s)"
proof -
  have "snd (check_heap_limit H vm t) = t" for t
    by (simp add: check_heap_limit_def Let_def split: option.split)
  then show ?thesis
    using assms
    by (cases "c s"; cases "fst (c s)")
      (auto simp: depth_restored_def andThen_def ret_def split: prod.split Outcome.split; metis snd_conv)+
qed

lemma depth_restored_scope:
  "depth_restored depth (c (s\<lparr>current_owner := Some (vm_heap_owner vm)\<rparr>)) \<Longrightarrow>
   depth_restored depth (with_heap_scope vm c s)"
  by (auto simp: depth_restored_def with_heap_scope_def Let_def split: prod.split Outcome.split)

text \<open>
  Entering a function: an id that no function has is an error, at the depth limit the call is
  refused before anything of the callee runs, and in both cases the state is as it was; a
  synchronous call that returns or fails restores the call depth of the caller.
\<close>

theorem execute_function_guards:
  "case find_function (vm_module vm) i of
     None \<Rightarrow> execute_function H vm n call i this args env s = (Fail (VmMissingFunction i), s)
   | Some f \<Rightarrow>
       if max_call_depth (vm_limits vm) \<le> call_depth s
       then execute_function H vm n call i this args env s = (Fail CallDepthExceeded, s)
       else is_generator f \<or> is_async f \<or>
         depth_restored (call_depth s) (execute_function H vm n call i this args env s)"
proof (cases "find_function (vm_module vm) i")
  case None
  then show ?thesis
    by (simp add: execute_function_def with_heap_scope_def fail_def)
next
  case (Some f)
  let ?s = "s\<lparr>current_owner := Some (vm_heap_owner vm)\<rparr>"
  show ?thesis
  proof (cases "max_call_depth (vm_limits vm) \<le> call_depth s")
    case True
    with Some show ?thesis
      by (simp add: execute_function_def with_heap_scope_def step_defs)
  next
    case False
    have "depth_restored (call_depth s) (execute_function H vm n call i this args env s)"
      if "\<not> is_generator f" "\<not> is_async f"
      unfolding execute_function_def
      by (rule depth_restored_scope)
        (use that False in \<open>simp add: Some andThen_def[of "gets _"] gets_def depth_restored_checked
          depth_restored_sync\<close>)
    with Some False show ?thesis by auto
  qed
qed

end
