(* ===== verification/VMFuel.thy ===== *)
theory VMFuel
  imports VMProperties VMLaws
begin

text \<open>
  Fuel is an artefact of the model: once a run has an outcome, more fuel gives the same outcome and
  the same state.  \<open>more c d\<close> says so of two actions; it is preserved by everything the operations
  are built from, so it goes through every definition of the machine, and the locale \<open>more_calls\<close>
  carries it from the closures the core calls.
\<close>

definition more :: "('w, 'a) action \<Rightarrow> ('w, 'a) action \<Rightarrow> bool" where
  "more c d \<longleftrightarrow> (\<forall>s. fst (c s) \<noteq> NoFuel \<longrightarrow> d s = c s)"

named_theorems more_intros \<open>rules of more\<close>

lemma more_refl [more_intros]: "more c c"
  by (simp add: more_def)

lemma more_no_fuel [more_intros]: "more no_fuel c"
  by (simp add: more_def no_fuel_def)

text \<open>An action that applies a strict function to the result of another.\<close>

lemma more_through:
  assumes "more c d" "\<And>s. c' s = g (c (u s)) s" "\<And>s. d' s = h (d (u s)) s"
    and "\<And>r s. fst (g r s) \<noteq> NoFuel \<Longrightarrow> fst r \<noteq> NoFuel \<and> h r s = g r s"
  shows "more c' d'"
  using assms by (simp add: more_def)

lemma more_andThen [more_intros]:
  "more c d \<Longrightarrow> (\<And>x. more (f x) (g x)) \<Longrightarrow> more (andThen c f) (andThen d g)"
  by (erule more_through[where u = "\<lambda>s. s" and g = "\<lambda>r s. andThen (\<lambda>_. r) f s"
        and h = "\<lambda>r s. andThen (\<lambda>_. r) g s"])
    (auto simp: andThen_def more_def split: prod.splits Outcome.splits)

lemma more_on_result [more_intros]:
  "more c d \<Longrightarrow> (\<And>x. more (f x) (g x)) \<Longrightarrow> more (on_result c f) (on_result d g)"
  by (erule more_through[where u = "\<lambda>s. s" and g = "\<lambda>r s. on_result (\<lambda>_. r) f s"
        and h = "\<lambda>r s. on_result (\<lambda>_. r) g s"])
    (auto simp: on_result_def more_def split: prod.splits Outcome.splits)

lemma more_catch_unwind [more_intros]: "more c d \<Longrightarrow> more (catch_unwind c) (catch_unwind d)"
  by (erule more_through[where u = "\<lambda>s. s" and g = "\<lambda>r s. catch_unwind (\<lambda>_. r) s"
        and h = "\<lambda>r s. catch_unwind (\<lambda>_. r) s"])
    (auto simp: catch_unwind_def split: prod.splits Outcome.splits)

lemma more_with_heap_scope [more_intros]: "more c d \<Longrightarrow> more (with_heap_scope vm c) (with_heap_scope vm d)"
  by (erule more_through[where u = "\<lambda>s. s\<lparr>current_owner := Some (vm_heap_owner vm)\<rparr>"
        and g = "\<lambda>(r, s') s. (r, s'\<lparr>current_owner := current_owner s\<rparr>)"
        and h = "\<lambda>(r, s') s. (r, s'\<lparr>current_owner := current_owner s\<rparr>)"])
    (auto simp: with_heap_scope_def Let_def split: prod.split)

lemma more_finally_leave [more_intros]: "more c d \<Longrightarrow> more (finally_leave H c) (finally_leave H d)"
  by (erule more_through[where u = "\<lambda>s. s" and g = "\<lambda>r s. finally_leave H (\<lambda>_. r) s"
        and h = "\<lambda>r s. finally_leave H (\<lambda>_. r) s"])
    (auto simp: finally_leave_def split: prod.splits Outcome.splits)

lemma more_releasing [more_intros]:
  "more c d \<Longrightarrow> more (gen_releasing i c) (gen_releasing i d)"
  "more c d \<Longrightarrow> more (async_releasing i c) (async_releasing i d)"
  by (auto simp: more_def gen_releasing_def async_releasing_def split: prod.split)

lemma more_if [more_intros]:
  "(b \<Longrightarrow> more c d) \<Longrightarrow> (\<not> b \<Longrightarrow> more c' d') \<Longrightarrow> more (if b then c else c') (if b then d else d')"
  by simp

lemma more_option [more_intros]:
  "more c d \<Longrightarrow> (\<And>y. more (f y) (g y)) \<Longrightarrow>
   more (case x of None \<Rightarrow> c | Some y \<Rightarrow> f y) (case x of None \<Rightarrow> d | Some y \<Rightarrow> g y)"
  by (cases x) simp_all

lemma more_prod [more_intros]:
  "(\<And>a b. more (f a b) (g a b)) \<Longrightarrow> more (case x of (a, b) \<Rightarrow> f a b) (case x of (a, b) \<Rightarrow> g a b)"
  by (cases x) simp

lemma more_sum [more_intros]:
  "(\<And>y. more (f y) (g y)) \<Longrightarrow> (\<And>y. more (f' y) (g' y)) \<Longrightarrow>
   more (case x of Inl y \<Rightarrow> f y | Inr y \<Rightarrow> f' y) (case x of Inl y \<Rightarrow> g y | Inr y \<Rightarrow> g' y)"
  by (cases x) simp_all

lemma more_map_action [more_intros]:
  "(\<And>x. more (f x) (g x)) \<Longrightarrow> more (map_action f xs) (map_action g xs)"
  by (induction xs) (auto intro!: more_intros)

lemma more_each_action [more_intros]:
  "(\<And>x. more (f x) (g x)) \<Longrightarrow> more (each_action f xs) (each_action g xs)"
  by (induction xs) (auto intro!: more_intros)

text \<open>Case distinctions over the outcomes of instructions and segments.\<close>

lemma more_Control [more_intros]:
  "more c d \<Longrightarrow> (\<And>x. more (j x) (j' x)) \<Longrightarrow> (\<And>x. more (r x) (r' x)) \<Longrightarrow> (\<And>x. more (t x) (t' x)) \<Longrightarrow>
   more (case x of Continue \<Rightarrow> c | JumpTo x \<Rightarrow> j x | ReturnValue x \<Rightarrow> r x | ThrowValue x \<Rightarrow> t x)
     (case x of Continue \<Rightarrow> d | JumpTo x \<Rightarrow> j' x | ReturnValue x \<Rightarrow> r' x | ThrowValue x \<Rightarrow> t' x)"
  by (cases x) simp_all

lemma more_steps [more_intros]:
  "(\<And>x y. more (f x y) (f' x y)) \<Longrightarrow> (\<And>x. more (g x) (g' x)) \<Longrightarrow>
   more (case st of NextBlock x y \<Rightarrow> f x y | Finished x \<Rightarrow> g x)
     (case st of NextBlock x y \<Rightarrow> f' x y | Finished x \<Rightarrow> g' x)"
  "(\<And>x. more (k x) (k' x)) \<Longrightarrow> (\<And>x. more (l x) (l' x)) \<Longrightarrow>
   more (case gst of GeneratorNext x \<Rightarrow> k x | GeneratorLeave x \<Rightarrow> l x)
     (case gst of GeneratorNext x \<Rightarrow> k' x | GeneratorLeave x \<Rightarrow> l' x)"
  "(\<And>x. more (m x) (m' x)) \<Longrightarrow> (\<And>x. more (n x) (n' x)) \<Longrightarrow>
   more (case ast of AsyncNext x \<Rightarrow> m x | AsyncLeave x \<Rightarrow> n x)
     (case ast of AsyncNext x \<Rightarrow> m' x | AsyncLeave x \<Rightarrow> n' x)"
  by (cases st, simp_all, cases gst, simp_all, cases ast, simp_all)

subsection \<open>Through the operations\<close>

locale more_calls =
  fixes call call' :: "'w caller"
  assumes call_more: "more (call i this args) (call' i this args)"
begin

lemma more_run_act: "more (run_act call act) (run_act call' act)"
proof (induction act)
  case (ActCall i this args w k)
  have "run_act call' (ActCall i this args w k) s = run_act call (ActCall i this args w k) s"
    if "fst (run_act call (ActCall i this args w k) s) \<noteq> NoFuel" for s
    using that call_more[of i this args] ActCall.IH[OF rangeI rangeI]
    by (auto simp: more_def split: prod.splits Outcome.splits)
  then show ?case unfolding more_def by blast
qed (simp_all add: more_refl)

lemma more_prim [more_intros]: "more (prim H call op args) (prim H call' op args)"
  using more_run_act by (simp add: more_def prim_def)

lemma more_cells [more_intros]:
  "more (slot_read_value H call slot) (slot_read_value H call' slot)"
  "more (cell_read H call c name) (cell_read H call' c name)"
  "more (cell_initialize H call c v) (cell_initialize H call' c v)"
  "more (throw_type_error H call msg) (throw_type_error H call' msg)"
  "more (cell_store H call c name v) (cell_store H call' c name v)"
  "more (initialize_binding H call env b v) (initialize_binding H call' env b v)"
  unfolding slot_read_value_def cell_read_def cell_initialize_def throw_type_error_def cell_store_def
    initialize_binding_def
  by (intro more_intros)+

lemma more_initialize_environment [more_intros]:
  "more (initialize_environment H call f this args env) (initialize_environment H call' f this args env)"
  unfolding initialize_environment_def by (intro more_intros)

lemma more_binary_op [more_intros]: "more (binary_op H call op l r) (binary_op H call' op l r)"
  by (cases op; simp add: binary_op_def Let_def; intro more_intros)

lemma more_instructions [more_intros]:
  "more (compute H call op rs fs dst) (compute H call' op rs fs dst)"
  "more (perform H call op rs fs) (perform H call' op rs fs)"
  "more (refresh_binding H vm call i fs) (refresh_binding H vm call' i fs)"
  "more (create_class H call c super init fs dst) (create_class H call' c super init fs dst)"
  "more (call_function H call a b args fs dst) (call_function H call' a b args fs dst)"
  "more (call_method H call a b args fs dst) (call_method H call' a b args fs dst)"
  "more (construct H call a args fs dst) (construct H call' a args fs dst)"
  "more (dynamic_import H call a fs dst) (dynamic_import H call' a fs dst)"
  unfolding compute_def perform_def refresh_binding_def create_class_def call_function_def
    call_method_def construct_def dynamic_import_def
  by (intro more_intros)+

lemma more_execute_instruction [more_intros]:
  "more (execute_instruction H vm call i fs) (execute_instruction H vm call' i fs)"
  by (cases i; simp add: execute_instruction_def split del: if_split; intro more_intros)

lemma more_execution_error_as_throw [more_intros]:
  "more (execution_error_as_throw H call e) (execution_error_as_throw H call' e)"
  by (cases e; simp add: execution_error_as_throw_def; intro more_intros)

lemma more_instruction_control [more_intros]:
  "more act act' \<Longrightarrow> more (instruction_control H vm call f b act fs) (instruction_control H vm call' f b act' fs)"
  unfolding instruction_control_def by (intro more_intros)

lemma more_run_instructions [more_intros]:
  "more (run_instructions H vm call f b is fs) (run_instructions H vm call' f b is fs)"
  by (induction "is" arbitrary: fs) (auto intro!: more_intros)

lemma more_run_blocks [more_intros]:
  "more (run_blocks H vm call f n b fs) (run_blocks H vm call' f (n + k) b fs)"
  by (induction n arbitrary: b fs) (auto intro!: more_intros)

lemma more_with_segment [more_intros]:
  "more c d \<Longrightarrow> more (with_segment H vm c) (with_segment H vm d)"
  unfolding with_segment_def by (intro more_intros)

lemma more_execute_frame [more_intros]:
  "more (execute_frame H vm n call f this args env) (execute_frame H vm (n + k) call' f this args env)"
  unfolding execute_frame_def by (intro more_intros)

text \<open>Generators.\<close>

lemma more_delegation [more_intros]:
  "more (generator_optional_iterator_call H call it m args) (generator_optional_iterator_call H call' it m args)"
  unfolding generator_optional_iterator_call_def
  by (intro more_intros)

lemma more_iterator_step [more_intros]:
  "more (generator_optional_iterator_step H call it m args) (generator_optional_iterator_step H call' it m args)"
  "more (generator_iterator_step H call it m args) (generator_iterator_step H call' it m args)"
  unfolding generator_iterator_step_def generator_optional_iterator_step_def
  by (intro more_intros)+

lemma more_generator_result [more_intros]:
  "more (generator_result H call v d) (generator_result H call' v d)"
  unfolding generator_result_def by (intro more_intros)

lemma more_VmError [more_intros]:
  "(\<And>v. more (f v) (f' v)) \<Longrightarrow>
   more (case e of Thrown v \<Rightarrow> f v | e' \<Rightarrow> c e') (case e of Thrown v \<Rightarrow> f' v | e' \<Rightarrow> c e')"
  by (cases e) (simp_all add: more_refl)

lemma more_delegate [more_intros]:
  "more (delegate_async H call f b i it sp) (delegate_async H call' f b i it sp)"
  "more (delegate_sync H call f b i dst it sp) (delegate_sync H call' f b i dst it sp)"
  unfolding delegate_async_def delegate_sync_def
  by (intro more_intros)+

lemma more_gen_instruction [more_intros]:
  "more (gen_instruction H vm call f b i ins) (gen_instruction H vm call' f b i ins)"
  unfolding gen_instruction_def by (intro more_intros)

lemma more_gen_suspend:
  "rel_option more (gen_suspend H call f b i ins) (gen_suspend H call' f b i ins)"
  by (cases ins; simp add: gen_suspend_def; intro more_intros)

lemma more_gen_instructions [more_intros]:
  "more (gen_instructions H vm call f b i is) (gen_instructions H vm call' f b i is)"
proof (induction "is")
  case (Cons ins rest)
  show ?case
    using more_gen_suspend[of H f b i ins]
    by (auto intro!: more_intros Cons split: option.splits elim: option.rel_cases)
qed (simp add: more_intros)

lemma more_drive_generator_segment [more_intros]:
  "more (drive_generator_segment H vm call i n) (drive_generator_segment H vm call' i (n + k))"
  by (induction n) (auto intro!: more_intros)

lemma more_at_depth [more_intros]: "more c d \<Longrightarrow> more (at_depth depth c) (at_depth depth d)"
  unfolding at_depth_def by (intro more_intros)

lemma more_drive_generator_frame [more_intros]:
  "more (drive_generator_frame H vm n call i) (drive_generator_frame H vm (n + k) call' i)"
  unfolding drive_generator_frame_def by (intro more_intros)

lemma more_sync_delegate_throw [more_intros]:
  "more (sync_delegate_throw H call i point it input) (sync_delegate_throw H call' i point it input)"
  unfolding sync_delegate_throw_def by (intro more_intros)

lemma more_sync_delegate_step [more_intros]:
  "more (sync_delegate_step H call i point it kind input) (sync_delegate_step H call' i point it kind input)"
  by (cases kind; simp add: sync_delegate_step_def; intro more_intros)

lemma more_prepare_sync_delegate_resume [more_intros]:
  "more (prepare_sync_delegate_resume H call i sp point it kind input)
     (prepare_sync_delegate_resume H call' i sp point it kind input)"
  unfolding prepare_sync_delegate_resume_def by (intro more_intros)

lemma more_prepare_async_delegate_resume [more_intros]:
  "more (prepare_async_delegate_resume H call i point it kind input)
     (prepare_async_delegate_resume H call' i point it kind input)"
  unfolding prepare_async_delegate_resume_def
  by (cases kind; simp; intro more_intros)

lemma more_prepare_generator_resume [more_intros]:
  "more (prepare_generator_resume H call i kind input) (prepare_generator_resume H call' i kind input)"
proof -
  have delegate: "more (resume_delegate H call i sp kind input) (resume_delegate H call' i sp kind input)" for sp
    unfolding resume_delegate_def by (intro more_intros)
  have "more (case st of
       Executing \<Rightarrow> throw_string ''TypeError: generator is already executing''
     | Completed \<Rightarrow> resume_completed kind input
     | SuspendedStart \<Rightarrow> resume_start i kind input
     | SuspendedYield suspension \<Rightarrow> resume_yield i suspension kind input
     | SuspendedDelegate suspension \<Rightarrow> resume_delegate H call i suspension kind input)
    (case st of
       Executing \<Rightarrow> throw_string ''TypeError: generator is already executing''
     | Completed \<Rightarrow> resume_completed kind input
     | SuspendedStart \<Rightarrow> resume_start i kind input
     | SuspendedYield suspension \<Rightarrow> resume_yield i suspension kind input
     | SuspendedDelegate suspension \<Rightarrow> resume_delegate H call' i suspension kind input)" for st
    by (cases st) (simp_all add: more_refl delegate)
  then show ?thesis
    unfolding prepare_generator_resume_def by (intro more_andThen more_refl)
qed

lemma more_settle_generator [more_intros]:
  "more (settle_generator H call i result) (settle_generator H call' i result)"
proof (cases result)
  case (Inr out)
  then show ?thesis by (cases out; simp add: settle_generator_def; intro more_intros)
qed (simp add: settle_generator_def more_refl)

lemma more_resume_generator_frame [more_intros]:
  "more (resume_generator_frame H vm n call i kind input) (resume_generator_frame H vm (n + k) call' i kind input)"
  unfolding resume_generator_frame_def by (intro more_intros)

lemma more_set_method [more_intros]: "more (set_method H call obj key c) (set_method H call' obj key c)"
  unfolding set_method_def by (intro more_intros)

lemma more_execute_sync_generator_function [more_intros]:
  "more (execute_sync_generator_function H call f this args env depth)
     (execute_sync_generator_function H call' f this args env depth)"
  unfolding execute_sync_generator_function_def by (intro more_intros)

text \<open>Async functions.\<close>

lemma more_then_call [more_intros]:
  "more (then_call H call v c c') (then_call H call' v c c')" "more (call_value H call g v) (call_value H call' g v)"
  unfolding then_call_def call_value_def by (intro more_intros)+

lemma more_async_instruction [more_intros]:
  "more (async_instruction H vm call f b i ins) (async_instruction H vm call' f b i ins)"
  unfolding async_instruction_def by (intro more_intros)

lemma more_async_suspend:
  "rel_option more (async_suspend H call f i res rej ins) (async_suspend H call' f i res rej ins)"
  by (cases ins; simp add: async_suspend_def async_await_def; intro more_intros)

lemma more_async_instructions [more_intros]:
  "more (async_instructions H vm call f b i res rej is) (async_instructions H vm call' f b i res rej is)"
proof (induction "is")
  case (Cons ins rest)
  show ?case
    using more_async_suspend[of H f i res rej ins]
    by (auto intro!: more_intros Cons split: option.splits elim: option.rel_cases)
qed (simp add: more_intros)

lemma more_drive_async_segment [more_intros]:
  "more (drive_async_segment H vm call i res rej n) (drive_async_segment H vm call' i res rej (n + k))"
  by (induction n) (auto intro!: more_intros)

lemma more_drive_async_frame [more_intros]:
  "more (drive_async_frame H vm n call i res rej) (drive_async_frame H vm (n + k) call' i res rej)"
  unfolding drive_async_frame_def by (intro more_intros)

lemma more_async_bodies [more_intros]:
  "more (async_executor_body H vm n call i args) (async_executor_body H vm (n + k) call' i args)"
  "more (await_settled_body H vm n call i dst target res rej args)
     (await_settled_body H vm (n + k) call' i dst target res rej args)"
  "more (execute_async_function H call f this args env depth) (execute_async_function H call' f this args env depth)"
  unfolding async_executor_body_def await_settled_body_def execute_async_function_def
  by (intro more_intros)+

text \<open>Async generators.\<close>

lemma more_ag_await [more_intros]:
  "more (await_async_generator_completion H call a v) (await_async_generator_completion H call' a v)"
  "more (await_async_generator_yield H call a sp v d) (await_async_generator_yield H call' a sp v d)"
  "more (await_async_generator_delegate H call a sp act v) (await_async_generator_delegate H call' a sp act v)"
  "more (await_async_generator_await H call a sp dst v) (await_async_generator_await H call' a sp dst v)"
  unfolding await_async_generator_completion_def await_async_generator_yield_def
    await_async_generator_delegate_def await_async_generator_await_def
  by (intro more_intros)+

lemma more_await_outcome [more_intros]:
  "more (await_outcome H call a result) (await_outcome H call' a result)"
proof (cases result)
  case (Inr out)
  then show ?thesis
    by (cases out; simp add: await_outcome_def outcome_rejection_def; intro more_intros)
qed (simp add: await_outcome_def more_refl)

lemma more_settle_active [more_intros]:
  "more (settle_active H call a continuation v) (settle_active H call' a continuation v)"
  "more (reject_active H call a reason) (reject_active H call' a reason)"
  unfolding reject_active_def settle_active_def by (intro more_intros)+

lemma more_run_request [more_intros]:
  "more (run_request H vm n call a q) (run_request H vm (n + k) call' a q)"
  unfolding run_request_def by (intro more_intros)

lemma more_drive_queue [more_intros]:
  "more (drive_async_generator_queue H vm n call a m) (drive_async_generator_queue H vm (n + k) call' a (m + l))"
  by (induction m) (auto intro!: more_intros)

lemma more_ag_requests [more_intros]:
  "more (resolve_async_generator_request H vm n call a v) (resolve_async_generator_request H vm (n + k) call' a v)"
  "more (reject_async_generator_request H vm n call a v) (reject_async_generator_request H vm (n + k) call' a v)"
  "more (handle_async_generator_outcome H vm n call a result) (handle_async_generator_outcome H vm (n + k) call' a result)"
  "more (continue_async_generator H vm n call a) (continue_async_generator H vm (n + k) call' a)"
  unfolding continue_async_generator_def handle_async_generator_outcome_def
    resolve_async_generator_request_def reject_async_generator_request_def
  by (intro more_intros)+

lemma more_ag_bodies [more_intros]:
  "more (ag_await_settled_body H vm n call a dst target args) (ag_await_settled_body H vm (n + k) call' a dst target args)"
  "more (ag_yield_fulfilled_body H vm n call a sp d args) (ag_yield_fulfilled_body H vm (n + k) call' a sp d args)"
  "more (ag_yield_rejected_body H vm n call a point args) (ag_yield_rejected_body H vm (n + k) call' a point args)"
  "more (ag_inject_and_continue H vm n call a point v target) (ag_inject_and_continue H vm (n + k) call' a point v target)"
  "more (ag_delegate_rejected_body H vm n call a point args) (ag_delegate_rejected_body H vm (n + k) call' a point args)"
  "more (ag_completion_fulfilled_body H vm n call a args) (ag_completion_fulfilled_body H vm (n + k) call' a args)"
  "more (ag_completion_rejected_body H vm n call a args) (ag_completion_rejected_body H vm (n + k) call' a args)"
  "more (async_generator_enqueue H call a kind input) (async_generator_enqueue H call' a kind input)"
  "more (ag_executor_body H vm n call a kind input args) (ag_executor_body H vm (n + k) call' a kind input args)"
  "more (execute_async_generator_function H call f this args env depth)
     (execute_async_generator_function H call' f this args env depth)"
  unfolding ag_await_settled_body_def ag_yield_fulfilled_body_def ag_yield_rejected_body_def
    ag_delegate_rejected_body_def ag_inject_and_continue_def ag_completion_fulfilled_body_def
    ag_completion_rejected_body_def async_generator_enqueue_def ag_executor_body_def
    execute_async_generator_function_def
  by (intro more_intros)+

lemma more_ag_delegate_fulfilled_body [more_intros]:
  "more (ag_delegate_fulfilled_body H vm n call a sp act point args)
     (ag_delegate_fulfilled_body H vm (n + k) call' a sp act point args)"
  unfolding ag_delegate_fulfilled_body_def Let_def by (intro more_intros)

subsection \<open>Functions, closures and runs\<close>

lemma more_execute_function [more_intros]:
  "more (execute_function H vm n call i this args env) (execute_function H vm (n + k) call' i this args env)"
  unfolding execute_function_def execute_generator_function_def execute_sync_function_def
  by (intro more_intros)

lemma more_closure_body [more_intros]:
  "more (closure_body H vm n call c this args) (closure_body H vm (n + k) call' c this args)"
  unfolding closure_body_def throwing_errors_def invoke_def
  by (cases c; simp; intro more_intros)

end

lemma more_call_closure: "more (call_closure H vm n c this args) (call_closure H vm (n + k) c this args)"
proof (induction n arbitrary: c this args)
  case (Suc n)
  have "more_calls (call_closure H vm n) (call_closure H vm (n + k))"
    by unfold_locales (rule Suc.IH)
  then have "more (closure_body H vm n (call_closure H vm n) f this args)
      (closure_body H vm (n + k) (call_closure H vm (n + k)) f this args)" for f
    by (rule more_calls.more_closure_body)
  then show ?case by (simp add: more_intros)
qed (simp add: more_no_fuel)

interpretation fuel: more_calls "call_closure H vm n" "call_closure H vm (n + k)" for H vm n k
  by unfold_locales (rule more_call_closure)

lemma more_run: "more (run_with_bindings H vm n bs) (run_with_bindings H vm (n + k) bs)"
  unfolding run_with_bindings_def run_with_cells_def by (intro more_intros fuel.more_execute_function)

text \<open>
  Fuel does not matter: when a run has an outcome, every larger amount of fuel gives the same
  outcome and the same final state, for any module (generators and async functions included), any
  embedder and any state, so a program's behaviour does not depend on the amount chosen.
\<close>

theorem run_fuel_irrelevant:
  assumes "run_with_bindings H vm n bs s = (r, s')" "r \<noteq> NoFuel" "n \<le> m"
  shows "run_with_bindings H vm m bs s = (r, s')"
  using more_run[of H vm n bs "m - n"] assms by (simp add: more_def)

lemma run_fuel_irrelevant_witness:
  "fst (run_with_bindings quiet_host (example_vm return_module) 1000 [] (new_state () example_limits)) =
     Val (VBool True)"
  using run_fuel_irrelevant[OF prod.collapse[symmetric], of quiet_host "example_vm return_module"
      "Suc 0" "[]" "new_state () example_limits" 1000] run_return_module
  by (simp add: run_def)

end
