(* ===== verification/PropertyMap.thy ===== *)
theory PropertyMap
  imports VMState "HOL-Library.AList" "HOL-Library.Mapping" "HOL-Library.List_Lexorder" "HOL-Library.Char_ord"
begin

text \<open>
  The compact property storage of \<^verbatim>\<open>crates/w3cos-core/src/property_map.rs\<close>: no storage at all, up to
  four entries in a small array, or a hash map with the keys in insertion order beside it.  The
  operations are translated line by line; the theorems say that all three representations behave as
  one list of entries in insertion order.  The locale \<open>property_store\<close> states that contract for the
  objects built on it.

  A string is the list of its UTF-8 bytes.  \<open>heap_bytes\<close> depends on allocator capacities and is left
  out.
\<close>

subsection \<open>Representation\<close>

definition INLINE_CAP :: nat where
  "INLINE_CAP = 4"

datatype PropertyStore =
    Inline (inline_len: nat) (inline_entries: "(string \<times> Value) list")
  | Spilled (spill_map: "(string, Value) mapping") (spill_order: "string list")

type_synonym PropertyMap = "PropertyStore option"

definition unused_entry :: "string \<times> Value" where
  "unused_entry = ([], VUndefined)"

definition pm_new :: PropertyMap where
  "pm_new = None"

definition from_interned_hashmap :: "(string, Value) mapping \<Rightarrow> PropertyMap" where
  "from_interned_hashmap m =
     (if Mapping.is_empty m then pm_new
      else let order = Mapping.ordered_keys m in
        if Mapping.size m \<le> INLINE_CAP
        then Some (Inline (length order)
          (map (\<lambda>k. (k, the (Mapping.lookup m k))) order @
             replicate (INLINE_CAP - length order) unused_entry))
        else Some (Spilled m order))"

definition pm_len :: "PropertyMap \<Rightarrow> nat" where
  "pm_len pm = (case pm of
     None \<Rightarrow> 0 | Some (Inline n _) \<Rightarrow> n | Some (Spilled m _) \<Rightarrow> Mapping.size m)"

definition pm_is_empty :: "PropertyMap \<Rightarrow> bool" where
  "pm_is_empty pm \<longleftrightarrow> pm = None"

definition is_compact :: "PropertyMap \<Rightarrow> bool" where
  "is_compact pm = (case pm of Some (Spilled _ _) \<Rightarrow> False | _ \<Rightarrow> True)"

subsection \<open>Lookup\<close>

definition pm_get :: "PropertyMap \<Rightarrow> string \<Rightarrow> Value option" where
  "pm_get pm key = (case pm of
     None \<Rightarrow> None
   | Some (Inline n entries) \<Rightarrow> map_option snd (find (\<lambda>(k, _). k = key) (take n entries))
   | Some (Spilled m _) \<Rightarrow> Mapping.lookup m key)"

definition contains_key :: "PropertyMap \<Rightarrow> string \<Rightarrow> bool" where
  "contains_key pm key \<longleftrightarrow> pm_get pm key \<noteq> None"

definition strip_prefix :: "string \<Rightarrow> string \<Rightarrow> string option" where
  "strip_prefix prefix text =
     (if take (length prefix) text = prefix then Some (drop (length prefix) text) else None)"

text \<open>\<^verbatim>\<open>bytes[i..i + n].copy_from_slice(..)\<close>.\<close>

definition copy_at :: "nat \<Rightarrow> 'a list \<Rightarrow> 'a list \<Rightarrow> 'a list" where
  "copy_at i xs buffer = take i buffer @ xs @ drop (i + length xs) buffer"

definition map_contains_prefixed :: "(string, Value) mapping \<Rightarrow> string \<Rightarrow> string \<Rightarrow> bool" where
  "map_contains_prefixed m prefix key =
     (let total = length prefix + length key;
          combined = (if total \<le> 64
            then take total (copy_at (length prefix) key
                   (copy_at 0 prefix (replicate 64 (CHR 0x00))))
            else prefix @ key)
      in Mapping.lookup m combined \<noteq> None)"

definition contains_key_or_prefixed :: "PropertyMap \<Rightarrow> string \<Rightarrow> string \<Rightarrow> string \<Rightarrow> bool" where
  "contains_key_or_prefixed pm key first_prefix second_prefix = (case pm of
     None \<Rightarrow> False
   | Some (Inline n entries) \<Rightarrow>
       list_ex (\<lambda>(candidate, _). candidate = key \<or>
         strip_prefix first_prefix candidate = Some key \<or>
         strip_prefix second_prefix candidate = Some key) (take n entries)
   | Some (Spilled m _) \<Rightarrow> Mapping.lookup m key \<noteq> None \<or>
       map_contains_prefixed m first_prefix key \<or> map_contains_prefixed m second_prefix key)"

subsection \<open>Insertion and removal\<close>

text \<open>\<^verbatim>\<open>iter().position(..)\<close>.\<close>

fun position :: "('a \<Rightarrow> bool) \<Rightarrow> 'a list \<Rightarrow> nat option" where
  "position P [] = None"
| "position P (x # xs) = (if P x then Some 0 else map_option Suc (position P xs))"

text \<open>The loop that moves the entries of a full array into a map.\<close>

fun spill_entries ::
  "(string \<times> Value) list \<Rightarrow> (string, Value) mapping \<Rightarrow> string list \<Rightarrow>
     (string, Value) mapping \<times> string list" where
  "spill_entries [] m order = (m, order)"
| "spill_entries ((k, v) # rest) m order = spill_entries rest (Mapping.update k v m) (order @ [k])"

definition pm_insert :: "string \<Rightarrow> Value \<Rightarrow> PropertyMap \<Rightarrow> Value option \<times> PropertyMap" where
  "pm_insert key v pm = (case pm of
     None \<Rightarrow> (None, Some (Inline 1 ((replicate INLINE_CAP unused_entry)[0 := (key, v)])))
   | Some (Inline n entries) \<Rightarrow>
       (case position (\<lambda>(k, _). k = key) (take n entries) of
          Some i \<Rightarrow> (Some (snd (entries ! i)), Some (Inline n (entries[i := (fst (entries ! i), v)])))
        | None \<Rightarrow>
            if n < INLINE_CAP then (None, Some (Inline (n + 1) (entries[n := (key, v)])))
            else (let (m, order) = spill_entries (take n entries) Mapping.empty []
                  in (None, Some (Spilled (Mapping.update key v m) (order @ [key])))))
   | Some (Spilled m order) \<Rightarrow>
       (Mapping.lookup m key,
        Some (Spilled (Mapping.update key v m)
          (if Mapping.lookup m key = None then order @ [key] else order))))"

text \<open>The loop \<^verbatim>\<open>for i in idx..n - 1\<close> that closes the gap.\<close>

function shift_down :: "nat \<Rightarrow> nat \<Rightarrow> (string \<times> Value) list \<Rightarrow> (string \<times> Value) list" where
  "shift_down i stop entries =
     (if i < stop then shift_down (i + 1) stop
        (entries[i := entries ! (i + 1), i + 1 := unused_entry])
      else entries)"
  by pat_completeness auto

termination shift_down
  by (relation "measure (\<lambda>(i, stop, _). stop - i)") auto

declare shift_down.simps [simp del]

definition pm_remove :: "string \<Rightarrow> PropertyMap \<Rightarrow> Value option \<times> PropertyMap" where
  "pm_remove key pm = (case pm of
     None \<Rightarrow> (None, None)
   | Some (Inline n entries) \<Rightarrow>
       (case position (\<lambda>(k, _). k = key) (take n entries) of
          None \<Rightarrow> (None, pm)
        | Some i \<Rightarrow>
            (let shifted = shift_down i (n - 1) (entries[i := unused_entry])
             in (Some (snd (entries ! i)),
                 if n - 1 = 0 then None else Some (Inline (n - 1) shifted))))
   | Some (Spilled m order) \<Rightarrow>
       (case Mapping.lookup m key of
          None \<Rightarrow> (None, pm)
        | Some removed \<Rightarrow>
            (let m' = Mapping.delete key m
             in (Some removed,
                 if Mapping.is_empty m' then None
                 else Some (Spilled m' (List.filter (\<lambda>k. k \<noteq> key) order))))))"

subsection \<open>Iteration\<close>

definition keys_next :: "PropertyMap \<Rightarrow> nat \<Rightarrow> (string \<times> nat) option" where
  "keys_next pm i = (case pm of
     None \<Rightarrow> None
   | Some (Inline n entries) \<Rightarrow> if n \<le> i then None else Some (fst (entries ! i), i + 1)
   | Some (Spilled _ order) \<Rightarrow> if i < length order then Some (order ! i, i + 1) else None)"

definition any_key :: "PropertyMap \<Rightarrow> (string \<Rightarrow> bool) \<Rightarrow> bool" where
  "any_key pm f = (case pm of
     None \<Rightarrow> False
   | Some (Inline n entries) \<Rightarrow> list_ex (\<lambda>(k, _). f k) (take n entries)
   | Some (Spilled _ order) \<Rightarrow> list_ex f order)"

subsection \<open>One list of entries\<close>

definition tabulate :: "(string, Value) mapping \<Rightarrow> string list \<Rightarrow> (string \<times> Value) list" where
  "tabulate m order = map (\<lambda>k. (k, the (Mapping.lookup m k))) order"

definition entries_of :: "PropertyMap \<Rightarrow> (string \<times> Value) list" where
  "entries_of pm = (case pm of
     None \<Rightarrow> [] | Some (Inline n entries) \<Rightarrow> take n entries | Some (Spilled m order) \<Rightarrow> tabulate m order)"

definition pm_ok :: "PropertyMap \<Rightarrow> bool" where
  "pm_ok pm = (case pm of
     None \<Rightarrow> True
   | Some (Inline n entries) \<Rightarrow> 0 < n \<and> n \<le> INLINE_CAP \<and> length entries = INLINE_CAP \<and>
       distinct (map fst (take n entries))
   | Some (Spilled m order) \<Rightarrow> order \<noteq> [] \<and> distinct order \<and> set order = Mapping.keys m)"

lemma position_Some:
  "position P xs = Some i \<Longrightarrow> i < length xs \<and> P (xs ! i) \<and> (\<forall>j<i. \<not> P (xs ! j))"
proof (induction xs arbitrary: i)
  case (Cons x xs)
  then show ?case
    by (cases i) (auto simp: less_Suc_eq_0_disj split: if_splits)
qed simp

lemma position_None: "position P xs = None \<longleftrightarrow> (\<forall>x\<in>set xs. \<not> P x)"
  by (induction xs) auto

lemma update_at_position:
  "position (\<lambda>(k, _). k = key) xs = Some i \<Longrightarrow> AList.update key v xs = xs[i := (fst (xs ! i), v)]"
  by (induction xs arbitrary: i) (auto split: if_splits)

lemma update_absent:
  "position (\<lambda>(k, _). k = key) xs = None \<Longrightarrow> AList.update key v xs = xs @ [(key, v)]"
  by (induction xs) (auto split: if_splits)

lemma map_of_position:
  "map_of xs key = map_option (\<lambda>i. snd (xs ! i)) (position (\<lambda>(k, _). k = key) xs)"
  by (induction xs) (auto simp: option.map_comp o_def)

lemma delete_at_position:
  "position (\<lambda>(k, _). k = key) xs = Some i \<Longrightarrow> distinct (map fst xs) \<Longrightarrow>
   AList.delete key xs = take i xs @ drop (i + 1) xs"
proof (induction xs arbitrary: i)
  case (Cons x xs)
  then show ?case
    by (cases "fst x = key")
      (auto simp: AList.delete_eq rev_image_eqI split: if_splits intro!: filter_True)
qed simp

lemma find_map_of: "map_option snd (find (\<lambda>(k, _). k = key) xs) = map_of xs key"
  by (induction xs) auto

lemma tabulate_update:
  assumes "distinct order"
  shows "AList.update key v (tabulate m order) =
    tabulate (Mapping.update key v m) (if key \<in> set order then order else order @ [key])"
  using assms by (induction order) (auto simp: tabulate_def lookup_update' map_idI)

lemma tabulate_lookup:
  "map_of (tabulate m order) key = (if key \<in> set order then Some (the (Mapping.lookup m key)) else None)"
  unfolding tabulate_def by (induction order) auto

lemma spilled_lookup:
  assumes "set order = Mapping.keys m"
  shows "Mapping.lookup m key = map_of (tabulate m order) key"
  using assms by (auto simp: tabulate_lookup keys_dom_lookup)

lemma tabulate_delete:
  "AList.delete key (tabulate m order) = tabulate (Mapping.delete key m) (List.filter (\<lambda>k. k \<noteq> key) order)"
  by (induction order) (auto simp: tabulate_def lookup_delete_neq)

lemma tabulate_Nil [simp]: "tabulate m [] = []"
  by (simp add: tabulate_def)

lemma tabulate_fst [simp]: "map fst (tabulate m order) = order"
  by (simp add: tabulate_def comp_def)

lemma spill_entries_tabulate:
  assumes "spill_entries es m order = (m', order')" "distinct (order @ map fst es)"
  shows "tabulate m' order' = tabulate m order @ es \<and> order' = order @ map fst es \<and>
    (set order = Mapping.keys m \<longrightarrow> set order' = Mapping.keys m')"
  using assms
proof (induction es m order rule: spill_entries.induct)
  case (2 k v rest m order)
  have "tabulate (Mapping.update k v m) (order @ [k]) = tabulate m order @ [(k, v)]"
    using 2(3) by (auto simp: tabulate_def lookup_update')
  moreover have "tabulate m' order' = tabulate (Mapping.update k v m) (order @ [k]) @ rest \<and>
      order' = (order @ [k]) @ map fst rest \<and>
      (set (order @ [k]) = Mapping.keys (Mapping.update k v m) \<longrightarrow> set order' = Mapping.keys m')"
    by (rule 2(1)) (use 2(2,3) in simp_all)
  moreover have "set (order @ [k]) = Mapping.keys (Mapping.update k v m)" if "set order = Mapping.keys m"
    using that by simp
  ultimately show ?case by (elim conjE) (simp only: list.map fst_conv append_assoc append_Cons append_Nil simp_thms, blast)
qed simp

lemma shift_down_length [simp]: "length (shift_down i stop es) = length es"
  by (induction i stop es rule: shift_down.induct) (simp add: shift_down.simps)

lemma shift_down_take:
  assumes "i \<le> stop" "stop < length es"
  shows "take stop (shift_down i stop es) = take i es @ drop (i + 1) (take (stop + 1) es)"
  using assms
proof (induction i stop es rule: shift_down.induct)
  case (1 i stop es)
  show ?case
  proof (cases "i < stop")
    case True
    let ?es = "es[i := es ! (i + 1), i + 1 := unused_entry]"
    have "take stop (shift_down i stop es) = take (i + 1) ?es @ drop (i + 2) (take (stop + 1) ?es)"
      using 1 True by (subst shift_down.simps) simp
    also have "take (i + 1) ?es = take i es @ [es ! (i + 1)]"
      using True 1(3) by (simp add: take_Suc_conv_app_nth)
    also have "drop (i + 2) (take (stop + 1) ?es) = drop (i + 2) (take (stop + 1) es)"
      by (simp add: take_update_swap drop_update_cancel)
    finally show ?thesis
      using True 1(3) Cons_nth_drop_Suc[of "i + 1" "take (stop + 1) es"] by simp
  next
    case False
    with 1(2) have "i = stop" by simp
    then show ?thesis using 1(3) by (subst shift_down.simps) simp
  qed
qed

subsection \<open>The operations on the list of entries\<close>

lemma entries_distinct: "pm_ok pm \<Longrightarrow> distinct (map fst (entries_of pm))"
  by (auto simp: pm_ok_def entries_of_def split: option.splits PropertyStore.splits)

lemma pm_get_entries: "pm_ok pm \<Longrightarrow> pm_get pm key = map_of (entries_of pm) key"
  by (auto simp: pm_get_def pm_ok_def entries_of_def find_map_of spilled_lookup
      split: option.split PropertyStore.split)

lemma pm_insert_inline:
  assumes "pm_ok (Some (Inline n es))"
  shows "pm_ok (snd (pm_insert key v (Some (Inline n es)))) \<and>
    entries_of (snd (pm_insert key v (Some (Inline n es)))) = AList.update key v (take n es) \<and>
    fst (pm_insert key v (Some (Inline n es))) = map_of (take n es) key"
proof (cases "position (\<lambda>(k, _). k = key) (take n es)")
  case (Some i)
  note p = position_Some[OF Some]
  have update: "AList.update key v (take n es) = take n (es[i := (fst (es ! i), v)])"
    using p update_at_position[OF Some, of v] by (simp add: take_update_swap)
  moreover have "distinct (map fst (AList.update key v (take n es)))"
    using assms by (simp add: pm_ok_def distinct_update)
  ultimately show ?thesis
    using assms p Some by (simp add: pm_insert_def pm_ok_def entries_of_def map_of_position)
next
  case None
  have new: "AList.update key v (take n es) = take n es @ [(key, v)]"
    by (rule update_absent[OF None])
  have "distinct (map fst (AList.update key v (take n es)))"
    using assms by (simp add: pm_ok_def distinct_update)
  then have distinct: "distinct (map fst (take n es) @ [key])" by (simp add: new)
  show ?thesis
  proof (cases "n < INLINE_CAP")
    case True
    then have "take (n + 1) (es[n := (key, v)]) = take n es @ [(key, v)]"
      using assms by (simp add: pm_ok_def take_Suc_conv_app_nth)
    then show ?thesis
      using assms True None new distinct
      by (simp add: pm_insert_def pm_ok_def entries_of_def map_of_position)
  next
    case False
    obtain m order where spill: "spill_entries (take n es) Mapping.empty [] = (m, order)" by fastforce
    have "distinct ([] @ map fst (take n es))"
      using distinct by simp
    note spill_entries_tabulate[OF spill this, unfolded tabulate_Nil]
    then have tab: "tabulate m order = take n es" "order = map fst (take n es)"
        "set order = Mapping.keys m"
      by (unfold append_Nil keys_empty list.set simp_thms) blast+
    have "tabulate (Mapping.update key v m) (order @ [key]) = take n es @ [(key, v)]"
      using tabulate_update[of order key v m] distinct tab(1) new by (simp add: tab(2))
    then show ?thesis
      using False None spill new distinct tab(2) tab(3)[symmetric]
      by (simp add: pm_insert_def pm_ok_def entries_of_def map_of_position)
  qed
qed

lemma pm_insert_refines:
  assumes "pm_ok pm"
  shows "pm_ok (snd (pm_insert key v pm)) \<and>
    entries_of (snd (pm_insert key v pm)) = AList.update key v (entries_of pm) \<and>
    fst (pm_insert key v pm) = map_of (entries_of pm) key"
proof (cases pm)
  case None
  then show ?thesis
    by (simp add: pm_insert_def pm_ok_def entries_of_def INLINE_CAP_def numeral_eq_Suc)
next
  case (Some store)
  show ?thesis
  proof (cases store)
    case (Inline n es)
    with Some assms show ?thesis
      using pm_insert_inline[of n es key v] by (simp add: entries_of_def)
  next
    case (Spilled m order)
    then have ok: "order \<noteq> []" "distinct order" "set order = Mapping.keys m"
      using assms Some by (simp_all add: pm_ok_def)
    have "Mapping.lookup m key = None \<longleftrightarrow> key \<notin> set order"
      by (auto simp: ok(3) keys_dom_lookup)
    then show ?thesis
      using ok spilled_lookup[OF ok(3), of key]
      by (auto simp: Some Spilled pm_insert_def pm_ok_def entries_of_def tabulate_update)
  qed
qed

lemma pm_remove_inline:
  assumes "pm_ok (Some (Inline n es))"
  shows "pm_ok (snd (pm_remove key (Some (Inline n es)))) \<and>
    entries_of (snd (pm_remove key (Some (Inline n es)))) = AList.delete key (take n es) \<and>
    fst (pm_remove key (Some (Inline n es))) = map_of (take n es) key"
proof (cases "position (\<lambda>(k, _). k = key) (take n es)")
  case None
  then have "key \<notin> fst ` set (take n es)"
    by (auto simp: position_None)
  then show ?thesis
    using assms None by (simp add: pm_remove_def entries_of_def map_of_position delete_id)
next
  case (Some i)
  have i: "i < n" using position_Some[OF Some] by simp
  have n: "0 < n" "n \<le> length es" using assms by (simp_all add: pm_ok_def)
  have "take (n - 1) (shift_down i (n - 1) (es[i := unused_entry])) =
      take i (es[i := unused_entry]) @ drop (i + 1) (take n (es[i := unused_entry]))"
    using shift_down_take[of i "n - 1" "es[i := unused_entry]"] i n by simp
  also have "\<dots> = take i (take n es) @ drop (i + 1) (take n es)"
    using i by (simp add: take_update_swap drop_update_cancel min_def list_update_beyond)
  also have "\<dots> = AList.delete key (take n es)"
    using delete_at_position[OF Some] assms by (simp add: pm_ok_def)
  finally have shifted: "take (n - 1) (shift_down i (n - 1) (es[i := unused_entry])) =
      AList.delete key (take n es)" .
  have "distinct (map fst (AList.delete key (take n es)))"
    using assms by (simp add: pm_ok_def distinct_delete)
  then show ?thesis
    using assms Some shifted position_Some[OF Some]
    by (auto simp: pm_remove_def pm_ok_def entries_of_def map_of_position Let_def)
qed

lemma pm_remove_refines:
  assumes "pm_ok pm"
  shows "pm_ok (snd (pm_remove key pm)) \<and>
    entries_of (snd (pm_remove key pm)) = AList.delete key (entries_of pm) \<and>
    fst (pm_remove key pm) = map_of (entries_of pm) key"
proof (cases pm)
  case None
  then show ?thesis by (simp add: pm_remove_def pm_ok_def entries_of_def)
next
  case (Some store)
  show ?thesis
  proof (cases store)
    case (Inline n es)
    with Some assms show ?thesis
      using pm_remove_inline[of n es key] by (simp add: entries_of_def)
  next
    case (Spilled m order)
    then have ok: "distinct order" "set order = Mapping.keys m"
      using assms Some by (simp_all add: pm_ok_def)
    have present: "Mapping.lookup m key \<noteq> None \<longleftrightarrow> key \<in> set order"
      by (auto simp: ok(2) keys_dom_lookup)
    show ?thesis
    proof (cases "Mapping.lookup m key")
      case None
      then have "key \<notin> set (map fst (tabulate m order))"
        using present by simp
      then have "AList.delete key (tabulate m order) = tabulate m order"
        by (intro delete_id) (simp only: set_map not_False_eq_True)
      then show ?thesis
        using assms None spilled_lookup[OF ok(2), of key]
        by (simp add: Some Spilled pm_remove_def entries_of_def)
    next
      case (Some v)
      have "Mapping.is_empty (Mapping.delete key m) \<longleftrightarrow> List.filter (\<lambda>k. k \<noteq> key) order = []"
        using ok(2) by (auto simp: Mapping.is_empty_def filter_empty_conv)
      then show ?thesis
        using ok Some spilled_lookup[OF ok(2), of key]
        by (auto simp: \<open>pm = Some store\<close> Spilled pm_remove_def pm_ok_def entries_of_def tabulate_delete Let_def)
    qed
  qed
qed

subsection \<open>The remaining operations\<close>

lemma prefix_lookup:
  "strip_prefix p text = Some key \<longleftrightarrow> text = p @ key"
  by (auto simp: strip_prefix_def) (metis append_take_drop_id)

lemma map_contains_prefixed_append:
  "map_contains_prefixed m prefix key \<longleftrightarrow> Mapping.lookup m (prefix @ key) \<noteq> None"
  by (simp add: map_contains_prefixed_def copy_at_def Let_def)

lemma contains_prefixed_entries:
  assumes "pm_ok pm"
  shows "contains_key_or_prefixed pm key p q \<longleftrightarrow>
    {key, p @ key, q @ key} \<inter> fst ` set (entries_of pm) \<noteq> {}"
proof (cases pm)
  case (Some store)
  show ?thesis
  proof (cases store)
    case (Inline n es)
    then show ?thesis
      by (auto simp: Some contains_key_or_prefixed_def entries_of_def list_ex_iff prefix_lookup rev_image_eqI)
  next
    case (Spilled m order)
    then have "set order = Mapping.keys m" using assms Some by (simp add: pm_ok_def)
    moreover have "fst ` set (tabulate m order) = set order" by (metis set_map tabulate_fst)
    ultimately show ?thesis
      by (auto simp: Some Spilled contains_key_or_prefixed_def entries_of_def map_contains_prefixed_append
          keys_dom_lookup)
  qed
qed (simp add: contains_key_or_prefixed_def entries_of_def)

lemma pm_len_entries: "pm_ok pm \<Longrightarrow> pm_len pm = length (entries_of pm)"
proof (cases pm)
  case (Some store)
  assume ok: "pm_ok pm"
  show ?thesis
  proof (cases store)
    case (Spilled m order)
    then have "distinct order" "set order = Mapping.keys m" using ok Some by (simp_all add: pm_ok_def)
    then have "Mapping.size m = length order"
      by (simp add: Mapping.size_def distinct_card[symmetric])
    then show ?thesis
      by (simp add: Some Spilled pm_len_def entries_of_def tabulate_def)
  qed (use ok Some in \<open>simp add: pm_ok_def pm_len_def entries_of_def\<close>)
qed (simp add: pm_len_def entries_of_def)

lemma pm_is_empty_entries: "pm_ok pm \<Longrightarrow> pm_is_empty pm \<longleftrightarrow> entries_of pm = []"
  by (auto simp: pm_is_empty_def pm_ok_def entries_of_def tabulate_def split: option.split PropertyStore.split)

lemma any_key_entries: "any_key pm f \<longleftrightarrow> (\<exists>k\<in>fst ` set (entries_of pm). f k)"
  by (auto simp: any_key_def entries_of_def tabulate_def list_ex_iff split: option.split PropertyStore.split)

lemma keys_next_entries:
  "pm_ok pm \<Longrightarrow> keys_next pm i =
     (if i < length (entries_of pm) then Some (fst (entries_of pm ! i), i + 1) else None)"
  by (auto simp: keys_next_def entries_of_def pm_ok_def tabulate_def split: option.split PropertyStore.split)

lemma pm_new_entries [simp]: "pm_ok pm_new" "entries_of pm_new = []"
  by (simp_all add: pm_ok_def entries_of_def pm_new_def)

lemma from_interned_hashmap_entries:
  assumes "finite (Mapping.keys m)"
  shows "pm_ok (from_interned_hashmap m) \<and>
    entries_of (from_interned_hashmap m) = tabulate m (Mapping.ordered_keys m)"
proof -
  have order: "set (Mapping.ordered_keys m) = Mapping.keys m" "distinct (Mapping.ordered_keys m)"
    "length (Mapping.ordered_keys m) = Mapping.size m"
    using assms by (simp_all add: ordered_keys_def Mapping.size_def)
  show ?thesis
  proof (cases "Mapping.is_empty m")
    case True
    then have "set (Mapping.ordered_keys m) = {}" using order(1) by (simp add: Mapping.is_empty_def)
    then have "Mapping.ordered_keys m = []" by simp
    with True show ?thesis by (simp add: from_interned_hashmap_def)
  next
    case False
    then have "Mapping.ordered_keys m \<noteq> []" using order(1) by (auto simp: Mapping.is_empty_def)
    moreover from this have "0 < Mapping.size m" using order(3) by (metis length_greater_0_conv)
    ultimately show ?thesis
      using False order
      by (simp add: from_interned_hashmap_def pm_ok_def entries_of_def Let_def tabulate_def comp_def)
  qed
qed

subsection \<open>The contract for objects\<close>

text \<open>What an object needs of its property storage: a list of entries with distinct keys.\<close>

locale property_store =
  fixes ok :: "'s \<Rightarrow> bool" and entries :: "'s \<Rightarrow> (string \<times> 'v) list" and new :: 's
    and insert :: "string \<Rightarrow> 'v \<Rightarrow> 's \<Rightarrow> 'v option \<times> 's"
    and remove :: "string \<Rightarrow> 's \<Rightarrow> 'v option \<times> 's"
    and get :: "'s \<Rightarrow> string \<Rightarrow> 'v option"
  assumes distinct: "ok s \<Longrightarrow> distinct (map fst (entries s))"
    and new: "ok new \<and> entries new = []"
    and insert: "ok s \<Longrightarrow> ok (snd (insert k v s)) \<and> entries (snd (insert k v s)) = AList.update k v (entries s) \<and>
      fst (insert k v s) = map_of (entries s) k"
    and remove: "ok s \<Longrightarrow> ok (snd (remove k s)) \<and> entries (snd (remove k s)) = AList.delete k (entries s) \<and>
      fst (remove k s) = map_of (entries s) k"
    and get: "ok s \<Longrightarrow> get s k = map_of (entries s) k"
begin

lemma insert_ok: "ok s \<Longrightarrow> ok (snd (insert k v s))"
  by (simp add: insert)

lemma remove_ok: "ok s \<Longrightarrow> ok (snd (remove k s))"
  by (simp add: remove)

lemma get_insert: "ok s \<Longrightarrow> get (snd (insert k v s)) k' = (if k = k' then Some v else get s k')"
  by (simp add: get insert update_conv')

lemma get_remove: "ok s \<Longrightarrow> get (snd (remove k s)) k' = (if k = k' then None else get s k')"
  by (simp add: get remove delete_conv')

lemma keys_insert:
  "ok s \<Longrightarrow> map fst (entries (snd (insert k v s))) =
     (if k \<in> fst ` set (entries s) then map fst (entries s) else map fst (entries s) @ [k])"
  by (simp add: insert AList.update_keys)

lemma keys_remove:
  "ok s \<Longrightarrow> map fst (entries (snd (remove k s))) = List.filter (\<lambda>k'. k' \<noteq> k) (map fst (entries s))"
  by (simp add: remove AList.delete_keys removeAll_filter_not_eq eq_commute[of k])

end

interpretation pm: property_store pm_ok entries_of pm_new pm_insert pm_remove pm_get
  by unfold_locales (simp_all add: entries_distinct pm_insert_refines pm_remove_refines pm_get_entries)

subsection \<open>Sequences of operations\<close>

datatype PropertyUpdate = Insertion string Value | Removal string

fun pm_apply :: "PropertyUpdate \<Rightarrow> PropertyMap \<Rightarrow> Value option \<times> PropertyMap" where
  "pm_apply (Insertion k v) pm = pm_insert k v pm"
| "pm_apply (Removal k) pm = pm_remove k pm"

fun list_apply ::
  "PropertyUpdate \<Rightarrow> (string \<times> Value) list \<Rightarrow> Value option \<times> (string \<times> Value) list" where
  "list_apply (Insertion k v) es = (map_of es k, AList.update k v es)"
| "list_apply (Removal k) es = (map_of es k, AList.delete k es)"

fun run_updates :: "('u \<Rightarrow> 's \<Rightarrow> 'r \<times> 's) \<Rightarrow> 'u list \<Rightarrow> 's \<Rightarrow> 'r list \<times> 's" where
  "run_updates step [] s = ([], s)"
| "run_updates step (u # us) s =
     (case step u s of (r, s') \<Rightarrow> (case run_updates step us s' of (rs, t) \<Rightarrow> (r # rs, t)))"

lemma run_updates_refines:
  "pm_ok pm \<Longrightarrow> (case run_updates pm_apply us pm of (rs, pm') \<Rightarrow>
     pm_ok pm' \<and> run_updates list_apply us (entries_of pm) = (rs, entries_of pm'))"
proof (induction us arbitrary: pm)
  case (Cons u us)
  obtain r pm1 where step: "pm_apply u pm = (r, pm1)" by fastforce
  have "r = fst (pm_apply u pm)" "pm1 = snd (pm_apply u pm)"
    by (simp_all add: step)
  then have "pm_ok pm1 \<and> list_apply u (entries_of pm) = (r, entries_of pm1)"
    using pm.insert[OF Cons.prems] pm.remove[OF Cons.prems] by (cases u) simp_all
  then show ?case
    using Cons.IH[of pm1] step by (auto split: prod.splits)
qed simp

lemma run_updates_ok: "pm_ok pm \<Longrightarrow> pm_ok (snd (run_updates pm_apply us pm))"
  using run_updates_refines[of pm us] by (auto split: prod.splits)

text \<open>
  C16. Refinement of property storage: whatever sequence of insertions and removals is applied to an
  empty property map, through the inline array, its spill into a hash map and back to nothing, every
  call returns the same old value and the contents are the same as those of one list of entries in
  insertion order.
\<close>

theorem property_map_refines_list:
  "case run_updates pm_apply us pm_new of (rs, pm) \<Rightarrow>
     run_updates list_apply us [] = (rs, entries_of pm)"
  using run_updates_refines[of pm_new us] by (auto split: prod.splits)

text \<open>
  Reading: in every well-formed property map, lookup, the length, emptiness and the iterator agree
  with the list of entries, and the combined test for a key or one of its two accessor keys finds
  exactly those three, although it scans the inline array once and builds keys in a stack buffer or a
  string for the hash map.
\<close>

theorem property_map_reads:
  assumes "pm_ok pm"
  shows "pm_get pm key = map_of (entries_of pm) key \<and> pm_len pm = length (entries_of pm) \<and>
    (pm_is_empty pm \<longleftrightarrow> entries_of pm = []) \<and>
    keys_next pm i = (if i < length (entries_of pm) then Some (fst (entries_of pm ! i), i + 1) else None) \<and>
    (contains_key_or_prefixed pm key p q \<longleftrightarrow> contains_key pm key \<or> contains_key pm (p @ key) \<or>
      contains_key pm (q @ key))"
  using assms
  by (auto simp: pm_get_entries pm_len_entries pm_is_empty_entries keys_next_entries contains_key_def
      contains_prefixed_entries map_of_eq_None_iff)

definition five_keys :: PropertyMap where
  "five_keys = snd (run_updates pm_apply
     (map (\<lambda>c. Insertion [c] (VString [c])) ''abcde'') pm_new)"

lemma property_map_reads_witness:
  "\<not> is_compact five_keys \<and> contains_key_or_prefixed five_keys ''e'' ''x'' ''y''"
proof -
  have ok: "pm_ok five_keys"
    unfolding five_keys_def by (rule run_updates_ok) simp
  have get: "pm_get five_keys ''e'' = Some (VString ''e'')" "\<not> is_compact five_keys"
    by (simp_all add: five_keys_def pm_new_def pm_insert_def INLINE_CAP_def is_compact_def pm_get_def
        numeral_eq_Suc)
  show ?thesis
    using property_map_reads[OF ok, of "''e''" 0 "''x''" "''y''"] get by (simp add: contains_key_def)
qed

end
