(* ===== verification/JsObject.thy ===== *)
theory JsObject
  imports PropertyMap
begin

text \<open>
  The ordinary object of \<^verbatim>\<open>crates/w3cos-core/src/object.rs\<close> on top of the property storage: own and
  inherited lookup, accessors stored under prefixed keys, definition, deletion, enumerability and the
  prototype link, with the cached flag that says whether any own accessor may exist.

  Objects live in a table; an entry that is absent is a handle of a page that was reset (\<open>is_live\<close>
  is false).  Looking a key up along the prototypes has no bound in the source, so it is a partial
  function whose \<open>None\<close> is a lookup that does not return.  A trap of a proxy is code of the
  embedder: an operation that hands over to one is \<open>Trapped\<close>.  The accounting of bytes depends on
  allocator capacities and is left out here; it has its own theory.
\<close>

subsection \<open>Objects\<close>

datatype Trap =
    TrapGet | TrapSet | TrapHas | TrapDelete | TrapOwnKeys | TrapDescriptor | TrapDefine
  | TrapGetPrototype | TrapSetPrototype | TrapIsExtensible | TrapPreventExtensions

datatype 'a Access = Trapped Trap | Direct 'a

datatype PrivateElement =
    PrivateField Value | PrivateMethod Value | PrivateAccessor "Value option" "Value option"

record RareObjectData =
  pending_class_initializers :: "(u64 \<times> Value \<times> Value) list"
  class_brand :: "u64 option"
  private_brands :: "u64 set"
  private_elements :: "u64 \<times> string \<rightharpoonup> PrivateElement"
  non_enumerable :: "string set"

record JsObject =
  properties :: PropertyMap
  prototype :: "nat option"
  proxy_handler :: "(Trap \<Rightarrow> bool) option"
  has_getter_properties :: bool
  call_slot :: "nat option"
  rare :: "RareObjectData option"

type_synonym Objects = "nat \<rightharpoonup> JsObject"

definition getter_prefix :: string where
  "getter_prefix = ''__w3cos_getter_''"

definition setter_prefix :: string where
  "setter_prefix = ''__w3cos_setter_''"

definition starts_with :: "string \<Rightarrow> string \<Rightarrow> bool" where
  "starts_with text p \<longleftrightarrow> take (length p) text = p"

definition has_getter_keys :: "PropertyMap \<Rightarrow> bool" where
  "has_getter_keys pm = any_key pm (\<lambda>k. starts_with k getter_prefix)"

definition object_new :: JsObject where
  "object_new = \<lparr> properties = pm_new, prototype = None, proxy_handler = None,
     has_getter_properties = False, call_slot = None, rare = None \<rparr>"

definition from_interned_map :: "(string, Value) mapping \<Rightarrow> JsObject" where
  "from_interned_map m = (let props = from_interned_hashmap m in
     \<lparr> properties = props, prototype = None, proxy_handler = None,
       has_getter_properties = has_getter_keys props, call_slot = None, rare = None \<rparr>)"

definition with_proxy :: "(string, Value) mapping \<Rightarrow> (Trap \<Rightarrow> bool) \<Rightarrow> JsObject" where
  "with_proxy m handler = (from_interned_map m)\<lparr>proxy_handler := Some handler\<rparr>"

definition with_call_slot :: "(string, Value) mapping \<Rightarrow> nat \<Rightarrow> JsObject" where
  "with_call_slot m f = (from_interned_map m)\<lparr>call_slot := Some f\<rparr>"

definition rare_default :: RareObjectData where
  "rare_default = \<lparr> pending_class_initializers = [], class_brand = None, private_brands = {},
     private_elements = Map.empty, non_enumerable = {} \<rparr>"

definition ensure_rare :: "JsObject \<Rightarrow> RareObjectData" where
  "ensure_rare obj = (case rare obj of None \<Rightarrow> rare_default | Some r \<Rightarrow> r)"

definition traps :: "JsObject \<Rightarrow> Trap \<Rightarrow> bool" where
  "traps obj t = (case proxy_handler obj of None \<Rightarrow> False | Some handler \<Rightarrow> handler t)"

definition access :: "JsObject \<Rightarrow> Trap \<Rightarrow> 'a \<Rightarrow> 'a Access" where
  "access obj t x = (if traps obj t then Trapped t else Direct x)"

subsection \<open>Own properties\<close>

definition own_key_enumerable :: "JsObject \<Rightarrow> string \<Rightarrow> bool" where
  "own_key_enumerable obj key =
     (case rare obj of None \<Rightarrow> True | Some r \<Rightarrow> key \<notin> non_enumerable r)"

definition has_own_property :: "JsObject \<Rightarrow> string \<Rightarrow> bool" where
  "has_own_property obj key =
     contains_key_or_prefixed (properties obj) key getter_prefix setter_prefix"

definition own_property_enumerability :: "JsObject \<Rightarrow> string \<Rightarrow> bool option" where
  "own_property_enumerability obj key =
     (if has_own_property obj key then Some (own_key_enumerable obj key) else None)"

definition accessor_key :: "string \<Rightarrow> string \<Rightarrow> string" where
  "accessor_key prefix key =
     (let total = length prefix + length key
      in if total > 96 then prefix @ key
         else take total (copy_at (length prefix) key (copy_at 0 prefix (replicate 96 (CHR 0x00)))))"

definition own_getter :: "JsObject \<Rightarrow> string \<Rightarrow> Value option" where
  "own_getter obj key =
     (if \<not> has_getter_properties obj then None
      else pm_get (properties obj) (accessor_key getter_prefix key))"

definition own_setter :: "JsObject \<Rightarrow> string \<Rightarrow> Value option" where
  "own_setter obj key = pm_get (properties obj) (accessor_key setter_prefix key)"

definition own_data :: "JsObject \<Rightarrow> string \<Rightarrow> Value option" where
  "own_data obj key = pm_get (properties obj) key"

text \<open>\<^verbatim>\<open>properties.keys().map(..).collect()\<close>: the iterator run to its end.\<close>

function collect_keys :: "PropertyMap \<Rightarrow> nat \<Rightarrow> string list" where
  "collect_keys pm i = (case keys_next pm i of None \<Rightarrow> [] | Some (k, j) \<Rightarrow> k # collect_keys pm j)"
  by pat_completeness auto

termination collect_keys
  by (relation "measure (\<lambda>(pm, i). (case pm of None \<Rightarrow> 0 | Some (Inline n _) \<Rightarrow> n
        | Some (Spilled _ order) \<Rightarrow> length order) - i)")
    (auto simp: keys_next_def split: option.splits PropertyStore.splits if_splits)

declare collect_keys.simps [simp del]

definition object_keys :: "JsObject \<Rightarrow> string list" where
  "object_keys obj = collect_keys (properties obj) 0"

definition own_keys :: "JsObject \<Rightarrow> string list Access" where
  "own_keys obj = access obj TrapOwnKeys (object_keys obj)"

definition get_own_property_descriptor ::
  "JsObject \<Rightarrow> string \<Rightarrow> (string \<rightharpoonup> Value) option Access" where
  "get_own_property_descriptor obj key = access obj TrapDescriptor (
     let enumerable = VBool (own_key_enumerable obj key)
     in case pm_get (properties obj) key of
       Some v \<Rightarrow> Some [''value'' \<mapsto> v, ''writable'' \<mapsto> VBool True, ''enumerable'' \<mapsto> enumerable,
                   ''configurable'' \<mapsto> VBool True]
     | None \<Rightarrow>
         (let getter = pm_get (properties obj) (getter_prefix @ key);
              setter = pm_get (properties obj) (setter_prefix @ key)
          in if getter = None \<and> setter = None then None
             else Some (Map.empty(''get'' := getter, ''set'' := setter, ''enumerable'' \<mapsto> enumerable,
                    ''configurable'' \<mapsto> VBool True))))"

subsection \<open>Along the prototypes\<close>

partial_function (option) get_direct :: "Objects \<Rightarrow> JsObject \<Rightarrow> string \<Rightarrow> Value option" where
  "get_direct objects obj key = (case pm_get (properties obj) key of
     Some v \<Rightarrow> Some v
   | None \<Rightarrow>
       if own_getter obj key \<noteq> None then Some VUndefined
       else (case Option.bind (prototype obj) objects of
         None \<Rightarrow> Some VUndefined
       | Some proto \<Rightarrow> get_direct objects proto key))"

partial_function (option) has_direct :: "Objects \<Rightarrow> JsObject \<Rightarrow> string \<Rightarrow> bool option" where
  "has_direct objects obj key =
     (if contains_key (properties obj) key then Some True
      else (case Option.bind (prototype obj) objects of
        None \<Rightarrow> Some False
      | Some proto \<Rightarrow> has_direct objects proto key))"

partial_function (option) may_have_getter_properties :: "Objects \<Rightarrow> JsObject \<Rightarrow> bool option" where
  "may_have_getter_properties objects obj =
     (if has_getter_properties obj then Some True
      else (case Option.bind (prototype obj) objects of
        None \<Rightarrow> Some False
      | Some proto \<Rightarrow> may_have_getter_properties objects proto))"

definition object_get :: "Objects \<Rightarrow> JsObject \<Rightarrow> string \<Rightarrow> Value option Access" where
  "object_get objects obj key = access obj TrapGet (get_direct objects obj key)"

definition object_has :: "Objects \<Rightarrow> JsObject \<Rightarrow> string \<Rightarrow> bool option Access" where
  "object_has objects obj key = access obj TrapHas (has_direct objects obj key)"

subsection \<open>Changes\<close>

definition set_direct :: "string \<Rightarrow> Value \<Rightarrow> JsObject \<Rightarrow> JsObject" where
  "set_direct key v obj =
     (let obj = (if starts_with key getter_prefix then obj\<lparr>has_getter_properties := True\<rparr> else obj)
      in obj\<lparr>properties := snd (pm_insert key v (properties obj))\<rparr>)"

definition object_set :: "string \<Rightarrow> Value \<Rightarrow> JsObject \<Rightarrow> (bool \<times> JsObject) Access" where
  "object_set key v obj = access obj TrapSet (True, set_direct key v obj)"

definition copy_properties_from :: "JsObject \<Rightarrow> JsObject \<Rightarrow> bool \<times> JsObject" where
  "copy_properties_from template obj =
     (if \<not> pm_is_empty (properties obj) \<or> proxy_handler obj \<noteq> None then (False, obj)
      else (True, obj\<lparr>properties := properties template,
        has_getter_properties := has_getter_properties obj \<or> has_getter_properties template\<rparr>))"

definition object_delete :: "string \<Rightarrow> JsObject \<Rightarrow> (bool \<times> JsObject) Access" where
  "object_delete key obj = access obj TrapDelete (True,
     case pm_remove key (properties obj) of
       (None, _) \<Rightarrow> obj
     | (Some _, props) \<Rightarrow> obj
         \<lparr>properties := props,
          rare := map_option (\<lambda>r. r\<lparr>non_enumerable := non_enumerable r - {key}\<rparr>) (rare obj),
          has_getter_properties :=
            (if starts_with key getter_prefix then has_getter_keys props
             else has_getter_properties obj)\<rparr>)"

definition set_enumerable :: "string \<Rightarrow> bool \<Rightarrow> JsObject \<Rightarrow> JsObject" where
  "set_enumerable key enumerable obj =
     (if enumerable
      then obj\<lparr>rare := map_option (\<lambda>r. r\<lparr>non_enumerable := non_enumerable r - {key}\<rparr>) (rare obj)\<rparr>
      else obj\<lparr>rare := Some ((ensure_rare obj)\<lparr>non_enumerable :=
             insert key (non_enumerable (ensure_rare obj))\<rparr>)\<rparr>)"

definition insert_property :: "string \<Rightarrow> Value \<Rightarrow> JsObject \<Rightarrow> JsObject" where
  "insert_property key v obj = obj\<lparr>properties := snd (pm_insert key v (properties obj))\<rparr>"

definition remove_property :: "string \<Rightarrow> JsObject \<Rightarrow> JsObject" where
  "remove_property key obj = obj\<lparr>properties := snd (pm_remove key (properties obj))\<rparr>"

text \<open>The descriptor is an object's own data: \<open>None\<close> when the argument is not an object.\<close>

definition define_property_direct ::
  "(Value \<Rightarrow> bool) \<Rightarrow> string \<Rightarrow> PropertyMap option \<Rightarrow> JsObject \<Rightarrow> bool \<times> JsObject" where
  "define_property_direct truthy key descriptor obj = (True, case descriptor of
     None \<Rightarrow> obj
   | Some desc \<Rightarrow>
       (let obj1 = (case pm_get desc ''value'' of None \<Rightarrow> obj
              | Some v \<Rightarrow> remove_property (setter_prefix @ key)
                           (remove_property (getter_prefix @ key) (insert_property key v obj)));
            obj2 = (case pm_get desc ''get'' of None \<Rightarrow> obj1
              | Some getter \<Rightarrow> (insert_property (getter_prefix @ key) getter (remove_property key obj1))
                                 \<lparr>has_getter_properties := True\<rparr>);
            obj3 = (case pm_get desc ''set'' of None \<Rightarrow> obj2
              | Some setter \<Rightarrow> insert_property (setter_prefix @ key) setter (remove_property key obj2))
        in case pm_get desc ''enumerable'' of None \<Rightarrow> obj3
           | Some enumerable \<Rightarrow> set_enumerable key (truthy enumerable) obj3))"

definition define_property ::
  "(Value \<Rightarrow> bool) \<Rightarrow> string \<Rightarrow> PropertyMap option \<Rightarrow> JsObject \<Rightarrow> (bool \<times> JsObject) Access" where
  "define_property truthy key descriptor obj =
     access obj TrapDefine (define_property_direct truthy key descriptor obj)"

subsection \<open>The prototype link\<close>

definition live_prototype :: "Objects \<Rightarrow> JsObject \<Rightarrow> nat option" where
  "live_prototype objects obj = (case prototype obj of
     None \<Rightarrow> None | Some p \<Rightarrow> if objects p = None then None else Some p)"

definition untrapped_prototype :: "Objects \<Rightarrow> JsObject \<Rightarrow> nat option option" where
  "untrapped_prototype objects obj =
     (if traps obj TrapGetPrototype then None else Some (live_prototype objects obj))"

definition get_prototype_of :: "Objects \<Rightarrow> JsObject \<Rightarrow> nat option Access" where
  "get_prototype_of objects obj = access obj TrapGetPrototype (live_prototype objects obj)"

text \<open>The argument is an object (its handle), null, or another value, which is refused.\<close>

datatype PrototypeArgument = ObjectArgument nat | NullArgument | OtherArgument

definition set_prototype_direct :: "PrototypeArgument \<Rightarrow> JsObject \<Rightarrow> bool \<times> JsObject" where
  "set_prototype_direct proto obj = (case proto of
     ObjectArgument p \<Rightarrow> (True, obj\<lparr>prototype := Some p\<rparr>)
   | NullArgument \<Rightarrow> (True, obj\<lparr>prototype := None\<rparr>)
   | OtherArgument \<Rightarrow> (False, obj))"

definition set_prototype_of :: "PrototypeArgument \<Rightarrow> JsObject \<Rightarrow> (bool \<times> JsObject) Access" where
  "set_prototype_of proto obj = access obj TrapSetPrototype (set_prototype_direct proto obj)"

definition is_extensible :: "JsObject \<Rightarrow> bool Access" where
  "is_extensible obj = access obj TrapIsExtensible True"

definition prevent_extensions :: "JsObject \<Rightarrow> bool Access" where
  "prevent_extensions obj = access obj TrapPreventExtensions False"

text \<open>The copy of an object that traps get as their target.\<close>

definition target_value :: "JsObject \<Rightarrow> JsObject" where
  "target_value obj = obj
     \<lparr>proxy_handler := None,
      rare := map_option (\<lambda>r. rare_default\<lparr>class_brand := class_brand r,
        non_enumerable := non_enumerable r\<rparr>) (rare obj)\<rparr>"

subsection \<open>Well-formed objects\<close>

text \<open>Without the flag there is no own accessor to find.\<close>

definition object_ok :: "JsObject \<Rightarrow> bool" where
  "object_ok obj \<longleftrightarrow> pm_ok (properties obj) \<and>
     (has_getter_keys (properties obj) \<longrightarrow> has_getter_properties obj)"

lemma accessor_key_append [simp]: "accessor_key p k = p @ k"
  by (simp add: accessor_key_def copy_at_def Let_def)

lemma starts_with_append [simp]: "starts_with (p @ k) p"
  by (simp add: starts_with_def)

lemma setter_not_getter [simp]: "\<not> starts_with (setter_prefix @ k) getter_prefix"
  by (simp add: starts_with_def setter_prefix_def getter_prefix_def)

lemma prefixes_differ [simp]:
  "getter_prefix @ k \<noteq> setter_prefix @ k'" "setter_prefix @ k' \<noteq> getter_prefix @ k"
  "getter_prefix @ k \<noteq> k" "setter_prefix @ k \<noteq> k"
  by (simp_all add: setter_prefix_def getter_prefix_def)

lemma prefixes [simp]:
  "getter_prefix \<noteq> []" "setter_prefix \<noteq> []" "setter_prefix \<noteq> getter_prefix"
  by (simp_all add: setter_prefix_def getter_prefix_def)

lemma pm_get_new [simp]: "pm_get pm_new k = None"
  by (simp add: pm_get_def pm_new_def)

lemma has_getter_keys_iff:
  "has_getter_keys pm \<longleftrightarrow> (\<exists>k\<in>fst ` set (entries_of pm). starts_with k getter_prefix)"
  by (simp add: has_getter_keys_def any_key_entries)

lemma has_getter_keys_insert:
  "pm_ok pm \<Longrightarrow> has_getter_keys (snd (pm_insert k v pm)) \<longleftrightarrow>
     has_getter_keys pm \<or> starts_with k getter_prefix"
  by (auto simp: has_getter_keys_iff pm.insert dom_update)

lemma has_getter_keys_remove:
  "pm_ok pm \<Longrightarrow> has_getter_keys (snd (pm_remove k pm)) \<Longrightarrow> has_getter_keys pm"
  by (force simp: has_getter_keys_iff pm.remove AList.delete_eq)

lemma own_getter_exact:
  assumes "object_ok obj"
  shows "own_getter obj key = pm_get (properties obj) (getter_prefix @ key)"
proof (cases "has_getter_properties obj")
  case False
  then have "\<not> has_getter_keys (properties obj)" using assms by (auto simp: object_ok_def)
  then have "getter_prefix @ key \<notin> fst ` set (entries_of (properties obj))"
    using starts_with_append has_getter_keys_iff by blast
  then have "pm_get (properties obj) (getter_prefix @ key) = None"
    using assms by (simp add: object_ok_def pm_get_entries map_of_eq_None_iff)
  with False show ?thesis by (simp add: own_getter_def)
qed (simp add: own_getter_def)

lemma object_ok_new: "object_ok object_new"
  by (simp add: object_ok_def object_new_def has_getter_keys_iff)

lemma object_ok_from_map: "finite (Mapping.keys m) \<Longrightarrow> object_ok (from_interned_map m)"
  by (simp add: object_ok_def from_interned_map_def from_interned_hashmap_entries Let_def)

lemma object_ok_insert:
  "object_ok obj \<Longrightarrow> \<not> starts_with k getter_prefix \<or> has_getter_properties obj \<Longrightarrow>
   object_ok (insert_property k v obj)"
  by (auto simp: object_ok_def insert_property_def pm.insert_ok has_getter_keys_insert)

lemma object_ok_remove: "object_ok obj \<Longrightarrow> object_ok (remove_property k obj)"
  using has_getter_keys_remove by (auto simp: object_ok_def remove_property_def pm.remove_ok)

lemma object_ok_set: "object_ok obj \<Longrightarrow> object_ok (set_direct key v obj)"
  by (auto simp: object_ok_def set_direct_def pm.insert_ok has_getter_keys_insert Let_def)

lemma object_ok_copy:
  "object_ok obj \<Longrightarrow> object_ok template \<Longrightarrow> object_ok (snd (copy_properties_from template obj))"
  by (auto simp: object_ok_def copy_properties_from_def)

lemma object_ok_delete:
  assumes "object_ok obj" "object_delete key obj = Direct (b, obj')"
  shows "object_ok obj'"
proof -
  have "pm_ok (snd (pm_remove key (properties obj)))"
    "has_getter_keys (snd (pm_remove key (properties obj))) \<Longrightarrow> has_getter_properties obj"
    using assms(1) has_getter_keys_remove[of "properties obj" key] by (auto simp: object_ok_def pm.remove_ok)
  then show ?thesis
    using assms
    by (cases "pm_remove key (properties obj)")
      (auto simp: object_delete_def access_def object_ok_def split: if_splits option.splits)
qed

lemma object_ok_flag: "object_ok obj \<Longrightarrow> object_ok (obj\<lparr>has_getter_properties := True\<rparr>)"
  by (simp add: object_ok_def)

lemma object_ok_rare: "object_ok (obj\<lparr>rare := r\<rparr>) = object_ok obj"
  by (simp add: object_ok_def)

lemma object_ok_getter:
  "object_ok obj \<Longrightarrow> object_ok ((insert_property k v obj)\<lparr>has_getter_properties := True\<rparr>)"
  by (simp add: object_ok_def insert_property_def pm.insert_ok)

lemma object_ok_define:
  assumes "object_ok obj" "\<not> starts_with key getter_prefix"
  shows "object_ok (snd (define_property_direct truthy key descriptor obj))"
  using assms
  by (auto simp: define_property_direct_def Let_def set_enumerable_def object_ok_rare
      intro!: object_ok_insert object_ok_remove object_ok_getter split: option.split)

text \<open>
  C19. The accessor flag: starting from the constructors, every operation on an object keeps its storage
  well formed and the flag on whenever an own accessor key exists, except a definition whose own key
  looks like an internal accessor key; so the fast path of \<open>own_getter\<close> misses no accessor.
\<close>

theorem accessor_flag_invariant:
  assumes "object_ok obj" "object_ok template" "\<not> starts_with key getter_prefix"
  shows "own_getter obj k = pm_get (properties obj) (getter_prefix @ k) \<and>
    object_ok (set_direct k v obj) \<and> object_ok (snd (copy_properties_from template obj)) \<and>
    object_ok (snd (define_property_direct truthy key descriptor obj)) \<and>
    (\<forall>b obj'. object_delete k obj = Direct (b, obj') \<longrightarrow> object_ok obj')"
  using assms
  by (auto intro: own_getter_exact object_ok_set object_ok_copy object_ok_define object_ok_delete)

definition getter_object :: JsObject where
  "getter_object = set_direct (getter_prefix @ ''x'') (VFunction 0) object_new"

lemma getter_object_ok: "object_ok getter_object"
  by (simp add: getter_object_def object_ok_set object_ok_new)

lemma accessor_flag_invariant_witness:
  "own_getter getter_object ''x'' = Some (VFunction 0)"
  using accessor_flag_invariant[OF getter_object_ok object_ok_new, of "''y''" "''x''"]
  by (simp add: getter_object_def set_direct_def Let_def pm.get_insert object_new_def starts_with_def
      getter_prefix_def)

subsection \<open>Definition, lookup and deletion\<close>

definition value_descriptor :: "Value \<Rightarrow> PropertyMap" where
  "value_descriptor v = snd (pm_insert ''value'' v pm_new)"

definition accessor_descriptor :: "Value \<Rightarrow> Value \<Rightarrow> PropertyMap" where
  "accessor_descriptor g s = snd (pm_insert ''set'' s (snd (pm_insert ''get'' g pm_new)))"

lemma descriptor_gets [simp]:
  "pm_get (value_descriptor v) k = (if k = ''value'' then Some v else None)"
  "pm_get (accessor_descriptor g s) k =
     (if k = ''set'' then Some s else if k = ''get'' then Some g else None)"
  by (auto simp: value_descriptor_def accessor_descriptor_def pm.get_insert pm.insert_ok)

lemma get_property_simps [simp]:
  "object_ok obj \<Longrightarrow> pm_get (properties (insert_property k v obj)) k' =
     (if k = k' then Some v else pm_get (properties obj) k')"
  "object_ok obj \<Longrightarrow> pm_get (properties (remove_property k obj)) k' =
     (if k = k' then None else pm_get (properties obj) k')"
  by (simp_all add: insert_property_def remove_property_def object_ok_def pm.get_insert pm.get_remove)

text \<open>
  Redefining a property: a value descriptor makes the key own data with that value and removes both
  accessors of it; a getter or setter descriptor removes the data and stores the accessors; every other
  key, accessor keys included, keeps its value.
\<close>

theorem define_property_replaces:
  assumes "object_ok obj" "\<not> starts_with key getter_prefix"
  shows "let obj' = snd (define_property_direct truthy key (Some (value_descriptor v)) obj);
      obj'' = snd (define_property_direct truthy key (Some (accessor_descriptor g s)) obj)
    in own_data obj' key = Some v \<and> own_getter obj' key = None \<and> own_setter obj' key = None \<and>
       own_data obj'' key = None \<and> own_getter obj'' key = Some g \<and> own_setter obj'' key = Some s \<and>
       (\<forall>k. k \<notin> {key, getter_prefix @ key, setter_prefix @ key} \<longrightarrow>
          own_data obj' k = own_data obj k \<and> own_data obj'' k = own_data obj k)"
proof -
  have ok: "object_ok (insert_property key v obj)" "object_ok (remove_property (getter_prefix @ key) (insert_property key v obj))"
    "object_ok (remove_property key obj)" "object_ok ((insert_property (getter_prefix @ key) g (remove_property key obj))
       \<lparr>has_getter_properties := True\<rparr>)"
    using assms by (auto intro!: object_ok_insert object_ok_remove object_ok_getter)
  have getters: "own_getter (snd (define_property_direct truthy key d obj)) key =
      pm_get (properties (snd (define_property_direct truthy key d obj))) (getter_prefix @ key)" for d
    by (rule own_getter_exact[OF object_ok_define[OF assms]])
  show ?thesis
    using ok assms(1) object_ok_remove[OF ok(4), of key]
    unfolding Let_def getters
    by (simp add: define_property_direct_def own_data_def own_setter_def)
qed

lemma define_property_replaces_witness:
  "own_data (snd (define_property_direct (\<lambda>_. True) ''x'' (Some (value_descriptor VNull)) getter_object)) ''x''
     = Some VNull"
  using define_property_replaces[OF getter_object_ok, of "''x''"]
  by (simp add: Let_def starts_with_def getter_prefix_def)

text \<open>The objects a lookup passes, from the first prototype to the last live one.\<close>

fun prototype_path :: "Objects \<Rightarrow> JsObject \<Rightarrow> JsObject list \<Rightarrow> bool" where
  "prototype_path objects obj [] \<longleftrightarrow> Option.bind (prototype obj) objects = None"
| "prototype_path objects obj (p # ps) \<longleftrightarrow>
     Option.bind (prototype obj) objects = Some p \<and> prototype_path objects p ps"

definition decides :: "string \<Rightarrow> JsObject \<Rightarrow> bool" where
  "decides key obj \<longleftrightarrow> own_data obj key \<noteq> None \<or> own_getter obj key \<noteq> None"

lemma get_direct_step:
  "get_direct objects obj key =
     (if decides key obj then Some (case own_data obj key of Some v \<Rightarrow> v | None \<Rightarrow> VUndefined)
      else case Option.bind (prototype obj) objects of
        None \<Rightarrow> Some VUndefined | Some proto \<Rightarrow> get_direct objects proto key)"
  by (subst get_direct.simps) (auto simp: decides_def own_data_def split: option.split)

lemma has_direct_step:
  "has_direct objects obj key =
     (if own_data obj key \<noteq> None then Some True
      else case Option.bind (prototype obj) objects of
        None \<Rightarrow> Some False | Some proto \<Rightarrow> has_direct objects proto key)"
  by (subst has_direct.simps) (simp add: own_data_def contains_key_def)

lemma lookup_get:
  "prototype_path objects obj ps \<Longrightarrow>
   get_direct objects obj key = Some (case find (decides key) (obj # ps) of
      None \<Rightarrow> VUndefined | Some o1 \<Rightarrow> (case own_data o1 key of Some v \<Rightarrow> v | None \<Rightarrow> VUndefined))"
  by (induction objects obj ps rule: prototype_path.induct)
    (simp_all add: get_direct_step split: option.split)

lemma lookup_has:
  "prototype_path objects obj ps \<Longrightarrow>
   has_direct objects obj key = Some (\<exists>o1\<in>set (obj # ps). own_data o1 key \<noteq> None)"
  by (induction objects obj ps rule: prototype_path.induct) (simp_all add: has_direct_step)

text \<open>
  Inherited lookup: on a finite prototype chain, \<open>get_direct\<close> and \<open>has_direct\<close> return, the former
  with the data of the nearest object that has data or a getter for the key (undefined for a getter,
  which the caller then invokes), and undefined at the end of the chain.
\<close>

theorem lookup_along_prototypes:
  assumes "prototype_path objects obj ps"
  shows "get_direct objects obj key = Some (case find (decides key) (obj # ps) of
      None \<Rightarrow> VUndefined | Some o1 \<Rightarrow> (case own_data o1 key of Some v \<Rightarrow> v | None \<Rightarrow> VUndefined)) \<and>
    has_direct objects obj key = Some (\<exists>o1\<in>set (obj # ps). own_data o1 key \<noteq> None)"
  using lookup_get[OF assms] lookup_has[OF assms] by blast

lemma lookup_along_prototypes_witness:
  "get_direct [0 \<mapsto> set_direct ''y'' VNull object_new] (getter_object\<lparr>prototype := Some 0\<rparr>) ''y'' =
     Some VNull"
  using lookup_along_prototypes[of "[0 \<mapsto> set_direct ''y'' VNull object_new]"
      "getter_object\<lparr>prototype := Some 0\<rparr>" "[set_direct ''y'' VNull object_new]" "''y''"]
  by (simp add: decides_def own_data_def own_getter_def getter_object_def set_direct_def Let_def
      pm.get_insert object_new_def starts_with_def getter_prefix_def accessor_key_append)

lemma collect_keys_entries:
  "pm_ok pm \<Longrightarrow> collect_keys pm i = map fst (drop i (entries_of pm))"
proof (induction pm i rule: collect_keys.induct)
  case (1 pm i)
  show ?case
  proof (cases "i < length (entries_of pm)")
    case True
    then have "drop i (entries_of pm) = entries_of pm ! i # drop (i + 1) (entries_of pm)"
      by (simp add: Cons_nth_drop_Suc)
    with True 1 show ?thesis
      by (subst collect_keys.simps) (simp add: keys_next_entries)
  next
    case False
    with 1 show ?thesis by (subst collect_keys.simps) (simp add: keys_next_entries)
  qed
qed

lemma object_keys_entries: "object_ok obj \<Longrightarrow> object_keys obj = map fst (entries_of (properties obj))"
  by (simp add: object_keys_def object_ok_def collect_keys_entries)

text \<open>
  Deleting own data removes exactly that key: it is no longer read, all other keys keep their values
  and their order, and a later property of the same name is enumerable again.
\<close>

theorem delete_removes_key:
  assumes "object_ok obj" "own_data obj key \<noteq> None" "object_delete key obj = Direct (b, obj')"
  shows "b \<and> object_keys obj' = List.filter (\<lambda>k. k \<noteq> key) (object_keys obj) \<and>
    (\<forall>k. own_data obj' k = (if k = key then None else own_data obj k)) \<and>
    own_key_enumerable obj' key"
proof -
  obtain v props where removed: "pm_remove key (properties obj) = (Some v, props)"
    using assms(1,2) pm.remove[of "properties obj" key]
    by (cases "pm_remove key (properties obj)") (auto simp: object_ok_def own_data_def pm_get_entries)
  then have props: "props = snd (pm_remove key (properties obj))" by simp
  have obj': "properties obj' = props"
    using assms(3) removed by (auto simp: object_delete_def access_def split: if_splits)
  have pm: "pm_ok (properties obj)" using assms(1) by (simp add: object_ok_def)
  have "object_keys obj' = List.filter (\<lambda>k. k \<noteq> key) (object_keys obj)"
    using object_keys_entries[OF object_ok_delete[OF assms(1,3)]] object_keys_entries[OF assms(1)]
    by (simp only: obj' props pm.keys_remove[OF pm])
  moreover have "own_data obj' k = (if k = key then None else own_data obj k)" for k
    by (simp add: own_data_def obj' props pm.get_remove[OF pm])
  moreover have "own_key_enumerable obj' key"
    using assms(3) removed
    by (auto simp: object_delete_def access_def own_key_enumerable_def split: if_splits option.split)
  moreover have b
    using assms(3) by (simp add: object_delete_def access_def split: if_splits)
  ultimately show ?thesis by simp
qed

definition ab_object :: JsObject where
  "ab_object = set_direct ''b'' VNull (set_direct ''a'' VNull object_new)"

lemma ab_object_ok: "object_ok ab_object"
  by (simp add: ab_object_def object_ok_set object_ok_new)

lemma ab_object_facts:
  "properties ab_object = snd (pm_insert ''b'' VNull (snd (pm_insert ''a'' VNull pm_new)))"
  "proxy_handler ab_object = None"
  by (simp_all add: ab_object_def set_direct_def object_new_def Let_def starts_with_def getter_prefix_def)

lemma delete_removes_key_witness:
  "case object_delete ''a'' ab_object of Direct (_, obj') \<Rightarrow> object_keys obj' = [''b''] | Trapped _ \<Rightarrow> False"
proof -
  obtain obj' where del: "object_delete ''a'' ab_object = Direct (True, obj')"
    by (simp add: object_delete_def access_def traps_def ab_object_facts)
  have "object_keys ab_object = [''a'', ''b'']"
    using object_keys_entries[OF ab_object_ok]
    by (simp add: ab_object_facts pm.insert_ok pm.insert)
  moreover have "own_data ab_object ''a'' \<noteq> None"
    by (simp add: own_data_def ab_object_facts pm.get_insert pm.insert_ok)
  ultimately show ?thesis
    using delete_removes_key[OF ab_object_ok _ del] by (simp add: del)
qed

text \<open>
  C22. Accessors and \<open>delete\<close> or \<open>in\<close>: on an object without a proxy handler, for a key that has a getter
  but no data, \<open>delete\<close> answers true and leaves the object as it is, and, where no object of its
  (finite) prototype chain has data of that name, \<open>in\<close> answers false, although the key is an own
  property.
\<close>

theorem accessor_survives_delete:
  assumes "object_ok obj" "own_getter obj key \<noteq> None" "own_data obj key = None"
    and "proxy_handler obj = None" "prototype_path objects obj ps"
    and "\<forall>p\<in>set ps. own_data p key = None"
  shows "has_own_property obj key \<and> object_delete key obj = Direct (True, obj) \<and>
    object_has objects obj key = Direct (Some False)"
proof -
  have pm: "pm_ok (properties obj)" using assms(1) by (simp add: object_ok_def)
  have "pm_get (properties obj) (getter_prefix @ key) \<noteq> None"
    using assms(2) own_getter_exact[OF assms(1)] by simp
  then have "has_own_property obj key"
    using pm by (simp add: has_own_property_def contains_prefixed_entries pm_get_entries map_of_eq_None_iff)
  moreover have "fst (pm_remove key (properties obj)) = None"
    using assms(3) pm by (simp add: pm.remove own_data_def pm_get_entries)
  moreover have "has_direct objects obj key = Some False"
    using lookup_has[OF assms(5), of key] assms(3,6) by simp
  ultimately show ?thesis
    using assms(4)
    by (cases "pm_remove key (properties obj)")
      (simp add: object_delete_def object_has_def access_def traps_def)
qed

lemma accessor_survives_delete_witness:
  "object_delete ''x'' getter_object = Direct (True, getter_object)"
proof -
  have "own_getter getter_object ''x'' \<noteq> None" "own_data getter_object ''x'' = None"
    "proxy_handler getter_object = None" "prototype_path Map.empty getter_object []"
    by (simp_all add: own_getter_exact[OF getter_object_ok])
      (simp_all add: getter_object_def set_direct_def object_new_def own_data_def Let_def pm.get_insert)
  then show ?thesis
    using accessor_survives_delete[OF getter_object_ok] by fastforce
qed

text \<open>
  C23. Prototype cycles are not refused: an object may be made its own prototype, and then the lookup of
  a key it does not have never returns.
\<close>

theorem own_prototype_diverges:
  assumes "set_prototype_direct (ObjectArgument i) obj = (ok, obj')" "objects i = Some obj'"
    and "\<not> decides key obj"
  shows "ok \<and> get_direct objects obj' key = None"
proof -
  have obj': "ok" "prototype obj' = Some i" "\<not> decides key obj'"
    using assms(1,3) by (auto simp: set_prototype_direct_def decides_def own_data_def own_getter_def)
  have "o1 \<noteq> obj' \<or> os \<noteq> objects \<or> k \<noteq> key" if "get_direct os o1 k = Some v" for os o1 k v
    using that
  proof (rule get_direct.raw_induct[rotated])
    fix rec os o1 k v
    assume IH: "\<And>os o1 k v. rec os o1 k = Some v \<Longrightarrow> o1 \<noteq> obj' \<or> os \<noteq> objects \<or> k \<noteq> key"
      and "(case pm_get (properties o1) k of Some v \<Rightarrow> Some v
        | None \<Rightarrow> if own_getter o1 k \<noteq> None then Some VUndefined
          else (case Option.bind (prototype o1) os of None \<Rightarrow> Some VUndefined
            | Some proto \<Rightarrow> rec os proto k)) = Some v"
    then show "o1 \<noteq> obj' \<or> os \<noteq> objects \<or> k \<noteq> key"
      using obj' assms(2) IH[of objects obj' key v]
      by (auto simp: decides_def own_data_def split: option.splits if_splits)
  qed
  then show ?thesis
    using obj'(1) by (cases "get_direct objects obj' key") auto
qed

lemma own_prototype_diverges_witness:
  "get_direct [0 \<mapsto> object_new\<lparr>prototype := Some 0\<rparr>] (object_new\<lparr>prototype := Some 0\<rparr>) ''x'' = None"
  using own_prototype_diverges[of 0 object_new True "object_new\<lparr>prototype := Some 0\<rparr>"
      "[0 \<mapsto> object_new\<lparr>prototype := Some 0\<rparr>]" "''x''"]
  by (simp add: set_prototype_direct_def decides_def own_data_def own_getter_def object_new_def)

end
