(* ===== verification/HeapAccounting.thy ===== *)
theory HeapAccounting
  imports W3Prelude
begin

text \<open>
  The heap accounting of \<^verbatim>\<open>crates/w3cos-core/src/heap.rs\<close>: one set of counters for the thread, one for
  each owner, the owner allocations are charged to at the moment, and the ticket inside each
  allocation.  The counters saturate; the theorems say when they are exact.

  \<open>Rc<RefCell<HeapCounters>>\<close> is an index into the table of owners, a ticket an index into the table
  of tickets, where a dropped one is \<open>None\<close>.  \<open>usize\<close> has 64 bits, so its conversion to \<open>u64\<close> never
  fails.
\<close>

subsection \<open>Counters\<close>

datatype HeapKind = ObjectKind | ArrayKind | FunctionKind

definition kind_index :: "HeapKind \<Rightarrow> nat" where
  "kind_index k = (case k of ObjectKind \<Rightarrow> 0 | ArrayKind \<Rightarrow> 1 | FunctionKind \<Rightarrow> 2)"

record HeapCounters =
  live_bytes :: usize
  peak_live_bytes :: usize
  live_by_kind :: "usize list"
  total_allocations :: u64
  total_allocated_bytes :: u64

definition counters_default :: HeapCounters where
  "counters_default = \<lparr> live_bytes = 0, peak_live_bytes = 0, live_by_kind = [0, 0, 0],
     total_allocations = 0, total_allocated_bytes = 0 \<rparr>"

record HeapSnapshot =
  snap_live_bytes :: usize
  snap_peak_live_bytes :: usize
  live_objects :: usize
  live_arrays :: usize
  live_functions :: usize
  snap_total_allocations :: u64
  snap_total_allocated_bytes :: u64

definition saturating_add :: "'a::len word \<Rightarrow> 'a word \<Rightarrow> 'a word" where
  "saturating_add a b = (if a + b < a then - 1 else a + b)"

definition saturating_sub :: "'a::len word \<Rightarrow> 'a word \<Rightarrow> 'a word" where
  "saturating_sub a b = (if a < b then 0 else a - b)"

definition counters_snapshot :: "HeapCounters \<Rightarrow> HeapSnapshot" where
  "counters_snapshot c = \<lparr> snap_live_bytes = live_bytes c, snap_peak_live_bytes = peak_live_bytes c,
     live_objects = live_by_kind c ! kind_index ObjectKind,
     live_arrays = live_by_kind c ! kind_index ArrayKind,
     live_functions = live_by_kind c ! kind_index FunctionKind,
     snap_total_allocations = total_allocations c,
     snap_total_allocated_bytes = total_allocated_bytes c \<rparr>"

definition live_allocations :: "HeapSnapshot \<Rightarrow> usize" where
  "live_allocations s = saturating_add (saturating_add (live_objects s) (live_arrays s)) (live_functions s)"

definition allocate :: "HeapKind \<Rightarrow> usize \<Rightarrow> HeapCounters \<Rightarrow> HeapCounters" where
  "allocate kind n c =
     (let by_kind = (live_by_kind c)[kind_index kind := saturating_add (live_by_kind c ! kind_index kind) 1];
          live = saturating_add (live_bytes c) n
      in c\<lparr>live_by_kind := by_kind, live_bytes := live, peak_live_bytes := max (peak_live_bytes c) live,
           total_allocations := saturating_add (total_allocations c) 1,
           total_allocated_bytes := saturating_add (total_allocated_bytes c) n\<rparr>)"

definition resize :: "usize \<Rightarrow> usize \<Rightarrow> HeapCounters \<Rightarrow> HeapCounters" where
  "resize old_bytes new_bytes c =
     (if new_bytes \<ge> old_bytes
      then (let growth = new_bytes - old_bytes; live = saturating_add (live_bytes c) growth
            in c\<lparr>live_bytes := live, peak_live_bytes := max (peak_live_bytes c) live,
                 total_allocated_bytes := saturating_add (total_allocated_bytes c) growth\<rparr>)
      else c\<lparr>live_bytes := saturating_sub (live_bytes c) (old_bytes - new_bytes)\<rparr>)"

definition deallocate :: "HeapKind \<Rightarrow> usize \<Rightarrow> HeapCounters \<Rightarrow> HeapCounters" where
  "deallocate kind n c = c
     \<lparr>live_by_kind := (live_by_kind c)[kind_index kind := saturating_sub (live_by_kind c ! kind_index kind) 1],
      live_bytes := saturating_sub (live_bytes c) n\<rparr>"

subsection \<open>Owners and tickets\<close>

record HeapAllocation =
  allocation_kind :: HeapKind
  cache_dirty :: bool
  allocation_bytes :: usize
  allocation_owner :: "nat option"

record HeapAccounts =
  global_heap :: HeapCounters
  owners :: "HeapCounters list"
  heap_current :: "nat option"
  tickets :: "HeapAllocation option list"

definition accounts_start :: HeapAccounts where
  "accounts_start = \<lparr> global_heap = counters_default, owners = [], heap_current = None, tickets = [] \<rparr>"

definition owner_new :: "HeapAccounts \<Rightarrow> nat \<times> HeapAccounts" where
  "owner_new s = (length (owners s), s\<lparr>owners := owners s @ [counters_default]\<rparr>)"

text \<open>\<open>HeapOwner::enter\<close> gives a scope that remembers the previous owner; its drop restores it.\<close>

definition owner_enter :: "nat \<Rightarrow> HeapAccounts \<Rightarrow> nat option \<times> HeapAccounts" where
  "owner_enter i s = (heap_current s, s\<lparr>heap_current := Some i\<rparr>)"

definition scope_drop :: "nat option \<Rightarrow> HeapAccounts \<Rightarrow> HeapAccounts" where
  "scope_drop previous s = s\<lparr>heap_current := previous\<rparr>"

text \<open>The counters of the thread, and of the owner if there is one.\<close>

definition charge :: "(HeapCounters \<Rightarrow> HeapCounters) \<Rightarrow> nat option \<Rightarrow> HeapAccounts \<Rightarrow> HeapAccounts" where
  "charge f owner s =
     (let s = s\<lparr>global_heap := f (global_heap s)\<rparr>
      in case owner of None \<Rightarrow> s | Some i \<Rightarrow> s\<lparr>owners := (owners s)[i := f (owners s ! i)]\<rparr>)"

definition allocation_new :: "HeapKind \<Rightarrow> usize \<Rightarrow> HeapAccounts \<Rightarrow> nat \<times> HeapAccounts" where
  "allocation_new kind n s =
     (let owner = heap_current s; s = charge (allocate kind n) owner s
      in (length (tickets s), s\<lparr>tickets := tickets s @
            [Some \<lparr> allocation_kind = kind, cache_dirty = False, allocation_bytes = n, allocation_owner = owner \<rparr>]\<rparr>))"

definition set_bytes :: "nat \<Rightarrow> usize \<Rightarrow> HeapAccounts \<Rightarrow> HeapAccounts" where
  "set_bytes i new_bytes s = (case tickets s ! i of
     None \<Rightarrow> s
   | Some a \<Rightarrow>
       (let old_bytes = allocation_bytes a;
            s = s\<lparr>tickets := (tickets s)[i := Some (a\<lparr>allocation_bytes := new_bytes\<rparr>)]\<rparr>
        in if old_bytes = new_bytes then s
           else charge (resize old_bytes new_bytes) (allocation_owner a) s))"

definition allocation_drop :: "nat \<Rightarrow> HeapAccounts \<Rightarrow> HeapAccounts" where
  "allocation_drop i s = (case tickets s ! i of
     None \<Rightarrow> s
   | Some a \<Rightarrow> charge (deallocate (allocation_kind a) (allocation_bytes a)) (allocation_owner a)
       (s\<lparr>tickets := (tickets s)[i := None]\<rparr>))"

definition heap_snapshot :: "HeapAccounts \<Rightarrow> HeapSnapshot" where
  "heap_snapshot s = counters_snapshot (global_heap s)"

definition owner_snapshot :: "nat \<Rightarrow> HeapAccounts \<Rightarrow> HeapSnapshot" where
  "owner_snapshot i s = counters_snapshot (owners s ! i)"

subsection \<open>Exact counters\<close>

lemma unat_saturating_add:
  "unat a + unat b < 2 ^ LENGTH('a) \<Longrightarrow> unat (saturating_add a b) = unat a + unat b" for a b :: "'a::len word"
  using unat_add_lem[of a b] unat_plus_simple[of a b]
  by (auto simp: saturating_add_def linorder_not_less[symmetric])

lemma unat_saturating_sub: "unat (saturating_sub a b) = unat a - unat b"
  by (simp add: saturating_sub_def unat_sub word_less_nat_alt linorder_not_less word_le_nat_alt)

lemma kind_index_less [simp]: "kind_index k < 3"
  by (cases k) (simp_all add: kind_index_def)

lemma kind_index_eq [simp]: "kind_index k = kind_index k' \<longleftrightarrow> k = k'"
  by (cases k; cases k') (simp_all add: kind_index_def)

definition counters_exact :: "HeapCounters \<Rightarrow> nat \<Rightarrow> (HeapKind \<Rightarrow> nat) \<Rightarrow> bool" where
  "counters_exact c held counts \<longleftrightarrow>
     unat (live_bytes c) = held \<and> length (live_by_kind c) = 3 \<and>
     (\<forall>k. unat (live_by_kind c ! kind_index k) = counts k) \<and> live_bytes c \<le> peak_live_bytes c"

lemma exact_default: "counters_exact counters_default 0 (\<lambda>_. 0)"
proof -
  have "[0, 0, 0] ! kind_index k = (0 :: usize)" for k
    by (cases k) (simp_all add: kind_index_def)
  then show ?thesis by (simp add: counters_exact_def counters_default_def)
qed

lemma exact_allocate:
  assumes "counters_exact c held counts" "held + unat n < 2 ^ 64" "counts kind + 1 < 2 ^ 64"
  shows "counters_exact (allocate kind n c) (held + unat n) (counts(kind := counts kind + 1))"
  using assms
  by (auto simp: counters_exact_def allocate_def Let_def unat_saturating_add nth_list_update max_def)

lemma exact_resize:
  assumes "counters_exact c held counts" "unat old \<le> held" "held - unat old + unat new < 2 ^ 64"
  shows "counters_exact (resize old new c) (held - unat old + unat new) counts"
proof (cases "old \<le> new")
  case True
  then have "unat (live_bytes c) + unat (new - old) < 2 ^ 64" "unat (new - old) = unat new - unat old"
    using assms by (auto simp: counters_exact_def unat_sub word_le_nat_alt)
  with True assms show ?thesis
    by (auto simp: counters_exact_def resize_def Let_def unat_saturating_add max_def word_le_nat_alt)
next
  case False
  then have "unat (old - new) = unat old - unat new"
    by (simp add: unat_sub word_le_nat_alt linorder_not_le word_less_nat_alt)
  with False assms show ?thesis
    by (auto simp: counters_exact_def resize_def unat_saturating_sub word_le_nat_alt)
qed

lemma exact_deallocate:
  assumes "counters_exact c held counts" "unat n \<le> held"
  shows "counters_exact (deallocate kind n c) (held - unat n) (counts(kind := counts kind - 1))"
  using assms
  by (auto simp: counters_exact_def deallocate_def unat_saturating_sub nth_list_update word_le_nat_alt)

subsection \<open>Sums over the tickets\<close>

text \<open>A domain is the whole thread (\<open>None\<close>) or an owner.\<close>

definition bytes_in :: "nat option \<Rightarrow> HeapAllocation option \<Rightarrow> nat" where
  "bytes_in d t = (case t of None \<Rightarrow> 0
     | Some a \<Rightarrow> if d = None \<or> allocation_owner a = d then unat (allocation_bytes a) else 0)"

definition count_in :: "nat option \<Rightarrow> HeapKind \<Rightarrow> HeapAllocation option \<Rightarrow> nat" where
  "count_in d k t = (case t of None \<Rightarrow> 0
     | Some a \<Rightarrow> if (d = None \<or> allocation_owner a = d) \<and> allocation_kind a = k then 1 else 0)"

definition bytes_of :: "HeapAccounts \<Rightarrow> nat option \<Rightarrow> nat" where
  "bytes_of s d = sum_list (map (bytes_in d) (tickets s))"

definition count_of :: "HeapAccounts \<Rightarrow> nat option \<Rightarrow> HeapKind \<Rightarrow> nat" where
  "count_of s d k = sum_list (map (count_in d k) (tickets s))"

definition domain :: "HeapAccounts \<Rightarrow> nat option \<Rightarrow> bool" where
  "domain s d \<longleftrightarrow> (\<forall>i. d = Some i \<longrightarrow> i < length (owners s))"

definition counters_in :: "HeapAccounts \<Rightarrow> nat option \<Rightarrow> HeapCounters" where
  "counters_in s d = (case d of None \<Rightarrow> global_heap s | Some i \<Rightarrow> owners s ! i)"

definition accounts_ok :: "HeapAccounts \<Rightarrow> bool" where
  "accounts_ok s \<longleftrightarrow> domain s (heap_current s) \<and>
     (\<forall>a. Some a \<in> set (tickets s) \<longrightarrow> domain s (allocation_owner a)) \<and>
     (\<forall>d. domain s d \<longrightarrow> counters_exact (counters_in s d) (bytes_of s d) (count_of s d))"

lemma bytes_le_thread: "bytes_of s d \<le> bytes_of s None"
  unfolding bytes_of_def by (rule sum_list_mono) (simp add: bytes_in_def split: option.split)

lemma count_le: "count_of s d k \<le> length (tickets s)"
proof -
  have "count_of s d k \<le> sum_list (map (\<lambda>_. 1) (tickets s))"
    unfolding count_of_def by (rule sum_list_mono) (simp add: count_in_def split: option.split)
  then show ?thesis by (simp add: sum_list_triv)
qed

lemma bytes_in_le: "i < length (tickets s) \<Longrightarrow> bytes_in d (tickets s ! i) \<le> bytes_of s d"
  unfolding bytes_of_def by (metis elem_le_sum_list length_map nth_map)

lemma count_in_le: "i < length (tickets s) \<Longrightarrow> count_in d k (tickets s ! i) \<le> count_of s d k"
  unfolding count_of_def by (metis elem_le_sum_list length_map nth_map)

lemma bytes_of_update:
  "i < length (tickets s) \<Longrightarrow> bytes_of (s\<lparr>tickets := (tickets s)[i := t]\<rparr>) d =
     bytes_of s d - bytes_in d (tickets s ! i) + bytes_in d t"
  using bytes_in_le[of i s d] unfolding bytes_of_def by (simp add: map_update sum_list_update)

lemma count_of_update:
  "i < length (tickets s) \<Longrightarrow> count_of (s\<lparr>tickets := (tickets s)[i := t]\<rparr>) d k =
     count_of s d k - count_in d k (tickets s ! i) + count_in d k t"
  using count_in_le[of i s d k] unfolding count_of_def by (simp add: map_update sum_list_update)

lemma charge_sels [simp]:
  "tickets (charge f owner s) = tickets s" "heap_current (charge f owner s) = heap_current s"
  "domain (charge f owner s) d = domain s d"
  by (simp_all add: charge_def domain_def Let_def split: option.split)

lemma charge_counters:
  "domain s d \<Longrightarrow> domain s owner \<Longrightarrow> counters_in (charge f owner s) d =
     (if d = None \<or> d = owner then f (counters_in s d) else counters_in s d)"
  by (auto simp: charge_def counters_in_def domain_def nth_list_update Let_def split: option.split)

lemma charge_sums [simp]:
  "bytes_of (charge f owner s) d = bytes_of s d" "count_of (charge f owner s) d = count_of s d"
  by (simp_all add: bytes_of_def count_of_def fun_eq_iff)

subsection \<open>Every operation keeps the counters exact\<close>

definition room :: "HeapAccounts \<Rightarrow> nat \<Rightarrow> bool" where
  "room s n \<longleftrightarrow> bytes_of s None + n < 2 ^ 64 \<and> length (tickets s) + 1 < 2 ^ 64"

lemma room_domain:
  assumes "room s n"
  shows "bytes_of s d + n < 2 ^ 64" "count_of s d k + 1 < 2 ^ 64"
  using assms bytes_le_thread[of s d] count_le[of s d k] by (auto simp: room_def)

lemma bytes_of_append: "bytes_of (s\<lparr>tickets := tickets s @ [t]\<rparr>) d = bytes_of s d + bytes_in d t"
  by (simp add: bytes_of_def)

lemma count_of_append: "count_of (s\<lparr>tickets := tickets s @ [t]\<rparr>) d k = count_of s d k + count_in d k t"
  by (simp add: count_of_def)

lemma tickets_only [simp]:
  "domain (s\<lparr>tickets := ts\<rparr>) d = domain s d" "counters_in (s\<lparr>tickets := ts\<rparr>) d = counters_in s d"
  "domain (s\<lparr>heap_current := h\<rparr>) d = domain s d" "counters_in (s\<lparr>heap_current := h\<rparr>) d = counters_in s d"
  "bytes_of (s\<lparr>heap_current := h\<rparr>) d = bytes_of s d" "count_of (s\<lparr>heap_current := h\<rparr>) d = count_of s d"
  by (simp_all add: domain_def counters_in_def bytes_of_def count_of_def fun_eq_iff split: option.split)

lemma accounts_okD:
  assumes "accounts_ok s"
  shows "domain s (heap_current s)"
    and "Some a \<in> set (tickets s) \<Longrightarrow> domain s (allocation_owner a)"
    and "domain s d \<Longrightarrow> counters_exact (counters_in s d) (bytes_of s d) (count_of s d)"
  using assms by (auto simp: accounts_ok_def)

lemma ok_start: "accounts_ok accounts_start"
proof -
  have "bytes_of accounts_start d = 0" "count_of accounts_start d = (\<lambda>_. 0)" for d
    by (simp_all add: bytes_of_def count_of_def accounts_start_def fun_eq_iff)
  then show ?thesis
    using exact_default by (auto simp: accounts_ok_def accounts_start_def domain_def counters_in_def)
qed

lemma ok_owner_new:
  assumes "accounts_ok s" shows "accounts_ok (snd (owner_new s))"
proof -
  let ?s = "snd (owner_new s)" and ?n = "length (owners s)"
  have none: "bytes_in (Some ?n) t = 0" "count_in (Some ?n) k t = 0" if "t \<in> set (tickets s)" for t k
    using accounts_okD(2)[OF assms] that
    by (auto simp: bytes_in_def count_in_def domain_def split: option.split)
  then have new: "bytes_of s (Some ?n) = 0" "count_of s (Some ?n) = (\<lambda>_. 0)"
    by (auto simp: bytes_of_def count_of_def fun_eq_iff)
  have same: "bytes_of ?s d = bytes_of s d" "count_of ?s d = count_of s d" "tickets ?s = tickets s"
    "heap_current ?s = heap_current s" for d
    by (simp_all add: owner_new_def bytes_of_def count_of_def fun_eq_iff)
  have grown: "domain ?s d \<longleftrightarrow> domain s d \<or> d = Some ?n" for d
    by (cases d) (auto simp: domain_def owner_new_def)
  have old: "counters_in ?s d = counters_in s d" if "domain s d" for d
    using that by (auto simp: counters_in_def owner_new_def domain_def nth_append split: option.split)
  have added: "counters_in ?s (Some ?n) = counters_default"
    by (simp add: counters_in_def owner_new_def)
  show ?thesis
    using accounts_okD[OF assms] exact_default
    by (auto simp: accounts_ok_def same grown old added new)
qed

lemma ok_owner_enter: "accounts_ok s \<Longrightarrow> i < length (owners s) \<Longrightarrow> accounts_ok (snd (owner_enter i s))"
  by (auto simp: accounts_ok_def owner_enter_def domain_def counters_in_def bytes_of_def count_of_def
      cong: option.case_cong)

lemma ok_scope_drop: "accounts_ok s \<Longrightarrow> domain s previous \<Longrightarrow> accounts_ok (scope_drop previous s)"
  by (auto simp: accounts_ok_def scope_drop_def)

lemma ok_allocation_new:
  assumes ok: "accounts_ok s" and fits: "room s (unat n)"
  shows "accounts_ok (snd (allocation_new kind n s))"
proof -
  let ?f = "allocate kind n" and ?o = "heap_current s"
  let ?t = "Some \<lparr>allocation_kind = kind, cache_dirty = False, allocation_bytes = n, allocation_owner = ?o\<rparr>"
  have new: "snd (allocation_new kind n s) = (charge ?f ?o s)\<lparr>tickets := tickets s @ [?t]\<rparr>"
    by (simp add: allocation_new_def Let_def)
  let ?s = "(charge ?f ?o s)\<lparr>tickets := tickets s @ [?t]\<rparr>"
  have sums: "bytes_of ?s d = bytes_of s d + bytes_in d ?t"
    "count_of ?s d = (\<lambda>k. count_of s d k + count_in d k ?t)" for d
    using bytes_of_append[of "charge ?f ?o s" ?t d] count_of_append[of "charge ?f ?o s" ?t d]
    by (simp_all add: fun_eq_iff)
  have "counters_exact (if d = None \<or> d = ?o then ?f (counters_in s d) else counters_in s d)
      (bytes_of s d + bytes_in d ?t) (\<lambda>k. count_of s d k + count_in d k ?t)" if "domain s d" for d
  proof (cases "d = None \<or> d = ?o")
    case True
    have "(\<lambda>k. count_of s d k + count_in d k ?t) = (count_of s d)(kind := count_of s d kind + 1)"
      using True by (auto simp: count_in_def)
    moreover have "bytes_in d ?t = unat n" using True by (auto simp: bytes_in_def)
    ultimately show ?thesis
      using exact_allocate[OF accounts_okD(3)[OF ok that] room_domain[OF fits]] True by simp
  next
    case False
    then have "bytes_in d ?t = 0" "\<And>k. count_in d k ?t = 0" by (auto simp: bytes_in_def count_in_def)
    with False show ?thesis using accounts_okD(3)[OF ok that] by auto
  qed
  moreover have "counters_in ?s d = (if d = None \<or> d = ?o then ?f (counters_in s d) else counters_in s d)"
    if "domain s d" for d
    using charge_counters[OF that accounts_okD(1)[OF ok], of ?f] by simp
  ultimately have "\<forall>d. domain s d \<longrightarrow> counters_exact (counters_in ?s d) (bytes_of ?s d) (count_of ?s d)"
    unfolding sums by simp
  then show ?thesis
    unfolding new using accounts_okD(1,2)[OF ok] by (auto simp: accounts_ok_def)
qed

lemma ticket_in:
  assumes "i < length (tickets s)" "tickets s ! i = Some a"
  shows "Some a \<in> set (tickets s)"
  using assms by (metis nth_mem)

lemma ok_ticket_update:
  assumes ok: "accounts_ok s" and i: "i < length (tickets s)" and a: "tickets s ! i = Some a"
    and new: "\<And>b. t = Some b \<Longrightarrow> allocation_owner b = allocation_owner a"
    and changed: "\<And>d. domain s d \<Longrightarrow> d = None \<or> d = allocation_owner a \<Longrightarrow>
      counters_exact (f (counters_in s d)) (bytes_of s d - unat (allocation_bytes a) + bytes_in d t)
        (\<lambda>k. count_of s d k - count_in d k (Some a) + count_in d k t)"
  shows "accounts_ok (charge f (allocation_owner a) (s\<lparr>tickets := (tickets s)[i := t]\<rparr>))"
    (is "accounts_ok (charge f ?o ?s)")
proof -
  note owner = accounts_okD(2)[OF ok ticket_in[OF i a]]
  have "counters_exact (counters_in (charge f ?o ?s) d) (bytes_of ?s d) (count_of ?s d)"
    if d: "domain s d" for d
  proof -
    have counters: "counters_in (charge f ?o ?s) d =
        (if d = None \<or> d = ?o then f (counters_in s d) else counters_in s d)"
      using charge_counters[of ?s d ?o f] d owner by simp
    have count: "count_of ?s d = (\<lambda>k. count_of s d k - count_in d k (Some a) + count_in d k t)"
      using count_of_update[OF i] a by (simp add: fun_eq_iff)
    show ?thesis
    proof (cases "d = None \<or> d = ?o")
      case True
      then have "bytes_in d (Some a) = unat (allocation_bytes a)" by (auto simp: bytes_in_def)
      then show ?thesis
        using changed[OF d True] True bytes_of_update[OF i, of t d] a by (simp add: counters count)
    next
      case False
      then have "bytes_in d (Some a) = 0" "bytes_in d t = 0" "\<And>k. count_in d k (Some a) = 0"
        "\<And>k. count_in d k t = 0"
        using new by (auto simp: bytes_in_def count_in_def split: option.split)
      then show ?thesis
        using False accounts_okD(3)[OF ok d] bytes_of_update[OF i, of t d] a
        by (auto simp: counters count)
    qed
  qed
  moreover have "domain s (allocation_owner b)" if "Some b \<in> set ((tickets s)[i := t])" for b
    using that new owner accounts_okD(2)[OF ok] set_update_subset_insert[of "tickets s" i t]
    by (cases "t = Some b") auto
  ultimately show ?thesis
    using accounts_okD(1)[OF ok] by (auto simp: accounts_ok_def)
qed

lemma ok_set_bytes:
  assumes ok: "accounts_ok s" and i: "i < length (tickets s)" and fits: "room s (unat n)"
  shows "accounts_ok (set_bytes i n s)"
proof (cases "tickets s ! i")
  case None
  with ok show ?thesis by (simp add: set_bytes_def)
next
  case (Some a)
  let ?t = "Some (a\<lparr>allocation_bytes := n\<rparr>)" and ?old = "allocation_bytes a"
  have "counters_exact (resize ?old n (counters_in s d)) (bytes_of s d - unat ?old + bytes_in d ?t)
      (\<lambda>k. count_of s d k - count_in d k (Some a) + count_in d k ?t)"
    if d: "domain s d" and o: "d = None \<or> d = allocation_owner a" for d
  proof -
    have "bytes_in d ?t = unat n" "bytes_in d (Some a) = unat ?old"
      using o by (auto simp: bytes_in_def)
    moreover have "(\<lambda>k. count_of s d k - count_in d k (Some a) + count_in d k ?t) = count_of s d"
      using count_in_le[OF i, of d] Some by (simp add: fun_eq_iff count_in_def)
    ultimately show ?thesis
      using exact_resize[OF accounts_okD(3)[OF ok d], of ?old n] bytes_in_le[OF i, of d] Some
        room_domain(1)[OF fits, of d] by simp
  qed
  from ok_ticket_update[where t = ?t and f = "resize ?old n", OF ok i Some _ this]
  have "accounts_ok (charge (resize ?old n) (allocation_owner a)
      (s\<lparr>tickets := (tickets s)[i := ?t]\<rparr>))" by simp
  moreover have "(tickets s)[i := ?t] = tickets s" if "?old = n"
    using Some that by (simp add: list_update_same_conv i)
  ultimately show ?thesis
    using ok Some by (auto simp: set_bytes_def Let_def)
qed

lemma ok_allocation_drop:
  assumes ok: "accounts_ok s" and i: "i < length (tickets s)"
  shows "accounts_ok (allocation_drop i s)"
proof (cases "tickets s ! i")
  case None
  with ok show ?thesis by (simp add: allocation_drop_def)
next
  case (Some a)
  let ?f = "deallocate (allocation_kind a) (allocation_bytes a)"
  have "counters_exact (?f (counters_in s d)) (bytes_of s d - unat (allocation_bytes a) + bytes_in d None)
      (\<lambda>k. count_of s d k - count_in d k (Some a) + count_in d k None)"
    if d: "domain s d" and o: "d = None \<or> d = allocation_owner a" for d
  proof -
    have "bytes_in d (Some a) = unat (allocation_bytes a)"
      "(\<lambda>k. count_of s d k - count_in d k (Some a)) =
        (count_of s d)(allocation_kind a := count_of s d (allocation_kind a) - 1)"
      using o by (auto simp: bytes_in_def count_in_def fun_eq_iff)
    then show ?thesis
      using exact_deallocate[OF accounts_okD(3)[OF ok d], of "allocation_bytes a" "allocation_kind a"]
        bytes_in_le[OF i, of d] Some by (simp add: bytes_in_def count_in_def)
  qed
  from ok_ticket_update[where t = None and f = ?f, OF ok i Some _ this] Some show ?thesis
    by (simp add: allocation_drop_def)
qed

subsection \<open>Reachable accounts\<close>

text \<open>
  Every sequence of the operations, with the scopes that are still open: an owner is entered, a
  scope dropped (in any order), an allocation made, resized or dropped.  Allocations stay within
  the \<open>2 ^ 64\<close> bytes a machine has.
\<close>

inductive accounted :: "HeapAccounts \<Rightarrow> nat option list \<Rightarrow> bool" where
  start: "accounted accounts_start []"
| new_owner: "accounted s scopes \<Longrightarrow> accounted (snd (owner_new s)) scopes"
| enter: "accounted s scopes \<Longrightarrow> i < length (owners s) \<Longrightarrow>
    accounted (snd (owner_enter i s)) (fst (owner_enter i s) # scopes)"
| leave: "accounted s scopes \<Longrightarrow> p \<in> set scopes \<Longrightarrow> accounted (scope_drop p s) (remove1 p scopes)"
| alloc: "accounted s scopes \<Longrightarrow> room s (unat n) \<Longrightarrow> accounted (snd (allocation_new kind n s)) scopes"
| bytes: "accounted s scopes \<Longrightarrow> t < length (tickets s) \<Longrightarrow> room s (unat n) \<Longrightarrow>
    accounted (set_bytes t n s) scopes"
| drop: "accounted s scopes \<Longrightarrow> t < length (tickets s) \<Longrightarrow> accounted (allocation_drop t s) scopes"

lemma operation_owners [simp]:
  "length (owners (charge f owner s)) = length (owners s)"
  "length (owners (snd (allocation_new kind n s))) = length (owners s)"
  "length (owners (set_bytes t n s)) = length (owners s)"
  "length (owners (allocation_drop t s)) = length (owners s)"
  "length (owners (snd (owner_enter i s))) = length (owners s)"
  "length (owners (scope_drop p s)) = length (owners s)"
  "length (owners (snd (owner_new s))) = Suc (length (owners s))"
  by (simp_all add: charge_def allocation_new_def set_bytes_def allocation_drop_def owner_enter_def
      scope_drop_def owner_new_def Let_def split: option.split)

lemma accounted_ok: "accounted s scopes \<Longrightarrow> accounts_ok s \<and> (\<forall>p\<in>set scopes. domain s p)"
proof (induction rule: accounted.induct)
  case start
  show ?case by (simp add: ok_start)
next
  case (new_owner s scopes)
  then show ?case using ok_owner_new by (auto simp: domain_def less_Suc_eq)
next
  case (enter s scopes i)
  then show ?case
    using ok_owner_enter[of s i] accounts_okD(1) by (auto simp: domain_def owner_enter_def)
next
  case (leave s scopes p)
  then show ?case
    using ok_scope_drop[of s p] by (auto simp: domain_def dest: notin_set_remove1)
qed (auto simp: ok_allocation_new ok_set_bytes ok_allocation_drop domain_def)

text \<open>The tickets that are live in a domain, whatever their kind.\<close>

definition tickets_of :: "HeapAccounts \<Rightarrow> nat option \<Rightarrow> nat" where
  "tickets_of s d = length (filter (\<lambda>t. case t of None \<Rightarrow> False
     | Some a \<Rightarrow> d = None \<or> allocation_owner a = d) (tickets s))"

lemma kinds_partition:
  "count_of s d ObjectKind + count_of s d ArrayKind + count_of s d FunctionKind = tickets_of s d"
proof -
  have "sum_list (map (count_in d ObjectKind) ts) + sum_list (map (count_in d ArrayKind) ts)
      + sum_list (map (count_in d FunctionKind) ts) = length (filter (\<lambda>t. case t of None \<Rightarrow> False
        | Some a \<Rightarrow> d = None \<or> allocation_owner a = d) ts)" for ts
  proof (induction ts)
    case (Cons t ts)
    then show ?case
    proof (cases t)
      case (Some a)
      with Cons.IH show ?thesis by (cases "allocation_kind a") (auto simp: count_in_def)
    qed (simp add: count_in_def)
  qed simp
  then show ?thesis by (simp add: count_of_def tickets_of_def)
qed

lemma exact_snapshot:
  assumes ok: "accounts_ok s" and d: "domain s d" and fits: "length (tickets s) < 2 ^ 64"
  shows "unat (snap_live_bytes (counters_snapshot (counters_in s d))) = bytes_of s d"
    and "unat (live_allocations (counters_snapshot (counters_in s d))) = tickets_of s d"
proof -
  let ?c = "counters_in s d"
  have exact: "unat (live_bytes ?c) = bytes_of s d" "unat (live_by_kind ?c ! kind_index k) = count_of s d k"
    for k
    using accounts_okD(3)[OF ok d] by (simp_all add: counters_exact_def)
  then show "unat (snap_live_bytes (counters_snapshot ?c)) = bytes_of s d"
    by (simp add: counters_snapshot_def)
  have "tickets_of s d < 2 ^ 64"
    using fits length_filter_le[of _ "tickets s"] le_less_trans unfolding tickets_of_def by blast
  with exact show "unat (live_allocations (counters_snapshot ?c)) = tickets_of s d"
    using kinds_partition[of s d]
    by (simp add: live_allocations_def counters_snapshot_def unat_saturating_add)
qed

lemma reached_counters:
  assumes "accounted s scopes" "length (tickets s) < 2 ^ 64"
  shows "unat (snap_live_bytes (heap_snapshot s)) = bytes_of s None"
    and "unat (live_allocations (heap_snapshot s)) = tickets_of s None"
    and "i < length (owners s) \<Longrightarrow> unat (snap_live_bytes (owner_snapshot i s)) = bytes_of s (Some i)"
    and "i < length (owners s) \<Longrightarrow> unat (live_allocations (owner_snapshot i s)) = tickets_of s (Some i)"
  using exact_snapshot[of s None] exact_snapshot[of s "Some i"] accounted_ok[OF assms(1)] assms(2)
  by (simp_all add: heap_snapshot_def owner_snapshot_def counters_in_def domain_def)

text \<open>
  C18. In every reachable state the counters are exact, although each operation saturates: the live
  bytes of the thread are the sum over the live tickets, its live allocations their number, and an
  owner's snapshot counts exactly the tickets charged to it; so everything is back to zero once
  every ticket is dropped.
\<close>

theorem heap_counters_exact:
  assumes "accounted s scopes" "length (tickets s) < 2 ^ 64"
  shows "unat (snap_live_bytes (heap_snapshot s)) = bytes_of s None \<and>
    unat (live_allocations (heap_snapshot s)) = tickets_of s None \<and>
    (\<forall>i < length (owners s). unat (snap_live_bytes (owner_snapshot i s)) = bytes_of s (Some i) \<and>
      unat (live_allocations (owner_snapshot i s)) = tickets_of s (Some i)) \<and>
    (set (tickets s) \<subseteq> {None} \<longrightarrow> snap_live_bytes (heap_snapshot s) = 0 \<and>
      live_allocations (heap_snapshot s) = 0)"
proof -
  have "bytes_of s None = 0 \<and> tickets_of s None = 0" if none: "set (tickets s) \<subseteq> {None}"
  proof -
    have "x = None" if "x \<in> set (tickets s)" for x using none that by auto
    then show ?thesis
      by (fastforce simp: bytes_of_def tickets_of_def bytes_in_def filter_empty_conv)
  qed
  then show ?thesis
    using reached_counters[OF assms] by (auto simp: unat_eq_0[symmetric])
qed

text \<open>An owner, entered, an object of 40 bytes, and the scope left again.\<close>

definition example_accounts :: HeapAccounts where
  "example_accounts = scope_drop None (snd (allocation_new ObjectKind 40
     (snd (owner_enter 0 (snd (owner_new accounts_start))))))"

lemmas accounts_run_defs = owner_new_def owner_enter_def allocation_new_def scope_drop_def charge_def
  accounts_start_def set_bytes_def allocation_drop_def

lemma example_accounted: "accounted example_accounts []"
proof -
  let ?s = "snd (owner_enter 0 (snd (owner_new accounts_start)))"
  have "accounted ?s [None]"
    using accounted.enter[OF accounted.new_owner[OF accounted.start], of 0]
    by (simp add: owner_new_def owner_enter_def accounts_start_def)
  then have "accounted (snd (allocation_new ObjectKind 40 ?s)) [None]"
    by (rule accounted.alloc) (simp add: room_def bytes_of_def accounts_run_defs)
  from accounted.leave[OF this, of None] show ?thesis by (simp add: example_accounts_def)
qed

lemma heap_counters_exact_witness:
  "length (owners example_accounts) = 1 \<and> unat (snap_live_bytes (owner_snapshot 0 example_accounts)) = 40 \<and>
   unat (live_allocations (heap_snapshot example_accounts)) = 1"
proof -
  have "bytes_of example_accounts (Some 0) = 40" "tickets_of example_accounts None = 1"
    "length (tickets example_accounts) = 1" "length (owners example_accounts) = 1"
    by (simp_all add: example_accounts_def bytes_of_def tickets_of_def accounts_run_defs Let_def bytes_in_def)
  then show ?thesis using heap_counters_exact[OF example_accounted] by simp
qed

lemma allocation_new_simps:
  "fst (allocation_new kind n s) = length (tickets s)"
  "tickets (snd (allocation_new kind n s)) = tickets s @ [Some \<lparr>allocation_kind = kind,
     cache_dirty = False, allocation_bytes = n, allocation_owner = heap_current s\<rparr>]"
  "heap_current (snd (allocation_new kind n s)) = heap_current s"
  by (simp_all add: allocation_new_def Let_def)

text \<open>
  A ticket is charged to the owner that was current when it was made, for its whole life: made
  inside a scope of owner \<open>i\<close>, resized and dropped after the scope is left, it adds its size to that
  owner and takes the same amount away, no other owner sees it, and leaving the scope restores the
  owner that was current before.
\<close>

theorem ticket_charged_to_its_owner:
  assumes "accounted s scopes" "i < length (owners s)" "room s (unat n + unat m)"
    and "length (tickets s) + 2 < 2 ^ 64"
    and enter: "owner_enter i s = (previous, s1)" and new: "allocation_new kind n s1 = (t, s2)"
    and leave: "scope_drop previous s2 = s3"
    and set: "set_bytes t m s3 = s4" and drop: "allocation_drop t s4 = s5"
  shows "heap_current s3 = heap_current s \<and>
    unat (snap_live_bytes (owner_snapshot i s3)) = unat (snap_live_bytes (owner_snapshot i s)) + unat n \<and>
    unat (snap_live_bytes (owner_snapshot i s4)) = unat (snap_live_bytes (owner_snapshot i s)) + unat m \<and>
    snap_live_bytes (owner_snapshot i s5) = snap_live_bytes (owner_snapshot i s) \<and>
    (\<forall>j < length (owners s). j \<noteq> i \<longrightarrow>
       snap_live_bytes (owner_snapshot j s4) = snap_live_bytes (owner_snapshot j s))"
proof -
  let ?a = "\<lambda>b. \<lparr>allocation_kind = kind, cache_dirty = False, allocation_bytes = b, allocation_owner = Some i\<rparr>"
  have s1: "previous = heap_current s" "s1 = s\<lparr>heap_current := Some i\<rparr>"
    using enter by (auto simp: owner_enter_def)
  have s2: "s2 = snd (allocation_new kind n s1)" "t = length (tickets s)"
    using new allocation_new_simps(1)[of kind n s1] by (auto simp: s1)
  have tickets: "tickets s3 = tickets s @ [Some (?a n)]" "tickets s4 = tickets s @ [Some (?a m)]"
    "tickets s5 = tickets s @ [None]"
    using leave set drop
    by (auto simp: s2 allocation_new_simps s1 scope_drop_def set_bytes_def allocation_drop_def Let_def)
  have "accounted s1 (previous # scopes)"
    using accounted.enter[OF assms(1,2)] enter by simp
  moreover have rooms: "room s1 (unat n)" using assms(3) by (auto simp: room_def s1)
  ultimately have "accounted s2 (previous # scopes)" using accounted.alloc s2 by blast
  from accounted.leave[OF this, of previous] have r3: "accounted s3 scopes" using leave by simp
  have sums: "bytes_of s3 d = bytes_of s d + bytes_in d (Some (?a n))"
    "bytes_of s4 d = bytes_of s d + bytes_in d (Some (?a m))" "bytes_of s5 d = bytes_of s d" for d
    by (simp_all add: bytes_of_def tickets) (simp add: bytes_in_def)
  have "room s3 (unat m)" using assms(3,4) by (simp add: room_def sums tickets bytes_in_def)
  then have r4: "accounted s4 scopes"
    using accounted.bytes[OF r3, of t m] set by (simp add: tickets s2)
  have r5: "accounted s5 scopes"
    using accounted.drop[OF r4, of t] drop by (simp add: tickets s2)
  have owners: "length (owners s3) = length (owners s)" "length (owners s4) = length (owners s)"
    "length (owners s5) = length (owners s)"
    using leave set drop by (auto simp: s2 s1)
  have live: "unat (snap_live_bytes (owner_snapshot j s')) = bytes_of s' (Some j)"
    if "accounted s' scopes" "length (owners s') = length (owners s)" "j < length (owners s)"
      "length (tickets s') \<le> length (tickets s) + 1" for s' j
    using reached_counters(3)[OF that(1)] that assms(4) by simp
  have "heap_current s3 = heap_current s" using leave by (auto simp: scope_drop_def s1)
  then show ?thesis
    using live[OF r3] live[OF r4] live[OF r5] live[OF assms(1)] owners assms(2) sums
    by (auto simp: tickets bytes_in_def word_unat_eq_iff)
qed

lemma ticket_charged_to_its_owner_witness:
  "\<exists>s1 s2 s3 s4 s5. owner_enter 0 example_accounts = (None, s1) \<and> allocation_new ArrayKind 8 s1 = (1, s2) \<and>
     scope_drop None s2 = s3 \<and> set_bytes 1 24 s3 = s4 \<and> allocation_drop 1 s4 = s5 \<and>
     heap_current s3 = None \<and>
     unat (snap_live_bytes (owner_snapshot 0 s4)) = unat (snap_live_bytes (owner_snapshot 0 example_accounts)) + 24"
proof -
  have start: "length (owners example_accounts) = 1" "heap_current example_accounts = None"
    "length (tickets example_accounts) = 1"
    by (simp_all add: example_accounts_def accounts_run_defs Let_def)
  have room: "room example_accounts (unat (8 :: usize) + unat (24 :: usize))"
    by (simp add: room_def example_accounts_def bytes_of_def accounts_run_defs Let_def bytes_in_def)
  obtain s1 where s1: "owner_enter 0 example_accounts = (None, s1)" "tickets s1 = tickets example_accounts"
    by (simp add: owner_enter_def start)
  obtain s2 where s2: "allocation_new ArrayKind 8 s1 = (1, s2)"
    using start s1(2) by (cases "allocation_new ArrayKind 8 s1") (auto simp: allocation_new_def Let_def)
  from ticket_charged_to_its_owner[OF example_accounted _ room _ s1(1) s2 refl refl refl] start s1 s2
  show ?thesis by auto
qed

end
