(* ===== verification/PromiseModel.thy ===== *)
theory PromiseModel
  imports W3Prelude
begin

text \<open>
  Promises and the microtask queue of \<^verbatim>\<open>crates/w3cos-core/src/promise.rs\<close>.

  The shared \<open>Rc<RefCell<PromiseState>>\<close> is an index into the table \<open>promise_states\<close>; a promise object
  is \<open>PPromise i\<close>, any object through which the hidden state key of state \<open>i\<close> is found.  (The source
  finds the state by a numeric id in a weak table, which the methods of the object keep alive.)
  Every closure the file makes is a constructor of \<open>Callable\<close> with the variables it captures.

  Host code, compiled JavaScript included, is a parameter: a function of it is a \<open>Script\<close>, a tree that
  ends, reads or writes the host's own world, calls a value, or uses the promise interface and goes
  on with the answer.  A panic is an ending of its own; so is running out of fuel, which bounds the
  nesting of calls and the rounds of a drain, as neither is bounded in the source.
\<close>

subsection \<open>Values, reactions, states\<close>

datatype (plugins only: code) 'f PromiseValue =
    PUndefined | PNull | PNumber f64 | PString string
  | PError string     \<comment> \<open>\<open>js_error\<close>: an object with this message\<close>
  | PReferenceError string  \<comment> \<open>\<open>intrinsics::reference_error\<close>\<close>
  | PObject nat       \<comment> \<open>any other object of the host\<close>
  | PArray "'f PromiseValue list"
  | PPromise nat
  | PFunction "'f Callable"
and 'f Callable =
    ResolveFn nat | RejectFn nat | ThenFn nat | CatchFn nat | FinallyFn nat
  | FinallyFulfilled "'f PromiseValue" | FinallyRejected "'f PromiseValue"
  | AllFulfilled nat nat nat
  | ReactionJob "'f Reaction" bool "'f PromiseValue"
  | HostFunction 'f
and 'f Reaction =
    Reaction (on_fulfilled: "'f PromiseValue") (on_rejected: "'f PromiseValue") (next_state: nat)
      (realm_generation: u64)

datatype (plugins only: code) 'f PromiseState =
    Pending (callbacks: "'f Reaction list") | Fulfilled "'f PromiseValue" | Rejected "'f PromiseValue"

datatype (plugins only: code) 'f PromiseStatus =
    StatusPending | StatusFulfilled "'f PromiseValue" | StatusRejected "'f PromiseValue"

record 'f MicrotaskJob =
  job_callback :: "'f PromiseValue"
  job_generation :: u64

text \<open>The shared results and the counter of one call of \<open>Promise.all\<close> are an entry of \<open>all_calls\<close>.\<close>

record ('f, 'w) Promises =
  promise_states :: "'f PromiseState list"
  promise_microtasks :: "'f MicrotaskJob list"
  microtask_realm_generation :: u64
  all_calls :: "('f PromiseValue list \<times> usize) list"
  promise_world :: 'w

datatype (plugins only: code) 'f Payload = ThrownValue "'f PromiseValue" | ThrownText string | ThrownOther

datatype (plugins only: code) ('f, 'a) Ending = Normal 'a | Threw "'f Payload" | FuelOut

type_synonym ('f, 'w, 'a) run = "('f, 'w) Promises \<Rightarrow> ('f, 'a) Ending \<times> ('f, 'w) Promises"

datatype (plugins only: code) 'f Api =
    NewPromise "'f PromiseValue list" | ResolveValue "'f PromiseValue list"
  | RejectValue "'f PromiseValue list" | AllOf "'f PromiseValue list" | RaceOf "'f PromiseValue list"
  | QueueMicrotask "'f PromiseValue" | DrainMicrotasks | AdvanceRealm

text \<open>A request is what an operation may ask of the level of calls below it.\<close>

datatype (plugins only: code) 'f Request =
    Invoke "'f Callable" "'f PromiseValue" "'f PromiseValue list"
  | Perform "'f Api"

type_synonym ('f, 'w) invoker = "'f Request \<Rightarrow> ('f, 'w, 'f PromiseValue) run"

datatype (plugins only: code) ('f, 'w) Script =
    Finish "'f Payload + 'f PromiseValue"
  | ReadWorld "'w \<Rightarrow> ('f, 'w) Script"
  | WriteWorld 'w "('f, 'w) Script"
  | CallValue "'f PromiseValue" "'f PromiseValue" "'f PromiseValue list"
      "'f Payload + 'f PromiseValue \<Rightarrow> ('f, 'w) Script"
  | UseApi "'f Api" "'f Payload + 'f PromiseValue \<Rightarrow> ('f, 'w) Script"
  | AskStatus "'f PromiseValue" "'f PromiseStatus option \<Rightarrow> ('f, 'w) Script"

text \<open>The host: its functions, its callable objects, and how it reads the property \<open>then\<close> of an object.\<close>

record ('f, 'w) PromiseHost =
  host_function :: "'f \<Rightarrow> 'f PromiseValue \<Rightarrow> 'f PromiseValue list \<Rightarrow> ('f, 'w) Script"
  object_call_slot :: "nat \<Rightarrow> 'f option"
  object_then :: "nat \<Rightarrow> ('f, 'w) Script"

subsection \<open>Sequencing\<close>

definition run_ret :: "'a \<Rightarrow> ('f, 'w, 'a) run" where
  "run_ret x s = (Normal x, s)"

definition run_throw :: "'f Payload \<Rightarrow> ('f, 'w, 'a) run" where
  "run_throw p s = (Threw p, s)"

definition run_fuel_out :: "('f, 'w, 'a) run" where
  "run_fuel_out s = (FuelOut, s)"

definition run_bind :: "('f, 'w, 'a) run \<Rightarrow> ('a \<Rightarrow> ('f, 'w, 'b) run) \<Rightarrow> ('f, 'w, 'b) run" where
  "run_bind m f s = (case m s of
     (Normal x, s') \<Rightarrow> f x s' | (Threw p, s') \<Rightarrow> (Threw p, s') | (FuelOut, s') \<Rightarrow> (FuelOut, s'))"

definition run_catch :: "('f, 'w, 'a) run \<Rightarrow> ('f Payload + 'a \<Rightarrow> ('f, 'w, 'b) run) \<Rightarrow> ('f, 'w, 'b) run" where
  "run_catch m f s = (case m s of
     (Normal x, s') \<Rightarrow> f (Ok x) s' | (Threw p, s') \<Rightarrow> f (Err p) s' | (FuelOut, s') \<Rightarrow> (FuelOut, s'))"

definition run_gets :: "(('f, 'w) Promises \<Rightarrow> 'a) \<Rightarrow> ('f, 'w, 'a) run" where
  "run_gets f s = (Normal (f s), s)"

definition run_modify :: "(('f, 'w) Promises \<Rightarrow> ('f, 'w) Promises) \<Rightarrow> ('f, 'w, unit) run" where
  "run_modify f s = (Normal (), f s)"

definition run_state :: "(('f, 'w) Promises \<Rightarrow> 'a \<times> ('f, 'w) Promises) \<Rightarrow> ('f, 'w, 'a) run" where
  "run_state f s = (case f s of (x, s') \<Rightarrow> (Normal x, s'))"

definition run_seq :: "('f, 'w, 'a) run \<Rightarrow> ('f, 'w, 'b) run \<Rightarrow> ('f, 'w, 'b) run" where
  "run_seq m k = run_bind m (\<lambda>_. k)"

fun run_each :: "('a \<Rightarrow> ('f, 'w, unit) run) \<Rightarrow> 'a list \<Rightarrow> ('f, 'w, unit) run" where
  "run_each f [] = run_ret ()"
| "run_each f (x # xs) = run_seq (f x) (run_each f xs)"

lemmas run_defs = run_ret_def run_throw_def run_fuel_out_def run_bind_def run_catch_def run_gets_def
  run_modify_def run_state_def run_seq_def

subsection \<open>Values\<close>

definition arg :: "'f PromiseValue list \<Rightarrow> nat \<Rightarrow> 'f PromiseValue" where
  "arg args i = (if i < length args then args ! i else PUndefined)"

definition state_of :: "'f PromiseValue \<Rightarrow> nat option" where
  "state_of v = (case v of PPromise i \<Rightarrow> Some i | _ \<Rightarrow> None)"

definition value_is_object :: "'f PromiseValue \<Rightarrow> bool" where
  "value_is_object v = (case v of PObject _ \<Rightarrow> True | PError _ \<Rightarrow> True
     | PReferenceError _ \<Rightarrow> True | PPromise _ \<Rightarrow> True | _ \<Rightarrow> False)"

definition value_is_function :: "'f PromiseValue \<Rightarrow> bool" where
  "value_is_function v = (case v of PFunction _ \<Rightarrow> True | _ \<Rightarrow> False)"

definition payload_to_value :: "'f Payload \<Rightarrow> 'f PromiseValue" where
  "payload_to_value p = (case p of
     ThrownValue v \<Rightarrow> v
   | ThrownText message \<Rightarrow> PError message
   | ThrownOther \<Rightarrow> PError ''non-JS panic crossed a promise boundary'')"

text \<open>\<open>Value::call\<close>: calling something that is not callable gives undefined.\<close>

definition value_call ::
  "('f, 'w) PromiseHost \<Rightarrow> ('f, 'w) invoker \<Rightarrow> 'f PromiseValue \<Rightarrow> 'f PromiseValue \<Rightarrow>
     'f PromiseValue list \<Rightarrow> ('f, 'w, 'f PromiseValue) run" where
  "value_call H call v this args = (case v of
     PFunction f \<Rightarrow> call (Invoke f this args)
   | PObject i \<Rightarrow> (case object_call_slot H i of
       None \<Rightarrow> run_ret PUndefined | Some f \<Rightarrow> call (Invoke (HostFunction f) this args))
   | _ \<Rightarrow> run_ret PUndefined)"

subsection \<open>Settlement\<close>

definition state_at :: "('f, 'w) Promises \<Rightarrow> nat \<Rightarrow> 'f PromiseState" where
  "state_at s i = (if i < length (promise_states s) then promise_states s ! i else Pending [])"

definition is_pending :: "nat \<Rightarrow> ('f, 'w) Promises \<Rightarrow> bool" where
  "is_pending i s = (case state_at s i of Pending _ \<Rightarrow> True | _ \<Rightarrow> False)"

definition set_state :: "nat \<Rightarrow> 'f PromiseState \<Rightarrow> ('f, 'w) Promises \<Rightarrow> ('f, 'w) Promises" where
  "set_state i st s = s\<lparr>promise_states := (promise_states s)[i := st]\<rparr>"

definition pending_state :: "('f, 'w) Promises \<Rightarrow> nat \<times> ('f, 'w) Promises" where
  "pending_state s = (length (promise_states s), s\<lparr>promise_states := promise_states s @ [Pending []]\<rparr>)"

definition queue_microtask_for_generation ::
  "'f PromiseValue \<Rightarrow> u64 \<Rightarrow> ('f, 'w) Promises \<Rightarrow> ('f, 'w) Promises" where
  "queue_microtask_for_generation callback generation s =
     s\<lparr>promise_microtasks := promise_microtasks s @
         [\<lparr> job_callback = callback, job_generation = generation \<rparr>]\<rparr>"

definition schedule_reaction ::
  "bool \<Rightarrow> 'f PromiseValue \<Rightarrow> 'f Reaction \<Rightarrow> ('f, 'w) Promises \<Rightarrow> ('f, 'w) Promises" where
  "schedule_reaction is_fulfilled v reaction s =
     (if realm_generation reaction \<noteq> microtask_realm_generation s then s
      else queue_microtask_for_generation (PFunction (ReactionJob reaction is_fulfilled v))
             (realm_generation reaction) s)"

definition settle ::
  "nat \<Rightarrow> 'f PromiseValue + 'f PromiseValue \<Rightarrow> ('f, 'w) Promises \<Rightarrow> ('f, 'w) Promises" where
  "settle i outcome s =
     (let next = (case outcome of Ok v \<Rightarrow> Fulfilled v | Err reason \<Rightarrow> Rejected reason);
          cbs = (case state_at s i of Pending cs \<Rightarrow> cs | _ \<Rightarrow> []);
          (is_fulfilled, v) = (case outcome of Ok v \<Rightarrow> (True, v) | Err reason \<Rightarrow> (False, reason))
      in fold (schedule_reaction is_fulfilled v) cbs (set_state i next s))"

definition reject_state :: "nat \<Rightarrow> 'f PromiseValue \<Rightarrow> ('f, 'w) Promises \<Rightarrow> ('f, 'w) Promises" where
  "reject_state i reason s = (if \<not> is_pending i s then s else settle i (Err reason) s)"

definition subscribe ::
  "nat \<Rightarrow> 'f PromiseValue \<Rightarrow> 'f PromiseValue \<Rightarrow> ('f, 'w) Promises \<Rightarrow> nat \<times> ('f, 'w) Promises" where
  "subscribe i f g s =
     (let (next, s) = pending_state s;
          reaction = Reaction f g next (microtask_realm_generation s)
      in (next, case state_at s i of
            Pending cs \<Rightarrow> set_state i (Pending (cs @ [reaction])) s
          | Fulfilled v \<Rightarrow> schedule_reaction True v reaction s
          | Rejected reason \<Rightarrow> schedule_reaction False reason reaction s))"

subsection \<open>Host code\<close>

definition promise_status :: "('f, 'w) Promises \<Rightarrow> 'f PromiseValue \<Rightarrow> 'f PromiseStatus option" where
  "promise_status s v = map_option (\<lambda>i. case state_at s i of
     Pending _ \<Rightarrow> StatusPending | Fulfilled x \<Rightarrow> StatusFulfilled x | Rejected r \<Rightarrow> StatusRejected r)
     (state_of v)"

primrec run_script ::
  "('f, 'w) PromiseHost \<Rightarrow> ('f, 'w) invoker \<Rightarrow> ('f, 'w) Script \<Rightarrow> ('f, 'w, 'f PromiseValue) run" where
  "run_script H call (Finish r) = (case r of Ok v \<Rightarrow> run_ret v | Err p \<Rightarrow> run_throw p)"
| "run_script H call (ReadWorld k) = run_bind (run_gets promise_world) (\<lambda>w. run_script H call (k w))"
| "run_script H call (WriteWorld w k) =
     run_seq (run_modify (\<lambda>s. s\<lparr>promise_world := w\<rparr>)) (run_script H call k)"
| "run_script H call (CallValue f this args k) =
     run_catch (value_call H call f this args) (\<lambda>r. run_script H call (k r))"
| "run_script H call (UseApi op k) = run_catch (call (Perform op)) (\<lambda>r. run_script H call (k r))"
| "run_script H call (AskStatus v k) =
     run_bind (run_gets (\<lambda>s. promise_status s v)) (\<lambda>st. run_script H call (k st))"

text \<open>\<open>get_property("then")\<close> runs outside \<open>catch_unwind\<close>: a getter that throws unwinds further.\<close>

definition get_then ::
  "('f, 'w) PromiseHost \<Rightarrow> ('f, 'w) invoker \<Rightarrow> 'f PromiseValue \<Rightarrow> ('f, 'w, 'f PromiseValue) run" where
  "get_then H call v = (case v of
     PObject i \<Rightarrow> run_script H call (object_then H i)
   | PPromise i \<Rightarrow> run_ret (PFunction (ThenFn i))
   | _ \<Rightarrow> run_ret PUndefined)"

definition fulfill_state ::
  "('f, 'w) PromiseHost \<Rightarrow> ('f, 'w) invoker \<Rightarrow> nat \<Rightarrow> 'f PromiseValue \<Rightarrow> ('f, 'w, unit) run" where
  "fulfill_state H call i v = run_bind (run_gets (is_pending i)) (\<lambda>pending.
     if \<not> pending then run_ret ()
     else case state_of v of
       Some other \<Rightarrow>
         if other = i
         then run_modify (reject_state i (PError ''TypeError: chaining cycle detected for promise''))
         else run_modify (\<lambda>s. snd (subscribe other (PFunction (ResolveFn i)) (PFunction (RejectFn i)) s))
     | None \<Rightarrow>
         if value_is_object v
         then run_bind (get_then H call v) (\<lambda>then_value.
           if value_is_function then_value
           then run_catch (value_call H call then_value v [PFunction (ResolveFn i), PFunction (RejectFn i)])
             (\<lambda>outcome. case outcome of
                Ok _ \<Rightarrow> run_ret ()
              | Err payload \<Rightarrow> run_modify (reject_state i (payload_to_value payload)))
           else run_modify (settle i (Ok v)))
         else run_modify (settle i (Ok v)))"

definition run_reaction ::
  "('f, 'w) PromiseHost \<Rightarrow> ('f, 'w) invoker \<Rightarrow> 'f Reaction \<Rightarrow> bool \<Rightarrow> 'f PromiseValue \<Rightarrow> ('f, 'w, unit) run" where
  "run_reaction H call reaction is_fulfilled v =
     (let handler = (if is_fulfilled then on_fulfilled reaction else on_rejected reaction)
      in if \<not> value_is_function handler
         then (if is_fulfilled then fulfill_state H call (next_state reaction) v
               else run_modify (reject_state (next_state reaction) v))
         else run_catch (value_call H call handler PUndefined [v]) (\<lambda>outcome. case outcome of
             Ok result \<Rightarrow> fulfill_state H call (next_state reaction) result
           | Err payload \<Rightarrow> run_modify (reject_state (next_state reaction) (payload_to_value payload))))"

subsection \<open>The promise interface\<close>

definition make_then :: "nat \<Rightarrow> 'f PromiseValue list \<Rightarrow> ('f, 'w) Promises \<Rightarrow> 'f PromiseValue \<times> ('f, 'w) Promises" where
  "make_then i args s = (let (next, s) = subscribe i (arg args 0) (arg args 1) s in (PPromise next, s))"

definition make_catch :: "nat \<Rightarrow> 'f PromiseValue list \<Rightarrow> ('f, 'w) Promises \<Rightarrow> 'f PromiseValue \<times> ('f, 'w) Promises" where
  "make_catch i args s = (let (next, s) = subscribe i PUndefined (arg args 0) s in (PPromise next, s))"

definition make_finally :: "nat \<Rightarrow> 'f PromiseValue list \<Rightarrow> ('f, 'w) Promises \<Rightarrow> 'f PromiseValue \<times> ('f, 'w) Promises" where
  "make_finally i args s =
     (let callback = arg args 0;
          (next, s) = subscribe i (PFunction (FinallyFulfilled callback)) (PFunction (FinallyRejected callback)) s
      in (PPromise next, s))"

text \<open>\<open>new Promise(executor)\<close>.\<close>

definition promise_new ::
  "('f, 'w) PromiseHost \<Rightarrow> ('f, 'w) invoker \<Rightarrow> 'f PromiseValue list \<Rightarrow> ('f, 'w, 'f PromiseValue) run" where
  "promise_new H call args = run_bind (run_state pending_state) (\<lambda>i.
     run_catch (value_call H call (arg args 0) PUndefined [PFunction (ResolveFn i), PFunction (RejectFn i)])
       (\<lambda>outcome. run_seq (case outcome of
          Ok _ \<Rightarrow> run_ret ()
        | Err payload \<Rightarrow> run_modify (reject_state i (payload_to_value payload)))
        (run_ret (PPromise i))))"

definition promise_resolve ::
  "('f, 'w) PromiseHost \<Rightarrow> ('f, 'w) invoker \<Rightarrow> 'f PromiseValue list \<Rightarrow> ('f, 'w, 'f PromiseValue) run" where
  "promise_resolve H call args =
     (let v = arg args 0
      in if state_of v \<noteq> None then run_ret v
         else run_bind (run_state pending_state) (\<lambda>i.
           run_seq (fulfill_state H call i v) (run_ret (PPromise i))))"

definition promise_reject :: "'f PromiseValue list \<Rightarrow> ('f, 'w, 'f PromiseValue) run" where
  "promise_reject args = run_bind (run_state pending_state) (\<lambda>i.
     run_seq (run_modify (reject_state i (arg args 0))) (run_ret (PPromise i)))"

definition new_all_call :: "nat \<Rightarrow> ('f, 'w) Promises \<Rightarrow> nat \<times> ('f, 'w) Promises" where
  "new_all_call n s = (length (all_calls s),
     s\<lparr>all_calls := all_calls s @ [(replicate n PUndefined, of_nat n)]\<rparr>)"

text \<open>One round of the loops of \<open>all\<close> and \<open>race\<close>: a state of its own for the item, subscribed to.\<close>

definition watch_item ::
  "('f, 'w) PromiseHost \<Rightarrow> ('f, 'w) invoker \<Rightarrow> 'f PromiseValue \<Rightarrow> 'f PromiseValue \<Rightarrow>
     'f PromiseValue \<Rightarrow> ('f, 'w, unit) run" where
  "watch_item H call item f g = run_bind (run_state pending_state) (\<lambda>item_state.
     run_seq (fulfill_state H call item_state item)
       (run_modify (\<lambda>s. snd (subscribe item_state f g s))))"

definition promise_all ::
  "('f, 'w) PromiseHost \<Rightarrow> ('f, 'w) invoker \<Rightarrow> 'f PromiseValue list \<Rightarrow> ('f, 'w, 'f PromiseValue) run" where
  "promise_all H call args =
     (case (case arg args 0 of PUndefined \<Rightarrow> Some [] | PNull \<Rightarrow> Some [] | PArray xs \<Rightarrow> Some xs | _ \<Rightarrow> None) of
        None \<Rightarrow> promise_reject [PError ''TypeError: Promise.all expects an array'']
      | Some items \<Rightarrow> run_bind (run_state pending_state) (\<lambda>i.
          if items = [] then run_seq (fulfill_state H call i (PArray [])) (run_ret (PPromise i))
          else run_bind (run_state (new_all_call (length items))) (\<lambda>a.
            run_seq (run_each (\<lambda>(index, item).
                watch_item H call item (PFunction (AllFulfilled a index i)) (PFunction (RejectFn i)))
              (enumerate 0 items))
            (run_ret (PPromise i)))))"

definition promise_race ::
  "('f, 'w) PromiseHost \<Rightarrow> ('f, 'w) invoker \<Rightarrow> 'f PromiseValue list \<Rightarrow> ('f, 'w, 'f PromiseValue) run" where
  "promise_race H call args =
     (let items = (case arg args 0 of PArray xs \<Rightarrow> xs | _ \<Rightarrow> [])
      in run_bind (run_state pending_state) (\<lambda>i.
        run_seq (run_each (\<lambda>item.
            watch_item H call item (PFunction (ResolveFn i)) (PFunction (RejectFn i))) items)
        (run_ret (PPromise i))))"

text \<open>The closure \<open>on_fulfilled\<close> that \<open>all\<close> makes for the item at \<open>index\<close>.\<close>

definition record_result ::
  "nat \<Rightarrow> nat \<Rightarrow> 'f PromiseValue \<Rightarrow> ('f, 'w) Promises \<Rightarrow> ('f PromiseValue list \<times> usize) \<times> ('f, 'w) Promises" where
  "record_result a index v s =
     (let (results, remaining) = all_calls s ! a;
          entry = (results[index := v], remaining - 1)
      in (entry, s\<lparr>all_calls := (all_calls s)[a := entry]\<rparr>))"

definition all_fulfilled ::
  "('f, 'w) PromiseHost \<Rightarrow> ('f, 'w) invoker \<Rightarrow> nat \<Rightarrow> nat \<Rightarrow> nat \<Rightarrow> 'f PromiseValue \<Rightarrow> ('f, 'w, unit) run" where
  "all_fulfilled H call a index i v = run_bind (run_state (record_result a index v)) (\<lambda>(results, remaining).
     if remaining = 0 then fulfill_state H call i (PArray results) else run_ret ())"

subsection \<open>The microtask queue\<close>

definition queue_microtask :: "'f PromiseValue \<Rightarrow> ('f, 'w) Promises \<Rightarrow> ('f, 'w) Promises" where
  "queue_microtask callback s =
     (if value_is_function callback
      then queue_microtask_for_generation callback (microtask_realm_generation s) s else s)"

definition take_microtasks :: "('f, 'w) Promises \<Rightarrow> 'f MicrotaskJob list \<times> ('f, 'w) Promises" where
  "take_microtasks s = (promise_microtasks s, s\<lparr>promise_microtasks := []\<rparr>)"

fun run_batch ::
  "('f, 'w) PromiseHost \<Rightarrow> ('f, 'w) invoker \<Rightarrow> u64 \<Rightarrow> 'f MicrotaskJob list \<Rightarrow> nat \<Rightarrow> ('f, 'w, nat) run" where
  "run_batch H call generation [] ran_jobs = run_ret ran_jobs"
| "run_batch H call generation (job # batch) ran_jobs =
     (if job_generation job \<noteq> generation then run_batch H call generation batch ran_jobs
      else run_catch (value_call H call (job_callback job) PUndefined [])
             (\<lambda>_. run_batch H call generation batch (ran_jobs + 1)))"

fun drain_rounds ::
  "('f, 'w) PromiseHost \<Rightarrow> ('f, 'w) invoker \<Rightarrow> nat \<Rightarrow> nat \<Rightarrow> ('f, 'w, nat) run" where
  "drain_rounds H call 0 ran_jobs = run_fuel_out"
| "drain_rounds H call (Suc n) ran_jobs = run_bind (run_state take_microtasks) (\<lambda>batch.
     if batch = [] then run_ret ran_jobs
     else run_bind (run_gets microtask_realm_generation) (\<lambda>generation.
       run_bind (run_batch H call generation batch ran_jobs) (drain_rounds H call n)))"

definition queue_count :: "('f, 'w) Promises \<Rightarrow> nat" where
  "queue_count s =
     length (filter (\<lambda>job. job_generation job = microtask_realm_generation s) (promise_microtasks s))"

definition advance_realm_generation :: "('f, 'w) Promises \<Rightarrow> ('f, 'w) Promises" where
  "advance_realm_generation s =
     s\<lparr>microtask_realm_generation := microtask_realm_generation s + 1, promise_microtasks := []\<rparr>"

subsection \<open>Calls\<close>

definition invoke_callable ::
  "('f, 'w) PromiseHost \<Rightarrow> ('f, 'w) invoker \<Rightarrow> 'f Callable \<Rightarrow> 'f PromiseValue \<Rightarrow> 'f PromiseValue list \<Rightarrow>
     ('f, 'w, 'f PromiseValue) run" where
  "invoke_callable H call f this args = (case f of
     ResolveFn i \<Rightarrow> run_seq (fulfill_state H call i (arg args 0)) (run_ret PUndefined)
   | RejectFn i \<Rightarrow> run_seq (run_modify (reject_state i (arg args 0))) (run_ret PUndefined)
   | ThenFn i \<Rightarrow> run_state (make_then i args)
   | CatchFn i \<Rightarrow> run_state (make_catch i args)
   | FinallyFn i \<Rightarrow> run_state (make_finally i args)
   | FinallyFulfilled callback \<Rightarrow>
       run_seq (value_call H call callback PUndefined []) (run_ret (arg args 0))
   | FinallyRejected callback \<Rightarrow>
       run_seq (value_call H call callback PUndefined []) (run_throw (ThrownValue (arg args 0)))
   | AllFulfilled a index i \<Rightarrow> run_seq (all_fulfilled H call a index i (arg args 0)) (run_ret PUndefined)
   | ReactionJob reaction is_fulfilled v \<Rightarrow>
       run_seq (run_reaction H call reaction is_fulfilled v) (run_ret PUndefined)
   | HostFunction g \<Rightarrow> run_script H call (host_function H g this args))"

definition perform_api ::
  "('f, 'w) PromiseHost \<Rightarrow> ('f, 'w) invoker \<Rightarrow> nat \<Rightarrow> 'f Api \<Rightarrow> ('f, 'w, 'f PromiseValue) run" where
  "perform_api H call n op = (case op of
     NewPromise args \<Rightarrow> promise_new H call args
   | ResolveValue args \<Rightarrow> promise_resolve H call args
   | RejectValue args \<Rightarrow> promise_reject args
   | AllOf args \<Rightarrow> promise_all H call args
   | RaceOf args \<Rightarrow> promise_race H call args
   | QueueMicrotask v \<Rightarrow> run_seq (run_modify (queue_microtask v)) (run_ret PUndefined)
   | DrainMicrotasks \<Rightarrow> run_seq (drain_rounds H call n 0) (run_ret PUndefined)
   | AdvanceRealm \<Rightarrow> run_seq (run_modify advance_realm_generation) (run_ret PUndefined))"

primrec promise_call :: "('f, 'w) PromiseHost \<Rightarrow> nat \<Rightarrow> ('f, 'w) invoker" where
  "promise_call H 0 = (\<lambda>_. run_fuel_out)"
| "promise_call H (Suc n) = (\<lambda>request. case request of
     Invoke f this args \<Rightarrow> invoke_callable H (promise_call H n) f this args
   | Perform op \<Rightarrow> perform_api H (promise_call H n) n op)"

definition drain_microtasks :: "('f, 'w) PromiseHost \<Rightarrow> nat \<Rightarrow> ('f, 'w, nat) run" where
  "drain_microtasks H n = drain_rounds H (promise_call H n) n 0"

definition promises_start :: "'w \<Rightarrow> ('f, 'w) Promises" where
  "promises_start w = \<lparr> promise_states = [], promise_microtasks = [], microtask_realm_generation = 0,
     all_calls = [], promise_world = w \<rparr>"

end
