(* ===== verification/PromiseLaws.thy ===== *)
theory PromiseLaws
  imports PromiseModel
begin

text \<open>
  What the promises of \<^verbatim>\<open>crates/w3cos-core/src/promise.rs\<close> guarantee whatever host code does between
  two of their steps: a settled promise never changes, handlers run only from the microtask queue,
  reactions are scheduled in the order of their subscription, a promise that resolves to another one
  takes over its outcome.

  The locale \<open>promise_steps\<close> says what a relation between states must allow so that everything a call
  can do stays inside it: the elementary changes of the table, the queue and the world.
\<close>

subsection \<open>Relations that every operation respects\<close>

definition moves :: "(('f, 'w) Promises \<Rightarrow> ('f, 'w) Promises \<Rightarrow> bool) \<Rightarrow> ('f, 'w, 'a) run \<Rightarrow> bool" where
  "moves R m \<longleftrightarrow> (\<forall>s. R s (snd (m s)))"

lemma moves_iff: "moves R m \<longleftrightarrow> (\<forall>s r s'. m s = (r, s') \<longrightarrow> R s s')"
  unfolding moves_def by (metis prod.collapse snd_conv)

text \<open>
  Reading \<open>then\<close> is quiet when it only looks at the host's world, as it does for a data property.
  A getter may also resolve the promise that is just being resolved, between the check that it is
  pending and its settlement; \<open>getter_overwrites_settled\<close> below shows what happens then.
\<close>

primrec quiet_script :: "('f, 'w) Script \<Rightarrow> bool" where
  "quiet_script (Finish r) = True"
| "quiet_script (ReadWorld k) = (\<forall>w. quiet_script (k w))"
| "quiet_script (WriteWorld w k) = quiet_script k"
| "quiet_script (CallValue f this args k) = False"
| "quiet_script (UseApi op k) = False"
| "quiet_script (AskStatus v k) = (\<forall>st. quiet_script (k st))"

definition quiet_then :: "('f, 'w) PromiseHost \<Rightarrow> bool" where
  "quiet_then H \<longleftrightarrow> (\<forall>i. quiet_script (object_then H i))"

lemma quiet_script_states:
  "quiet_script sc \<Longrightarrow> promise_states (snd (run_script H call sc s)) = promise_states s"
proof (induction sc arbitrary: s)
  case (Finish r)
  then show ?case by (cases r) (simp_all add: run_defs)
qed (simp_all add: run_defs)

lemma quiet_get_then:
  assumes "quiet_then H" "get_then H call v s = (r, s')"
  shows "promise_states s' = promise_states s"
  using assms quiet_script_states[of _ H call s]
  by (auto simp: get_then_def quiet_then_def run_defs split: PromiseValue.splits) (metis snd_conv)+

lemma is_pending_states: "promise_states s' = promise_states s \<Longrightarrow> is_pending i s' = is_pending i s"
  by (simp add: is_pending_def state_at_def)

locale promise_steps =
  fixes R :: "('f, 'w) Promises \<Rightarrow> ('f, 'w) Promises \<Rightarrow> bool"
  assumes refl: "R s s" and trans: "R s t \<Longrightarrow> R t u \<Longrightarrow> R s u"
    and added: "R s (s\<lparr>promise_states := promise_states s @ [Pending []]\<rparr>)"
    and settled: "is_pending i s \<Longrightarrow> R s (set_state i (case outcome of Ok v \<Rightarrow> Fulfilled v | Err r \<Rightarrow> Rejected r) s)"
    and subscribed: "state_at s i = Pending cs \<Longrightarrow> R s (set_state i (Pending (cs @ [r])) s)"
    and queued: "R s (s\<lparr>promise_microtasks := q\<rparr>)" and realm: "R s (s\<lparr>microtask_realm_generation := g\<rparr>)"
    and counted: "R s (s\<lparr>all_calls := c\<rparr>)" and world: "R s (s\<lparr>promise_world := w\<rparr>)"
begin

lemma moves_ret: "moves R (run_ret x)" and moves_throw: "moves R (run_throw p)"
  and moves_fuel_out: "moves R run_fuel_out" and moves_gets: "moves R (run_gets f)"
  by (simp_all add: moves_def run_defs refl)

lemma moves_modify: "(\<And>s. R s (f s)) \<Longrightarrow> moves R (run_modify f)"
  by (simp add: moves_def run_defs)

lemma moves_state: "(\<And>s. R s (snd (f s))) \<Longrightarrow> moves R (run_state f)"
  by (simp add: moves_def run_defs split_beta)

lemma moves_bind:
  assumes "moves R m" "\<And>x. moves R (f x)" shows "moves R (run_bind m f)"
  unfolding moves_iff run_bind_def
  using assms unfolding moves_iff
  by (fastforce split: prod.splits Ending.splits intro: trans)

lemma moves_catch:
  assumes "moves R m" "\<And>x. moves R (f x)" shows "moves R (run_catch m f)"
  unfolding moves_iff run_catch_def
  using assms unfolding moves_iff
  by (fastforce split: prod.splits Ending.splits intro: trans)

lemma moves_seq: "moves R m \<Longrightarrow> moves R k \<Longrightarrow> moves R (run_seq m k)"
  by (simp add: run_seq_def moves_bind)

lemma moves_each: "(\<And>x. moves R (f x)) \<Longrightarrow> moves R (run_each f xs)"
  by (induction xs) (simp_all add: moves_ret moves_seq)

lemma schedule_R: "R s (schedule_reaction b v r s)"
  by (simp add: schedule_reaction_def queue_microtask_for_generation_def refl queued)

lemma schedules_R: "R s (fold (schedule_reaction b v) cs s)"
  by (induction cs arbitrary: s) (auto intro: refl trans schedule_R)

lemma settle_R: "is_pending i s \<Longrightarrow> R s (settle i outcome s)"
  using trans[OF settled[of i s outcome] schedules_R]
  by (simp add: settle_def Let_def split_beta)

lemma reject_R: "R s (reject_state i r s)"
  by (simp add: reject_state_def refl settle_R)

lemma pending_R: "R s (snd (pending_state s))"
  by (simp add: pending_state_def added)

lemma subscribe_R: "R s (snd (subscribe i f g s))"
proof -
  have "R (snd (pending_state s)) (snd (subscribe i f g s))"
    by (auto simp: subscribe_def Let_def split_beta schedule_R subscribed split: PromiseState.split)
  with pending_R show ?thesis by (rule trans)
qed

lemma advance_R: "R s (advance_realm_generation s)"
  using trans[OF realm queued] by (simp add: advance_realm_generation_def)

lemma make_R: "R s (snd (make_then i args s))" "R s (snd (make_catch i args s))" "R s (snd (make_finally i args s))"
  using subscribe_R by (simp_all add: make_then_def make_catch_def make_finally_def Let_def split_beta)

lemma counted_R: "R s (snd (new_all_call n s))" "R s (snd (record_result a k v s))"
  by (simp_all add: new_all_call_def record_result_def Let_def split_beta counted)

lemma queue_R: "R s (queue_microtask f s)" "R s (snd (take_microtasks s))"
  by (simp_all add: queue_microtask_def queue_microtask_for_generation_def take_microtasks_def refl queued)

lemmas moves_rules = moves_ret moves_throw moves_fuel_out moves_gets moves_modify moves_state moves_bind
  moves_catch moves_seq moves_each reject_R pending_R subscribe_R advance_R make_R counted_R queue_R world


lemma moves_script: "(\<And>r. moves R (call r)) \<Longrightarrow> moves R (run_script H call sc)"
proof (induction sc)
  case (Finish r)
  then show ?case by (cases r) (simp_all add: moves_rules)
qed (auto simp: value_call_def intro!: moves_rules split: PromiseValue.split option.split)

lemma moves_value_call: "(\<And>r. moves R (call r)) \<Longrightarrow> moves R (value_call H call f this args)"
  by (auto simp: value_call_def intro: moves_rules split: PromiseValue.split option.split)

lemma moves_get_then: "(\<And>r. moves R (call r)) \<Longrightarrow> moves R (get_then H call v)"
  by (auto simp: get_then_def intro: moves_rules moves_script split: PromiseValue.split)

lemma moves_fulfill:
  assumes "quiet_then H" and call: "\<And>r. moves R (call r)"
  shows "moves R (fulfill_state H call i v)"
proof -
  have "R s (snd (fulfill_state H call i v s))" if pending: "is_pending i s" for s
  proof (cases "state_of v = None \<and> value_is_object v")
    case False
    with pending show ?thesis
      by (auto simp: fulfill_state_def run_defs reject_R subscribe_R settle_R split: option.split)
  next
    case True
    obtain r s' where r: "get_then H call v s = (r, s')" by fastforce
    have s': "R s s'" using moves_get_then[OF call] r by (auto simp: moves_iff)
    have "is_pending i s'"
      using pending quiet_get_then[OF assms(1) r] is_pending_states by blast
    then have settles: "R s (settle i (Ok v) s')" by (rule trans[OF s' settle_R])
    have "moves R (run_catch (value_call H call f v [PFunction (ResolveFn i), PFunction (RejectFn i)])
        (\<lambda>outcome. case outcome of Ok _ \<Rightarrow> run_ret ()
           | Err payload \<Rightarrow> run_modify (reject_state i (payload_to_value payload))))" for f
      by (intro moves_catch moves_value_call call) (auto intro: moves_rules split: sum.split)
    then have calls: "R s (snd (run_catch (value_call H call f v [PFunction (ResolveFn i), PFunction (RejectFn i)])
        (\<lambda>outcome. case outcome of Ok _ \<Rightarrow> run_ret ()
           | Err payload \<Rightarrow> run_modify (reject_state i (payload_to_value payload))) s'))" for f
      using trans[OF s'] by (simp add: moves_def)
    from True pending r show ?thesis
      using s' settles calls
      by (cases r) (simp_all add: fulfill_state_def run_bind_def run_gets_def run_modify_def)
  qed
  moreover have "snd (fulfill_state H call i v s) = s" if "\<not> is_pending i s" for s
    using that by (simp add: fulfill_state_def run_defs)
  ultimately show ?thesis unfolding moves_def using refl by metis
qed

lemma moves_reaction:
  assumes "quiet_then H" "\<And>r. moves R (call r)"
  shows "moves R (run_reaction H call r b v)"
  unfolding run_reaction_def Let_def
  by (auto intro!: moves_rules moves_value_call moves_fulfill assms split: sum.split)

lemma moves_watch:
  assumes "quiet_then H" "\<And>r. moves R (call r)"
  shows "moves R (watch_item H call item f g)"
  unfolding watch_item_def by (intro moves_rules moves_fulfill assms)

lemma moves_reject_value: "moves R (promise_reject args)"
  unfolding promise_reject_def by (intro moves_rules)

lemma moves_batch:
  assumes "\<And>r. moves R (call r)" shows "moves R (run_batch H call g batch n)"
  by (induction batch arbitrary: n) (auto intro!: moves_rules moves_value_call assms)

lemma moves_rounds:
  assumes "\<And>r. moves R (call r)" shows "moves R (drain_rounds H call n k)"
  by (induction n arbitrary: k) (auto intro!: moves_rules moves_batch assms)

lemma moves_api:
  assumes "quiet_then H" and call: "\<And>r. moves R (call r)"
  shows "moves R (perform_api H call n op)"
proof -
  note rules = moves_rules moves_value_call[OF call] moves_fulfill[OF assms] moves_watch[OF assms]
    moves_rounds[OF call] moves_reject_value
  have "moves R (promise_new H call args)" for args
    unfolding promise_new_def by (intro rules) (auto intro: rules split: sum.split)
  moreover have "moves R (promise_resolve H call args)" for args
    unfolding promise_resolve_def Let_def by (auto intro!: rules)
  moreover have "moves R (promise_all H call args)" for args
    unfolding promise_all_def
    by (auto intro!: rules split: PromiseValue.split option.split prod.split)
  moreover have "moves R (promise_race H call args)" for args
    unfolding promise_race_def Let_def by (intro rules)
  ultimately show ?thesis
    by (auto simp: perform_api_def intro!: rules split: Api.split)
qed

lemma moves_invoke:
  assumes "quiet_then H" and call: "\<And>r. moves R (call r)"
  shows "moves R (invoke_callable H call f this args)"
proof -
  have "moves R (all_fulfilled H call a k i v)" for a k i v
    unfolding all_fulfilled_def
    by (intro moves_rules) (auto intro: moves_rules moves_fulfill assms split: prod.split)
  then show ?thesis
    by (auto simp: invoke_callable_def split: Callable.split intro!: moves_rules moves_value_call call
        moves_fulfill assms moves_reaction moves_script)
qed

theorem moves_call: "quiet_then H \<Longrightarrow> moves R (promise_call H n r)"
  by (induction n arbitrary: r)
    (auto intro: moves_rules moves_invoke moves_api split: Request.split)

theorem moves_drain: "quiet_then H \<Longrightarrow> moves R (drain_microtasks H n)"
  unfolding drain_microtasks_def by (intro moves_rounds moves_call)

end

subsection \<open>A settled promise never changes\<close>

text \<open>A pending state may gain reactions at the end or settle; a settled one stays as it is.\<close>

definition state_le :: "'f PromiseState \<Rightarrow> 'f PromiseState \<Rightarrow> bool" where
  "state_le st st' = (case st of
     Pending cs \<Rightarrow> (case st' of Pending cs' \<Rightarrow> take (length cs) cs' = cs | _ \<Rightarrow> True)
   | _ \<Rightarrow> st' = st)"

definition promises_grow :: "('f, 'w) Promises \<Rightarrow> ('f, 'w) Promises \<Rightarrow> bool" where
  "promises_grow s s' \<longleftrightarrow> length (promise_states s) \<le> length (promise_states s') \<and>
     (\<forall>i < length (promise_states s). state_le (promise_states s ! i) (promise_states s' ! i))"

lemma state_le_refl [simp]: "state_le st st"
  by (simp add: state_le_def split: PromiseState.split)

lemma state_le_trans: "state_le a b \<Longrightarrow> state_le b c \<Longrightarrow> state_le a c"
  by (auto simp: state_le_def split: PromiseState.splits) (metis min.absorb_iff1 min_def take_all_iff take_take)

lemma grow_set_state:
  "(i < length (promise_states s) \<Longrightarrow> state_le (promise_states s ! i) st) \<Longrightarrow> promises_grow s (set_state i st s)"
  by (cases "i < length (promise_states s)") (auto simp: promises_grow_def set_state_def nth_list_update)

interpretation growing: promise_steps promises_grow
proof
  fix s t u :: "('f, 'w) Promises"
  assume "promises_grow s t" "promises_grow t u"
  then show "promises_grow s u"
    unfolding promises_grow_def by (meson order_less_le_trans order_trans state_le_trans)
next
  fix i and s :: "('f, 'w) Promises" and outcome
  assume "is_pending i s"
  then show "promises_grow s (set_state i (case outcome of Ok v \<Rightarrow> Fulfilled v | Err r \<Rightarrow> Rejected r) s)"
    by (intro grow_set_state) (auto simp: is_pending_def state_at_def state_le_def split: PromiseState.splits sum.split)
next
  fix s :: "('f, 'w) Promises" and i cs r
  assume "state_at s i = Pending cs"
  then show "promises_grow s (set_state i (Pending (cs @ [r])) s)"
    by (intro grow_set_state) (auto simp: state_at_def state_le_def)
qed (auto simp: promises_grow_def nth_append)

text \<open>
  C17. Promises settle once: whatever a call or a drain of the queue does, host code included, a
  promise that was fulfilled or rejected before keeps its outcome, and a pending one loses none of
  its reactions unless it settles, provided reading a property \<open>then\<close> runs no promise code.
\<close>

theorem settled_promise_is_final:
  assumes "quiet_then H" "promise_call H n r s = (e, s') \<or> (\<exists>k. drain_microtasks H n s = (k, s'))"
    and "i < length (promise_states s)"
  shows "i < length (promise_states s') \<and> (case state_at s i of
      Pending cs \<Rightarrow> (case state_at s' i of Pending cs' \<Rightarrow> take (length cs) cs' = cs | _ \<Rightarrow> True)
    | st \<Rightarrow> state_at s' i = st)"
proof -
  have "promises_grow s s'"
    using assms(2) growing.moves_call[OF assms(1), of n r] growing.moves_drain[OF assms(1), of n]
    by (auto simp: moves_iff)
  with assms(3) have "i < length (promise_states s')"
    "state_le (promise_states s ! i) (promise_states s' ! i)"
    by (auto simp: promises_grow_def)
  with assms(3) show ?thesis
    by (auto simp: state_at_def state_le_def split: PromiseState.splits)
qed

subsection \<open>A host to run\<close>

text \<open>
  Function 0 does nothing, 1 records its argument in the host's world, 2 starts a new realm, 3 is the
  getter of \<open>then\<close> below.  Object 0 has no \<open>then\<close>.
\<close>

definition record_argument :: "'f PromiseValue list \<Rightarrow> ('f, 'f PromiseValue list) Script" where
  "record_argument args = ReadWorld (\<lambda>w. WriteWorld (w @ [arg args 0]) (Finish (Ok PUndefined)))"

definition test_host :: "(nat, nat PromiseValue list) PromiseHost" where
  "test_host = \<lparr>
     host_function = (\<lambda>f this args.
       if f = 1 then record_argument args
       else if f = 2 then UseApi AdvanceRealm (\<lambda>_. Finish (Ok PUndefined))
       else Finish (Ok PUndefined)),
     object_call_slot = (\<lambda>_. None),
     object_then = (\<lambda>i. if i = 1 then CallValue (PFunction (ResolveFn 0)) PUndefined [PNumber 7]
                                          (\<lambda>_. Finish (Ok PUndefined))
                         else Finish (Ok PUndefined)) \<rparr>"

definition plain_host :: "(nat, nat PromiseValue list) PromiseHost" where
  "plain_host = test_host\<lparr>object_then := \<lambda>_. Finish (Ok PUndefined)\<rparr>"

lemma plain_host_quiet: "quiet_then plain_host"
  by (simp add: quiet_then_def plain_host_def)

lemmas promise_run_defs = run_defs value_call_def invoke_callable_def perform_api_def
  fulfill_state_def run_reaction_def get_then_def promise_new_def promise_resolve_def promise_reject_def
  watch_item_def make_then_def make_catch_def make_finally_def subscribe_def settle_def reject_state_def
  schedule_reaction_def queue_microtask_def queue_microtask_for_generation_def pending_state_def
  take_microtasks_def set_state_def state_at_def is_pending_def state_of_def value_is_object_def
  value_is_function_def arg_def payload_to_value_def

definition settled_example :: "(nat, nat PromiseValue list) Promises" where
  "settled_example = (promises_start [])\<lparr>promise_states := [Fulfilled (PNumber 1), Pending []]\<rparr>"

definition pending_example :: "(nat, nat PromiseValue list) Promises" where
  "pending_example = (promises_start [])\<lparr>promise_states := [Pending []]\<rparr>"

lemma settled_promise_is_final_witness:
  "state_at (snd (promise_call plain_host 3 (Invoke (ResolveFn 0) PUndefined [PNumber 2]) settled_example)) 0 =
     Fulfilled (PNumber 1)"
proof -
  obtain e s' where call: "promise_call plain_host 3 (Invoke (ResolveFn 0) PUndefined [PNumber 2])
      settled_example = (e, s')" by fastforce
  have "0 < length (promise_states settled_example)" "state_at settled_example 0 = Fulfilled (PNumber 1)"
    by (simp_all add: settled_example_def state_at_def promises_start_def)
  with settled_promise_is_final[OF plain_host_quiet disjI1[OF call], of 0] show ?thesis
    by (simp add: call)
qed

text \<open>
  C24. The proviso is needed: \<open>then\<close> is read between the check that a promise is pending and its
  settlement, with no second check.  Whenever the getter of an object's \<open>then\<close> settles the promise
  that is being resolved with the object, and returns no function, the promise changes from the
  outcome it got inside the getter to being fulfilled with the object; the queue, with the reactions
  to the first outcome, and everything else stay as the getter left them.
\<close>

theorem getter_overwrites_settled:
  assumes "is_pending i s" "get_then H call (PObject k) s = (Normal then_value, s')"
    and "\<not> value_is_function then_value" "\<not> is_pending i s'"
  shows "fulfill_state H call i (PObject k) s = (Normal (), set_state i (Fulfilled (PObject k)) s') \<and>
    state_at (set_state i (Fulfilled (PObject k)) s') i = Fulfilled (PObject k)"
proof -
  have settled: "settle i (Ok (PObject k)) s' = set_state i (Fulfilled (PObject k)) s'"
    using assms(4) by (cases "state_at s' i") (simp_all add: settle_def is_pending_def)
  have "i < length (promise_states s')"
    using assms(4) by (cases "i < length (promise_states s')") (simp_all add: is_pending_def state_at_def)
  then have "state_at (set_state i (Fulfilled (PObject k)) s') i = Fulfilled (PObject k)"
    by (simp add: state_at_def set_state_def)
  then show ?thesis
    using assms(1-3)
    by (simp add: fulfill_state_def run_bind_def run_gets_def run_modify_def state_of_def
        value_is_object_def settled)
qed

lemma getter_overwrites_settled_witness:
  "let call = promise_call test_host 2;
       s = snd (run_script test_host call (object_then test_host 1) pending_example);
       s' = snd (fulfill_state test_host call 0 (PObject 1) pending_example)
   in state_at s 0 = Fulfilled (PNumber 7) \<and> state_at s' 0 = Fulfilled (PObject 1)"
proof -
  let ?call = "promise_call test_host 2"
  let ?s = "pending_example\<lparr>promise_states := [Fulfilled (PNumber 7)]\<rparr>"
  have pending: "is_pending 0 pending_example"
    by (simp add: pending_example_def is_pending_def state_at_def)
  have read: "get_then test_host ?call (PObject 1) pending_example = (Normal PUndefined, ?s)"
    by (simp add: pending_example_def test_host_def promise_run_defs promises_start_def numeral_2_eq_2)
  then have script: "run_script test_host ?call (object_then test_host 1) pending_example = (Normal PUndefined, ?s)"
    by (simp add: get_then_def)
  have "\<not> is_pending 0 ?s" "state_at ?s 0 = Fulfilled (PNumber 7)"
    by (simp_all add: is_pending_def state_at_def)
  with getter_overwrites_settled[OF pending read] show ?thesis
    by (simp add: Let_def script value_is_function_def del: One_nat_def)
qed

subsection \<open>Reactions\<close>

definition reaction_job :: "bool \<Rightarrow> 'f PromiseValue \<Rightarrow> 'f Reaction \<Rightarrow> 'f MicrotaskJob" where
  "reaction_job is_fulfilled v r =
     \<lparr> job_callback = PFunction (ReactionJob r is_fulfilled v), job_generation = realm_generation r \<rparr>"

definition current_reactions :: "('f, 'w) Promises \<Rightarrow> 'f Reaction list \<Rightarrow> 'f Reaction list" where
  "current_reactions s = filter (\<lambda>r. realm_generation r = microtask_realm_generation s)"

definition plain_value :: "'f PromiseValue \<Rightarrow> bool" where
  "plain_value v \<longleftrightarrow> \<not> value_is_object v"

lemma plain_value_state [simp]: "plain_value v \<Longrightarrow> state_of v = None"
  by (auto simp: plain_value_def value_is_object_def state_of_def split: PromiseValue.splits)

lemma schedule_queue:
  "schedule_reaction b v r s = s\<lparr>promise_microtasks := promise_microtasks s @
     map (reaction_job b v) (current_reactions s [r])\<rparr>"
  by (simp add: schedule_reaction_def queue_microtask_for_generation_def current_reactions_def reaction_job_def)

lemma schedules_queue:
  "fold (schedule_reaction b v) cs s = s\<lparr>promise_microtasks := promise_microtasks s @
     map (reaction_job b v) (current_reactions s cs)\<rparr>"
  by (induction cs arbitrary: s) (auto simp: schedule_queue current_reactions_def)

lemma settle_pending:
  assumes "state_at s i = Pending cs"
  shows "settle i (Ok v) s = (set_state i (Fulfilled v) s)\<lparr>promise_microtasks := promise_microtasks s @
      map (reaction_job True v) (current_reactions s cs)\<rparr>"
    and "settle i (Err v) s = (set_state i (Rejected v) s)\<lparr>promise_microtasks := promise_microtasks s @
      map (reaction_job False v) (current_reactions s cs)\<rparr>"
  using assms by (simp_all add: settle_def schedules_queue set_state_def current_reactions_def)

lemma fulfill_plain:
  "plain_value v \<Longrightarrow> state_at s i = Pending cs \<Longrightarrow> fulfill_state H call i v s = (Normal (), settle i (Ok v) s)"
  by (simp add: fulfill_state_def run_defs is_pending_def plain_value_def)

lemma reject_pending: "state_at s i = Pending cs \<Longrightarrow> reject_state i v s = settle i (Err v) s"
  by (simp add: reject_state_def is_pending_def)

text \<open>
  Settling calls nothing: the promise takes the outcome, every reaction of the current realm
  becomes one job at the end of the queue, in the order of subscription, reactions of an earlier realm
  are dropped, and neither the host's world nor any other promise changes.
\<close>

theorem settling_schedules_in_order:
  assumes "state_at s i = Pending cs" "plain_value v"
  shows "fulfill_state H call i v s = (Normal (), (set_state i (Fulfilled v) s)
      \<lparr>promise_microtasks := promise_microtasks s @ map (reaction_job True v) (current_reactions s cs)\<rparr>) \<and>
    reject_state i v s = (set_state i (Rejected v) s)
      \<lparr>promise_microtasks := promise_microtasks s @ map (reaction_job False v) (current_reactions s cs)\<rparr>"
  using assms by (simp add: fulfill_plain reject_pending settle_pending)

definition two_reactions :: "nat Reaction list" where
  "two_reactions = [Reaction (PFunction (HostFunction 0)) PUndefined 1 0,
     Reaction (PFunction (HostFunction 1)) PUndefined 2 0]"

definition subscribed_example :: "(nat, nat PromiseValue list) Promises" where
  "subscribed_example = (promises_start [])
     \<lparr>promise_states := [Pending two_reactions, Pending [], Pending []]\<rparr>"

lemma settling_schedules_in_order_witness:
  "promise_microtasks (reject_state 0 PNull subscribed_example) = map (reaction_job False PNull) two_reactions"
proof -
  have "state_at subscribed_example 0 = Pending two_reactions" "plain_value (PNull :: nat PromiseValue)"
    by (simp_all add: subscribed_example_def state_at_def plain_value_def value_is_object_def)
  from settling_schedules_in_order[OF this] show ?thesis
    by (simp add: subscribed_example_def promises_start_def set_state_def current_reactions_def two_reactions_def)
qed

text \<open>
  Subscribing calls nothing either: \<open>then\<close> gives a new pending promise; on a pending promise the
  reaction goes to the end of its list, on a settled one exactly one job goes to the end of the queue.
\<close>

theorem then_is_asynchronous:
  assumes "i < length (promise_states s)"
  shows "invoke_callable H call (ThenFn i) this args s = (Normal (PPromise (length (promise_states s))),
     let s1 = s\<lparr>promise_states := promise_states s @ [Pending []]\<rparr>;
         r = Reaction (arg args 0) (arg args 1) (length (promise_states s)) (microtask_realm_generation s)
     in case promise_states s ! i of
          Pending cs \<Rightarrow> set_state i (Pending (cs @ [r])) s1
        | Fulfilled v \<Rightarrow> s1\<lparr>promise_microtasks := promise_microtasks s @ [reaction_job True v r]\<rparr>
        | Rejected v \<Rightarrow> s1\<lparr>promise_microtasks := promise_microtasks s @ [reaction_job False v r]\<rparr>)"
  using assms
  by (auto simp: invoke_callable_def run_state_def make_then_def subscribe_def pending_state_def Let_def
      schedule_queue current_reactions_def state_at_def nth_append split: PromiseState.split)

lemma then_is_asynchronous_witness:
  "promise_microtasks (snd (invoke_callable plain_host (promise_call plain_host 0) (ThenFn 0) PUndefined
     [PFunction (HostFunction 1)] settled_example)) =
   [reaction_job True (PNumber 1) (Reaction (PFunction (HostFunction 1)) PUndefined 2 0)]"
  using then_is_asynchronous[of 0 settled_example]
  by (simp add: settled_example_def promises_start_def arg_def numeral_2_eq_2)

subsection \<open>Draining the queue\<close>

lemma batch_counts: "run_batch H call g batch k s = (Normal j, s1) \<Longrightarrow> k \<le> j"
proof (induction batch arbitrary: k s)
  case (Cons job batch)
  then show ?case
    by (fastforce simp: run_catch_def split: if_splits prod.splits Ending.splits dest: Suc_leD)
qed (simp add: run_ret_def)

lemma drain_empties:
  "drain_rounds H call n k s = (Normal m, s') \<Longrightarrow> promise_microtasks s' = [] \<and> k \<le> m"
proof (induction n arbitrary: k s)
  case (Suc n)
  from Suc show ?case
    by (fastforce simp: run_defs take_microtasks_def split: if_splits prod.splits Ending.splits
        dest: batch_counts)
qed (simp add: run_fuel_out_def)

lemma stale_batch:
  "(\<forall>job\<in>set batch. job_generation job \<noteq> g) \<Longrightarrow> run_batch H call g batch k s = (Normal k, s)"
  by (induction batch) (auto simp: run_ret_def)

text \<open>
  When a drain returns, the queue is empty, jobs enqueued by jobs included; and if every queued job
  is of an earlier realm, none is called: the drain returns zero and changes nothing but the queue.
\<close>

theorem drain_leaves_nothing:
  assumes "drain_microtasks H n s = (Normal k, s')"
  shows "promise_microtasks s' = [] \<and>
    (queue_count s = 0 \<longrightarrow> k = 0 \<and> s' = s\<lparr>promise_microtasks := []\<rparr>)"
proof (intro conjI impI)
  show "promise_microtasks s' = []"
    using assms drain_empties by (fastforce simp: drain_microtasks_def)
next
  let ?call = "promise_call H n"
  assume "queue_count s = 0"
  then have "\<forall>job\<in>set (promise_microtasks s). job_generation job \<noteq> microtask_realm_generation s"
    by (simp add: queue_count_def filter_empty_conv)
  note stale = stale_batch[OF this]
  obtain m where n: "n = Suc m"
    using assms by (cases n) (auto simp: drain_microtasks_def run_defs)
  show "k = 0" "s' = s\<lparr>promise_microtasks := []\<rparr>"
    using assms unfolding n drain_microtasks_def
    by (cases m; auto simp: run_defs take_microtasks_def stale split: if_splits)+
qed

definition queued_example :: "nat PromiseValue list \<Rightarrow> (nat, nat PromiseValue list) Promises" where
  "queued_example fs = fold queue_microtask fs (promises_start [])"

lemma drain_leaves_nothing_witness:
  "\<exists>s'. drain_microtasks plain_host 3 (queued_example [PFunction (HostFunction 1)]) = (Normal 1, s') \<and>
     promise_microtasks s' = [] \<and> promise_world s' = [PUndefined]"
proof -
  obtain s' where s': "drain_microtasks plain_host 3 (queued_example [PFunction (HostFunction 1)]) = (Normal 1, s')"
      "promise_world s' = [PUndefined]"
    by (simp add: queued_example_def drain_microtasks_def promise_run_defs promises_start_def plain_host_def
        test_host_def record_argument_def numeral_3_eq_3)
  with drain_leaves_nothing[OF s'(1)] show ?thesis by blast
qed

lemma batch_split:
  "run_batch H call g (xs @ job # ys) k s = (Normal m, t) \<Longrightarrow> job_generation job = g \<Longrightarrow>
   \<exists>k1 s1 r s2. run_batch H call g xs k s = (Normal k1, s1) \<and>
     value_call H call (job_callback job) PUndefined [] s1 = (r, s2) \<and> r \<noteq> FuelOut \<and>
     run_batch H call g ys (k1 + 1) s2 = (Normal m, t)"
proof (induction xs arbitrary: k s)
  case Nil
  then show ?case
    by (auto simp: run_ret_def run_catch_def split: prod.splits Ending.splits)
next
  case (Cons x xs)
  then show ?case
    by (auto simp: run_catch_def split: if_splits prod.splits Ending.splits)
qed

lemma drain_first_batch:
  assumes "drain_microtasks H n s = (Normal k, s')" "promise_microtasks s \<noteq> []"
  shows "\<exists>j t. run_batch H (promise_call H n) (microtask_realm_generation s) (promise_microtasks s) 0
    (s\<lparr>promise_microtasks := []\<rparr>) = (Normal j, t) \<and> j \<le> k"
proof -
  obtain m where n: "n = Suc m"
    using assms(1) by (cases n) (auto simp: drain_microtasks_def run_defs)
  show ?thesis
    using assms unfolding n
    by (auto simp: drain_microtasks_def run_defs take_microtasks_def split: prod.splits Ending.splits
        dest: drain_empties simp del: promise_call.simps)
qed

text \<open>
  C25. A job that starts a new realm does not stop the rest of its batch, although the queue is cleared
  to prevent just that: the generation is read once for a batch.  In a drain that returns, every job
  that was queued for the realm current at its start is called, in the state that the jobs queued
  before it left, whatever realm they left current.
\<close>

theorem stale_jobs_run_after_advance:
  assumes "drain_microtasks H n s = (Normal k, s')"
    and "promise_microtasks s = xs @ job # ys" "job_generation job = microtask_realm_generation s"
  shows "\<exists>k1 s1 r s2. run_batch H (promise_call H n) (microtask_realm_generation s) xs 0
      (s\<lparr>promise_microtasks := []\<rparr>) = (Normal k1, s1) \<and>
    value_call H (promise_call H n) (job_callback job) PUndefined [] s1 = (r, s2) \<and> r \<noteq> FuelOut \<and> k1 < k"
proof -
  let ?batch = "run_batch H (promise_call H n) (microtask_realm_generation s)"
  obtain j t where j: "?batch (xs @ job # ys) 0 (s\<lparr>promise_microtasks := []\<rparr>) = (Normal j, t)" "j \<le> k"
    using drain_first_batch[OF assms(1)] assms(2) by auto
  from batch_split[OF j(1) assms(3)] obtain k1 s1 r s2 where
    parts: "?batch xs 0 (s\<lparr>promise_microtasks := []\<rparr>) = (Normal k1, s1)"
      "value_call H (promise_call H n) (job_callback job) PUndefined [] s1 = (r, s2)" "r \<noteq> FuelOut"
      "?batch ys (k1 + 1) s2 = (Normal j, t)"
    by blast
  have "k1 + 1 \<le> j"
    by (rule batch_counts[OF parts(4)])
  with parts j(2) show ?thesis by fastforce
qed

definition advancing_example :: "(nat, nat PromiseValue list) Promises" where
  "advancing_example = queued_example [PFunction (HostFunction 2), PFunction (HostFunction 1)]"

lemma advancing_example_drain:
  "\<exists>s'. drain_microtasks test_host 3 advancing_example = (Normal 2, s') \<and> promise_world s' = [PUndefined]"
  by (simp add: advancing_example_def queued_example_def drain_microtasks_def promise_run_defs
      promises_start_def test_host_def record_argument_def numeral_3_eq_3 numeral_2_eq_2
      advance_realm_generation_def)

lemma stale_jobs_run_after_advance_witness:
  "\<exists>k1 s1 r s2. run_batch test_host (promise_call test_host 3) 0
      [\<lparr> job_callback = PFunction (HostFunction 2), job_generation = 0 \<rparr>] 0
      (advancing_example\<lparr>promise_microtasks := []\<rparr>) = (Normal k1, s1) \<and> microtask_realm_generation s1 = 1 \<and>
    value_call test_host (promise_call test_host 3) (PFunction (HostFunction 1)) PUndefined [] s1 = (r, s2) \<and>
    promise_world s2 = [PUndefined]"
proof -
  obtain s' where drain: "drain_microtasks test_host 3 advancing_example = (Normal 2, s')"
    using advancing_example_drain by blast
  have queue: "promise_microtasks advancing_example =
      [\<lparr> job_callback = PFunction (HostFunction 2), job_generation = 0 \<rparr>] @
      \<lparr> job_callback = PFunction (HostFunction 1), job_generation = 0 \<rparr> # []"
    "microtask_realm_generation advancing_example = 0" "promise_world advancing_example = []"
    by (simp_all add: advancing_example_def queued_example_def queue_microtask_def
        queue_microtask_for_generation_def value_is_function_def promises_start_def)
  have before: "run_batch test_host (promise_call test_host 3) 0
      [\<lparr> job_callback = PFunction (HostFunction 2), job_generation = 0 \<rparr>] 0
      (advancing_example\<lparr>promise_microtasks := []\<rparr>) =
      (Normal 1, advancing_example\<lparr>promise_microtasks := [], microtask_realm_generation := 1\<rparr>)"
    using queue(2) by (simp add: promise_run_defs test_host_def numeral_3_eq_3 advance_realm_generation_def)
  have called: "promise_world (snd (value_call test_host (promise_call test_host 3)
      (PFunction (HostFunction 1)) PUndefined [] (advancing_example
        \<lparr>promise_microtasks := [], microtask_realm_generation := 1\<rparr>))) = [PUndefined]"
    using queue(3) by (simp add: promise_run_defs test_host_def record_argument_def numeral_3_eq_3)
  from stale_jobs_run_after_advance[OF drain queue(1)] queue(2) before called show ?thesis
    by (auto simp del: promise_call.simps run_batch.simps)
qed

lemma drain_batch:
  assumes "promise_microtasks s \<noteq> []" "promise_microtasks t = []" "2 \<le> n"
    and "run_batch H (promise_call H n) (microtask_realm_generation s) (promise_microtasks s) 0
      (s\<lparr>promise_microtasks := []\<rparr>) = (Normal k, t)"
  shows "drain_microtasks H n s = (Normal k, t)"
proof -
  obtain m where n: "n = Suc (Suc m)" using assms(3) by (metis add_2_eq_Suc le_add_diff_inverse)
  have "t\<lparr>promise_microtasks := []\<rparr> = t" using assms(2) by simp
  then show ?thesis
    using assms(1,2,4) unfolding n by (simp add: drain_microtasks_def run_defs take_microtasks_def del: promise_call.simps)
qed

lemma drain_single:
  assumes "promise_microtasks s = [job]" "job_generation job = microtask_realm_generation s"
    and "value_call H (promise_call H n) (job_callback job) PUndefined [] (s\<lparr>promise_microtasks := []\<rparr>) = (Normal x, t)"
    and "promise_microtasks t = []" "2 \<le> n"
  shows "drain_microtasks H n s = (Normal 1, t)"
  using assms by (intro drain_batch) (simp_all add: run_defs)

lemma settle_unwatched:
  "state_at s i = Pending [] \<Longrightarrow> settle i (Ok v) s = set_state i (Fulfilled v) s"
  "state_at s i = Pending [] \<Longrightarrow> settle i (Err v) s = set_state i (Rejected v) s"
  by (simp_all add: settle_pending current_reactions_def set_state_def)

lemma state_at_set:
  "i < length (promise_states s) \<Longrightarrow> state_at (set_state i st s) k = (if k = i then st else state_at s k)"
  by (simp add: state_at_def set_state_def)

lemma set_state_sels [simp]:
  "promise_microtasks (set_state i st s) = promise_microtasks s"
  "microtask_realm_generation (set_state i st s) = microtask_realm_generation s"
  "length (promise_states (set_state i st s)) = length (promise_states s)"
  "all_calls (set_state i st s) = all_calls s" "promise_world (set_state i st s) = promise_world s"
  by (simp_all add: set_state_def)

lemma state_at_queue [simp]: "state_at (s\<lparr>promise_microtasks := q\<rparr>) k = state_at s k"
  by (simp add: state_at_def)

lemma state_at_all [simp]: "state_at (s\<lparr>all_calls := c\<rparr>) k = state_at s k"
  by (simp add: state_at_def)

lemma plain_undefined [simp]: "plain_value PUndefined"
  by (simp add: plain_value_def value_is_object_def)

text \<open>The job of a reaction whose handler settles \<open>i\<close> and whose derived promise is \<open>k\<close>.\<close>

lemma adoption_job:
  assumes "state_at s i = Pending []" "state_at s k = Pending []" "i \<noteq> k" "plain_value v"
    and "i < length (promise_states s)"
  shows "promise_call H (Suc (Suc m)) (Invoke (ReactionJob (Reaction (PFunction (ResolveFn i)) g k x) True v) this args) s =
      (Normal PUndefined, set_state k (Fulfilled PUndefined) (set_state i (Fulfilled v) s))"
    and "promise_call H (Suc (Suc m)) (Invoke (ReactionJob (Reaction f (PFunction (RejectFn i)) k x) False v) this args) s =
      (Normal PUndefined, set_state k (Fulfilled PUndefined) (set_state i (Rejected v) s))"
  using assms
  by (simp_all add: invoke_callable_def run_reaction_def value_call_def value_is_function_def arg_def
      run_defs fulfill_plain settle_unwatched state_at_set reject_pending)

lemma subscribe_pending:
  assumes "state_at s j = Pending cs" "j < length (promise_states s)"
  shows "subscribe j f g s = (length (promise_states s),
    set_state j (Pending (cs @ [Reaction f g (length (promise_states s)) (microtask_realm_generation s)]))
      (s\<lparr>promise_states := promise_states s @ [Pending []]\<rparr>))"
  using assms by (simp add: subscribe_def pending_state_def state_at_def nth_append)

lemma fulfill_promise:
  assumes "state_at s i = Pending cs" "i \<noteq> j"
  shows "fulfill_state H call i (PPromise j) s =
    (Normal (), snd (subscribe j (PFunction (ResolveFn i)) (PFunction (RejectFn i)) s))"
  using assms by (simp add: fulfill_state_def run_defs is_pending_def state_of_def)

lemma fulfill_itself:
  assumes "state_at s i = Pending []"
  shows "fulfill_state H call i (PPromise i) s = (Normal (),
    set_state i (Rejected (PError ''TypeError: chaining cycle detected for promise'')) s)"
  using assms by (simp add: fulfill_state_def run_defs is_pending_def state_of_def reject_pending settle_unwatched)

lemma adopted:
  fixes r :: "'f PromiseValue + 'f PromiseValue"
  defines "v \<equiv> case r of Ok v \<Rightarrow> v | Err v \<Rightarrow> v"
    and "st \<equiv> case r of Ok v \<Rightarrow> Fulfilled v | Err v \<Rightarrow> Rejected v"
  assumes "i \<noteq> j" "i < length (promise_states s)" "j < length (promise_states s)"
    and "state_at s i = Pending []" "state_at s j = Pending []" "promise_microtasks s = []"
    and "plain_value v" "2 \<le> n"
    and s1: "s1 = snd (fulfill_state H call i (PPromise j) s)"
  shows "state_at s1 j = Pending [Reaction (PFunction (ResolveFn i)) (PFunction (RejectFn i))
      (length (promise_states s)) (microtask_realm_generation s)]" (is "_ = Pending [?r]")
    and "state_at (settle j r s1) i = Pending []"
    and "\<exists>t. drain_microtasks H n (settle j r s1) = (Normal 1, t) \<and> state_at t i = st"
proof -
  let ?l = "length (promise_states s)" and ?s = "s\<lparr>promise_states := promise_states s @ [Pending []]\<rparr>"
  obtain m where n: "n = Suc (Suc m)" using \<open>2 \<le> n\<close> by (metis add_2_eq_Suc le_add_diff_inverse)
  have s1_eq: "s1 = set_state j (Pending [?r]) ?s"
    using assms(3-7) by (simp add: s1 fulfill_promise subscribe_pending)
  have new: "state_at ?s k = (if k = ?l then Pending [] else state_at s k)" for k
    by (simp add: state_at_def nth_append)
  have at: "state_at s1 k = (if k = j then Pending [?r] else if k = ?l then Pending [] else state_at s k)" for k
    using assms(5) by (simp add: s1_eq state_at_set new)
  then show pending: "state_at s1 j = Pending [?r]" by simp
  have fresh: "promise_microtasks s1 = []" "microtask_realm_generation s1 = microtask_realm_generation s"
    "length (promise_states s1) = Suc ?l"
    using assms(8) by (simp_all add: s1_eq)
  let ?job = "reaction_job (r = Ok v) v ?r"
  have s2: "settle j r s1 = (set_state j st s1)\<lparr>promise_microtasks := [?job]\<rparr>"
    using fresh by (cases r)
      (simp_all add: settle_pending[OF pending] current_reactions_def st_def v_def)
  show "state_at (settle j r s1) i = Pending []"
    using assms(3-7) fresh by (simp add: s2 state_at_set at)
  let ?before = "set_state j st s1" and ?t = "set_state ?l (Fulfilled PUndefined) (set_state i st (set_state j st s1))"
  have quiet: "(settle j r s1)\<lparr>promise_microtasks := []\<rparr> = ?before"
    unfolding s2 using fresh by (cases s1) (simp add: set_state_def)
  have ready: "state_at ?before i = Pending []" "state_at ?before ?l = Pending []" "i \<noteq> ?l"
    using assms(3-7) at fresh by (simp_all add: state_at_set)
  have "value_call H (promise_call H n) (job_callback ?job) PUndefined []
      ((settle j r s1)\<lparr>promise_microtasks := []\<rparr>) = (Normal PUndefined, ?t)"
    using adoption_job[OF ready, where v = v and m = m and H = H] assms(4,9) unfolding quiet n
    by (cases r) (simp_all add: value_call_def reaction_job_def st_def v_def fresh del: promise_call.simps)
  then have "drain_microtasks H n (settle j r s1) = (Normal 1, ?t)"
    using drain_single[of "settle j r s1" ?job H n PUndefined ?t] fresh \<open>2 \<le> n\<close>
    by (simp add: s2 reaction_job_def)
  moreover have "state_at ?t i = st"
    using assms(3-7) fresh by (simp add: state_at_set)
  ultimately show "\<exists>t. drain_microtasks H n (settle j r s1) = (Normal 1, t) \<and> state_at t i = st" by blast
qed

text \<open>
  C26. Resolving a promise with another promise.  Take two different pending promises without reactions
  and an empty queue.  When the first is resolved with the second and the second is then settled with a
  plain value, the first stays pending until the queue is drained; the drain runs one job, after which
  it has the same outcome.  Resolving a promise with itself rejects it.
\<close>

theorem promise_adopts_outcome:
  assumes "i \<noteq> j" "i < length (promise_states s)" "j < length (promise_states s)"
    and "state_at s i = Pending []" "state_at s j = Pending []" "promise_microtasks s = []"
    and "plain_value v" "2 \<le> n" and "s1 = snd (fulfill_state H call i (PPromise j) s)"
  shows "(let s2 = snd (fulfill_state H call j v s1)
      in state_at s2 i = Pending [] \<and>
         (\<exists>t. drain_microtasks H n s2 = (Normal 1, t) \<and> state_at t i = Fulfilled v)) \<and>
    (let s2 = reject_state j v s1
      in state_at s2 i = Pending [] \<and>
         (\<exists>t. drain_microtasks H n s2 = (Normal 1, t) \<and> state_at t i = Rejected v)) \<and>
    state_at (snd (fulfill_state H call i (PPromise i) s)) i =
      Rejected (PError ''TypeError: chaining cycle detected for promise'')"
proof -
  note rules = adopted[where i = i and j = j and s = s and n = n and H = H and call = call, OF assms(1-6)]
  note good = rules[of "Ok v", simplified sum.case, OF assms(7-9)]
    and bad = rules[of "Err v", simplified sum.case, OF assms(7-9)]
  from good bad show ?thesis
    using assms(2,4,7) by (simp add: fulfill_plain[OF assms(7) good(1)] reject_pending[OF good(1)]
        fulfill_itself state_at_set Let_def)
qed

lemma promise_adopts_outcome_witness:
  "let s = (promises_start [])\<lparr>promise_states := [Pending [], Pending []]\<rparr>;
       s1 = snd (fulfill_state plain_host (promise_call plain_host 0) 0 (PPromise 1) s)
   in \<exists>t. drain_microtasks plain_host 2 (reject_state 1 (PNumber 5) s1) = (Normal 1, t) \<and>
        state_at t 0 = Rejected (PNumber 5)"
  using promise_adopts_outcome[of 0 1 "(promises_start [])\<lparr>promise_states := [Pending [], Pending []]\<rparr>"
      "PNumber 5" 2 _ plain_host "promise_call plain_host 0", OF _ _ _ _ _ _ _ _ refl]
  by (simp add: state_at_def promises_start_def plain_value_def value_is_object_def Let_def)

lemma state_at_subscribe:
  assumes "i \<noteq> j" "i < length (promise_states s)"
  shows "state_at (snd (subscribe j f g s)) i = state_at s i"
proof -
  let ?s = "s\<lparr>promise_states := promise_states s @ [Pending []]\<rparr>"
  have at: "state_at ?s i = state_at s i" "state_at (set_state j st ?s) i = state_at s i" for st
    using assms by (simp_all add: state_at_def set_state_def nth_append)
  show ?thesis
    by (cases "state_at ?s j")
      (simp_all add: subscribe_def pending_state_def schedule_queue at)
qed

text \<open>
  C27. Resolving a promise with another promise does not lock it in: the resolve functions keep no
  record that they were called.  While the promise waits for the other one, resolving it again with a
  plain value, or rejecting it, settles it at once, and, where reading \<open>then\<close> runs no promise code,
  whatever the other promise does later changes nothing.
\<close>

theorem resolve_again_wins:
  assumes "quiet_then H" "i \<noteq> j" "i < length (promise_states s)" "is_pending i s" "plain_value v"
    and "s1 = snd (fulfill_state H call i (PPromise j) s)"
    and "s2 = snd (promise_call H (Suc n) (Invoke (ResolveFn i) PUndefined [v]) s1)"
    and "s3 = snd (promise_call H (Suc n) (Invoke (RejectFn i) PUndefined [v]) s1)"
    and "promise_call H m r s2 = (e, t) \<or> (\<exists>k. drain_microtasks H m s2 = (k, t))"
  shows "is_pending i s1 \<and> state_at s2 i = Fulfilled v \<and> state_at s3 i = Rejected v \<and>
    state_at t i = Fulfilled v"
proof -
  obtain cs where cs: "state_at s i = Pending cs"
    using assms(4) by (auto simp: is_pending_def split: PromiseState.splits)
  have s1: "s1 = snd (subscribe j (PFunction (ResolveFn i)) (PFunction (RejectFn i)) s)"
    using fulfill_promise[OF cs assms(2)] assms(6) by simp
  then have at: "state_at s1 i = Pending cs"
    using state_at_subscribe[OF assms(2,3)] cs by simp
  have grown: "promises_grow s s1"
    using growing.subscribe_R by (simp add: s1)
  then have len: "i < length (promise_states s1)"
    using assms(3) by (auto simp: promises_grow_def)
  have s2: "state_at s2 i = Fulfilled v" and s3: "state_at s3 i = Rejected v"
    using at len assms(5,7,8)
    by (simp_all add: invoke_callable_def arg_def run_seq_def run_bind_def run_ret_def run_modify_def
        fulfill_plain reject_pending settle_pending state_at_set)
  have "i < length (promise_states s2)"
    using s2 by (cases "i < length (promise_states s2)") (simp_all add: state_at_def)
  then have "state_at t i = Fulfilled v"
    using growing.moves_call[OF assms(1), of m r] growing.moves_drain[OF assms(1), of m] assms(9) s2
    by (auto simp: moves_iff promises_grow_def state_at_def state_le_def) fastforce+
  with at s2 s3 show ?thesis by (simp add: is_pending_def)
qed

lemma resolve_again_wins_witness:
  "let s = (promises_start [])\<lparr>promise_states := [Pending [], Pending []]\<rparr>;
       s1 = snd (fulfill_state plain_host (promise_call plain_host 0) 0 (PPromise 1) s);
       s2 = snd (promise_call plain_host 1 (Invoke (ResolveFn 0) PUndefined [PNumber 5]) s1)
   in state_at (snd (promise_call plain_host 1 (Invoke (RejectFn 1) PUndefined [PNull]) s2)) 0 =
        Fulfilled (PNumber 5)"
proof -
  let ?s = "(promises_start [])\<lparr>promise_states := [Pending [], Pending []]\<rparr>"
  have "(0::nat) \<noteq> 1" "0 < length (promise_states ?s)" "is_pending 0 ?s" "plain_value (PNumber 5 :: nat PromiseValue)"
    by (simp_all add: is_pending_def state_at_def plain_value_def value_is_object_def)
  from resolve_again_wins[OF plain_host_quiet this refl refl refl disjI1[OF prod.collapse[symmetric]],
      of "promise_call plain_host 0" 0 1 "Invoke (RejectFn 1) PUndefined [PNull]"]
  show ?thesis by (simp add: Let_def del: promise_call.simps)
qed

subsection \<open>Promise.all\<close>

fun all_jobs :: "nat \<Rightarrow> nat \<Rightarrow> u64 \<Rightarrow> nat \<Rightarrow> nat \<Rightarrow> 'f PromiseValue list \<Rightarrow> 'f MicrotaskJob list" where
  "all_jobs a i g l k [] = []"
| "all_jobs a i g l k (v # vs) =
     reaction_job True v (Reaction (PFunction (AllFulfilled a k i)) (PFunction (RejectFn i)) (l + 1) g)
       # all_jobs a i g (l + 2) (k + 1) vs"

lemma watch_plain:
  assumes "plain_value v"
  shows "watch_item H call v f g s = (Normal (), s
    \<lparr>promise_states := promise_states s @ [Fulfilled v, Pending []],
     promise_microtasks := promise_microtasks s @
       [reaction_job True v (Reaction f g (length (promise_states s) + 1) (microtask_realm_generation s))]\<rparr>)"
proof -
  let ?s = "s\<lparr>promise_states := promise_states s @ [Pending []]\<rparr>"
  have new: "state_at ?s (length (promise_states s)) = Pending []" by (simp add: state_at_def)
  have "set_state (length (promise_states s)) (Fulfilled v) ?s =
      s\<lparr>promise_states := promise_states s @ [Fulfilled v]\<rparr>" by (simp add: set_state_def)
  then show ?thesis
    using fulfill_plain[OF assms new, of H call] settle_unwatched(1)[OF new, of v]
    by (simp add: watch_item_def run_defs pending_state_def subscribe_def state_at_def nth_append
        schedule_queue current_reactions_def)
qed

lemma watch_all:
  assumes "\<forall>v\<in>set vs. plain_value v"
  shows "run_each (\<lambda>(index, item). watch_item H call item (PFunction (AllFulfilled a index i)) (PFunction (RejectFn i)))
      (enumerate k vs) s = (Normal (), s
    \<lparr>promise_states := promise_states s @ concat (map (\<lambda>v. [Fulfilled v, Pending []]) vs),
     promise_microtasks := promise_microtasks s @
       all_jobs a i (microtask_realm_generation s) (length (promise_states s)) k vs\<rparr>)"
  using assms
proof (induction vs arbitrary: k s)
  case (Cons v vs)
  then show ?case by (simp add: run_seq_def run_bind_def watch_plain)
qed (simp add: run_ret_def)

lemma all_job:
  assumes "plain_value v" "a < length (all_calls t)" "all_calls t ! a = (rs, of_nat (Suc r))" "Suc r < 2 ^ 64"
    and "state_at t i = Pending []" "state_at t d = Pending []" "i \<noteq> d" "i < length (promise_states t)"
  shows "promise_call H (Suc (Suc m)) (Invoke (ReactionJob (Reaction (PFunction (AllFulfilled a k i)) g d x) True v) this args) t =
    (Normal PUndefined, set_state d (Fulfilled PUndefined)
      ((if r = 0 then set_state i (Fulfilled (PArray (rs[k := v]))) else id)
        (t\<lparr>all_calls := (all_calls t)[a := (rs[k := v], of_nat r)]\<rparr>)))"
proof -
  let ?t = "t\<lparr>all_calls := (all_calls t)[a := (rs[k := v], of_nat r)]\<rparr>"
  have zero: "(of_nat r :: usize) = 0 \<longleftrightarrow> r = 0"
    using assms(4) by (auto simp: word_of_nat_eq_0_iff dest: dvd_imp_le)
  have recorded: "record_result a k v t = ((rs[k := v], of_nat r), ?t)"
    using assms(3) by (simp add: record_result_def Let_def)
  have plain: "plain_value (PArray rs)" for rs by (simp add: plain_value_def value_is_object_def)
  have "all_fulfilled H (promise_call H m) a k i v t =
      (Normal (), (if r = 0 then set_state i (Fulfilled (PArray (rs[k := v]))) else id) ?t)"
    using assms(5,8) by (auto simp: all_fulfilled_def run_defs recorded zero fulfill_plain[OF plain] settle_unwatched)
  then show ?thesis
    using assms(5-8)
    by (simp add: invoke_callable_def run_reaction_def value_call_def value_is_function_def arg_def run_defs
        fulfill_plain[of PUndefined] settle_unwatched state_at_set)
qed

lemma all_batch:
  assumes "\<forall>v\<in>set vs. plain_value v" "k + length vs < 2 ^ 64"
    and "a < length (all_calls t)" "all_calls t ! a = (rs, of_nat (length vs))" "length rs = k + length vs"
    and "state_at t i = Pending []" "i < l" "l + 2 * length vs \<le> length (promise_states t)"
    and "\<forall>d. l \<le> d \<and> odd (d - l) \<longrightarrow> state_at t d = Pending []" "promise_microtasks t = []"
  shows "\<exists>t'. run_batch H (promise_call H (Suc (Suc m))) g (all_jobs a i g l k vs) c t = (Normal (c + length vs), t') \<and>
    promise_microtasks t' = [] \<and>
    state_at t' i = (if vs = [] then Pending [] else Fulfilled (PArray (take k rs @ vs)))"
  using assms
proof (induction vs arbitrary: l k c t rs)
  case Nil
  then show ?case by (simp add: run_ret_def)
next
  case (Cons v vs)
  let ?t = "set_state (l + 1) (Fulfilled PUndefined)
      ((if length vs = 0 then set_state i (Fulfilled (PArray (rs[k := v]))) else id)
        (t\<lparr>all_calls := (all_calls t)[a := (rs[k := v], of_nat (length vs))]\<rparr>))"
  have "promise_call H (Suc (Suc m)) (Invoke (ReactionJob (Reaction (PFunction (AllFulfilled a k i))
      (PFunction (RejectFn i)) (l + 1) g) True v) PUndefined []) t = (Normal PUndefined, ?t)"
    using Cons.prems by (intro all_job) auto
  then have step: "run_batch H (promise_call H (Suc (Suc m))) g (all_jobs a i g l k (v # vs)) c t =
      run_batch H (promise_call H (Suc (Suc m))) g (all_jobs a i g (l + 2) (k + 1) vs) (c + 1) ?t"
    by (simp add: reaction_job_def value_call_def run_catch_def del: promise_call.simps)
  have at: "state_at ?t d = (if d = l + 1 then Fulfilled PUndefined
      else if d = i \<and> vs = [] then Fulfilled (PArray (rs[k := v])) else state_at t d)" for d
    using Cons.prems(7,8) by (auto simp: state_at_def set_state_def nth_list_update)
  have rest: "take (Suc k) (rs[k := v]) = take k rs @ [v]"
    using Cons.prems(5) by (simp add: take_Suc_conv_app_nth)
  show ?case
  proof (cases "vs = []")
    case True
    then show ?thesis
      using Cons.prems(5,7,8,10) rest unfolding step
      by (simp add: run_ret_def state_at_set del: promise_call.simps)
  next
    case False
    have "\<exists>t'. run_batch H (promise_call H (Suc (Suc m))) g (all_jobs a i g (l + 2) (k + 1) vs) (c + 1) ?t =
        (Normal (c + 1 + length vs), t') \<and> promise_microtasks t' = [] \<and>
        state_at t' i = (if vs = [] then Pending [] else Fulfilled (PArray (take (k + 1) (rs[k := v]) @ vs)))"
    proof (rule Cons.IH)
      show "\<forall>d. l + 2 \<le> d \<and> odd (d - (l + 2)) \<longrightarrow> state_at ?t d = Pending []"
        using Cons.prems(7,9) False unfolding at by (auto simp: le_diff_conv2)
      show "state_at ?t i = Pending []"
        unfolding at using Cons.prems(6,7) False by simp
    qed (use Cons.prems False in \<open>auto simp: at\<close>)
    then show ?thesis
      unfolding step using False by (simp add: rest del: promise_call.simps)
  qed
qed

text \<open>
  C28. \<open>Promise.all\<close> of plain values: it gives a promise that stays pending until the queue is drained; one
  job per value is run, and the promise is fulfilled with the values in their order.
\<close>

theorem all_collects_in_order:
  assumes "vs \<noteq> []" "\<forall>v\<in>set vs. plain_value v" "length vs < 2 ^ 64" "promise_microtasks s = []" "2 \<le> n"
  shows "\<exists>s1 t. promise_all H call [PArray vs] s = (Normal (PPromise (length (promise_states s))), s1) \<and>
    state_at s1 (length (promise_states s)) = Pending [] \<and>
    drain_microtasks H n s1 = (Normal (length vs), t) \<and>
    state_at t (length (promise_states s)) = Fulfilled (PArray vs)"
proof -
  let ?i = "length (promise_states s)" and ?a = "length (all_calls s)" and ?g = "microtask_realm_generation s"
  let ?jobs = "all_jobs ?a ?i ?g (?i + 1) 0 vs"
  let ?t = "s\<lparr>promise_states := promise_states s @ Pending [] # concat (map (\<lambda>v. [Fulfilled v, Pending []]) vs),
     all_calls := all_calls s @ [(replicate (length vs) PUndefined, of_nat (length vs))]\<rparr>"
  let ?s1 = "?t\<lparr>promise_microtasks := ?jobs\<rparr>"
  obtain m where n: "n = Suc (Suc m)" using assms(5) by (metis add_2_eq_Suc le_add_diff_inverse)
  have call: "promise_all H call [PArray vs] s = (Normal (PPromise ?i), ?s1)"
    using assms(1,2,4)
    by (simp add: promise_all_def arg_def run_bind_def run_state_def run_seq_def run_ret_def pending_state_def
        new_all_call_def watch_all)
  have pairs: "concat (map (\<lambda>v. [Fulfilled v, Pending []]) vs) ! d = Pending []"
    if "odd d" "d < 2 * length vs" for d
    using that
  proof (induction vs arbitrary: d)
    case (Cons v vs)
    then show ?case by (cases d; cases "d - 1") auto
  qed simp
  have size: "length (concat (map (\<lambda>v. [Fulfilled v, Pending []]) vs)) = 2 * length vs"
    by (induction vs) simp_all
  have "state_at ?t ?i = Pending []" by (simp add: state_at_def nth_append)
  moreover have "\<forall>d. ?i + 1 \<le> d \<and> odd (d - (?i + 1)) \<longrightarrow> state_at ?t d = Pending []"
    using pairs size by (auto simp: state_at_def nth_append nth_Cons' less_diff_conv2)
  ultimately have "\<exists>t. run_batch H (promise_call H n) ?g ?jobs 0 ?t = (Normal (0 + length vs), t) \<and>
      promise_microtasks t = [] \<and>
      state_at t ?i = (if vs = [] then Pending [] else Fulfilled (PArray (take 0 (replicate (length vs) PUndefined) @ vs)))"
    unfolding n using assms(2-4) size by (intro all_batch) simp_all
  then obtain t where t: "run_batch H (promise_call H n) ?g ?jobs 0 ?t = (Normal (length vs), t)"
      "promise_microtasks t = []" "state_at t ?i = Fulfilled (PArray vs)"
    using assms(1) by auto
  have "?jobs \<noteq> []" using assms(1) by (cases vs) simp_all
  have same: "?s1\<lparr>promise_microtasks := []\<rparr> = ?t" using assms(4) by (cases s) simp
  have "drain_microtasks H n ?s1 = (Normal (length vs), t)"
  proof (rule drain_batch)
    show "run_batch H (promise_call H n) (microtask_realm_generation ?s1) (promise_microtasks ?s1) 0
        (?s1\<lparr>promise_microtasks := []\<rparr>) = (Normal (length vs), t)"
      unfolding same using t(1) by simp
  qed (use t assms(5) \<open>?jobs \<noteq> []\<close> in simp_all)
  with call t show ?thesis by (auto simp: state_at_def nth_append)
qed

lemma all_collects_in_order_witness:
  "\<exists>s1 t. promise_all plain_host (promise_call plain_host 0) [PArray [PNumber 3, PString ''b'']] (promises_start []) =
      (Normal (PPromise 0), s1) \<and> drain_microtasks plain_host 2 s1 = (Normal (Suc (Suc 0)), t) \<and>
      state_at t 0 = Fulfilled (PArray [PNumber 3, PString ''b''])"
  using all_collects_in_order[of "[PNumber 3, PString ''b'']" "promises_start []" 2 plain_host "promise_call plain_host 0"]
  by (auto simp: promises_start_def plain_value_def value_is_object_def)

end
