(* ===== verification/ModuleRegistry.thy ===== *)
theory ModuleRegistry
  imports PromiseLaws "HOL-Library.AList"
begin

text \<open>
  The registry of live modules of \<^verbatim>\<open>crates/w3cos-core/src/module_registry.rs\<close>: aliases, records, the
  evaluation of a module through a promise, and the cells behind exported bindings.

  The registry is part of the world that host code reads and writes, beside a part \<open>outer_world\<close> of
  the embedder.  The closures the file makes are constructors of \<open>RegistryFn\<close>; \<open>UserFn\<close> is any other
  function.  A function that gives an \<open>Option\<close> or a \<open>Result\<close> takes the script that goes on with it.
  The namespace object, which needs the objects of the core, and the sorted list of export names are
  left out.
\<close>

subsection \<open>State\<close>

datatype (plugins only: code) 'u RegistryFn =
    EvaluationExecutor "'u RegistryFn PromiseValue"
  | EvaluationFulfilled string | EvaluationRejected string
  | CellGetter nat | CellSetter nat
  | UserFn 'u

type_synonym 'u ModuleValue = "'u RegistryFn PromiseValue"

record 'u ExportBinding =
  binding_getter :: "'u ModuleValue"
  binding_setter :: "'u ModuleValue"

datatype EvaluationState = NewModule | Evaluating | Evaluated | EvaluationFailed

record 'u ModuleRecord =
  module_exports :: "string \<rightharpoonup> 'u ExportBinding"
  module_evaluator :: "'u ModuleValue option"
  module_native :: bool
  evaluation_state :: EvaluationState
  evaluation_result :: "'u ModuleValue option"

text \<open>\<open>ALIASES\<close> and \<open>MODULES\<close> are finite maps, here lists of entries with \<open>AList.update\<close> as insertion.\<close>

record ('u, 'w) Registry =
  registry_modules :: "(string \<times> 'u ModuleRecord) list"
  registry_aliases :: "(string \<times> string) list"
  evaluation_stack :: "string list"
  binding_cells :: "('u ModuleValue \<times> bool) list"
  outer_world :: 'w

definition registry_start :: "'w \<Rightarrow> ('u, 'w) Registry" where
  "registry_start w = \<lparr> registry_modules = [], registry_aliases = [], evaluation_stack = [],
     binding_cells = [], outer_world = w \<rparr>"

type_synonym ('u, 'w) module_script = "('u RegistryFn, ('u, 'w) Registry) Script"

subsection \<open>Aliases\<close>

function canonical_walk :: "(string \<times> string) list \<Rightarrow> string set \<Rightarrow> string \<Rightarrow> string" where
  "canonical_walk aliases visited current =
     (if current \<in> visited then current
      else case map_of aliases current of
        None \<Rightarrow> current
      | Some next \<Rightarrow> canonical_walk aliases (insert current visited) next)"
  by pat_completeness auto

termination canonical_walk
proof (relation "measure (\<lambda>(aliases, visited, _). card (fst ` set aliases - visited))")
  fix aliases :: "(string \<times> string) list" and visited and current next' :: string
  assume "current \<notin> visited" "map_of aliases current = Some next'"
  then have "current \<in> fst ` set aliases - visited"
    by (metis DiffI map_of_eq_None_iff not_None_eq)
  then have "fst ` set aliases - insert current visited \<subset> fst ` set aliases - visited" by auto
  then show "((aliases, insert current visited, next'), aliases, visited, current)
      \<in> measure (\<lambda>(aliases, visited, _). card (fst ` set aliases - visited))"
    by (simp add: psubset_card_mono)
qed simp

declare canonical_walk.simps [simp del]

definition canonical_specifier :: "('u, 'w) Registry \<Rightarrow> string \<Rightarrow> string" where
  "canonical_specifier reg specifier = canonical_walk (registry_aliases reg) {} specifier"

definition register_alias :: "string \<Rightarrow> string \<Rightarrow> ('u, 'w) Registry \<Rightarrow> ('u, 'w) Registry" where
  "register_alias name canonical reg =
     reg\<lparr>registry_aliases := AList.update name canonical (registry_aliases reg)\<rparr>"

subsection \<open>Records\<close>

definition registry_find :: "string \<Rightarrow> ('u, 'w) Registry \<Rightarrow> 'u ModuleRecord option" where
  "registry_find specifier reg = map_of (registry_modules reg) specifier"

definition registry_set :: "string \<Rightarrow> 'u ModuleRecord \<Rightarrow> ('u, 'w) Registry \<Rightarrow> ('u, 'w) Registry" where
  "registry_set specifier r reg =
     reg\<lparr>registry_modules := AList.update specifier r (registry_modules reg)\<rparr>"

definition register_with_kind ::
  "string \<Rightarrow> (string \<rightharpoonup> 'u ExportBinding) \<Rightarrow> 'u ModuleValue option \<Rightarrow> bool \<Rightarrow>
     ('u, 'w) Registry \<Rightarrow> ('u, 'w) Registry" where
  "register_with_kind specifier exports evaluator native reg =
     registry_set (canonical_specifier reg specifier)
       \<lparr> module_exports = exports, module_evaluator = evaluator, module_native = native,
         evaluation_state = NewModule, evaluation_result = None \<rparr> reg"

definition register_module ::
  "string \<Rightarrow> (string \<rightharpoonup> 'u ExportBinding) \<Rightarrow> 'u ModuleValue option \<Rightarrow> ('u, 'w) Registry \<Rightarrow> ('u, 'w) Registry" where
  "register_module specifier exports evaluator = register_with_kind specifier exports evaluator True"

definition register_runtime ::
  "string \<Rightarrow> (string \<rightharpoonup> 'u ExportBinding) \<Rightarrow> 'u ModuleValue option \<Rightarrow> ('u, 'w) Registry \<Rightarrow> ('u, 'w) Registry" where
  "register_runtime specifier exports evaluator = register_with_kind specifier exports evaluator False"

definition registry_contains :: "string \<Rightarrow> ('u, 'w) Registry \<Rightarrow> bool" where
  "registry_contains specifier reg \<longleftrightarrow> registry_find (canonical_specifier reg specifier) reg \<noteq> None"

definition contains_native :: "string \<Rightarrow> ('u, 'w) Registry \<Rightarrow> bool" where
  "contains_native specifier reg = (case registry_find (canonical_specifier reg specifier) reg of
     None \<Rightarrow> False | Some r \<Rightarrow> module_native r)"

definition module_export :: "string \<Rightarrow> string \<Rightarrow> ('u, 'w) Registry \<Rightarrow> 'u ExportBinding option" where
  "module_export specifier name reg = (case registry_find (canonical_specifier reg specifier) reg of
     None \<Rightarrow> None | Some r \<Rightarrow> module_exports r name)"

definition unregister :: "string \<Rightarrow> ('u, 'w) Registry \<Rightarrow> ('u, 'w) Registry" where
  "unregister specifier reg =
     (let canonical = canonical_specifier reg specifier
      in reg\<lparr>registry_aliases := AList.delete specifier (registry_aliases reg),
             registry_modules := AList.delete canonical (registry_modules reg)\<rparr>)"

definition registry_clear :: "('u, 'w) Registry \<Rightarrow> ('u, 'w) Registry" where
  "registry_clear reg = reg\<lparr>registry_modules := [], registry_aliases := []\<rparr>"

subsection \<open>Binding cells\<close>

text \<open>A cell is \<open>(value, initialized)\<close>.\<close>

definition add_binding_cell :: "'u ModuleValue \<times> bool \<Rightarrow> ('u, 'w) Registry \<Rightarrow> nat \<times> ('u, 'w) Registry" where
  "add_binding_cell cell reg = (length (binding_cells reg), reg\<lparr>binding_cells := binding_cells reg @ [cell]\<rparr>)"

definition cell_uninitialized :: "('u, 'w) Registry \<Rightarrow> nat \<times> ('u, 'w) Registry" where
  "cell_uninitialized = add_binding_cell (PUndefined, False)"

definition cell_initialized :: "'u ModuleValue \<Rightarrow> ('u, 'w) Registry \<Rightarrow> nat \<times> ('u, 'w) Registry" where
  "cell_initialized v = add_binding_cell (v, True)"

definition is_initialized :: "nat \<Rightarrow> ('u, 'w) Registry \<Rightarrow> bool" where
  "is_initialized c reg = snd (binding_cells reg ! c)"

definition try_read_named :: "string \<Rightarrow> nat \<Rightarrow> ('u, 'w) Registry \<Rightarrow> 'u ModuleValue + 'u ModuleValue" where
  "try_read_named name c reg = (case binding_cells reg ! c of
     (v, True) \<Rightarrow> Ok v
   | (_, False) \<Rightarrow> Err (PReferenceError (name @ '' is not initialized'')))"

definition initialize_or_set :: "nat \<Rightarrow> 'u ModuleValue \<Rightarrow> ('u, 'w) Registry \<Rightarrow> 'u ModuleValue \<times> ('u, 'w) Registry" where
  "initialize_or_set c v reg = (v, reg\<lparr>binding_cells := (binding_cells reg)[c := (v, True)]\<rparr>)"

definition binding_cell_read :: "nat \<Rightarrow> ('u, 'w) module_script" where
  "binding_cell_read c = ReadWorld (\<lambda>reg. case try_read_named ''module binding'' c reg of
     Ok v \<Rightarrow> Finish (Ok v) | Err e \<Rightarrow> Finish (Err (ThrownValue e)))"

definition from_cell :: "nat \<Rightarrow> bool \<Rightarrow> 'u ExportBinding" where
  "from_cell c writable = \<lparr> binding_getter = PFunction (HostFunction (CellGetter c)),
     binding_setter = (if writable then PFunction (HostFunction (CellSetter c)) else PUndefined) \<rparr>"

text \<open>\<open>catch_js\<close>: a JavaScript exception becomes a value, any other panic goes on.\<close>

definition catch_js ::
  "('f PromiseValue + 'f PromiseValue \<Rightarrow> ('f, 'w) Script) \<Rightarrow> 'f Payload + 'f PromiseValue \<Rightarrow> ('f, 'w) Script" where
  "catch_js k r = (case r of
     Ok v \<Rightarrow> k (Ok v)
   | Err (ThrownValue v) \<Rightarrow> k (Err v)
   | Err p \<Rightarrow> Finish (Err p))"

definition binding_try_read ::
  "'u ExportBinding \<Rightarrow> ('u ModuleValue + 'u ModuleValue \<Rightarrow> ('u, 'w) module_script) \<Rightarrow> ('u, 'w) module_script" where
  "binding_try_read b k = CallValue (binding_getter b) PUndefined [] (catch_js k)"

text \<open>\<open>is_callable\<close> of a setter is left to the host for its own objects.\<close>

definition binding_try_write ::
  "('u ModuleValue \<Rightarrow> bool) \<Rightarrow> 'u ExportBinding \<Rightarrow> 'u ModuleValue \<Rightarrow>
     ('u ModuleValue + 'u ModuleValue \<Rightarrow> ('u, 'w) module_script) \<Rightarrow> ('u, 'w) module_script" where
  "binding_try_write is_callable b v k =
     (if \<not> is_callable (binding_setter b)
      then k (Err (PString ''TypeError: imported module binding is immutable''))
      else CallValue (binding_setter b) PUndefined [v] (catch_js k))"

definition unwrap_or_throw :: "'f PromiseValue + 'f PromiseValue \<Rightarrow> ('f, 'w) Script" where
  "unwrap_or_throw r = (case r of Ok v \<Rightarrow> Finish (Ok v) | Err e \<Rightarrow> Finish (Err (ThrownValue e)))"

definition binding_read :: "'u ExportBinding \<Rightarrow> ('u, 'w) module_script" where
  "binding_read b = binding_try_read b unwrap_or_throw"

definition binding_write :: "('u ModuleValue \<Rightarrow> bool) \<Rightarrow> 'u ExportBinding \<Rightarrow> 'u ModuleValue \<Rightarrow> ('u, 'w) module_script" where
  "binding_write is_callable b v = binding_try_write is_callable b v unwrap_or_throw"

subsection \<open>Evaluation\<close>

definition settle_evaluation ::
  "string \<Rightarrow> EvaluationState \<Rightarrow> 'u ModuleValue \<Rightarrow> ('u, 'w) Registry \<Rightarrow> ('u, 'w) Registry" where
  "settle_evaluation specifier st result reg = (case registry_find specifier reg of
     None \<Rightarrow> reg
   | Some r \<Rightarrow> registry_set specifier (r\<lparr>evaluation_state := st,
       evaluation_result := (if result \<noteq> PUndefined then Some result else evaluation_result r)\<rparr>) reg)"

definition or_panic :: "('f PromiseValue \<Rightarrow> ('f, 'w) Script) \<Rightarrow> 'f Payload + 'f PromiseValue \<Rightarrow> ('f, 'w) Script" where
  "or_panic k r = (case r of Ok v \<Rightarrow> k v | Err p \<Rightarrow> Finish (Err p))"

definition update_world :: "('w \<Rightarrow> 'w) \<Rightarrow> ('f, 'w) Script \<Rightarrow> ('f, 'w) Script" where
  "update_world f k = ReadWorld (\<lambda>w. WriteWorld (f w) k)"

definition resolved_undefined :: "('f PromiseValue \<Rightarrow> ('f, 'w) Script) \<Rightarrow> ('f, 'w) Script" where
  "resolved_undefined k = UseApi (ResolveValue [PUndefined]) (or_panic k)"

definition cached_evaluation ::
  "'u ModuleRecord \<Rightarrow> ('u ModuleValue option \<Rightarrow> ('u, 'w) module_script) \<Rightarrow> ('u, 'w) module_script" where
  "cached_evaluation r k = (case evaluation_result r of
     Some v \<Rightarrow> k (Some v) | None \<Rightarrow> resolved_undefined (\<lambda>v. k (Some v)))"

definition store_evaluation :: "string \<Rightarrow> 'u ModuleValue \<Rightarrow> ('u, 'w) Registry \<Rightarrow> ('u, 'w) Registry" where
  "store_evaluation specifier execution reg = (case registry_find specifier reg of
     None \<Rightarrow> reg | Some r \<Rightarrow> registry_set specifier (r\<lparr>evaluation_result := Some execution\<rparr>) reg)"

definition pop_stack :: "('u, 'w) Registry \<Rightarrow> ('u, 'w) Registry" where
  "pop_stack reg = reg\<lparr>evaluation_stack := butlast (evaluation_stack reg)\<rparr>"

text \<open>After the executor has run: keep the promise as the result and follow its settlement.\<close>

definition finish_evaluation ::
  "string \<Rightarrow> 'u ModuleValue \<Rightarrow> ('u ModuleValue option \<Rightarrow> ('u, 'w) module_script) \<Rightarrow> ('u, 'w) module_script" where
  "finish_evaluation specifier execution k =
     update_world (store_evaluation specifier execution) (AskStatus execution (\<lambda>status. case status of
       Some (StatusFulfilled _) \<Rightarrow>
         update_world (settle_evaluation specifier Evaluated execution) (k (Some execution))
     | Some (StatusRejected _) \<Rightarrow>
         update_world (settle_evaluation specifier EvaluationFailed execution) (k (Some execution))
     | _ \<Rightarrow> CallValue (case state_of execution of Some i \<Rightarrow> PFunction (ThenFn i) | None \<Rightarrow> PUndefined) execution
         [PFunction (HostFunction (EvaluationFulfilled specifier)),
          PFunction (HostFunction (EvaluationRejected specifier))] (or_panic (\<lambda>_. k (Some execution)))))"

definition run_evaluation ::
  "string \<Rightarrow> 'u ModuleValue option \<Rightarrow> ('u ModuleValue option \<Rightarrow> ('u, 'w) module_script) \<Rightarrow> ('u, 'w) module_script" where
  "run_evaluation specifier evaluator k = (case evaluator of
     None \<Rightarrow> resolved_undefined (\<lambda>result.
       update_world (settle_evaluation specifier Evaluated result) (k (Some result)))
   | Some f \<Rightarrow>
       update_world (\<lambda>reg. reg\<lparr>evaluation_stack := evaluation_stack reg @ [specifier]\<rparr>)
         (UseApi (NewPromise [PFunction (HostFunction (EvaluationExecutor f))]) (or_panic (\<lambda>execution.
            update_world pop_stack (finish_evaluation specifier execution k)))))"

definition evaluate_module ::
  "string \<Rightarrow> ('u ModuleValue option \<Rightarrow> ('u, 'w) module_script) \<Rightarrow> ('u, 'w) module_script" where
  "evaluate_module name k = ReadWorld (\<lambda>reg.
     let specifier = canonical_specifier reg name
     in case registry_find specifier reg of
          None \<Rightarrow> k None
        | Some r \<Rightarrow> (case evaluation_state r of
            NewModule \<Rightarrow>
              WriteWorld (registry_set specifier (r\<lparr>evaluation_state := Evaluating\<rparr>) reg)
                (run_evaluation specifier (module_evaluator r) k)
          | Evaluating \<Rightarrow>
              if specifier \<in> set (evaluation_stack reg) then resolved_undefined (\<lambda>v. k (Some v))
              else cached_evaluation r k
          | _ \<Rightarrow> cached_evaluation r k))"

text \<open>The closures of the file.\<close>

definition registry_function ::
  "('u \<Rightarrow> 'u ModuleValue \<Rightarrow> 'u ModuleValue list \<Rightarrow> ('u, 'w) module_script) \<Rightarrow>
     'u RegistryFn \<Rightarrow> 'u ModuleValue \<Rightarrow> 'u ModuleValue list \<Rightarrow> ('u, 'w) module_script" where
  "registry_function user f this args = (case f of
     EvaluationExecutor evaluator \<Rightarrow> CallValue evaluator PUndefined [] (or_panic (\<lambda>v.
       CallValue (arg args 0) PUndefined [v] (or_panic (\<lambda>_. Finish (Ok PUndefined)))))
   | EvaluationFulfilled specifier \<Rightarrow>
       update_world (settle_evaluation specifier Evaluated PUndefined) (Finish (Ok PUndefined))
   | EvaluationRejected specifier \<Rightarrow>
       update_world (settle_evaluation specifier EvaluationFailed PUndefined) (Finish (Ok (arg args 0)))
   | CellGetter c \<Rightarrow> binding_cell_read c
   | CellSetter c \<Rightarrow> ReadWorld (\<lambda>reg. case initialize_or_set c (arg args 0) reg of
       (v, reg') \<Rightarrow> WriteWorld reg' (Finish (Ok v)))
   | UserFn g \<Rightarrow> user g this args)"

text \<open>The host with these closures: \<open>user\<close> are its other functions, \<open>slots\<close> and \<open>thens\<close> its objects.\<close>

definition registry_host ::
  "('u \<Rightarrow> 'u ModuleValue \<Rightarrow> 'u ModuleValue list \<Rightarrow> ('u, 'w) module_script) \<Rightarrow> (nat \<Rightarrow> 'u option) \<Rightarrow>
     (nat \<Rightarrow> ('u, 'w) module_script) \<Rightarrow> ('u RegistryFn, ('u, 'w) Registry) PromiseHost" where
  "registry_host user slots thens = \<lparr> host_function = registry_function user,
     object_call_slot = (\<lambda>i. map_option UserFn (slots i)), object_then = thens \<rparr>"

subsection \<open>Following aliases\<close>

definition alias_step :: "(string \<times> string) list \<Rightarrow> (string \<times> string) set" where
  "alias_step aliases = {(x, y). map_of aliases x = Some y}"

lemma canonical_walk_reaches:
  assumes "\<forall>v\<in>visited. (v, current) \<in> (alias_step aliases)\<^sup>+"
  shows "(current, canonical_walk aliases visited current) \<in> (alias_step aliases)\<^sup>* \<and>
    (map_of aliases (canonical_walk aliases visited current) = None \<or>
     (canonical_walk aliases visited current, canonical_walk aliases visited current) \<in> (alias_step aliases)\<^sup>+)"
  using assms
proof (induction aliases visited current rule: canonical_walk.induct)
  case (1 aliases visited current)
  show ?case
  proof (cases "current \<in> visited")
    case True
    then show ?thesis using "1.prems" by (subst (1 2 3 4) canonical_walk.simps) simp
  next
    case False
    show ?thesis
    proof (cases "map_of aliases current")
      case None
      with False show ?thesis by (subst (1 2 3 4) canonical_walk.simps) simp
    next
      case (Some y)
      then have step: "(current, y) \<in> alias_step aliases" by (simp add: alias_step_def)
      have walk: "canonical_walk aliases visited current = canonical_walk aliases (insert current visited) y"
        using False Some by (subst canonical_walk.simps) simp
      have "\<forall>v\<in>insert current visited. (v, y) \<in> (alias_step aliases)\<^sup>+"
        using "1.prems" step by (auto intro: trancl_into_trancl)
      from "1.IH"[OF False Some this] show ?thesis
        unfolding walk using step by (auto intro: converse_rtrancl_into_rtrancl)
    qed
  qed
qed

text \<open>
  C31. Resolving a specifier always ends, at a name reached from it by aliases that is itself no alias, or
  lies on a cycle of aliases; a name that is no alias is its own canonical name.
\<close>

theorem canonical_specifier_resolves:
  "let c = canonical_specifier reg specifier; step = alias_step (registry_aliases reg)
   in (specifier, c) \<in> step\<^sup>* \<and> (map_of (registry_aliases reg) c = None \<or> (c, c) \<in> step\<^sup>+) \<and>
      (map_of (registry_aliases reg) specifier = None \<longrightarrow> c = specifier)"
proof -
  have "canonical_specifier reg specifier = specifier" if "map_of (registry_aliases reg) specifier = None"
    using that by (simp add: canonical_specifier_def canonical_walk.simps)
  then show ?thesis
    using canonical_walk_reaches[of "{}" specifier "registry_aliases reg"]
    by (simp add: Let_def canonical_specifier_def)
qed

lemma canonical_specifier_resolves_witness:
  "canonical_specifier (register_alias ''a'' ''b'' (registry_start ())) ''b'' = ''b''"
  using canonical_specifier_resolves[of "register_alias ''a'' ''b'' (registry_start ())" "''b''"]
  by (auto simp: Let_def register_alias_def registry_start_def)

subsection \<open>A module is evaluated once\<close>

lemma registry_find_set [simp]:
  "registry_find x (registry_set y r reg) = (if x = y then Some r else registry_find x reg)"
  by (simp add: registry_find_def registry_set_def update_conv')

lemma script_update_world [simp]:
  "run_script H call (update_world f k) s = run_script H call k (s\<lparr>promise_world := f (promise_world s)\<rparr>)"
  by (simp add: update_world_def run_defs)

lemma resolve_undefined:
  "promise_call H (Suc n) (Perform (ResolveValue [PUndefined])) s =
    (Normal (PPromise (length (promise_states s))), s\<lparr>promise_states := promise_states s @ [Fulfilled PUndefined]\<rparr>)"
proof -
  let ?s = "s\<lparr>promise_states := promise_states s @ [Pending []]\<rparr>"
  have "state_at ?s (length (promise_states s)) = Pending []" by (simp add: state_at_def)
  then show ?thesis
    by (simp add: perform_api_def promise_resolve_def arg_def run_defs pending_state_def
        fulfill_plain settle_unwatched set_state_def)
qed

lemma script_resolved_undefined:
  "run_script H (promise_call H (Suc n)) (resolved_undefined k) s =
    run_script H (promise_call H (Suc n)) (k (PPromise (length (promise_states s))))
      (s\<lparr>promise_states := promise_states s @ [Fulfilled PUndefined]\<rparr>)"
  using resolve_undefined[of H n s]
  by (simp add: resolved_undefined_def run_catch_def or_panic_def del: promise_call.simps)

text \<open>
  A module that is being evaluated or was evaluated runs no code again: evaluating it gives the stored
  promise and changes nothing, or, for an edge back into the active evaluation, a new fulfilled promise.
\<close>

theorem evaluate_runs_no_code_again:
  assumes "registry_find (canonical_specifier (promise_world s) name) (promise_world s) = Some r"
    and "evaluation_state r \<noteq> NewModule"
  shows "run_script H (promise_call H (Suc n)) (evaluate_module name k) s =
    (if evaluation_result r = None \<or> evaluation_state r = Evaluating \<and>
          canonical_specifier (promise_world s) name \<in> set (evaluation_stack (promise_world s))
     then run_script H (promise_call H (Suc n)) (k (Some (PPromise (length (promise_states s)))))
            (s\<lparr>promise_states := promise_states s @ [Fulfilled PUndefined]\<rparr>)
     else run_script H (promise_call H (Suc n)) (k (evaluation_result r)) s)"
  using assms
  by (cases "evaluation_state r")
    (auto simp: evaluate_module_def Let_def run_bind_def run_gets_def cached_evaluation_def
      script_resolved_undefined simp del: promise_call.simps split: option.split)

lemma evaluate_runs_no_code_again_witness:
  "\<forall>H. \<exists>s :: (unit RegistryFn, (unit, unit) Registry) Promises.
     run_script H (promise_call H (Suc 0)) (evaluate_module ''m'' (\<lambda>v. Finish (Ok (the v)))) s = (Normal PNull, s)"
proof
  fix H :: "(unit RegistryFn, (unit, unit) Registry) PromiseHost"
  let ?r = "\<lparr>module_exports = Map.empty, module_evaluator = Some (PFunction (HostFunction (UserFn ()))),
    module_native = True, evaluation_state = Evaluated, evaluation_result = Some PNull\<rparr>"
  let ?s = "promises_start (registry_set ''m'' ?r (registry_start ()))"
  have "canonical_specifier (promise_world ?s) ''m'' = ''m''"
    by (simp add: promises_start_def canonical_specifier_def canonical_walk.simps registry_set_def registry_start_def)
  then have "registry_find (canonical_specifier (promise_world ?s) ''m'') (promise_world ?s) = Some ?r"
    by (simp add: promises_start_def)
  from evaluate_runs_no_code_again[OF this, of H 0 "\<lambda>v. Finish (Ok (the v))"]
  show "\<exists>s :: (unit RegistryFn, (unit, unit) Registry) Promises. run_script H (promise_call H (Suc 0))
      (evaluate_module ''m'' (\<lambda>v. Finish (Ok (the v)))) s = (Normal PNull, s)" by (auto simp: run_ret_def simp del: promise_call.simps)
qed

definition evaluation_begun :: "string \<Rightarrow> 'u ModuleRecord \<Rightarrow> ('u RegistryFn, ('u, 'w) Registry) Promises \<Rightarrow>
    ('u RegistryFn, ('u, 'w) Registry) Promises" where
  "evaluation_begun specifier r s = s
     \<lparr>promise_world := (registry_set specifier (r\<lparr>evaluation_state := Evaluating\<rparr>) (promise_world s))
        \<lparr>evaluation_stack := evaluation_stack (promise_world s) @ [specifier]\<rparr>,
      promise_states := promise_states s @ [Pending []]\<rparr>"

definition evaluation_done :: "string \<Rightarrow> EvaluationState \<Rightarrow> 'u ModuleValue \<Rightarrow> ('u, 'w) Registry \<Rightarrow> ('u, 'w) Registry" where
  "evaluation_done specifier st promise reg =
     settle_evaluation specifier st promise (store_evaluation specifier promise (pop_stack reg))"

lemma executor_call:
  fixes i :: nat
  assumes "value_call H (promise_call H (Suc m)) f PUndefined [] s = (e, t)"
    and "H = registry_host user slots thens" "state_at t i = Pending []" "i < length (promise_states t)"
  shows "e = Normal v \<Longrightarrow> plain_value v \<Longrightarrow>
      promise_call H (Suc (Suc m)) (Invoke (HostFunction (EvaluationExecutor f)) this [PFunction (ResolveFn i), g]) s =
      (Normal PUndefined, set_state i (Fulfilled v) t)"
    and "e = Threw p \<Longrightarrow>
      promise_call H (Suc (Suc m)) (Invoke (HostFunction (EvaluationExecutor f)) this [PFunction (ResolveFn i), g]) s =
      (Threw p, t)"
  using assms
  by (simp_all add: invoke_callable_def registry_host_def registry_function_def run_catch_def or_panic_def
      arg_def value_call_def[of _ _ "PFunction (ResolveFn i)"] run_bind_def run_seq_def run_ret_def run_throw_def
      fulfill_plain settle_unwatched)

lemma new_promise_executor:
  assumes call: "value_call H (promise_call H (Suc m)) f PUndefined []
      (s\<lparr>promise_states := promise_states s @ [Pending []]\<rparr>) = (e, t)"
    and H: "H = registry_host user slots thens"
    and i: "i = length (promise_states s)" "state_at t i = Pending []" "i < length (promise_states t)"
  shows "e = Normal v \<Longrightarrow> plain_value v \<Longrightarrow>
      promise_call H (Suc (Suc (Suc m))) (Perform (NewPromise [PFunction (HostFunction (EvaluationExecutor f))])) s =
      (Normal (PPromise i), set_state i (Fulfilled v) t)"
    and "e = Threw p \<Longrightarrow>
      promise_call H (Suc (Suc (Suc m))) (Perform (NewPromise [PFunction (HostFunction (EvaluationExecutor f))])) s =
      (Normal (PPromise i), set_state i (Rejected (payload_to_value p)) t)"
proof -
  note run = executor_call[OF call H i(2,3)]
  let ?s = "s\<lparr>promise_states := promise_states s @ [Pending []]\<rparr>"
  have new: "promise_call H (Suc (Suc (Suc m))) (Perform (NewPromise [PFunction (HostFunction (EvaluationExecutor f))])) s =
      run_catch (promise_call H (Suc (Suc m)) (Invoke (HostFunction (EvaluationExecutor f)) PUndefined
          [PFunction (ResolveFn i), PFunction (RejectFn i)]))
        (\<lambda>outcome. run_seq (case outcome of Ok _ \<Rightarrow> run_ret ()
            | Err payload \<Rightarrow> run_modify (reject_state i (payload_to_value payload))) (run_ret (PPromise i))) ?s"
    unfolding i(1)
    by (simp add: perform_api_def promise_new_def arg_def value_call_def run_bind_def run_state_def
        pending_state_def)
  { assume "e = Normal v" "plain_value v"
    from run(1)[OF this, of PUndefined "PFunction (RejectFn i)"]
    show "promise_call H (Suc (Suc (Suc m))) (Perform (NewPromise [PFunction (HostFunction (EvaluationExecutor f))])) s =
        (Normal (PPromise i), set_state i (Fulfilled v) t)"
      unfolding new by (simp add: run_catch_def run_seq_def run_bind_def run_ret_def del: promise_call.simps) }
  { assume "e = Threw p"
    from run(2)[OF this, of PUndefined "PFunction (RejectFn i)"]
    show "promise_call H (Suc (Suc (Suc m))) (Perform (NewPromise [PFunction (HostFunction (EvaluationExecutor f))])) s =
        (Normal (PPromise i), set_state i (Rejected (payload_to_value p)) t)"
      unfolding new using i(2)
      by (simp add: run_catch_def run_seq_def run_bind_def run_ret_def run_modify_def reject_pending settle_unwatched
          del: promise_call.simps) }
qed

lemma begin_evaluation:
  assumes "canonical_specifier (promise_world s) name = x" "registry_find x (promise_world s) = Some r"
    and "evaluation_state r = NewModule" "module_evaluator r = Some f"
    and "promise_call H n (Perform (NewPromise [PFunction (HostFunction (EvaluationExecutor f))]))
      (s\<lparr>promise_world := (registry_set x (r\<lparr>evaluation_state := Evaluating\<rparr>) (promise_world s))
        \<lparr>evaluation_stack := evaluation_stack (promise_world s) @ [x]\<rparr>\<rparr>) = (Normal v, t)"
  shows "run_script H (promise_call H n) (evaluate_module name k) s =
    run_script H (promise_call H n) (finish_evaluation x v k) (t\<lparr>promise_world := pop_stack (promise_world t)\<rparr>)"
  using assms
  by (simp add: evaluate_module_def run_bind_def run_gets_def run_seq_def run_modify_def run_evaluation_def
      run_catch_def or_panic_def registry_set_def del: promise_call.simps)

lemma finish_settled:
  assumes "state_at s i = st" "st = Fulfilled v \<and> es = Evaluated \<or> st = Rejected v \<and> es = EvaluationFailed"
  shows "run_script H call (finish_evaluation x (PPromise i) k) (s\<lparr>promise_world := pop_stack (promise_world s)\<rparr>) =
    run_script H call (k (Some (PPromise i))) (s\<lparr>promise_world := evaluation_done x es (PPromise i) (promise_world s)\<rparr>)"
  using assms
  by (auto simp: finish_evaluation_def run_bind_def run_gets_def promise_status_def state_of_def
      evaluation_done_def state_at_def)

lemma evaluation_done_record:
  assumes "registry_find x reg \<noteq> None" "v \<noteq> PUndefined"
  shows "\<exists>r. registry_find x (evaluation_done x st v reg) = Some r \<and> evaluation_state r = st \<and>
    evaluation_result r = Some v"
proof -
  have "registry_find x (pop_stack reg) = registry_find x reg"
    by (simp add: registry_find_def pop_stack_def)
  with assms show ?thesis
    by (auto simp: evaluation_done_def settle_evaluation_def store_evaluation_def)
qed

text \<open>
  C32. The evaluation of a new module whose evaluator settles its promise at once: the record is marked and
  put on the stack before the evaluator runs, and, where the evaluator left the promise of the
  evaluation untouched and the record in place, a plain value (no object) it returns fulfils that
  promise and what it throws rejects it; the record ends as evaluated or failed with this promise, and
  the stack is popped either way.  An evaluator that returns a promise is the subject of the next one.
\<close>

theorem evaluation_outcome:
  fixes s :: "('u RegistryFn, ('u, 'w) Registry) Promises"
  defines "i \<equiv> length (promise_states s)"
  assumes "canonical_specifier (promise_world s) name = x" "registry_find x (promise_world s) = Some r"
    and "evaluation_state r = NewModule" "module_evaluator r = Some f" "H = registry_host user slots thens"
    and "value_call H (promise_call H (Suc m)) f PUndefined [] (evaluation_begun x r s) = (e, t)"
    and "state_at t i = Pending []" "i < length (promise_states t)" "registry_find x (promise_world t) \<noteq> None"
    and outcome: "e = Normal v \<and> plain_value v \<and> st = Fulfilled v \<and> es = Evaluated \<or>
      e = Threw p \<and> st = Rejected (payload_to_value p) \<and> es = EvaluationFailed"
  shows "run_script H (promise_call H (Suc (Suc (Suc m)))) (evaluate_module name k) s =
      run_script H (promise_call H (Suc (Suc (Suc m)))) (k (Some (PPromise i)))
        ((set_state i st t)\<lparr>promise_world := evaluation_done x es (PPromise i) (promise_world t)\<rparr>) \<and>
    (\<exists>r'. registry_find x (evaluation_done x es (PPromise i) (promise_world t)) = Some r' \<and>
       evaluation_state r' = es \<and> evaluation_result r' = Some (PPromise i))"
proof -
  let ?s = "s\<lparr>promise_world := (registry_set x (r\<lparr>evaluation_state := Evaluating\<rparr>) (promise_world s))
    \<lparr>evaluation_stack := evaluation_stack (promise_world s) @ [x]\<rparr>\<rparr>"
  have call: "value_call H (promise_call H (Suc m)) f PUndefined []
      (?s\<lparr>promise_states := promise_states ?s @ [Pending []]\<rparr>) = (e, t)"
    using assms(7) by (simp add: evaluation_begun_def)
  have "promise_call H (Suc (Suc (Suc m))) (Perform (NewPromise [PFunction (HostFunction (EvaluationExecutor f))])) ?s =
      (Normal (PPromise i), set_state i st t)"
    using new_promise_executor[OF call assms(6) _ assms(8,9)] outcome by (auto simp: i_def)
  note begun = begin_evaluation[OF assms(2-5) this]
  have "state_at (set_state i st t) i = st" using assms(9) by (simp add: state_at_set)
  from finish_settled[OF this, of _ es] outcome evaluation_done_record[OF assms(10), of "PPromise i" es]
  show ?thesis by (auto simp: begun simp del: promise_call.simps)
qed

text \<open>Two functions of a host: one returns a number, the other evaluates its own module again.\<close>

definition module_user :: "bool \<Rightarrow> bool ModuleValue \<Rightarrow> bool ModuleValue list \<Rightarrow> (bool, unit) module_script" where
  "module_user again this args = (if again then evaluate_module ''m'' (\<lambda>v. Finish (Ok (PNumber 2)))
     else Finish (Ok (PNumber 1)))"

definition module_host :: "(bool RegistryFn, (bool, unit) Registry) PromiseHost" where
  "module_host = registry_host module_user (\<lambda>_. None) (\<lambda>_. Finish (Ok PUndefined))"

definition module_example :: "bool \<Rightarrow> (bool RegistryFn, (bool, unit) Registry) Promises" where
  "module_example again = promises_start
     (register_module ''m'' Map.empty (Some (PFunction (HostFunction (UserFn again)))) (registry_start ()))"

lemma module_example_record:
  "canonical_specifier (promise_world (module_example again)) ''m'' = ''m''"
  "registry_find ''m'' (promise_world (module_example again)) = Some
    \<lparr>module_exports = Map.empty, module_evaluator = Some (PFunction (HostFunction (UserFn again))),
     module_native = True, evaluation_state = NewModule, evaluation_result = None\<rparr>"
  by (simp_all add: module_example_def promises_start_def register_module_def register_with_kind_def
      canonical_specifier_def canonical_walk.simps registry_start_def registry_find_def registry_set_def)

lemma evaluation_outcome_witness:
  "\<exists>s. run_script module_host (promise_call module_host 3) (evaluate_module ''m'' (\<lambda>v. Finish (Ok (the v))))
     (module_example False) = (Normal (PPromise 0), s) \<and> state_at s 0 = Fulfilled (PNumber 1)"
proof -
  let ?r = "\<lparr>module_exports = Map.empty, module_evaluator = Some (PFunction (HostFunction (UserFn False))),
     module_native = True, evaluation_state = NewModule, evaluation_result = None\<rparr>"
  let ?t = "evaluation_begun ''m'' ?r (module_example False)"
  have call: "value_call module_host (promise_call module_host (Suc 0)) (PFunction (HostFunction (UserFn False)))
      PUndefined [] ?t = (Normal (PNumber 1), ?t)"
    by (simp add: value_call_def invoke_callable_def module_host_def registry_host_def registry_function_def
        module_user_def run_ret_def)
  have states: "promise_states (module_example False) = []" by (simp add: module_example_def promises_start_def)
  have found: "state_at ?t 0 = Pending []" "0 < length (promise_states ?t)" "registry_find ''m'' (promise_world ?t) \<noteq> None"
    by (simp_all add: evaluation_begun_def states state_at_def registry_find_def registry_set_def
        update_conv' del: registry_find_set)
  have outcome: "Normal (PNumber 1) = Normal (PNumber 1) \<and> plain_value (PNumber 1 :: bool ModuleValue) \<and>
      Fulfilled (PNumber 1) = Fulfilled (PNumber 1) \<and> Evaluated = Evaluated"
    by (simp add: plain_value_def value_is_object_def)
  note result = evaluation_outcome[OF module_example_record(1,2) _ _ module_host_def call, unfolded states,
      simplified list.size, OF _ _ found disjI1[OF outcome], of "\<lambda>v. Finish (Ok (the v))"]
  show ?thesis
    using conjunct1[OF result] found
    by (simp add: numeral_3_eq_3 run_ret_def state_at_set state_at_def set_state_def del: promise_call.simps)
qed


lemma state_at_world [simp]: "state_at (s\<lparr>promise_world := w\<rparr>) k = state_at s k"
  by (simp add: state_at_def)




lemma subscribe_keeps [simp]:
  "promise_world (snd (subscribe j f g s)) = promise_world s"
  "length (promise_states (snd (subscribe j f g s))) = Suc (length (promise_states s))"
  "microtask_realm_generation (snd (subscribe j f g s)) = microtask_realm_generation s"
  by (simp_all add: subscribe_def pending_state_def schedule_queue Let_def split: PromiseState.split)







text \<open>An edge back into the active evaluation does not run the evaluator again, so this ends.\<close>

lemma module_evaluating_itself:
  "fst (run_script module_host (promise_call module_host 6) (evaluate_module ''m'' (\<lambda>v. Finish (Ok (the v))))
     (module_example True)) = Normal (PPromise 0)"
  by code_simp

subsection \<open>Live bindings\<close>

lemma call_registry_function:
  "promise_call (registry_host user slots thens) (Suc n) (Invoke (HostFunction f) this args) =
    run_script (registry_host user slots thens) (promise_call (registry_host user slots thens) n)
      (registry_function user f this args)"
  by (simp add: invoke_callable_def registry_host_def)

lemma script_read:
  assumes "H = registry_host user slots thens"
  shows "run_script H (promise_call H (Suc n)) (binding_read (from_cell c w)) s =
    (case try_read_named ''module binding'' c (promise_world s) of
       Ok v \<Rightarrow> (Normal v, s) | Err e \<Rightarrow> (Threw (ThrownValue e), s))"
  by (simp add: assms binding_read_def binding_try_read_def from_cell_def value_call_def call_registry_function
      registry_function_def binding_cell_read_def run_catch_def run_bind_def run_gets_def run_ret_def run_throw_def
      catch_js_def unwrap_or_throw_def del: promise_call.simps split: sum.split)

lemma script_write:
  assumes "H = registry_host user slots thens" "is_callable (PFunction (HostFunction (CellSetter c)))"
  shows "run_script H (promise_call H (Suc n)) (binding_write is_callable (from_cell c True) v) s =
    (Normal v, s\<lparr>promise_world := snd (initialize_or_set c v (promise_world s))\<rparr>)"
  using assms(2)
  by (simp add: assms(1) binding_write_def binding_try_write_def from_cell_def value_call_def call_registry_function
      registry_function_def initialize_or_set_def arg_def run_catch_def run_bind_def run_gets_def run_ret_def
      run_modify_def run_seq_def catch_js_def unwrap_or_throw_def del: promise_call.simps)

lemma script_refused:
  assumes "\<not> is_callable PUndefined"
  shows "run_script H call (binding_write is_callable (from_cell c False) v) s =
    (Threw (ThrownValue (PString ''TypeError: imported module binding is immutable'')), s)"
  using assms
  by (simp add: binding_write_def binding_try_write_def from_cell_def unwrap_or_throw_def run_throw_def)

text \<open>
  C34. Exported bindings are live: reading an uninitialised cell throws a reference error and changes
  nothing; after a write through a writable binding, every binding of that cell reads the value
  written, also a read-only one, through which a write is refused; other cells are not touched.
\<close>

theorem bindings_are_live:
  assumes "H = registry_host user slots thens" "c < length (binding_cells (promise_world s))"
    and "is_callable (PFunction (HostFunction (CellSetter c)))" "\<not> is_callable PUndefined"
    and "s' = s\<lparr>promise_world := snd (initialize_or_set c v (promise_world s))\<rparr>"
  shows "(\<not> is_initialized c (promise_world s) \<longrightarrow>
      run_script H (promise_call H (Suc n)) (binding_read (from_cell c w)) s =
        (Threw (ThrownValue (PReferenceError ''module binding is not initialized'')), s)) \<and>
    run_script H (promise_call H (Suc n)) (binding_write is_callable (from_cell c True) v) s = (Normal v, s') \<and>
    run_script H (promise_call H (Suc n)) (binding_read (from_cell c w)) s' = (Normal v, s') \<and>
    run_script H (promise_call H (Suc n)) (binding_write is_callable (from_cell c False) u) s' =
      (Threw (ThrownValue (PString ''TypeError: imported module binding is immutable'')), s') \<and>
    (\<forall>d. d \<noteq> c \<longrightarrow> try_read_named name d (promise_world s') = try_read_named name d (promise_world s))"
  using assms(2,4)
  by (auto simp: script_read[OF assms(1)] script_write[where is_callable = is_callable, OF assms(1,3)] assms(5)
      script_refused try_read_named_def is_initialized_def initialize_or_set_def simp del: promise_call.simps split: prod.split bool.split)

lemma bindings_are_live_witness:
  "\<exists>s'. run_script module_host (promise_call module_host (Suc 0)) (binding_write value_is_function (from_cell 0 True) PNull)
      (promises_start (snd (cell_uninitialized (registry_start ())))) = (Normal PNull, s') \<and>
    run_script module_host (promise_call module_host (Suc 0)) (binding_read (from_cell 0 False)) s' = (Normal PNull, s')"
  using bindings_are_live[OF module_host_def, of 0 "promises_start (snd (cell_uninitialized (registry_start ())))"
      value_is_function _ PNull 0 False]
  by (auto simp: promises_start_def cell_uninitialized_def add_binding_cell_def registry_start_def
      value_is_function_def simp del: promise_call.simps)

end
