(* ===== verification/NanBox.thy ===== *)
theory NanBox
  imports W3Prelude
begin

text \<open>
  The tagged 64-bit word \<open>Immediate\<close> of \<^verbatim>\<open>crates/w3cos-core/src/value.rs\<close>: numbers as their IEEE bits,
  everything else as a quiet NaN with a tag in the low four bits, a 32-bit handle above it and the
  low 15 bits of the page epoch.  \<open>current_epoch()\<close> is an argument.
\<close>

unbundle bit_operations_syntax

subsection \<open>Encoding\<close>

type_synonym Immediate = "64 word"

definition QNAN :: Immediate where "QNAN = 0x7FF8000000000000"
definition TAG_NAN :: Immediate where "TAG_NAN = 0"
definition TAG_UNDEF :: Immediate where "TAG_UNDEF = 1"
definition TAG_NULL :: Immediate where "TAG_NULL = 2"
definition TAG_FALSE :: Immediate where "TAG_FALSE = 3"
definition TAG_TRUE :: Immediate where "TAG_TRUE = 4"
definition TAG_STR :: Immediate where "TAG_STR = 5"
definition TAG_OBJ :: Immediate where "TAG_OBJ = 6"
definition TAG_ARR :: Immediate where "TAG_ARR = 7"
definition TAG_FN :: Immediate where "TAG_FN = 8"
definition TAG_DOM :: Immediate where "TAG_DOM = 9"
definition TAG_MASK :: Immediate where "TAG_MASK = 0xF"
definition HANDLE_SHIFT :: nat where "HANDLE_SHIFT = 4"
definition EPOCH_SHIFT :: nat where "EPOCH_SHIFT = 36"
definition EPOCH_MASK :: Immediate where "EPOCH_MASK = 0x7FFF"

lemmas tag_defs = TAG_NAN_def TAG_UNDEF_def TAG_NULL_def TAG_FALSE_def TAG_TRUE_def TAG_STR_def
  TAG_OBJ_def TAG_ARR_def TAG_FN_def TAG_DOM_def

definition imm_undefined :: Immediate where "imm_undefined = QNAN OR TAG_UNDEF"
definition imm_null :: Immediate where "imm_null = QNAN OR TAG_NULL"

definition from_bool :: "bool \<Rightarrow> Immediate" where
  "from_bool b = (if b then QNAN OR TAG_TRUE else QNAN OR TAG_FALSE)"

text \<open>\<open>f64::is_nan\<close> on the bits: all exponent bits and some fraction bit.\<close>

definition is_nan_bits :: "f64 \<Rightarrow> bool" where
  "is_nan_bits n \<longleftrightarrow> n AND 0x7FF0000000000000 = 0x7FF0000000000000 \<and> n AND 0x000FFFFFFFFFFFFF \<noteq> 0"

definition from_number :: "f64 \<Rightarrow> Immediate" where
  "from_number n = (if is_nan_bits n then QNAN OR TAG_NAN else n)"

definition pack_handle :: "u32 \<Rightarrow> Immediate \<Rightarrow> u32 \<Rightarrow> Immediate" where
  "pack_handle current_epoch tag handle =
     (let epoch = ucast current_epoch AND EPOCH_MASK
      in QNAN OR tag OR push_bit HANDLE_SHIFT (ucast handle) OR push_bit EPOCH_SHIFT epoch)"

definition live_slot :: "u32 \<Rightarrow> Immediate \<Rightarrow> u32 option" where
  "live_slot current_epoch w =
     (let packed = drop_bit EPOCH_SHIFT w AND EPOCH_MASK; live = ucast current_epoch AND EPOCH_MASK
      in if packed \<noteq> live then None else Some (ucast (drop_bit HANDLE_SHIFT w)))"

definition from_interned_string :: "u32 \<Rightarrow> u32 \<Rightarrow> Immediate" where
  "from_interned_string epoch = pack_handle epoch TAG_STR"

definition from_object_handle :: "u32 \<Rightarrow> u32 \<Rightarrow> Immediate" where
  "from_object_handle epoch = pack_handle epoch TAG_OBJ"

definition from_array_handle :: "u32 \<Rightarrow> u32 \<Rightarrow> Immediate" where
  "from_array_handle epoch = pack_handle epoch TAG_ARR"

definition from_function_handle :: "u32 \<Rightarrow> u32 \<Rightarrow> Immediate" where
  "from_function_handle epoch = pack_handle epoch TAG_FN"

definition from_dom_node :: "u32 \<Rightarrow> u32 \<Rightarrow> Immediate" where
  "from_dom_node node generation =
     (let epoch = ucast generation AND EPOCH_MASK
      in QNAN OR TAG_DOM OR push_bit HANDLE_SHIFT (ucast node) OR push_bit EPOCH_SHIFT epoch)"

subsection \<open>Decoding\<close>

definition is_tagged :: "Immediate \<Rightarrow> bool" where
  "is_tagged w \<longleftrightarrow> w AND QNAN = QNAN"

definition imm_tag :: "Immediate \<Rightarrow> Immediate" where
  "imm_tag w = w AND TAG_MASK"

definition is_undefined :: "Immediate \<Rightarrow> bool" where "is_undefined w \<longleftrightarrow> w = imm_undefined"
definition is_null :: "Immediate \<Rightarrow> bool" where "is_null w \<longleftrightarrow> w = imm_null"

definition is_bool :: "Immediate \<Rightarrow> bool" where
  "is_bool w \<longleftrightarrow> is_tagged w \<and> (imm_tag w = TAG_FALSE \<or> imm_tag w = TAG_TRUE)"

definition is_number :: "Immediate \<Rightarrow> bool" where
  "is_number w \<longleftrightarrow> \<not> is_tagged w \<or> imm_tag w = TAG_NAN"

definition as_bool :: "Immediate \<Rightarrow> bool option" where
  "as_bool w = (if \<not> is_tagged w then None else if imm_tag w = TAG_FALSE then Some False
     else if imm_tag w = TAG_TRUE then Some True else None)"

definition as_number :: "Immediate \<Rightarrow> f64 option" where
  "as_number w = (if is_number w then Some w else None)"

definition has_tag :: "Immediate \<Rightarrow> Immediate \<Rightarrow> bool" where
  "has_tag t w \<longleftrightarrow> is_tagged w \<and> imm_tag w = t"

definition interned_handle :: "u32 \<Rightarrow> Immediate \<Rightarrow> u32 option" where
  "interned_handle epoch w = (if has_tag TAG_STR w then live_slot epoch w else None)"

definition object_handle :: "u32 \<Rightarrow> Immediate \<Rightarrow> u32 option" where
  "object_handle epoch w = (if has_tag TAG_OBJ w then live_slot epoch w else None)"

definition array_handle :: "u32 \<Rightarrow> Immediate \<Rightarrow> u32 option" where
  "array_handle epoch w = (if has_tag TAG_ARR w then live_slot epoch w else None)"

definition function_handle :: "u32 \<Rightarrow> Immediate \<Rightarrow> u32 option" where
  "function_handle epoch w = (if has_tag TAG_FN w then live_slot epoch w else None)"

definition dom_node_parts :: "Immediate \<Rightarrow> (u32 \<times> u32) option" where
  "dom_node_parts w = (if has_tag TAG_DOM w
     then Some (ucast (drop_bit HANDLE_SHIFT w), ucast (drop_bit EPOCH_SHIFT w AND EPOCH_MASK)) else None)"

subsection \<open>Bits\<close>

lemma QNAN_bits: "bit QNAN n \<longleftrightarrow> 51 \<le> n \<and> n < 63"
proof -
  have *: "QNAN = push_bit 51 (mask 12)" by (simp add: QNAN_def push_bit_eq_mult mask_eq_exp_minus_1)
  show ?thesis unfolding * by (auto simp: bit_simps)
qed

lemma EPOCH_MASK_bits: "bit EPOCH_MASK n \<longleftrightarrow> n < 15"
proof -
  have *: "EPOCH_MASK = mask 15" by (simp add: EPOCH_MASK_def mask_eq_exp_minus_1)
  show ?thesis unfolding * by (auto simp: bit_simps)
qed

lemma TAG_MASK_bits: "bit TAG_MASK n \<longleftrightarrow> n < 4"
proof -
  have *: "TAG_MASK = mask 4" by (simp add: TAG_MASK_def mask_eq_exp_minus_1)
  show ?thesis unfolding * by (auto simp: bit_simps)
qed

lemma small_tag_bits: "tag AND TAG_MASK = tag \<Longrightarrow> bit tag n \<Longrightarrow> n < 4" for tag :: Immediate
  by (metis TAG_MASK_bits bit_and_iff)

lemmas word_bits = QNAN_bits EPOCH_MASK_bits TAG_MASK_bits HANDLE_SHIFT_def EPOCH_SHIFT_def

lemma pack_bits:
  assumes "tag AND TAG_MASK = tag"
  shows "bit (pack_handle epoch tag handle) n \<longleftrightarrow>
    51 \<le> n \<and> n < 63 \<or> bit tag n \<or> 4 \<le> n \<and> n < 36 \<and> bit handle (n - 4) \<or>
    36 \<le> n \<and> n < 51 \<and> bit epoch (n - 36)"
  using small_tag_bits[OF assms]
  by (auto simp: pack_handle_def Let_def bit_simps word_bits dest: bit_imp_le_length)

lemma pack_tagged:
  assumes "tag AND TAG_MASK = tag"
  shows "is_tagged (pack_handle epoch tag handle)" "imm_tag (pack_handle epoch tag handle) = tag"
proof -
  note small = small_tag_bits[OF assms]
  show "is_tagged (pack_handle epoch tag handle)"
    unfolding is_tagged_def by (rule bit_eqI) (auto simp: bit_simps pack_bits[OF assms] QNAN_bits)
  show "imm_tag (pack_handle epoch tag handle) = tag"
    unfolding imm_tag_def
    by (rule bit_eqI) (auto simp: bit_simps pack_bits[OF assms] TAG_MASK_bits dest: small)
qed

lemma pack_slot:
  assumes "tag AND TAG_MASK = tag"
  shows "ucast (drop_bit HANDLE_SHIFT (pack_handle epoch tag handle)) = handle"
    and "drop_bit EPOCH_SHIFT (pack_handle epoch tag handle) AND EPOCH_MASK = ucast epoch AND EPOCH_MASK"
proof -
  note small = small_tag_bits[OF assms]
  show "ucast (drop_bit HANDLE_SHIFT (pack_handle epoch tag handle)) = handle"
    by (rule bit_eqI) (auto simp: bit_simps pack_bits[OF assms] word_bits dest: small bit_imp_le_length)
  show "drop_bit EPOCH_SHIFT (pack_handle epoch tag handle) AND EPOCH_MASK = ucast epoch AND EPOCH_MASK"
    by (rule bit_eqI) (auto simp: bit_simps pack_bits[OF assms] word_bits dest: small bit_imp_le_length)
qed

subsection \<open>Round trips\<close>

lemma small_tags [simp]:
  "TAG_STR AND TAG_MASK = TAG_STR" "TAG_OBJ AND TAG_MASK = TAG_OBJ" "TAG_ARR AND TAG_MASK = TAG_ARR"
  "TAG_FN AND TAG_MASK = TAG_FN" "TAG_DOM AND TAG_MASK = TAG_DOM"
  by (simp_all add: tag_defs TAG_MASK_def)

lemma live_slot_pack:
  assumes "tag AND TAG_MASK = tag"
  shows "live_slot epoch' (pack_handle epoch tag handle) =
    (if ucast epoch AND EPOCH_MASK = (ucast epoch' AND EPOCH_MASK :: Immediate) then Some handle else None)"
  by (simp add: live_slot_def Let_def pack_slot[OF assms])

lemma has_tag_pack:
  "tag AND TAG_MASK = tag \<Longrightarrow> has_tag t (pack_handle epoch tag handle) \<longleftrightarrow> t = tag"
  by (auto simp: has_tag_def pack_tagged)

lemma dom_is_pack: "from_dom_node node generation = pack_handle generation TAG_DOM node"
  by (simp add: from_dom_node_def pack_handle_def)

lemma masked_generation: "ucast (ucast generation AND EPOCH_MASK) = generation AND 0x7FFF" for generation :: u32
proof -
  have mask: "(0x7FFF :: u32) = mask 15" by (simp add: mask_eq_exp_minus_1)
  show ?thesis
    unfolding mask by (rule bit_eqI) (auto simp: bit_simps EPOCH_MASK_bits)
qed

subsection \<open>Readings\<close>

text \<open>
  What every accessor of a word answers: as a handle of each kind (string, object, array, function,
  DOM node), and as a primitive (number, boolean, undefined, null).
\<close>

definition handle_readings ::
  "u32 \<Rightarrow> Immediate \<Rightarrow> u32 option \<times> u32 option \<times> u32 option \<times> u32 option \<times> (u32 \<times> u32) option" where
  "handle_readings e w =
     (interned_handle e w, object_handle e w, array_handle e w, function_handle e w, dom_node_parts w)"

definition primitive_readings ::
  "Immediate \<Rightarrow> f64 option \<times> bool option \<times> bool \<times> bool \<times> bool \<times> bool" where
  "primitive_readings w =
     (as_number w, as_bool w, is_number w, is_bool w, is_undefined w, is_null w)"

definition no_handle :: "u32 option \<times> u32 option \<times> u32 option \<times> u32 option \<times> (u32 \<times> u32) option" where
  "no_handle = (None, None, None, None, None)"

definition no_primitive :: "f64 option \<times> bool option \<times> bool \<times> bool \<times> bool \<times> bool" where
  "no_primitive = (None, None, False, False, False, False)"

lemma packed_is_no_primitive:
  assumes "tag AND TAG_MASK = tag" "tag \<notin> {TAG_NAN, TAG_UNDEF, TAG_NULL, TAG_FALSE, TAG_TRUE}"
  shows "primitive_readings (pack_handle epoch tag handle) = no_primitive"
proof -
  note pack = pack_tagged[OF assms(1), of epoch handle]
  have "imm_tag imm_undefined = TAG_UNDEF" "imm_tag imm_null = TAG_NULL"
    by (simp_all add: imm_tag_def imm_undefined_def imm_null_def QNAN_def TAG_MASK_def tag_defs)
  then have "pack_handle epoch tag handle \<noteq> imm_undefined" "pack_handle epoch tag handle \<noteq> imm_null"
    using pack(2) assms(2) by auto
  then show ?thesis
    using pack assms(2)
    by (simp add: primitive_readings_def no_primitive_def as_number_def as_bool_def is_number_def is_bool_def
        is_undefined_def is_null_def)
qed

lemma handle_words:
  "let same = (ucast e AND EPOCH_MASK = (ucast e' AND EPOCH_MASK :: Immediate)); found = (if same then Some h else None)
   in handle_readings e' (from_interned_string e h) = (found, None, None, None, None) \<and>
      handle_readings e' (from_object_handle e h) = (None, found, None, None, None) \<and>
      handle_readings e' (from_array_handle e h) = (None, None, found, None, None) \<and>
      handle_readings e' (from_function_handle e h) = (None, None, None, found, None) \<and>
      handle_readings e' (from_dom_node h e) = (None, None, None, None, Some (h, e AND 0x7FFF)) \<and>
      primitive_readings (from_interned_string e h) = no_primitive \<and>
      primitive_readings (from_object_handle e h) = no_primitive \<and>
      primitive_readings (from_array_handle e h) = no_primitive \<and>
      primitive_readings (from_function_handle e h) = no_primitive \<and>
      primitive_readings (from_dom_node h e) = no_primitive"
proof -
  have primitives: "primitive_readings (pack_handle e tag h) = no_primitive"
    if "tag \<in> {TAG_STR, TAG_OBJ, TAG_ARR, TAG_FN, TAG_DOM}" for tag
    by (rule packed_is_no_primitive) (use that in auto, auto simp: tag_defs)
  show ?thesis
    by (simp add: Let_def handle_readings_def interned_handle_def object_handle_def array_handle_def
        function_handle_def dom_node_parts_def from_interned_string_def from_object_handle_def
        from_array_handle_def from_function_handle_def dom_is_pack has_tag_pack live_slot_pack pack_slot
        masked_generation primitives) (simp add: tag_defs)
qed

lemma tagged_is_nan: "is_tagged n \<Longrightarrow> is_nan_bits n"
proof -
  assume "is_tagged n"
  then have set: "bit n i" if "51 \<le> i" "i < 63" for i
    using that by (metis QNAN_bits bit_and_iff is_tagged_def)
  have exponent: "(0x7FF0000000000000 :: Immediate) = push_bit 52 (mask 11)"
    by (simp add: push_bit_eq_mult mask_eq_exp_minus_1)
  have fraction: "(0x000FFFFFFFFFFFFF :: Immediate) = mask 52"
    by (simp add: mask_eq_exp_minus_1)
  have "n AND push_bit 52 (mask 11) = push_bit 52 (mask 11)"
    by (rule bit_eqI) (auto simp: bit_simps set)
  moreover have "bit (n AND mask 52) 51" using set[of 51] by (simp add: bit_simps)
  then have "n AND mask 52 \<noteq> 0" by (metis bit_0_eq bot_apply bot_bool_def)
  ultimately show ?thesis
    unfolding is_nan_bits_def exponent fraction by blast
qed

lemma primitive_words:
  "primitive_readings (from_number n) =
     (Some (if is_nan_bits n then QNAN else n), None, True, False, False, False) \<and>
   primitive_readings (from_bool b) = (None, Some b, False, True, False, False) \<and>
   primitive_readings imm_undefined = (None, None, False, False, True, False) \<and>
   primitive_readings imm_null = (None, None, False, False, False, True) \<and>
   handle_readings e (from_number n) = no_handle \<and> handle_readings e (from_bool b) = no_handle \<and>
   handle_readings e imm_undefined = no_handle \<and> handle_readings e imm_null = no_handle"
proof -
  note readings = primitive_readings_def handle_readings_def no_handle_def as_number_def as_bool_def
    is_number_def is_bool_def is_undefined_def is_null_def interned_handle_def object_handle_def
    array_handle_def function_handle_def dom_node_parts_def has_tag_def
  note constants = imm_undefined_def imm_null_def from_bool_def is_tagged_def imm_tag_def QNAN_def
    TAG_MASK_def tag_defs
  have number: "primitive_readings (from_number n) =
      (Some (if is_nan_bits n then QNAN else n), None, True, False, False, False) \<and>
    handle_readings e (from_number n) = no_handle"
  proof (cases "is_nan_bits n")
    case True
    then show ?thesis by (simp add: from_number_def readings constants)
  next
    case False
    then have "\<not> is_tagged n" using tagged_is_nan by blast
    moreover have "is_tagged imm_undefined" "is_tagged imm_null" by (simp_all add: constants)
    ultimately show ?thesis using False by (auto simp: from_number_def readings)
  qed
  moreover have "primitive_readings (from_bool b) = (None, Some b, False, True, False, False)"
    "handle_readings e (from_bool b) = no_handle"
    by (cases b; simp add: readings; simp add: constants)+
  moreover have "primitive_readings imm_undefined = (None, None, False, False, True, False)"
    "primitive_readings imm_null = (None, None, False, False, False, True)"
    "handle_readings e imm_undefined = no_handle" "handle_readings e imm_null = no_handle"
    by (simp add: readings; simp add: constants)+
  ultimately show ?thesis by simp
qed

text \<open>
  C30. Tags are sound: what every accessor answers for every constructor of an immediate word.  A packed
  string, object, array or function handle comes back, as a handle of its own kind only, exactly when
  the low 15 bits of the page epoch are those it was packed under; a DOM node comes back with its masked
  generation; none of them reads as a number, a boolean, undefined or null.  Numbers survive bit for bit,
  except that every NaN becomes the canonical one; numbers, booleans, undefined and null are recognised
  as what they are and as nothing else, neither as another primitive nor as a handle of any kind.
\<close>

theorem words_read_back:
  "let same = (ucast e AND EPOCH_MASK = (ucast e' AND EPOCH_MASK :: Immediate)); found = (if same then Some h else None)
   in handle_readings e' (from_interned_string e h) = (found, None, None, None, None) \<and>
      handle_readings e' (from_object_handle e h) = (None, found, None, None, None) \<and>
      handle_readings e' (from_array_handle e h) = (None, None, found, None, None) \<and>
      handle_readings e' (from_function_handle e h) = (None, None, None, found, None) \<and>
      handle_readings e' (from_dom_node h e) = (None, None, None, None, Some (h, e AND 0x7FFF)) \<and>
      map primitive_readings [from_interned_string e h, from_object_handle e h, from_array_handle e h,
        from_function_handle e h, from_dom_node h e] = replicate 5 no_primitive \<and>
      primitive_readings (from_number n) =
        (Some (if is_nan_bits n then QNAN else n), None, True, False, False, False) \<and>
      primitive_readings (from_bool b) = (None, Some b, False, True, False, False) \<and>
      primitive_readings imm_undefined = (None, None, False, False, True, False) \<and>
      primitive_readings imm_null = (None, None, False, False, False, True) \<and>
      map (handle_readings e') [from_number n, from_bool b, imm_undefined, imm_null] = replicate 4 no_handle"
  using handle_words[of e e' h] primitive_words[of n b e'] by (simp add: Let_def numeral_eq_Suc)

subsection \<open>Epochs\<close>

lemma object_handle_pack:
  "object_handle e' (from_object_handle e h) =
    (if ucast e AND EPOCH_MASK = (ucast e' AND EPOCH_MASK :: Immediate) then Some h else None)"
  by (simp add: object_handle_def from_object_handle_def has_tag_pack live_slot_pack)

lemma interned_handle_pack:
  "interned_handle e' (from_interned_string e h) =
    (if ucast e AND EPOCH_MASK = (ucast e' AND EPOCH_MASK :: Immediate) then Some h else None)"
  by (simp add: interned_handle_def from_interned_string_def has_tag_pack live_slot_pack)

lemma array_handle_pack:
  "array_handle e' (from_array_handle e h) =
    (if ucast e AND EPOCH_MASK = (ucast e' AND EPOCH_MASK :: Immediate) then Some h else None)"
  by (simp add: array_handle_def from_array_handle_def has_tag_pack live_slot_pack)

lemma function_handle_pack:
  "function_handle e' (from_function_handle e h) =
    (if ucast e AND EPOCH_MASK = (ucast e' AND EPOCH_MASK :: Immediate) then Some h else None)"
  by (simp add: function_handle_def from_function_handle_def has_tag_pack live_slot_pack)

text \<open>The 15 bits kept of an epoch tell it from the next one, and come back after 32768 epochs.\<close>

lemma next_epoch_differs: "ucast (e + 1) AND EPOCH_MASK \<noteq> (ucast e AND EPOCH_MASK :: Immediate)" for e :: u32
proof -
  have low: "bit (ucast x AND EPOCH_MASK :: Immediate) 0 = odd x" for x :: u32
    by (simp only: bit_and_iff bit_unsigned_iff EPOCH_MASK_bits) (simp add: bit_0)
  have "bit (ucast (e + 1) AND EPOCH_MASK :: Immediate) 0 \<noteq> bit (ucast e AND EPOCH_MASK :: Immediate) 0"
    unfolding low by simp
  then show ?thesis by metis
qed

lemma epoch_comes_back: "ucast (e + 32768) AND EPOCH_MASK = (ucast e AND EPOCH_MASK :: Immediate)" for e :: u32
proof -
  have masked: "ucast x AND EPOCH_MASK = (ucast (take_bit 15 x) :: Immediate)" for x :: u32
    by (rule bit_eqI) (auto simp: bit_simps EPOCH_MASK_bits)
  have "unat (e + 32768) mod 32768 = (unat e + 32768) mod 4294967296 mod 32768"
    by (simp add: unat_word_ariths)
  also have "\<dots> = unat e mod 32768"
    by (subst mod_mod_cancel) simp_all
  finally have "unat (take_bit 15 (e + 32768)) = unat (take_bit 15 e)"
    unfolding unsigned_take_bit_eq unfolding take_bit_eq_mod by simp
  then have "take_bit 15 (e + 32768) = take_bit 15 e" by (simp only: word_unat_eq_iff)
  then show ?thesis by (simp add: masked)
qed

end
