(* ===== verification/PageArena.thy ===== *)
theory PageArena
  imports NanBox
begin

text \<open>
  The page arena of \<^verbatim>\<open>crates/w3cos-core/src/page_arena.rs\<close> and the interned references of \<^verbatim>\<open>value.rs\<close>
  that resolve through it: interned strings (a bump of bytes, a table of slots, an open-addressed
  index) and slabs of objects, arrays and functions (\<open>funs\<close>), all dropped together when the page is left.

  A raw pointer is the position it was made for: a chunk of the bump and an offset, or a chunk of a
  slab and a slot.  Reading outside what was written is the fault \<open>InvalidPointer\<close>, an index the
  code would panic on is \<open>IndexOutOfBounds\<close>.  The thread local \<^verbatim>\<open>GEN\<close> is a field beside those of the
  arena, because \<^verbatim>\<open>as_str\<close> and \<^verbatim>\<open>cell\<close> compare with it and not with \<^verbatim>\<open>self.epoch\<close>.  The payloads are
  type parameters; their sizes are the ones the comment on \<^verbatim>\<open>SizeClassSlab\<close> gives.
\<close>

datatype ArenaFault = IndexOutOfBounds | InvalidPointer | StaleHandle

subsection \<open>Slabs\<close>

type_synonym SlotPtr = "nat \<times> nat"

text \<open>A slot of a chunk is \<open>None\<close> until it is written (\<open>MaybeUninit\<close>).\<close>

record 'a SizeClassSlab =
  slab_chunks :: "'a option list list"
  slab_len :: nat

definition CHUNK :: nat where "CHUNK = 4096"
definition OBJECT_BYTES :: nat where "OBJECT_BYTES = 304"
definition ARRAY_BYTES :: nat where "ARRAY_BYTES = 56"
definition FUNCTION_BYTES :: nat where "FUNCTION_BYTES = 64"

definition saturate :: "nat \<Rightarrow> nat" where
  "saturate n = min n (2 ^ 64 - 1)"

definition slots_per_chunk :: "nat \<Rightarrow> nat" where
  "slots_per_chunk size_of =
     (let size = if size_of = 0 then 1 else size_of; n = CHUNK div size in if n < 8 then 8 else n)"

definition slab_new :: "'a SizeClassSlab" where
  "slab_new = \<lparr>slab_chunks = [], slab_len = 0\<rparr>"

definition new_chunk :: "nat \<Rightarrow> 'a option list" where
  "new_chunk size_of = replicate (slots_per_chunk size_of) None"

definition slab_alloc :: "nat \<Rightarrow> 'a SizeClassSlab \<Rightarrow> 'a \<Rightarrow> ArenaFault + SlotPtr \<times> 'a SizeClassSlab" where
  "slab_alloc size_of S x =
     (let idx = slab_len S; n = slots_per_chunk size_of; chunk_idx = idx div n; slot = idx mod n;
          cs = (if chunk_idx = length (slab_chunks S) then slab_chunks S @ [new_chunk size_of]
                else slab_chunks S)
      in if chunk_idx < length cs \<and> slot < length (cs ! chunk_idx)
         then Ok ((chunk_idx, slot),
                  \<lparr>slab_chunks = cs[chunk_idx := (cs ! chunk_idx)[slot := Some x]], slab_len = idx + 1\<rparr>)
         else Err IndexOutOfBounds)"

definition slab_get :: "nat \<Rightarrow> 'a SizeClassSlab \<Rightarrow> nat \<Rightarrow> ArenaFault + SlotPtr option" where
  "slab_get size_of S idx =
     (if idx \<ge> slab_len S then Ok None
      else let n = slots_per_chunk size_of; cs = slab_chunks S
           in if idx div n < length cs \<and> idx mod n < length (cs ! (idx div n))
              then Ok (Some (idx div n, idx mod n)) else Err IndexOutOfBounds)"

definition slab_deref :: "'a SizeClassSlab \<Rightarrow> SlotPtr \<Rightarrow> ArenaFault + 'a" where
  "slab_deref S p =
     (if fst p < length (slab_chunks S) \<and> snd p < length (slab_chunks S ! fst p)
      then case slab_chunks S ! fst p ! snd p of Some x \<Rightarrow> Ok x | None \<Rightarrow> Err InvalidPointer
      else Err InvalidPointer)"

definition reserved_bytes :: "nat \<Rightarrow> 'a SizeClassSlab \<Rightarrow> nat" where
  "reserved_bytes size_of S =
     saturate (saturate (length (slab_chunks S) * slots_per_chunk size_of) * size_of)"

text \<open>\<open>clear\<close>: the slots it drops, in order, and the empty slab.\<close>

fun clear_chunks :: "nat \<Rightarrow> nat \<Rightarrow> 'a option list list \<Rightarrow> 'a option list" where
  "clear_chunks n remaining [] = []"
| "clear_chunks n remaining (c # cs) =
     take (min remaining n) c @ clear_chunks n (remaining - min remaining n) cs"

definition slab_clear :: "nat \<Rightarrow> 'a SizeClassSlab \<Rightarrow> 'a option list \<times> 'a SizeClassSlab" where
  "slab_clear size_of S =
     (clear_chunks (slots_per_chunk size_of) (slab_len S) (slab_chunks S), \<lparr>slab_chunks = [], slab_len = 0\<rparr>)"

subsection \<open>The arena\<close>

datatype BytePtr = NullPtr | EmptyStr | Bump nat nat

record PageString =
  ps_handle :: u32
  ps_epoch :: u32
  ps_ptr :: BytePtr
  ps_len :: u32

text \<open>
  A string is the list of its UTF-8 bytes.  \<open>capacity\<close> is \<open>current.capacity()\<close>, the amount asked for.
\<close>

record ('ob, 'ar, 'fn) PageArena =
  epoch :: u32
  chunks :: "u8 list list"
  current :: "u8 list"
  capacity :: nat
  slots :: "PageString list"
  hash_slots :: "u32 list"
  hash_mask :: nat
  hash_len :: nat
  allocated :: nat
  objects :: "'ob SizeClassSlab"
  arrays :: "'ar SizeClassSlab"
  funs :: "'fn SizeClassSlab"
  GEN :: u32

type_synonym 'a arena_run = "(ArenaFault, 'a) looping"

definition null_slot :: PageString where
  "null_slot = \<lparr>ps_handle = 0, ps_epoch = 0, ps_ptr = NullPtr, ps_len = 0\<rparr>"

definition arena_new :: "('ob, 'ar, 'fn) PageArena" where
  "arena_new = \<lparr>epoch = 1, chunks = [], current = [], capacity = 2 ^ 20, slots = [null_slot],
     hash_slots = replicate 32768 0, hash_mask = 32767, hash_len = 0, allocated = 0,
     objects = slab_new, arrays = slab_new, funs = slab_new, GEN = 1\<rparr>"

definition read_bytes :: "('ob, 'ar, 'fn) PageArena \<Rightarrow> BytePtr \<Rightarrow> nat \<Rightarrow> ArenaFault + u8 list" where
  "read_bytes A p n = (case p of
       NullPtr \<Rightarrow> Err InvalidPointer
     | EmptyStr \<Rightarrow> if n = 0 then Ok [] else Err InvalidPointer
     | Bump c i \<Rightarrow>
         if c < length (chunks A @ [current A]) \<and> i + n \<le> length ((chunks A @ [current A]) ! c)
         then Ok (take n (drop i ((chunks A @ [current A]) ! c))) else Err InvalidPointer)"

definition as_str :: "('ob, 'ar, 'fn) PageArena \<Rightarrow> PageString \<Rightarrow> ArenaFault + u8 list" where
  "as_str A p = (if ps_epoch p \<noteq> GEN A then Ok [] else read_bytes A (ps_ptr p) (unat (ps_len p)))"

subsection \<open>Hashing\<close>

definition SEED :: u64 where "SEED = 0x517cc1b727220a95"

definition from_le_bytes :: "u8 list \<Rightarrow> u64" where
  "from_le_bytes bs = foldr (\<lambda>b acc. ucast b OR push_bit 8 acc) bs 0"

function hash_words :: "u64 \<Rightarrow> u8 list \<Rightarrow> u64 \<times> u8 list" where
  "hash_words h bs =
     (if 8 \<le> length bs
      then hash_words ((word_rotl 5 h XOR from_le_bytes (take 8 bs)) * SEED) (drop 8 bs) else (h, bs))"
  by pat_completeness auto
termination by (relation "measure (length \<circ> snd)") auto

definition fmix64 :: "u64 \<Rightarrow> u64" where
  "fmix64 h =
     (let h = h XOR drop_bit 33 h; h = h * 0xff51afd7ed558ccd; h = h XOR drop_bit 33 h;
          h = h * 0xc4ceb9fe1a85ec53 in h XOR drop_bit 33 h)"

definition hash_str :: "u8 list \<Rightarrow> u64" where
  "hash_str s =
     (let (h, rest) = hash_words (of_nat (length s) * SEED) s
      in fmix64 (if rest = [] then h
           else (word_rotl 5 h XOR from_le_bytes (rest @ replicate (8 - length rest) 0)) * SEED))"

subsection \<open>Interning\<close>

definition slot_is :: "('ob, 'ar, 'fn) PageArena \<Rightarrow> PageString \<Rightarrow> u8 list \<Rightarrow> ArenaFault + bool" where
  "slot_is A slot s =
     (if unat (ps_len slot) = length s then bind_result (as_str A slot) (\<lambda>t. Ok (t = s)) else Ok False)"

fun hash_find_from ::
  "('ob, 'ar, 'fn) PageArena \<Rightarrow> u8 list \<Rightarrow> nat \<Rightarrow> nat \<Rightarrow> ArenaFault + PageString option" where
  "hash_find_from A s 0 index = Ok None"
| "hash_find_from A s (Suc n) index =
     (if length (hash_slots A) \<le> index then Err IndexOutOfBounds
      else let handle = hash_slots A ! index
      in if handle = 0 then Ok None
         else if length (slots A) \<le> unat handle then Err IndexOutOfBounds
         else bind_result (slot_is A (slots A ! unat handle) s) (\<lambda>hit.
           if hit then Ok (Some (slots A ! unat handle))
           else hash_find_from A s n (Suc index AND hash_mask A)))"

definition hash_find ::
  "('ob, 'ar, 'fn) PageArena \<Rightarrow> u64 \<Rightarrow> u8 list \<Rightarrow> ArenaFault + PageString option" where
  "hash_find A h s =
     (if hash_slots A = [] then Ok None
      else hash_find_from A s (length (hash_slots A)) (unat h AND hash_mask A))"

partial_function (option) hash_insert_from ::
  "u32 \<Rightarrow> nat \<Rightarrow> ('ob, 'ar, 'fn) PageArena \<Rightarrow> ('ob, 'ar, 'fn) PageArena arena_run" where
  "hash_insert_from handle index A =
     (if length (hash_slots A) \<le> index then Some (Err IndexOutOfBounds)
      else if hash_slots A ! index = 0
      then Some (Ok (A\<lparr>hash_slots := (hash_slots A)[index := handle], hash_len := hash_len A + 1\<rparr>))
      else hash_insert_from handle (Suc index AND hash_mask A) A)"

definition hash_insert ::
  "('ob, 'ar, 'fn) PageArena \<Rightarrow> u64 \<Rightarrow> u32 \<Rightarrow> ('ob, 'ar, 'fn) PageArena arena_run" where
  "hash_insert A h handle = hash_insert_from handle (unat h AND hash_mask A) A"

fun rehash :: "u32 list \<Rightarrow> ('ob, 'ar, 'fn) PageArena \<Rightarrow> ('ob, 'ar, 'fn) PageArena arena_run" where
  "rehash [] A = Some (Ok A)"
| "rehash (handle # old) A =
     (if handle = 0 then rehash old A
      else if length (slots A) \<le> unat handle then Some (Err IndexOutOfBounds)
      else and_then (Some (as_str A (slots A ! unat handle))) (\<lambda>t.
           and_then (hash_insert A (hash_str t) handle) (rehash old)))"

definition hash_grow :: "('ob, 'ar, 'fn) PageArena \<Rightarrow> ('ob, 'ar, 'fn) PageArena arena_run" where
  "hash_grow A =
     (let next_len = max (length (hash_slots A)) 1024 * 2; old = hash_slots A;
          A = A\<lparr>hash_slots := replicate next_len 0, hash_mask := next_len - 1, hash_len := 0\<rparr>
      in if old = [] then Some (Ok A) else rehash old A)"

definition alloc_bytes :: "('ob, 'ar, 'fn) PageArena \<Rightarrow> u8 list \<Rightarrow> BytePtr \<times> ('ob, 'ar, 'fn) PageArena" where
  "alloc_bytes A bytes =
     (if bytes = [] then (EmptyStr, A)
      else let remaining = capacity A - length (current A);
          A = (if remaining < length bytes
               then A\<lparr>chunks := (if current A = [] then chunks A else chunks A @ [current A]), current := [],
                      capacity := max (saturate (max (capacity A) CHUNK * 2)) (length bytes)\<rparr>
               else A);
          start = length (current A)
      in (Bump (length (chunks A)) start,
          A\<lparr>current := current A @ bytes, allocated := saturate (allocated A + length bytes)\<rparr>))"

definition arena_intern ::
  "('ob, 'ar, 'fn) PageArena \<Rightarrow> u8 list \<Rightarrow> (PageString \<times> ('ob, 'ar, 'fn) PageArena) arena_run" where
  "arena_intern A s =
     (let h = hash_str s in
      and_then (Some (hash_find A h s)) (\<lambda>found. case found of
        Some existing \<Rightarrow> Some (Ok (existing, A))
      | None \<Rightarrow>
          and_then (if hash_slots A = [] \<or> length (hash_slots A) * 7 \<le> (hash_len A + 1) * 10
                    then hash_grow A else Some (Ok A)) (\<lambda>A.
            let (p, A) = alloc_bytes A s; handle = of_nat (length (slots A));
                interned = \<lparr>ps_handle = handle, ps_epoch = epoch A, ps_ptr = p, ps_len = of_nat (length s)\<rparr>
            in and_then (hash_insert (A\<lparr>slots := slots A @ [interned]\<rparr>) h handle) (\<lambda>A.
                 Some (Ok (interned, A))))))"

definition sync_epoch :: "u32 \<Rightarrow> ('ob, 'ar, 'fn) PageArena \<Rightarrow> ('ob, 'ar, 'fn) PageArena" where
  "sync_epoch e A = A\<lparr>GEN := e\<rparr>"

definition page_intern ::
  "('ob, 'ar, 'fn) PageArena \<Rightarrow> u8 list \<Rightarrow> (PageString \<times> ('ob, 'ar, 'fn) PageArena) arena_run" where
  "page_intern A s = and_then (arena_intern A s) (\<lambda>(p, A). Some (Ok (p, sync_epoch (ps_epoch p) A)))"

definition page_get :: "('ob, 'ar, 'fn) PageArena \<Rightarrow> u32 \<Rightarrow> PageString option" where
  "page_get A handle =
     (if handle = 0 \<or> length (slots A) \<le> unat handle then None
      else let slot = slots A ! unat handle
           in if ps_handle slot \<noteq> handle \<or> ps_epoch slot \<noteq> epoch A then None else Some slot)"

definition str_at :: "('ob, 'ar, 'fn) PageArena \<Rightarrow> u32 \<Rightarrow> u32 \<Rightarrow> ArenaFault + u8 list" where
  "str_at A handle e =
     (case page_get A handle of Some slot \<Rightarrow> if ps_epoch slot = e then as_str A slot else Ok [] | None \<Rightarrow> Ok [])"

definition live_handles :: "('ob, 'ar, 'fn) PageArena \<Rightarrow> nat" where
  "live_handles A = length (slots A) - 1"

subsection \<open>Payload handles\<close>

record SlotRef =
  ref_handle :: u32
  ref_epoch :: u32
  ref_ptr :: SlotPtr

definition alloc_object ::
  "('ob, 'ar, 'fn) PageArena \<Rightarrow> 'ob \<Rightarrow> ArenaFault + u32 \<times> ('ob, 'ar, 'fn) PageArena" where
  "alloc_object A x = bind_result (slab_alloc OBJECT_BYTES (objects A) x)
     (\<lambda>(p, S). Ok (of_nat (slab_len S), A\<lparr>objects := S\<rparr>))"

definition get_object :: "('ob, 'ar, 'fn) PageArena \<Rightarrow> u32 \<Rightarrow> ArenaFault + SlotRef option" where
  "get_object A handle =
     (if handle = 0 then Ok None
      else bind_result (slab_get OBJECT_BYTES (objects A) (unat handle - 1))
        (\<lambda>p. Ok (map_option (\<lambda>p. \<lparr>ref_handle = handle, ref_epoch = epoch A, ref_ptr = p\<rparr>) p)))"

definition upgrade_object :: "('ob, 'ar, 'fn) PageArena \<Rightarrow> u32 \<Rightarrow> u32 \<Rightarrow> ArenaFault + SlotRef option" where
  "upgrade_object A handle e =
     (if handle = 0 \<or> e \<noteq> GEN A then Ok None else if e \<noteq> epoch A then Ok None else get_object A handle)"

definition alloc_array ::
  "('ob, 'ar, 'fn) PageArena \<Rightarrow> 'ar \<Rightarrow> ArenaFault + u32 \<times> ('ob, 'ar, 'fn) PageArena" where
  "alloc_array A x = bind_result (slab_alloc ARRAY_BYTES (arrays A) x)
     (\<lambda>(p, S). Ok (of_nat (slab_len S), A\<lparr>arrays := S\<rparr>))"

definition get_array :: "('ob, 'ar, 'fn) PageArena \<Rightarrow> u32 \<Rightarrow> ArenaFault + SlotRef option" where
  "get_array A handle =
     (if handle = 0 then Ok None
      else bind_result (slab_get ARRAY_BYTES (arrays A) (unat handle - 1))
        (\<lambda>p. Ok (map_option (\<lambda>p. \<lparr>ref_handle = handle, ref_epoch = epoch A, ref_ptr = p\<rparr>) p)))"

definition upgrade_array :: "('ob, 'ar, 'fn) PageArena \<Rightarrow> u32 \<Rightarrow> u32 \<Rightarrow> ArenaFault + SlotRef option" where
  "upgrade_array A handle e =
     (if handle = 0 \<or> e \<noteq> GEN A then Ok None else if e \<noteq> epoch A then Ok None else get_array A handle)"

definition alloc_function ::
  "('ob, 'ar, 'fn) PageArena \<Rightarrow> 'fn \<Rightarrow> ArenaFault + u32 \<times> ('ob, 'ar, 'fn) PageArena" where
  "alloc_function A x = bind_result (slab_alloc FUNCTION_BYTES (funs A) x)
     (\<lambda>(p, S). Ok (of_nat (slab_len S), A\<lparr>funs := S\<rparr>))"

definition get_function :: "('ob, 'ar, 'fn) PageArena \<Rightarrow> u32 \<Rightarrow> ArenaFault + SlotRef option" where
  "get_function A handle =
     (if handle = 0 then Ok None
      else bind_result (slab_get FUNCTION_BYTES (funs A) (unat handle - 1))
        (\<lambda>p. Ok (map_option (\<lambda>p. \<lparr>ref_handle = handle, ref_epoch = epoch A, ref_ptr = p\<rparr>) p)))"

definition upgrade_function :: "('ob, 'ar, 'fn) PageArena \<Rightarrow> u32 \<Rightarrow> u32 \<Rightarrow> ArenaFault + SlotRef option" where
  "upgrade_function A handle e =
     (if handle = 0 \<or> e \<noteq> GEN A then Ok None else if e \<noteq> epoch A then Ok None else get_function A handle)"

definition slab_bytes :: "('ob, 'ar, 'fn) PageArena \<Rightarrow> nat" where
  "slab_bytes A = saturate (saturate (reserved_bytes OBJECT_BYTES (objects A)
     + reserved_bytes ARRAY_BYTES (arrays A)) + reserved_bytes FUNCTION_BYTES (funs A))"

text \<open>The interned form of \<open>JsObjectRef\<close>, \<open>JsArrayRef\<close> and \<open>JsFunction\<close>; a slab pointer is never null.\<close>

definition is_live :: "('ob, 'ar, 'fn) PageArena \<Rightarrow> SlotRef \<Rightarrow> bool" where
  "is_live A r \<longleftrightarrow> ref_epoch r = GEN A"

definition object_cell :: "('ob, 'ar, 'fn) PageArena \<Rightarrow> SlotRef \<Rightarrow> ArenaFault + 'ob" where
  "object_cell A r = (if ref_epoch r \<noteq> GEN A then Err StaleHandle else slab_deref (objects A) (ref_ptr r))"

definition array_cell :: "('ob, 'ar, 'fn) PageArena \<Rightarrow> SlotRef \<Rightarrow> ArenaFault + 'ar" where
  "array_cell A r = (if ref_epoch r \<noteq> GEN A then Err StaleHandle else slab_deref (arrays A) (ref_ptr r))"

definition function_data :: "('ob, 'ar, 'fn) PageArena \<Rightarrow> SlotRef \<Rightarrow> ArenaFault + 'fn" where
  "function_data A r = (if ref_epoch r \<noteq> GEN A then Err StaleHandle else slab_deref (funs A) (ref_ptr r))"

definition object_as_value :: "('ob, 'ar, 'fn) PageArena \<Rightarrow> SlotRef \<Rightarrow> Immediate" where
  "object_as_value A r = (if ref_epoch r \<noteq> GEN A then imm_undefined else from_object_handle (GEN A) (ref_handle r))"

definition object_ref_raw :: "('ob, 'ar, 'fn) PageArena \<Rightarrow> Immediate \<Rightarrow> ArenaFault + SlotRef option" where
  "object_ref_raw A w = (case object_handle (GEN A) w of None \<Rightarrow> Ok None | Some h \<Rightarrow> get_object A h)"

definition array_as_value :: "('ob, 'ar, 'fn) PageArena \<Rightarrow> SlotRef \<Rightarrow> Immediate" where
  "array_as_value A r = (if ref_epoch r \<noteq> GEN A then imm_undefined else from_array_handle (GEN A) (ref_handle r))"

text \<open>\<open>Value::as_array\<close> and \<open>Value::as_function\<close> on an immediate.\<close>

definition array_of_value :: "('ob, 'ar, 'fn) PageArena \<Rightarrow> Immediate \<Rightarrow> ArenaFault + SlotRef option" where
  "array_of_value A w = (case array_handle (GEN A) w of None \<Rightarrow> Ok None | Some h \<Rightarrow> get_array A h)"

definition function_of_value :: "('ob, 'ar, 'fn) PageArena \<Rightarrow> Immediate \<Rightarrow> ArenaFault + SlotRef option" where
  "function_of_value A w = (case function_handle (GEN A) w of None \<Rightarrow> Ok None | Some h \<Rightarrow> get_function A h)"

subsection \<open>Leaving a page\<close>

definition arena_reset :: "('ob, 'ar, 'fn) PageArena \<Rightarrow> ('ob, 'ar, 'fn) PageArena" where
  "arena_reset A = A\<lparr>epoch := (if epoch A + 1 = 0 then 1 else epoch A + 1), chunks := [], current := [],
     capacity := 0, slots := [null_slot], hash_slots := replicate (length (hash_slots A)) 0, hash_len := 0,
     allocated := 0, objects := snd (slab_clear OBJECT_BYTES (objects A)),
     arrays := snd (slab_clear ARRAY_BYTES (arrays A)),
     funs := snd (slab_clear FUNCTION_BYTES (funs A))\<rparr>"

definition page_reset :: "('ob, 'ar, 'fn) PageArena \<Rightarrow> ('ob, 'ar, 'fn) PageArena" where
  "page_reset A = (let A = arena_reset A in sync_epoch (epoch A) A)"

end
