(* ===== verification/PageSlab.thy ===== *)
theory PageSlab
  imports PageArena
begin

text \<open>
  A slab is a list: allocation appends, an index reads, and clearing drops every element once.
\<close>

subsection \<open>Chunks of one length\<close>

lemma slots_per_chunk_pos [simp]: "0 < slots_per_chunk size_of"
  by (simp add: slots_per_chunk_def Let_def)

lemma length_concat_uniform: "\<forall>c\<in>set cs. length c = n \<Longrightarrow> length (concat cs) = length cs * n"
  by (induction cs) auto

lemma nth_concat_uniform:
  assumes "\<forall>c\<in>set cs. length c = n" "i < length cs * n"
  shows "concat cs ! i = cs ! (i div n) ! (i mod n)"
  using assms
proof (induction cs arbitrary: i)
  case (Cons c cs)
  show ?case
  proof (cases "i < n")
    case True
    with Cons.prems(1) show ?thesis by (simp add: nth_append)
  next
    case False
    with Cons.prems(2) have "0 < n" by (cases n) auto
    have "i div n = Suc ((i - n) div n)" "i mod n = (i - n) mod n"
      using False \<open>0 < n\<close> by (simp_all add: le_div_geq le_mod_geq)
    with False Cons show ?thesis by (simp add: nth_append)
  qed
qed simp

lemma concat_update_uniform:
  assumes "\<forall>c\<in>set cs. length c = n" "i < length cs * n"
  shows "concat (cs[i div n := (cs ! (i div n))[i mod n := x]]) = (concat cs)[i := x]"
  using assms
proof (induction cs arbitrary: i)
  case (Cons c cs)
  show ?case
  proof (cases "i < n")
    case True
    with Cons.prems(1) show ?thesis by (simp add: list_update_append)
  next
    case False
    with Cons.prems(2) have "0 < n" by (cases n) auto
    have "i div n = Suc ((i - n) div n)" "i mod n = (i - n) mod n"
      using False \<open>0 < n\<close> by (simp_all add: le_div_geq le_mod_geq)
    with False Cons show ?thesis by (simp add: list_update_append)
  qed
qed simp

lemma clear_chunks_uniform:
  assumes "\<forall>c\<in>set cs. length c = n"
  shows "clear_chunks n m cs = take m (concat cs)"
  using assms
proof (induction cs arbitrary: m)
  case (Cons c cs)
  then show ?case by (cases "m \<le> n") (simp_all add: min_def)
qed simp

subsection \<open>The list a slab stands for\<close>

definition slab_list :: "'a SizeClassSlab \<Rightarrow> 'a list" where
  "slab_list S = map the (take (slab_len S) (concat (slab_chunks S)))"

definition slab_ok :: "nat \<Rightarrow> 'a SizeClassSlab \<Rightarrow> bool" where
  "slab_ok size_of S \<longleftrightarrow> (\<forall>c\<in>set (slab_chunks S). length c = slots_per_chunk size_of) \<and>
     (\<exists>xs k. slab_len S = length xs \<and> k < slots_per_chunk size_of \<and>
       concat (slab_chunks S) = map Some xs @ replicate k None)"

lemma slab_list_eq:
  "slab_len S = length xs \<Longrightarrow> concat (slab_chunks S) = map Some xs @ ys \<Longrightarrow> slab_list S = xs"
  by (simp add: slab_list_def map_idI)

lemma slab_okE:
  assumes "slab_ok size_of S"
  obtains k where "\<forall>c\<in>set (slab_chunks S). length c = slots_per_chunk size_of"
    "slab_len S = length (slab_list S)" "k < slots_per_chunk size_of"
    "concat (slab_chunks S) = map Some (slab_list S) @ replicate k None"
  using assms slab_list_eq unfolding slab_ok_def by metis

lemma slab_new_ok [simp]: "slab_ok size_of slab_new" "slab_list slab_new = []"
  by (simp_all add: slab_ok_def slab_new_def slab_list_def)

lemma slab_position:
  assumes "slab_ok size_of S" "i < slab_len S"
  defines "n \<equiv> slots_per_chunk size_of"
  shows "i div n < length (slab_chunks S)" "i mod n < length (slab_chunks S ! (i div n))"
    "slab_chunks S ! (i div n) ! (i mod n) = Some (slab_list S ! i)"
proof -
  obtain k where u: "\<forall>c\<in>set (slab_chunks S). length c = n" and l: "slab_len S = length (slab_list S)"
    and c: "concat (slab_chunks S) = map Some (slab_list S) @ replicate k None"
    using assms(1) unfolding n_def by (rule slab_okE)
  have "length (slab_chunks S) * n = length (slab_list S) + k"
    using length_concat_uniform[OF u] c by simp
  then have i: "i < length (slab_chunks S) * n" using assms(2) l by simp
  then show d: "i div n < length (slab_chunks S)" by (simp add: less_mult_imp_div_less)
  then have "length (slab_chunks S ! (i div n)) = n" using u by simp
  then show "i mod n < length (slab_chunks S ! (i div n))" by (simp add: n_def)
  show "slab_chunks S ! (i div n) ! (i mod n) = Some (slab_list S ! i)"
    using nth_concat_uniform[OF u i] c assms(2) l by (simp add: nth_append)
qed

lemma slab_get_ok:
  assumes "slab_ok size_of S" "i < slab_len S"
  shows "slab_get size_of S i = Ok (Some (i div slots_per_chunk size_of, i mod slots_per_chunk size_of))"
    "slab_deref S (i div slots_per_chunk size_of, i mod slots_per_chunk size_of) = Ok (slab_list S ! i)"
  using slab_position[OF assms] assms(2) by (simp_all add: slab_get_def slab_deref_def Let_def)

lemma slab_alloc_ok:
  assumes ok: "slab_ok size_of S"
  defines "n \<equiv> slots_per_chunk size_of"
  shows "\<exists>S'. slab_alloc size_of S x = Ok ((slab_len S div n, slab_len S mod n), S') \<and> slab_ok size_of S' \<and>
           slab_list S' = slab_list S @ [x] \<and> slab_len S' = slab_len S + 1"
proof -
  obtain k where u: "\<forall>c\<in>set (slab_chunks S). length c = n" and l: "slab_len S = length (slab_list S)"
    and k: "k < n" and c: "concat (slab_chunks S) = map Some (slab_list S) @ replicate k None"
    using ok unfolding n_def by (rule slab_okE)
  have n: "0 < n" by (simp add: n_def)
  have len: "length (slab_chunks S) * n = slab_len S + k"
    using length_concat_uniform[OF u] c l by simp
  define cs where "cs = (if slab_len S div n = length (slab_chunks S)
    then slab_chunks S @ [new_chunk size_of] else slab_chunks S)"
  have full: "slab_len S div n = length (slab_chunks S) \<longleftrightarrow> k = 0"
  proof
    assume *: "slab_len S div n = length (slab_chunks S)"
    have "slab_len S div n * n \<le> slab_len S" by simp
    then show "k = 0" unfolding * len by simp
  next
    assume "k = 0"
    then have "slab_len S = length (slab_chunks S) * n" using len by simp
    then show "slab_len S div n = length (slab_chunks S)" using n by simp
  qed
  define k' where "k' = (if k = 0 then n - 1 else k - 1)"
  have cs_u: "\<forall>c\<in>set cs. length c = n" using u by (auto simp: cs_def new_chunk_def n_def)
  have cs_c: "concat cs = map Some (slab_list S) @ replicate (Suc k') None"
    using c n by (auto simp: cs_def full k'_def new_chunk_def simp flip: n_def replicate_Suc)
  have "length cs * n = slab_len S + Suc k'"
    using length_concat_uniform[OF cs_u] cs_c l by simp
  then have i: "slab_len S < length cs * n" by simp
  then have d: "slab_len S div n < length cs" by (simp add: less_mult_imp_div_less)
  then have m: "slab_len S mod n < length (cs ! (slab_len S div n))" using cs_u n by simp
  define S' where "S' = \<lparr>slab_chunks = cs[slab_len S div n := (cs ! (slab_len S div n))[slab_len S mod n := Some x]],
    slab_len = slab_len S + 1\<rparr>"
  have alloc: "slab_alloc size_of S x = Ok ((slab_len S div n, slab_len S mod n), S')"
    using d m by (simp add: slab_alloc_def Let_def S'_def flip: cs_def n_def)
  have "concat (slab_chunks S') = map Some (slab_list S @ [x]) @ replicate k' None"
    using concat_update_uniform[OF cs_u i, of "Some x"] cs_c l by (simp add: S'_def list_update_append)
  moreover have "slab_len S' = length (slab_list S @ [x])" using l by (simp add: S'_def)
  moreover have "\<forall>c\<in>set (slab_chunks S'). length c = n"
    using cs_u d by (auto simp: S'_def dest!: subsetD[OF set_update_subset_insert])
  moreover have "k' < n" using k n by (auto simp: k'_def)
  ultimately have "slab_ok size_of S' \<and> slab_list S' = slab_list S @ [x]"
    using slab_list_eq unfolding slab_ok_def n_def by metis
  with alloc show ?thesis by (simp add: S'_def)
qed

text \<open>
  A slab refines a list.  Allocation never indexes out of range, appends the value and returns the
  pointer the new index resolves to; every earlier index keeps its pointer and its value, and no two
  indices share a pointer.  Clearing drops exactly the allocated values, in order and each once,
  whatever the chunks.
\<close>

theorem slab_refines_list:
  assumes "slab_ok size_of S"
  shows "(\<exists>p S'. slab_alloc size_of S x = Ok (p, S') \<and> slab_ok size_of S' \<and>
      slab_list S' = slab_list S @ [x] \<and> slab_get size_of S' (slab_len S) = Ok (Some p) \<and> slab_deref S' p = Ok x \<and>
      (\<forall>i < slab_len S. \<exists>q. slab_get size_of S i = Ok (Some q) \<and> slab_get size_of S' i = Ok (Some q) \<and>
         q \<noteq> p \<and> slab_deref S' q = Ok (slab_list S ! i))) \<and>
    slab_clear size_of S = (map Some (slab_list S), slab_new)"
proof -
  let ?n = "slots_per_chunk size_of"
  obtain k where u: "\<forall>c\<in>set (slab_chunks S). length c = ?n" and l: "slab_len S = length (slab_list S)"
    and c: "concat (slab_chunks S) = map Some (slab_list S) @ replicate k None"
    using assms by (rule slab_okE)
  obtain S' where S': "slab_alloc size_of S x = Ok ((slab_len S div ?n, slab_len S mod ?n), S')"
    "slab_ok size_of S'" "slab_list S' = slab_list S @ [x]" "slab_len S' = slab_len S + 1"
    using slab_alloc_ok[OF assms, of x] by blast
  have new: "slab_get size_of S' (slab_len S) = Ok (Some (slab_len S div ?n, slab_len S mod ?n))"
    "slab_deref S' (slab_len S div ?n, slab_len S mod ?n) = Ok x"
    using slab_get_ok[OF S'(2), of "slab_len S"] S'(3,4) l by simp_all
  have old: "\<exists>q. slab_get size_of S i = Ok (Some q) \<and> slab_get size_of S' i = Ok (Some q) \<and>
      q \<noteq> (slab_len S div ?n, slab_len S mod ?n) \<and> slab_deref S' q = Ok (slab_list S ! i)" if "i < slab_len S" for i
  proof (intro exI conjI)
    show "(i div ?n, i mod ?n) \<noteq> (slab_len S div ?n, slab_len S mod ?n)"
      using that by (metis div_mult_mod_eq less_irrefl prod.inject)
  qed (use slab_get_ok[OF assms that] slab_get_ok[OF S'(2), of i] that S'(3,4) l in \<open>simp_all add: nth_append\<close>)
  have "slab_clear size_of S = (map Some (slab_list S), slab_new)"
    using clear_chunks_uniform[OF u, of "slab_len S"] c l by (simp add: slab_clear_def slab_new_def)
  with S' new old show ?thesis by blast
qed

theorem slab_refines_list_witness:
  "slab_ok OBJECT_BYTES (slab_new :: nat SizeClassSlab) \<and>
   (\<exists>p S'. slab_alloc OBJECT_BYTES slab_new (7 :: nat) = Ok (p, S') \<and> slab_list S' = [7])"
  using slab_refines_list[OF slab_new_ok(1), of OBJECT_BYTES "7 :: nat"] by auto

end
