(* ===== verification/PageTable.thy ===== *)
theory PageTable
  imports PageSlab
begin

text \<open>
  The open-addressed index of the interned strings: probing finds what was inserted, insertion ends
  because some slot is free, and growing keeps every handle findable.
\<close>

subsection \<open>Probe sequences\<close>

definition findable :: "u32 list \<Rightarrow> nat \<Rightarrow> u32 \<Rightarrow> bool" where
  "findable H h x \<longleftrightarrow> (\<exists>j<length H. H ! ((h + j) mod length H) = x \<and> (\<forall>i<j. H ! ((h + i) mod length H) \<noteq> 0))"

definition filled :: "u32 list \<Rightarrow> nat" where
  "filled H = length (filter (\<lambda>x. x \<noteq> 0) H)"

definition index_ok :: "('ob, 'ar, 'fn) PageArena \<Rightarrow> bool" where
  "index_ok A \<longleftrightarrow> (\<exists>k. length (hash_slots A) = 2 ^ k \<and> hash_mask A = 2 ^ k - 1)"

lemma index_and:
  assumes "index_ok A"
  shows "n AND hash_mask A = n mod length (hash_slots A)"
proof -
  obtain k where "length (hash_slots A) = 2 ^ k" "hash_mask A = mask k"
    using assms by (auto simp: index_ok_def mask_eq_exp_minus_1)
  then show ?thesis by (simp flip: take_bit_eq_mask add: take_bit_eq_mod)
qed

lemma index_nonempty: "index_ok A \<Longrightarrow> 0 < length (hash_slots A)"
  by (auto simp: index_ok_def)

lemma next_probe:
  "index_ok A \<Longrightarrow> Suc (i mod length (hash_slots A)) AND hash_mask A = Suc i mod length (hash_slots A)"
  by (simp add: index_and mod_Suc_eq)

lemma filled_replicate [simp]: "filled (replicate n 0) = 0"
  by (simp add: filled_def)

lemma filled_Cons: "filled (x # xs) = (if x = 0 then filled xs else Suc (filled xs))"
  by (simp add: filled_def)

lemma filled_Nil [simp]: "filled [] = 0"
  by (simp add: filled_def)

lemma filled_update: "i < length H \<Longrightarrow> H ! i = 0 \<Longrightarrow> x \<noteq> 0 \<Longrightarrow> filled (H[i := x]) = Suc (filled H)"
  by (induction H arbitrary: i) (auto simp: filled_Cons nth_Cons split: nat.splits)

lemma room_if_not_filled: "filled H < length H \<Longrightarrow> 0 \<in> set H"
  using filter_id_conv[of "\<lambda>x. x \<noteq> 0" H] by (auto simp: filled_def)

lemma findable_update:
  assumes "findable H h y" "i < length H" "H ! i = 0" "x \<noteq> 0" "y \<noteq> 0"
  shows "findable (H[i := x]) h y"
proof -
  obtain j where "j < length H" "H ! ((h + j) mod length H) = y" "\<forall>i<j. H ! ((h + i) mod length H) \<noteq> 0"
    using assms(1) by (auto simp: findable_def)
  with assms(2-) show ?thesis
    unfolding findable_def by (intro exI[of _ j]) (auto simp: nth_list_update)
qed

lemma first_free:
  assumes "0 \<in> set H"
  obtains j where "j < length H" "H ! ((h + j) mod length H) = 0" "\<forall>i<j. H ! ((h + i) mod length H) \<noteq> 0"
proof -
  let ?n = "length H"
  obtain i where i: "i < ?n" "H ! i = 0" using assms by (auto simp: in_set_conv_nth)
  define j where "j = (i + (?n - h mod ?n)) mod ?n"
  have "(h + j) mod ?n = (h mod ?n + (i + (?n - h mod ?n))) mod ?n"
    by (simp add: j_def mod_simps)
  also have "h mod ?n + (i + (?n - h mod ?n)) = i + ?n"
    using mod_less_divisor[of ?n h] i(1) by linarith
  finally have at: "H ! ((h + j) mod ?n) = 0" using i by simp
  define m where "m = (LEAST j. H ! ((h + j) mod ?n) = 0)"
  have "m \<le> j" unfolding m_def using at by (rule Least_le)
  moreover have "j < ?n" unfolding j_def using i(1) by (intro mod_less_divisor) linarith
  moreover have "H ! ((h + m) mod ?n) = 0" unfolding m_def by (rule LeastI[of _ j], rule at)
  moreover have "\<forall>i<m. H ! ((h + i) mod ?n) \<noteq> 0" unfolding m_def by (auto dest: not_less_Least)
  ultimately show thesis using that by (meson le_less_trans)
qed

subsection \<open>Insertion\<close>

lemma hash_insert_from_free:
  assumes "index_ok A" "\<forall>i<j. hash_slots A ! ((h + i) mod length (hash_slots A)) \<noteq> 0"
    "hash_slots A ! ((h + j) mod length (hash_slots A)) = 0"
  shows "hash_insert_from x (h mod length (hash_slots A)) A =
    Some (Ok (A\<lparr>hash_slots := (hash_slots A)[(h + j) mod length (hash_slots A) := x], hash_len := hash_len A + 1\<rparr>))"
  using assms(2,3)
proof (induction j arbitrary: h)
  case 0
  with index_nonempty[OF assms(1)] show ?case by (simp add: hash_insert_from.simps not_le)
next
  case (Suc j)
  have "\<forall>i<j. hash_slots A ! ((Suc h + i) mod length (hash_slots A)) \<noteq> 0"
    using Suc.prems(1) by (auto dest: spec[of _ "Suc _"])
  from Suc.IH[OF this] Suc.prems(2) have
    "hash_insert_from x (Suc h mod length (hash_slots A)) A = Some (Ok (A\<lparr>hash_slots :=
      (hash_slots A)[(h + Suc j) mod length (hash_slots A) := x], hash_len := hash_len A + 1\<rparr>))" by simp
  moreover have "hash_slots A ! (h mod length (hash_slots A)) \<noteq> 0" using Suc.prems(1) by force
  ultimately show ?case
    using index_nonempty[OF assms(1)]
    by (subst hash_insert_from.simps) (simp add: not_le next_probe[OF assms(1)])
qed

lemma hash_insert_ok:
  assumes "index_ok A" "filled (hash_slots A) < length (hash_slots A)" "x \<noteq> 0"
  obtains i where "i < length (hash_slots A)" "hash_slots A ! i = 0"
    "hash_insert A h x = Some (Ok (A\<lparr>hash_slots := (hash_slots A)[i := x], hash_len := hash_len A + 1\<rparr>))"
    "findable ((hash_slots A)[i := x]) (unat h) x"
proof -
  let ?H = "hash_slots A"
  obtain j where j: "j < length ?H" "?H ! ((unat h + j) mod length ?H) = 0"
    "\<forall>i<j. ?H ! ((unat h + i) mod length ?H) \<noteq> 0"
    using first_free[OF room_if_not_filled[OF assms(2)]] by blast
  let ?i = "(unat h + j) mod length ?H"
  have i: "?i < length ?H" using index_nonempty[OF assms(1)] by simp
  have "hash_insert A h x = Some (Ok (A\<lparr>hash_slots := ?H[?i := x], hash_len := hash_len A + 1\<rparr>))"
    unfolding hash_insert_def index_and[OF assms(1)] using assms(1) j(3,2) by (rule hash_insert_from_free)
  moreover have "findable (?H[?i := x]) (unat h) x"
    unfolding findable_def using j assms(3) i by (intro exI[of _ j]) (auto simp: nth_list_update)
  ultimately show thesis using that i j(2) by blast
qed

subsection \<open>Strings of slots\<close>

definition slot_text :: "('ob, 'ar, 'fn) PageArena \<Rightarrow> nat \<Rightarrow> u8 list" where
  "slot_text A i = (case as_str A (slots A ! i) of Ok s \<Rightarrow> s | Err _ \<Rightarrow> [])"

definition slot_ok :: "('ob, 'ar, 'fn) PageArena \<Rightarrow> nat \<Rightarrow> bool" where
  "slot_ok A i \<longleftrightarrow> as_str A (slots A ! i) = Ok (slot_text A i) \<and>
     unat (ps_len (slots A ! i)) = length (slot_text A i) \<and>
     ps_handle (slots A ! i) = of_nat i \<and> ps_epoch (slots A ! i) = epoch A"

definition handles_ok :: "('ob, 'ar, 'fn) PageArena \<Rightarrow> u32 list \<Rightarrow> bool" where
  "handles_ok A H \<longleftrightarrow> (\<forall>x\<in>set H. x \<noteq> 0 \<longrightarrow> unat x < length (slots A) \<and> slot_ok A (unat x))"

lemma as_str_hash [simp]:
  "as_str (A\<lparr>hash_slots := H\<rparr>) = as_str A" "as_str (A\<lparr>hash_mask := m\<rparr>) = as_str A"
  "as_str (A\<lparr>hash_len := n\<rparr>) = as_str A" "as_str (A\<lparr>slots := ss\<rparr>) = as_str A"
  by (simp_all add: fun_eq_iff as_str_def read_bytes_def split: BytePtr.splits)

lemma slot_text_hash [simp]:
  "slot_text (A\<lparr>hash_slots := H\<rparr>) = slot_text A" "slot_text (A\<lparr>hash_mask := m\<rparr>) = slot_text A"
  "slot_text (A\<lparr>hash_len := n\<rparr>) = slot_text A"
  by (simp_all add: fun_eq_iff slot_text_def)

lemma slot_ok_hash [simp]:
  "slot_ok (A\<lparr>hash_slots := H\<rparr>) = slot_ok A" "slot_ok (A\<lparr>hash_mask := m\<rparr>) = slot_ok A"
  "slot_ok (A\<lparr>hash_len := n\<rparr>) = slot_ok A"
  by (simp_all add: fun_eq_iff slot_ok_def)

lemma slot_is_ok: "slot_ok A i \<Longrightarrow> slot_is A (slots A ! i) s = Ok (slot_text A i = s)"
  by (auto simp: slot_ok_def slot_is_def)

subsection \<open>Lookup\<close>

lemma hash_find_from_step:
  fixes h :: nat
  assumes "index_ok A" "handles_ok A (hash_slots A)"
  defines "x \<equiv> hash_slots A ! (h mod length (hash_slots A))"
  shows "hash_find_from A s (Suc n) (h mod length (hash_slots A)) =
    (if x = 0 then Ok None else if slot_text A (unat x) = s then Ok (Some (slots A ! unat x))
     else hash_find_from A s n (Suc h mod length (hash_slots A)))"
proof (cases "x = 0")
  case False
  have l: "h mod length (hash_slots A) < length (hash_slots A)" using index_nonempty[OF assms(1)] by simp
  then have "unat x < length (slots A) \<and> slot_ok A (unat x)"
    using assms(2) False by (auto simp: handles_ok_def x_def)
  with False l show ?thesis
    by (simp add: Let_def not_le slot_is_ok next_probe[OF assms(1)] flip: x_def)
next
  case True
  moreover have "h mod length (hash_slots A) < length (hash_slots A)" using index_nonempty[OF assms(1)] by simp
  ultimately show ?thesis by (simp add: Let_def not_le flip: x_def)
qed

lemma hash_find_from_miss:
  assumes "index_ok A" "handles_ok A (hash_slots A)"
    "\<forall>x\<in>set (hash_slots A). x \<noteq> 0 \<longrightarrow> slot_text A (unat x) \<noteq> s"
  shows "hash_find_from A s n (h mod length (hash_slots A)) = Ok None"
proof (induction n arbitrary: h)
  case (Suc n)
  have "hash_slots A ! (h mod length (hash_slots A)) \<in> set (hash_slots A)"
    using index_nonempty[OF assms(1)] by simp
  with assms(3) Suc.IH[of "Suc h"] show ?case unfolding hash_find_from_step[OF assms(1,2)] by simp
qed simp

lemma hash_find_from_hit:
  assumes "index_ok A" "handles_ok A (hash_slots A)" "x \<noteq> 0" "slot_text A (unat x) = s"
    and unique: "\<forall>y\<in>set (hash_slots A). y \<noteq> 0 \<longrightarrow> slot_text A (unat y) = s \<longrightarrow> y = x"
    and "hash_slots A ! ((h + j) mod length (hash_slots A)) = x"
    "\<forall>i<j. hash_slots A ! ((h + i) mod length (hash_slots A)) \<noteq> 0" "j < n"
  shows "hash_find_from A s n (h mod length (hash_slots A)) = Ok (Some (slots A ! unat x))"
  using assms(6-)
proof (induction j arbitrary: h n)
  case 0
  then obtain m where "n = Suc m" by (cases n) auto
  with 0 assms(3,4) show ?case by (simp add: hash_find_from_step[OF assms(1,2)] del: hash_find_from.simps)
next
  case (Suc j)
  then obtain m where m: "n = Suc m" "j < m" by (cases n) auto
  let ?y = "hash_slots A ! (h mod length (hash_slots A))"
  have "\<forall>i<j. hash_slots A ! ((Suc h + i) mod length (hash_slots A)) \<noteq> 0"
    using Suc.prems(2) by (auto dest: spec[of _ "Suc _"])
  then have "hash_find_from A s m (Suc h mod length (hash_slots A)) = Ok (Some (slots A ! unat x))"
    using Suc.IH[of "Suc h" m] Suc.prems(1) m(2) by simp
  moreover have "?y \<noteq> 0" using Suc.prems(2) by force
  moreover have "?y \<in> set (hash_slots A)" using index_nonempty[OF assms(1)] by simp
  then have "slot_text A (unat ?y) = s \<Longrightarrow> ?y = x" using unique \<open>?y \<noteq> 0\<close> by blast
  ultimately show ?case unfolding m(1) hash_find_from_step[OF assms(1,2)] by auto
qed

subsection \<open>Growing\<close>

lemma rehash_ok:
  assumes "index_ok A" "filled (hash_slots A) + filled old < length (hash_slots A)" "handles_ok A old"
  shows "\<exists>H'. rehash old A = Some (Ok (A\<lparr>hash_slots := H', hash_len := hash_len A + filled old\<rparr>)) \<and>
    length H' = length (hash_slots A) \<and> filled H' = filled (hash_slots A) + filled old \<and>
    set H' \<subseteq> set (hash_slots A) \<union> set old \<and>
    (\<forall>x h. x \<noteq> 0 \<longrightarrow> findable (hash_slots A) h x \<longrightarrow> findable H' h x) \<and>
    (\<forall>x\<in>set old. x \<noteq> 0 \<longrightarrow> findable H' (unat (hash_str (slot_text A (unat x)))) x)"
  using assms
proof (induction old arbitrary: A)
  case Nil
  then show ?case by (intro exI[of _ "hash_slots A"]) simp
next
  case (Cons x old)
  show ?case
  proof (cases "x = 0")
    case True
    with Cons.prems have "\<exists>H'. rehash old A = Some (Ok (A\<lparr>hash_slots := H', hash_len := hash_len A + filled old\<rparr>)) \<and>
      length H' = length (hash_slots A) \<and> filled H' = filled (hash_slots A) + filled old \<and>
      set H' \<subseteq> set (hash_slots A) \<union> set old \<and>
      (\<forall>x h. x \<noteq> 0 \<longrightarrow> findable (hash_slots A) h x \<longrightarrow> findable H' h x) \<and>
      (\<forall>x\<in>set old. x \<noteq> 0 \<longrightarrow> findable H' (unat (hash_str (slot_text A (unat x)))) x)"
      by (intro Cons.IH) (auto simp: filled_Cons handles_ok_def)
    with True show ?thesis by (auto simp: filled_Cons)
  next
    case False
    let ?h = "hash_str (slot_text A (unat x))"
    have slot: "unat x < length (slots A)" "as_str A (slots A ! unat x) = Ok (slot_text A (unat x))"
      using Cons.prems(3) False by (auto simp: handles_ok_def slot_ok_def)
    obtain i where i: "i < length (hash_slots A)" "hash_slots A ! i = 0"
      "hash_insert A ?h x = Some (Ok (A\<lparr>hash_slots := (hash_slots A)[i := x], hash_len := hash_len A + 1\<rparr>))"
      "findable ((hash_slots A)[i := x]) (unat ?h) x"
      using hash_insert_ok[OF Cons.prems(1) _ False, of ?h] Cons.prems(2) by auto
    let ?B = "A\<lparr>hash_slots := (hash_slots A)[i := x], hash_len := hash_len A + 1\<rparr>"
    have f: "filled (hash_slots ?B) = Suc (filled (hash_slots A))"
      using i(1,2) False by (simp add: filled_update)
    have "index_ok ?B" using Cons.prems(1) by (simp add: index_ok_def)
    moreover have "filled (hash_slots ?B) + filled old < length (hash_slots ?B)"
      using Cons.prems(2) False f by (simp add: filled_Cons)
    moreover have "handles_ok ?B old" using Cons.prems(3) by (simp add: handles_ok_def)
    ultimately obtain H' where H': "rehash old ?B = Some (Ok (?B\<lparr>hash_slots := H', hash_len := hash_len ?B + filled old\<rparr>))"
      "length H' = length (hash_slots ?B)" "filled H' = filled (hash_slots ?B) + filled old"
      "set H' \<subseteq> set (hash_slots ?B) \<union> set old"
      "\<forall>x h. x \<noteq> 0 \<longrightarrow> findable (hash_slots ?B) h x \<longrightarrow> findable H' h x"
      "\<forall>x\<in>set old. x \<noteq> 0 \<longrightarrow> findable H' (unat (hash_str (slot_text ?B (unat x)))) x"
      using Cons.IH[of ?B] by blast
    have "rehash (x # old) A = rehash old ?B"
      using False slot i(3) by (simp add: and_then_def)
    then have "rehash (x # old) A = Some (Ok (A\<lparr>hash_slots := H', hash_len := hash_len A + filled (x # old)\<rparr>))"
      using H'(1) False by (simp add: filled_Cons)
    moreover have "length H' = length (hash_slots A)" using H'(2) by simp
    moreover have "filled H' = filled (hash_slots A) + filled (x # old)" using H'(3) f False by (simp add: filled_Cons)
    moreover have "set H' \<subseteq> set (hash_slots A) \<union> set (x # old)"
      using H'(4) set_update_subset_insert[of "hash_slots A" i x] by auto
    moreover have "\<forall>y h. y \<noteq> 0 \<longrightarrow> findable (hash_slots A) h y \<longrightarrow> findable H' h y"
      using H'(5) findable_update[OF _ i(1,2) False] by simp
    moreover have "findable H' (unat ?h) x" using H'(5) i(4) False by simp
    ultimately show ?thesis using H'(6) by (intro exI[of _ H']) simp
  qed
qed

end
