(* ===== verification/PageIntern.thy ===== *)
theory PageIntern
  imports PageTable
begin

text \<open>
  The invariant of the page arena, and interning under it: the interned strings are a list without
  repetitions, a string already there is found, and a new one is appended without moving any other.
\<close>

subsection \<open>The invariant\<close>

definition strings :: "('ob, 'ar, 'fn) PageArena \<Rightarrow> u8 list list" where
  "strings A = map (slot_text A) [1..<length (slots A)]"

definition strings_ok :: "('ob, 'ar, 'fn) PageArena \<Rightarrow> bool" where
  "strings_ok A \<longleftrightarrow> 0 < length (slots A) \<and> length (slots A) \<le> 2 ^ 32 \<and> distinct (strings A) \<and>
     (\<forall>i. 0 < i \<longrightarrow> i < length (slots A) \<longrightarrow> slot_ok A i)"

definition table_ok :: "('ob, 'ar, 'fn) PageArena \<Rightarrow> bool" where
  "table_ok A \<longleftrightarrow> index_ok A \<and> hash_len A = filled (hash_slots A) \<and>
     filled (hash_slots A) * 10 < length (hash_slots A) * 7 \<and>
     (\<forall>x\<in>set (hash_slots A). unat x < length (slots A)) \<and>
     (\<forall>i. 0 < i \<longrightarrow> i < length (slots A) \<longrightarrow>
        findable (hash_slots A) (unat (hash_str (slot_text A i))) (of_nat i))"

definition slabs_ok :: "('ob, 'ar, 'fn) PageArena \<Rightarrow> bool" where
  "slabs_ok A \<longleftrightarrow> slab_ok OBJECT_BYTES (objects A) \<and> slab_ok ARRAY_BYTES (arrays A) \<and>
     slab_ok FUNCTION_BYTES (funs A) \<and> slab_len (objects A) < 2 ^ 32 \<and> slab_len (arrays A) < 2 ^ 32 \<and>
     slab_len (funs A) < 2 ^ 32"

definition arena_ok :: "('ob, 'ar, 'fn) PageArena \<Rightarrow> bool" where
  "arena_ok A \<longleftrightarrow> GEN A = epoch A \<and> epoch A \<noteq> 0 \<and> length (current A) \<le> capacity A \<and>
     strings_ok A \<and> table_ok A \<and> slabs_ok A"

lemma length_strings [simp]: "length (strings A) = length (slots A) - 1"
  by (simp add: strings_def)

lemma strings_nth: "i + 1 < length (slots A) \<Longrightarrow> strings A ! i = slot_text A (i + 1)"
  by (simp add: strings_def)

lemma strings_mem: "s \<in> set (strings A) \<longleftrightarrow> (\<exists>i. 0 < i \<and> i < length (slots A) \<and> slot_text A i = s)"
  by (force simp: strings_def Suc_le_eq)

lemma slot_text_inj:
  assumes "strings_ok A" "0 < i" "i < length (slots A)" "0 < j" "j < length (slots A)"
    "slot_text A i = slot_text A j"
  shows "i = j"
proof -
  have "strings A ! (i - 1) = strings A ! (j - 1)" using assms strings_nth[of _ A] by simp
  moreover have "distinct (strings A)" using assms(1) by (simp add: strings_ok_def)
  ultimately show ?thesis using assms(2-5) by (auto simp: nth_eq_iff_index_eq)
qed

lemma unat_handle: "strings_ok A \<Longrightarrow> i < length (slots A) \<Longrightarrow> unat (of_nat i :: u32) = i"
  by (simp add: strings_ok_def unat_of_nat)

lemma handle_nonzero: "strings_ok A \<Longrightarrow> 0 < i \<Longrightarrow> i < length (slots A) \<Longrightarrow> (of_nat i :: u32) \<noteq> 0"
  using unat_handle[of A i] by (metis less_irrefl unat_0)

lemma handles_okI: "strings_ok A \<Longrightarrow> \<forall>x\<in>set H. unat x < length (slots A) \<Longrightarrow> handles_ok A H"
  by (auto simp: handles_ok_def strings_ok_def unat_gt_0)

lemma findable_mem: "findable H h x \<Longrightarrow> x \<in> set H"
  by (auto simp: findable_def intro!: nth_mem mod_less_divisor)

subsection \<open>The bump\<close>

lemma alloc_bytes_ok:
  assumes "length (current A) \<le> capacity A"
  obtains p B where "alloc_bytes A s = (p, B)"
    "B = A\<lparr>chunks := chunks B, current := current B, capacity := capacity B, allocated := allocated B\<rparr>"
    "length (current B) \<le> capacity B" "read_bytes B p (length s) = Ok s"
    "\<forall>q n t. read_bytes A q n = Ok t \<longrightarrow> read_bytes B q n = Ok t"
proof (cases "s = []")
  case True
  then show thesis using assms by (intro that[of EmptyStr A]) (simp_all add: alloc_bytes_def read_bytes_def)
next
  case False
  define A' where "A' = (if capacity A - length (current A) < length s
    then A\<lparr>chunks := (if current A = [] then chunks A else chunks A @ [current A]), current := [],
           capacity := max (saturate (max (capacity A) CHUNK * 2)) (length s)\<rparr> else A)"
  define B where "B = A'\<lparr>current := current A' @ s, allocated := saturate (allocated A' + length s)\<rparr>"
  have fits: "length (current A') + length s \<le> capacity A'" using assms by (auto simp: A'_def)
  have old: "read_bytes A' q n = Ok t" if "read_bytes A q n = Ok t" for q n t
    using that by (auto simp: read_bytes_def A'_def nth_append nth_Cons split: BytePtr.splits if_splits nat.splits)
  have ext: "read_bytes B q n = Ok t" if "read_bytes A' q n = Ok t" for q n t
    using that by (auto simp: read_bytes_def B_def nth_append nth_Cons split: BytePtr.splits if_splits nat.splits)
  show thesis
  proof (rule that[of "Bump (length (chunks A')) (length (current A'))" B])
    show "alloc_bytes A s = (Bump (length (chunks A')) (length (current A')), B)"
      using False by (simp add: alloc_bytes_def Let_def flip: A'_def) (simp add: B_def)
    show "B = A\<lparr>chunks := chunks B, current := current B, capacity := capacity B, allocated := allocated B\<rparr>"
      by (simp add: B_def A'_def)
    show "length (current B) \<le> capacity B" using fits by (simp add: B_def)
    show "read_bytes B (Bump (length (chunks A')) (length (current A'))) (length s) = Ok s"
      by (simp add: read_bytes_def B_def nth_append)
    show "\<forall>q n t. read_bytes A q n = Ok t \<longrightarrow> read_bytes B q n = Ok t" using old ext by blast
  qed
qed

subsection \<open>Growing\<close>

lemma load_after_growth: "2 * l \<le> n \<Longrightarrow> 2048 \<le> n \<Longrightarrow> f * 10 < l * 7 \<Longrightarrow> (f + 1) * 10 < n * 7"
  for f l n :: nat
  unfolding distrib_right mult_1 by linarith

lemma hash_grow_ok:
  assumes "strings_ok A" "table_ok A"
  obtains H m where "hash_grow A = Some (Ok (A\<lparr>hash_slots := H, hash_mask := m\<rparr>))"
    "table_ok (A\<lparr>hash_slots := H, hash_mask := m\<rparr>)" "(filled H + 1) * 10 < length H * 7"
proof -
  let ?n = "max (length (hash_slots A)) 1024 * 2"
  let ?B = "A\<lparr>hash_slots := replicate ?n 0, hash_mask := ?n - 1, hash_len := 0\<rparr>"
  have t: "index_ok A" "hash_len A = filled (hash_slots A)" "filled (hash_slots A) * 10 < length (hash_slots A) * 7"
    "\<forall>x\<in>set (hash_slots A). unat x < length (slots A)"
    "\<And>i. 0 < i \<Longrightarrow> i < length (slots A) \<Longrightarrow> findable (hash_slots A) (unat (hash_str (slot_text A i))) (of_nat i)"
    using assms(2) by (auto simp: table_ok_def)
  obtain k where k: "length (hash_slots A) = 2 ^ k" using t(1) by (auto simp: index_ok_def)
  have "max (2 ^ k) (2 ^ j) = (2 :: nat) ^ max k j" for j by (simp add: max_def)
  from this[of 10] have "?n = 2 ^ (max k 10 + 1)" by (simp add: k)
  then have ix: "index_ok ?B" unfolding index_ok_def by (intro exI[of _ "max k 10 + 1"]) simp
  have small: "filled (hash_slots ?B) + filled (hash_slots A) < length (hash_slots ?B)" using t(3) by simp
  have hs: "handles_ok ?B (hash_slots A)"
    using handles_okI[OF assms(1) t(4)] by (simp add: handles_ok_def)
  obtain H where H: "rehash (hash_slots A) ?B = Some (Ok (?B\<lparr>hash_slots := H, hash_len := hash_len ?B + filled (hash_slots A)\<rparr>))"
    "length H = ?n" "filled H = filled (hash_slots A)" "set H \<subseteq> {0} \<union> set (hash_slots A)"
    "\<forall>x\<in>set (hash_slots A). x \<noteq> 0 \<longrightarrow> findable H (unat (hash_str (slot_text ?B (unat x)))) x"
    using rehash_ok[OF ix small hs] by (auto simp: set_replicate_conv_if)
  let ?C = "A\<lparr>hash_slots := H, hash_mask := ?n - 1\<rparr>"
  have "hash_slots A \<noteq> []" using index_nonempty[OF t(1)] by auto
  then have "hash_grow A = Some (Ok ?C)"
    using H(1) t(2) by (simp add: hash_grow_def Let_def)
  moreover have "2 * length (hash_slots A) \<le> length H" "2048 \<le> length H" using H(2) by auto
  then have big: "(filled H + 1) * 10 < length H * 7" unfolding H(3) using t(3) by (rule load_after_growth)
  moreover have "table_ok ?C" unfolding table_ok_def
  proof (intro conjI allI impI ballI)
    show "index_ok ?C" using ix H(2) by (simp add: index_ok_def)
    show "hash_len ?C = filled (hash_slots ?C)" using t(2) H(3) by simp
    show "filled (hash_slots ?C) * 10 < length (hash_slots ?C) * 7" using big by simp
    show "unat x < length (slots ?C)" if "x \<in> set (hash_slots ?C)" for x
      using that H(4) t(4) assms(1) by (auto simp: strings_ok_def)
    show "findable (hash_slots ?C) (unat (hash_str (slot_text ?C i))) (of_nat i)" if "0 < i" "i < length (slots ?C)" for i
      using that H(5) findable_mem[OF t(5)[of i]] unat_handle[OF assms(1), of i] handle_nonzero[OF assms(1), of i] by auto
  qed
  ultimately show thesis using that by blast
qed

subsection \<open>Interning\<close>

lemma hash_find_present:
  assumes "arena_ok A" "0 < i" "i < length (slots A)"
  shows "hash_find A (hash_str (slot_text A i)) (slot_text A i) = Ok (Some (slots A ! i))"
proof -
  let ?H = "hash_slots A" and ?h = "unat (hash_str (slot_text A i))"
  have so: "strings_ok A" and ix: "index_ok A" and f: "findable ?H ?h (of_nat i)"
    and hs: "\<forall>x\<in>set ?H. unat x < length (slots A)"
    using assms by (auto simp: arena_ok_def table_ok_def)
  have i: "unat (of_nat i :: u32) = i" "(of_nat i :: u32) \<noteq> 0"
    using unat_handle[OF so assms(3)] handle_nonzero[OF so assms(2,3)] by auto
  obtain j where j: "j < length ?H" "?H ! ((?h + j) mod length ?H) = of_nat i"
    "\<forall>i<j. ?H ! ((?h + i) mod length ?H) \<noteq> 0"
    using f by (auto simp: findable_def)
  have unique: "\<forall>y\<in>set ?H. y \<noteq> 0 \<longrightarrow> slot_text A (unat y) = slot_text A i \<longrightarrow> y = of_nat i"
    using slot_text_inj[OF so _ _ assms(2,3)] hs by (metis i(1) unat_eq_zero unsigned_word_eqI word_unat_eq_iff neq0_conv)
  have "hash_find_from A (slot_text A i) (length ?H) (?h mod length ?H) = Ok (Some (slots A ! unat (of_nat i :: u32)))"
    using ix handles_okI[OF so hs] i(2) _ unique j(2,3,1) by (rule hash_find_from_hit) (simp add: i(1))
  then show ?thesis
    using index_nonempty[OF ix] by (auto simp: hash_find_def index_and[OF ix] i(1))
qed

lemma hash_find_absent:
  assumes "arena_ok A" "s \<notin> set (strings A)"
  shows "hash_find A (hash_str s) s = Ok None"
proof -
  have so: "strings_ok A" and ix: "index_ok A" and hs: "\<forall>x\<in>set (hash_slots A). unat x < length (slots A)"
    using assms by (auto simp: arena_ok_def table_ok_def)
  have "\<forall>x\<in>set (hash_slots A). x \<noteq> 0 \<longrightarrow> slot_text A (unat x) \<noteq> s"
    using hs assms(2) unfolding strings_mem by (metis unat_gt_0)
  from hash_find_from_miss[OF ix handles_okI[OF so hs] this] show ?thesis
    by (simp add: hash_find_def index_and[OF ix])
qed

text \<open>The arena after a new string: a slot more, the byte store extended, the handle inserted.\<close>

lemma slot_text_extend:
  assumes "\<forall>q t. as_str A q = Ok t \<longrightarrow> as_str B q = Ok t" "epoch B = epoch A" "slots B = slots A @ ps"
    "slot_ok A i" "i < length (slots A)"
  shows "slot_text B i = slot_text A i" "slot_ok B i"
  using assms by (auto simp: slot_ok_def slot_text_def nth_append)

lemma insert_new_string:
  assumes ok: "strings_ok A" "table_ok A" "s \<notin> set (strings A)" "length s < 2 ^ 32" "length (slots A) < 2 ^ 32"
    and room: "(filled (hash_slots A) + 1) * 10 < length (hash_slots A) * 7"
    and p: "ps_handle p = of_nat (length (slots A))" "ps_epoch p = epoch A" "ps_len p = of_nat (length s)"
    and B: "slots B = slots A" "epoch B = epoch A" "hash_slots B = hash_slots A" "hash_mask B = hash_mask A"
      "hash_len B = hash_len A" "\<forall>q t. as_str A q = Ok t \<longrightarrow> as_str B q = Ok t" "as_str B p = Ok s"
  obtains H where "hash_insert (B\<lparr>slots := slots B @ [p]\<rparr>) (hash_str s) (ps_handle p) =
      Some (Ok (B\<lparr>slots := slots B @ [p], hash_slots := H, hash_len := hash_len B + 1\<rparr>))"
    "strings_ok (B\<lparr>slots := slots B @ [p], hash_slots := H, hash_len := hash_len B + 1\<rparr>)"
    "table_ok (B\<lparr>slots := slots B @ [p], hash_slots := H, hash_len := hash_len B + 1\<rparr>)"
    "strings (B\<lparr>slots := slots B @ [p], hash_slots := H, hash_len := hash_len B + 1\<rparr>) = strings A @ [s]"
proof -
  let ?n = "length (slots A)" and ?C = "B\<lparr>slots := slots B @ [p]\<rparr>"
  have t: "index_ok A" "hash_len A = filled (hash_slots A)" "\<forall>x\<in>set (hash_slots A). unat x < ?n"
    "\<And>i. 0 < i \<Longrightarrow> i < ?n \<Longrightarrow> findable (hash_slots A) (unat (hash_str (slot_text A i))) (of_nat i)"
    using ok(2) by (auto simp: table_ok_def)
  have n: "0 < ?n" "\<And>i. 0 < i \<Longrightarrow> i < ?n \<Longrightarrow> slot_ok A i" "distinct (strings A)"
    using ok(1) by (auto simp: strings_ok_def)
  have x: "unat (ps_handle p) = ?n" using ok(5) p(1) by (simp add: unat_of_nat)
  then have x0: "ps_handle p \<noteq> 0" using n(1) by auto
  have "index_ok ?C" using t(1) B(3,4) by (simp add: index_ok_def)
  moreover have "filled (hash_slots ?C) < length (hash_slots ?C)" using room B(3) by simp
  ultimately obtain i where i: "i < length (hash_slots A)" "hash_slots A ! i = 0"
    "hash_insert ?C (hash_str s) (ps_handle p) = Some (Ok (?C\<lparr>hash_slots := (hash_slots A)[i := ps_handle p], hash_len := hash_len B + 1\<rparr>))"
    "findable ((hash_slots A)[i := ps_handle p]) (unat (hash_str s)) (ps_handle p)"
    using hash_insert_ok[OF _ _ x0, of ?C "hash_str s"] B(3) by auto
  let ?H = "(hash_slots A)[i := ps_handle p]"
  let ?D = "B\<lparr>slots := slots B @ [p], hash_slots := ?H, hash_len := hash_len B + 1\<rparr>"
  have ext: "\<forall>q t. as_str A q = Ok t \<longrightarrow> as_str ?D q = Ok t" using B(6) by simp
  have old: "slot_text ?D j = slot_text A j" "slot_ok ?D j" if "0 < j" "j < ?n" for j
    using slot_text_extend[OF ext _ _ n(2)[OF that] that(2), of "[p]"] B(1,2) by simp_all
  have new: "slot_text ?D ?n = s" "slot_ok ?D ?n"
    using B p ok(4) by (simp_all add: slot_text_def slot_ok_def unat_of_nat)
  have upt: "[1..<Suc ?n] = [1..<?n] @ [?n]" using n(1) by (simp add: Suc_le_eq)
  have "length (slots ?D) = Suc ?n" using B(1) by simp
  moreover have "map (slot_text ?D) [1..<?n] = map (slot_text A) [1..<?n]" using old(1) by (intro map_cong) auto
  ultimately have strings: "strings ?D = strings A @ [s]"
    unfolding strings_def by (simp only: upt map_append list.map new(1))
  have "strings_ok ?D" unfolding strings_ok_def
  proof (intro conjI allI impI)
    show "distinct (strings ?D)" using strings n(3) ok(3) by simp
    show "slot_ok ?D j" if "0 < j" "j < length (slots ?D)" for j
      using that old(2) new(2) B(1) by (cases "j = ?n") auto
  qed (use ok(5) B(1) in simp_all)
  moreover have "table_ok ?D" unfolding table_ok_def
  proof (intro conjI allI impI ballI)
    show "index_ok ?D" using t(1) B(3,4) by (simp add: index_ok_def)
    show "hash_len ?D = filled (hash_slots ?D)" using filled_update[OF i(1,2) x0] t(2) B(5) by simp
    show "filled (hash_slots ?D) * 10 < length (hash_slots ?D) * 7" using filled_update[OF i(1,2) x0] room by simp
    show "unat y < length (slots ?D)" if "y \<in> set (hash_slots ?D)" for y
      using that t(3) x B(1) by (auto simp: less_Suc_eq dest!: subsetD[OF set_update_subset_insert])
    show "findable (hash_slots ?D) (unat (hash_str (slot_text ?D j))) (of_nat j)" if j: "0 < j" "j < length (slots ?D)" for j
    proof (cases "j = ?n")
      case True
      then show ?thesis using i(4) new(1) p(1) by simp
    next
      case False
      then have "j < ?n" using j(2) B(1) by simp
      then show ?thesis
        using findable_update[OF t(4)[OF j(1)] i(1,2) x0 handle_nonzero[OF ok(1) j(1)]] old(1)[OF j(1)] by simp
    qed
  qed
  ultimately show thesis using that[of ?H] i(3) strings by simp
qed

lemma as_str_cong:
  assumes "GEN B = GEN A" "\<forall>q n t. read_bytes A q n = Ok t \<longrightarrow> read_bytes B q n = Ok t"
  shows "\<forall>q t. as_str A q = Ok t \<longrightarrow> as_str B q = Ok t"
  using assms by (auto simp: as_str_def)

lemma page_intern_present:
  assumes "arena_ok A" "0 < i" "i < length (slots A)"
  shows "page_intern A (slot_text A i) = Some (Ok (slots A ! i, A))"
proof -
  have "slot_ok A i" "GEN A = epoch A" using assms by (auto simp: arena_ok_def strings_ok_def)
  then have "sync_epoch (ps_epoch (slots A ! i)) A = A" by (simp add: sync_epoch_def slot_ok_def)
  then show ?thesis
    by (simp add: page_intern_def arena_intern_def hash_find_present[OF assms] and_then_def Let_def)
qed

lemma page_intern_absent:
  assumes ok: "arena_ok A" and new: "s \<notin> set (strings A)" "length s < 2 ^ 32" "length (slots A) < 2 ^ 32"
  obtains p B where "page_intern A s = Some (Ok (p, B))" "arena_ok B" "strings B = strings A @ [s]"
    "slots B = slots A @ [p]" "epoch B = epoch A" "objects B = objects A" "arrays B = arrays A" "funs B = funs A"
    "\<forall>q t. as_str A q = Ok t \<longrightarrow> as_str B q = Ok t"
proof -
  have so: "strings_ok A" and to: "table_ok A" and gen: "GEN A = epoch A" "epoch A \<noteq> 0" and cap: "length (current A) \<le> capacity A"
    using ok by (auto simp: arena_ok_def)
  let ?full = "hash_slots A = [] \<or> length (hash_slots A) * 7 \<le> (hash_len A + 1) * 10"
  obtain H m where G: "(if ?full then hash_grow A else Some (Ok A)) = Some (Ok (A\<lparr>hash_slots := H, hash_mask := m\<rparr>))"
    "table_ok (A\<lparr>hash_slots := H, hash_mask := m\<rparr>)" "(filled H + 1) * 10 < length H * 7"
  proof (cases ?full)
    case True
    then show thesis using hash_grow_ok[OF so to] that by auto
  next
    case False
    then show thesis using that[of "hash_mask A" "hash_slots A"] to by (auto simp: table_ok_def)
  qed
  let ?G = "A\<lparr>hash_slots := H, hash_mask := m\<rparr>"
  have soG: "strings_ok ?G" and newG: "s \<notin> set (strings ?G)"
    using so new(1) by (simp_all add: strings_ok_def strings_def)
  obtain q B where B: "alloc_bytes ?G s = (q, B)"
    "B = ?G\<lparr>chunks := chunks B, current := current B, capacity := capacity B, allocated := allocated B\<rparr>"
    "length (current B) \<le> capacity B" "read_bytes B q (length s) = Ok s"
    "\<forall>q n t. read_bytes ?G q n = Ok t \<longrightarrow> read_bytes B q n = Ok t"
    using alloc_bytes_ok[of ?G s] cap by auto
  have same: "slots B = slots A" "epoch B = epoch A" "GEN B = GEN A" "hash_slots B = H" "hash_mask B = m"
    "hash_len B = hash_len A" "objects B = objects A" "arrays B = arrays A" "funs B = funs A"
    by (subst B(2), simp)+
  define p where "p = \<lparr>ps_handle = of_nat (length (slots A)), ps_epoch = epoch A, ps_ptr = q, ps_len = of_nat (length s)\<rparr>"
  have reads: "\<forall>q t. as_str ?G q = Ok t \<longrightarrow> as_str B q = Ok t" using same(3) B(5) by (intro as_str_cong) simp_all
  have "as_str B p = Ok s" using B(4) same(3) gen(1) new(2) by (simp add: as_str_def p_def unat_of_nat)
  then obtain H' where I: "hash_insert (B\<lparr>slots := slots B @ [p]\<rparr>) (hash_str s) (ps_handle p) =
      Some (Ok (B\<lparr>slots := slots B @ [p], hash_slots := H', hash_len := hash_len B + 1\<rparr>))"
    "strings_ok (B\<lparr>slots := slots B @ [p], hash_slots := H', hash_len := hash_len B + 1\<rparr>)"
    "table_ok (B\<lparr>slots := slots B @ [p], hash_slots := H', hash_len := hash_len B + 1\<rparr>)"
    "strings (B\<lparr>slots := slots B @ [p], hash_slots := H', hash_len := hash_len B + 1\<rparr>) = strings ?G @ [s]"
    using insert_new_string[OF soG G(2) newG new(2), of p B] new(3) G(3) same reads by (auto simp: p_def)
  let ?D = "B\<lparr>slots := slots B @ [p], hash_slots := H', hash_len := hash_len B + 1\<rparr>"
  have "arena_intern A s = Some (Ok (p, ?D))"
    using G(1) B(1) I(1) same(1,2) by (simp add: arena_intern_def hash_find_absent[OF ok new(1)] and_then_def Let_def flip: p_def)
      (simp add: p_def)
  moreover have "sync_epoch (ps_epoch p) ?D = ?D" using same(3) gen(1) by (simp add: sync_epoch_def p_def)
  ultimately have "page_intern A s = Some (Ok (p, ?D))" by (simp add: page_intern_def and_then_def)
  moreover have "arena_ok ?D" using I(2,3) ok B(3) same gen by (simp add: arena_ok_def slabs_ok_def)
  moreover have "strings ?G = strings A" by (simp add: strings_def)
  ultimately show thesis using that[of p ?D] I(4) same reads by simp
qed

end
