(* ===== verification/PageLaws.thy ===== *)
theory PageLaws
  imports PageIntern
begin

text \<open>
  What the page arena promises: everything handed out stays valid while the page lives, and nothing
  of a page is reachable after it.  The three kinds of payload share the locale \<open>payload_kind\<close>.
\<close>

subsection \<open>Life of a page\<close>

text \<open>
  The operations that allocate, within what 32-bit handles can count, and the pages a program can
  come to by them and by leaving pages.
\<close>

inductive page_step :: "('ob, 'ar, 'fn) PageArena \<Rightarrow> ('ob, 'ar, 'fn) PageArena \<Rightarrow> bool" where
  intern: "page_intern A s = Some (Ok (p, B)) \<Longrightarrow> length s < 2 ^ 32 \<Longrightarrow> length (slots A) < 2 ^ 32 \<Longrightarrow> page_step A B"
| object: "alloc_object A x = Ok (h, B) \<Longrightarrow> slab_len (objects A) + 1 < 2 ^ 32 \<Longrightarrow> page_step A B"
| array: "alloc_array A y = Ok (h, B) \<Longrightarrow> slab_len (arrays A) + 1 < 2 ^ 32 \<Longrightarrow> page_step A B"
| func: "alloc_function A z = Ok (h, B) \<Longrightarrow> slab_len (funs A) + 1 < 2 ^ 32 \<Longrightarrow> page_step A B"

inductive page_reachable :: "('ob, 'ar, 'fn) PageArena \<Rightarrow> bool" where
  new: "page_reachable arena_new"
| step: "page_reachable A \<Longrightarrow> page_step A B \<Longrightarrow> page_reachable B"
| reset: "page_reachable A \<Longrightarrow> page_reachable (page_reset A)"

lemma intern_cases:
  assumes "arena_ok A" "length s < 2 ^ 32" "length (slots A) < 2 ^ 32"
  obtains (old) i where "0 < i" "i < length (slots A)" "slot_text A i = s" "page_intern A s = Some (Ok (slots A ! i, A))"
  | (new) p B where "page_intern A s = Some (Ok (p, B))" "arena_ok B" "s \<notin> set (strings A)" "strings B = strings A @ [s]"
    "slots B = slots A @ [p]" "epoch B = epoch A" "objects B = objects A" "arrays B = arrays A" "funs B = funs A"
    "\<forall>q t. as_str A q = Ok t \<longrightarrow> as_str B q = Ok t"
proof (cases "s \<in> set (strings A)")
  case True
  then obtain i where i: "0 < i" "i < length (slots A)" "slot_text A i = s" unfolding strings_mem by blast
  with page_intern_present[OF assms(1) i(1,2)] show thesis by (intro old) simp_all
next
  case False
  obtain p B where "page_intern A s = Some (Ok (p, B))" "arena_ok B" "strings B = strings A @ [s]"
    "slots B = slots A @ [p]" "epoch B = epoch A" "objects B = objects A" "arrays B = arrays A" "funs B = funs A"
    "\<forall>q t. as_str A q = Ok t \<longrightarrow> as_str B q = Ok t"
    using page_intern_absent[OF assms(1) False assms(2,3)] .
  with False show thesis by (intro new)
qed

lemma as_str_slabs [simp]:
  "as_str (A\<lparr>objects := S\<rparr>) = as_str A" "as_str (A\<lparr>arrays := S'\<rparr>) = as_str A" "as_str (A\<lparr>funs := T\<rparr>) = as_str A"
  by (simp_all add: fun_eq_iff as_str_def read_bytes_def split: BytePtr.splits)

lemma slot_text_slabs [simp]:
  "slot_text (A\<lparr>objects := S\<rparr>) = slot_text A" "slot_text (A\<lparr>arrays := S'\<rparr>) = slot_text A"
  "slot_text (A\<lparr>funs := T\<rparr>) = slot_text A"
  by (simp_all add: fun_eq_iff slot_text_def)

lemma arena_ok_slabs:
  assumes "arena_ok A"
  shows "slab_ok OBJECT_BYTES S \<Longrightarrow> slab_len S < 2 ^ 32 \<Longrightarrow> arena_ok (A\<lparr>objects := S\<rparr>)"
    "slab_ok ARRAY_BYTES S' \<Longrightarrow> slab_len S' < 2 ^ 32 \<Longrightarrow> arena_ok (A\<lparr>arrays := S'\<rparr>)"
    "slab_ok FUNCTION_BYTES T \<Longrightarrow> slab_len T < 2 ^ 32 \<Longrightarrow> arena_ok (A\<lparr>funs := T\<rparr>)"
  using assms
  by (simp_all add: arena_ok_def strings_ok_def table_ok_def slabs_ok_def strings_def slot_ok_def index_ok_def)

subsection \<open>What a step keeps\<close>

text \<open>\<open>page_extends A B\<close>: the same page, later.  Slabs grew at their ends and every string still reads.\<close>

definition page_extends :: "('ob, 'ar, 'fn) PageArena \<Rightarrow> ('ob, 'ar, 'fn) PageArena \<Rightarrow> bool" where
  "page_extends A B \<longleftrightarrow> epoch B = epoch A \<and> GEN B = GEN A \<and>
     (\<forall>q t. as_str A q = Ok t \<longrightarrow> as_str B q = Ok t) \<and>
     (\<exists>xs. slab_list (objects B) = slab_list (objects A) @ xs) \<and>
     (\<exists>xs. slab_list (arrays B) = slab_list (arrays A) @ xs) \<and> (\<exists>xs. slab_list (funs B) = slab_list (funs A) @ xs)"

lemma page_extends_refl [simp]: "page_extends A A"
  by (simp add: page_extends_def)

lemma page_extends_trans: "page_extends A B \<Longrightarrow> page_extends B C \<Longrightarrow> page_extends A C"
  by (auto simp: page_extends_def)

lemma slab_allocD:
  assumes "slab_ok size_of S" "slab_alloc size_of S x = Ok (p, S')"
  shows "slab_ok size_of S'" "slab_list S' = slab_list S @ [x]" "slab_len S' = slab_len S + 1"
  using slab_alloc_ok[OF assms(1), of x] assms(2) by auto

lemma page_step_ok:
  assumes "page_step A B" "arena_ok A"
  shows "arena_ok B \<and> page_extends A B"
  using assms
proof cases
  case (intern s p)
  from assms(2) intern(2,3) show ?thesis
  proof (cases rule: intern_cases)
    case (old i)
    with intern(1) assms(2) show ?thesis by simp
  next
    case (new p B')
    then have "arena_ok B" and eq: "B' = B" using intern(1) by auto
    with new assms(2) show ?thesis by (simp add: page_extends_def arena_ok_def)
  qed
next
  case (object x h)
  then obtain p S where S: "slab_alloc OBJECT_BYTES (objects A) x = Ok (p, S)" "B = A\<lparr>objects := S\<rparr>"
    by (auto simp: alloc_object_def result_simps)
  from slab_allocD[OF _ S(1)] object(2) assms(2) show ?thesis unfolding S(2)
    by (auto intro!: arena_ok_slabs simp: page_extends_def) (simp_all add: arena_ok_def slabs_ok_def)
next
  case (array x h)
  then obtain p S where S: "slab_alloc ARRAY_BYTES (arrays A) x = Ok (p, S)" "B = A\<lparr>arrays := S\<rparr>"
    by (auto simp: alloc_array_def result_simps)
  from slab_allocD[OF _ S(1)] array(2) assms(2) show ?thesis unfolding S(2)
    by (auto intro!: arena_ok_slabs simp: page_extends_def) (simp_all add: arena_ok_def slabs_ok_def)
next
  case (func x h)
  then obtain p S where S: "slab_alloc FUNCTION_BYTES (funs A) x = Ok (p, S)" "B = A\<lparr>funs := S\<rparr>"
    by (auto simp: alloc_function_def result_simps)
  from slab_allocD[OF _ S(1)] func(2) assms(2) show ?thesis unfolding S(2)
    by (auto intro!: arena_ok_slabs simp: page_extends_def) (simp_all add: arena_ok_def slabs_ok_def)
qed

lemma page_steps_ok:
  assumes "page_step\<^sup>*\<^sup>* A B" "arena_ok A"
  shows "arena_ok B \<and> page_extends A B"
  using assms by (induction rule: rtranclp_induct) (auto dest: page_step_ok intro: page_extends_trans)

lemma empty_tables_ok:
  assumes "slots A = [null_slot]" "hash_slots A = replicate n 0" "hash_len A = 0" "index_ok A"
  shows "strings_ok A" "table_ok A"
  using assms index_nonempty[OF assms(4)] by (auto simp: strings_ok_def table_ok_def strings_def)

lemma arena_new_fields [simp]:
  "slots arena_new = [null_slot]" "hash_slots arena_new = replicate 32768 0" "hash_len arena_new = 0"
  "hash_mask arena_new = 32767" "GEN arena_new = 1" "epoch arena_new = 1" "current arena_new = []"
  "objects arena_new = slab_new" "arrays arena_new = slab_new" "funs arena_new = slab_new"
  by (simp_all add: arena_new_def)

lemma arena_new_ok [simp]: "arena_ok arena_new"
proof -
  have "index_ok arena_new" by (auto simp: index_ok_def intro: exI[of _ 15])
  from empty_tables_ok[OF arena_new_fields(1-3) this] show ?thesis
    by (simp add: arena_ok_def slabs_ok_def) (simp add: slab_new_def)
qed

lemma page_reset_ok:
  assumes "arena_ok A"
  shows "arena_ok (page_reset A)"
proof -
  let ?R = "page_reset A"
  have "index_ok A" using assms by (simp add: arena_ok_def table_ok_def)
  then have "index_ok ?R" by (simp add: index_ok_def page_reset_def arena_reset_def sync_epoch_def Let_def)
  moreover have "slots ?R = [null_slot]" "hash_slots ?R = replicate (length (hash_slots A)) 0" "hash_len ?R = 0"
    by (simp_all add: page_reset_def arena_reset_def sync_epoch_def Let_def)
  ultimately have "strings_ok ?R \<and> table_ok ?R" by (meson empty_tables_ok)
  then show ?thesis
    by (simp add: arena_ok_def slabs_ok_def)
      (simp add: page_reset_def arena_reset_def sync_epoch_def Let_def slab_clear_def slab_ok_def)
qed

lemma page_reachable_ok: "page_reachable A \<Longrightarrow> arena_ok A"
  by (induction rule: page_reachable.induct) (auto dest: page_step_ok intro: page_reset_ok)


subsection \<open>Payloads\<close>

text \<open>
  Objects, arrays and functions are kept alike; what holds of their handles is proved here once.
\<close>

locale payload_kind =
  fixes alloc :: "('ob, 'ar, 'fn) PageArena \<Rightarrow> 'p \<Rightarrow> ArenaFault + u32 \<times> ('ob, 'ar, 'fn) PageArena"
    and get :: "('ob, 'ar, 'fn) PageArena \<Rightarrow> u32 \<Rightarrow> ArenaFault + SlotRef option"
    and cell :: "('ob, 'ar, 'fn) PageArena \<Rightarrow> SlotRef \<Rightarrow> ArenaFault + 'p"
    and slab :: "('ob, 'ar, 'fn) PageArena \<Rightarrow> 'p SizeClassSlab"
    and size_of :: nat
  assumes alloc_Ok: "slab_alloc size_of (slab A) x = Ok (p, S) \<Longrightarrow>
      \<exists>B. alloc A x = Ok (of_nat (slab_len S), B) \<and> slab B = S \<and> epoch B = epoch A \<and> GEN B = GEN A \<and>
        (slab_len (slab A) + 1 < 2 ^ 32 \<longrightarrow> page_step A B)"
    and get_eq: "get A h = (if h = 0 then Ok None else bind_result (slab_get size_of (slab A) (unat h - 1))
        (\<lambda>p. Ok (map_option (\<lambda>p. \<lparr>ref_handle = h, ref_epoch = epoch A, ref_ptr = p\<rparr>) p)))"
    and cell_eq: "cell A r = (if ref_epoch r \<noteq> GEN A then Err StaleHandle else slab_deref (slab A) (ref_ptr r))"
    and ok: "arena_ok A \<Longrightarrow> slab_ok size_of (slab A) \<and> slab_len (slab A) < 2 ^ 32"
    and extends: "page_extends A B \<Longrightarrow> \<exists>xs. slab_list (slab B) = slab_list (slab A) @ xs"
begin

lemma get_empty: "slab_len (slab A) = 0 \<Longrightarrow> get A h = Ok None"
  by (simp add: get_eq slab_get_def)

lemma get_resolves:
  assumes "arena_ok A" "i < slab_len (slab A)"
  shows "\<exists>r. get A (of_nat (i + 1)) = Ok (Some r) \<and> ref_handle r = of_nat (i + 1) \<and> ref_epoch r = epoch A \<and>
    cell A r = Ok (slab_list (slab A) ! i)"
proof -
  have h: "unat (of_nat (i + 1) :: u32) = i + 1"
    using ok[OF assms(1)] assms(2) by (simp only: unat_of_nat) (simp add: take_bit_eq_mod)
  then have "(of_nat (i + 1) :: u32) \<noteq> 0" by (metis add_is_0 one_neq_zero unat_0)
  moreover have "GEN A = epoch A" using assms(1) by (simp add: arena_ok_def)
  ultimately show ?thesis
    using slab_get_ok[OF conjunct1[OF ok[OF assms(1)]] assms(2)] h by (simp add: get_eq cell_eq)
qed

lemma alloc_lives:
  assumes "arena_ok A" "slab_len (slab A) + 1 < 2 ^ 32"
  shows "\<exists>h B. alloc A x = Ok (h, B) \<and> arena_ok B \<and> page_extends A B \<and>
    (\<forall>C. page_step\<^sup>*\<^sup>* B C \<longrightarrow> (\<exists>r. get C h = Ok (Some r) \<and> ref_handle r = h \<and> ref_epoch r = GEN B \<and> cell C r = Ok x))"
proof -
  have len: "slab_len (slab C) = length (slab_list (slab C))" if "arena_ok C" for C
    using ok[OF that] slab_okE by blast
  obtain p S where S: "slab_alloc size_of (slab A) x = Ok (p, S)" "slab_list S = slab_list (slab A) @ [x]"
    "slab_len S = slab_len (slab A) + 1"
    using slab_alloc_ok[of size_of "slab A" x] ok[OF assms(1)] by blast
  obtain B where B: "alloc A x = Ok (of_nat (slab_len S), B)" "slab B = S" "page_step A B"
    using alloc_Ok[OF S(1)] assms(2) by blast
  have okB: "arena_ok B" "page_extends A B" using page_step_ok[OF B(3) assms(1)] by auto
  have "\<exists>r. get C (of_nat (slab_len S)) = Ok (Some r) \<and> ref_handle r = of_nat (slab_len S) \<and> ref_epoch r = GEN B \<and> cell C r = Ok x"
    if "page_step\<^sup>*\<^sup>* B C" for C
  proof -
    have C: "arena_ok C" "page_extends B C" using page_steps_ok[OF that okB(1)] by auto
    then obtain xs where xs: "slab_list (slab C) = slab_list (slab A) @ x # xs"
      using extends B(2) S(2) by fastforce
    then have "slab_len (slab A) < slab_len (slab C)" "slab_list (slab C) ! slab_len (slab A) = x"
      using len[OF C(1)] len[OF assms(1)] by (simp_all add: nth_append)
    moreover have "epoch C = GEN B" using C by (metis page_extends_def arena_ok_def)
    ultimately show ?thesis using get_resolves[OF C(1), of "slab_len (slab A)"] S(3) by auto
  qed
  with B(1) okB show ?thesis by blast
qed

end

lemma page_step_objects:
  "slab_alloc OBJECT_BYTES (objects A) x = Ok (p, S) \<Longrightarrow> slab_len (objects A) < 4294967295 \<Longrightarrow> page_step A (A\<lparr>objects := S\<rparr>)"
  by (rule page_step.object[of A x "of_nat (slab_len S)"]) (simp_all add: alloc_object_def)

lemma page_step_arrays:
  "slab_alloc ARRAY_BYTES (arrays A) x = Ok (p, S) \<Longrightarrow> slab_len (arrays A) < 4294967295 \<Longrightarrow> page_step A (A\<lparr>arrays := S\<rparr>)"
  by (rule page_step.array[of A x "of_nat (slab_len S)"]) (simp_all add: alloc_array_def)

lemma page_step_funs:
  "slab_alloc FUNCTION_BYTES (funs A) x = Ok (p, S) \<Longrightarrow> slab_len (funs A) < 4294967295 \<Longrightarrow> page_step A (A\<lparr>funs := S\<rparr>)"
  by (rule page_step.func[of A x "of_nat (slab_len S)"]) (simp_all add: alloc_function_def)

lemmas page_step_slabs = page_step_objects page_step_arrays page_step_funs

lemmas payload_defs = alloc_object_def get_object_def object_cell_def alloc_array_def get_array_def array_cell_def
  alloc_function_def get_function_def function_data_def arena_ok_def slabs_ok_def page_extends_def

interpretation obj: payload_kind alloc_object get_object object_cell objects OBJECT_BYTES
  by unfold_locales (auto simp: payload_defs intro: page_step_slabs)

interpretation arr: payload_kind alloc_array get_array array_cell arrays ARRAY_BYTES
  by unfold_locales (auto simp: payload_defs intro: page_step_slabs)

interpretation fns: payload_kind alloc_function get_function function_data funs FUNCTION_BYTES
  by unfold_locales (auto simp: payload_defs intro: page_step_slabs)

subsection \<open>Properties\<close>

text \<open>
  C6. Interning in any page a program can come to returns, without a fault, and refines the list of
  interned strings: a string already there gives its handle and changes no string, a new one is
  appended.  The handle is the position in that list, the list has no repetitions, and the handle
  reads the string back.
\<close>

theorem interning_refines_list:
  assumes "page_reachable A" "length s < 2 ^ 32" "length (slots A) < 2 ^ 32"
  shows "\<exists>p B. page_intern A s = Some (Ok (p, B)) \<and>
    strings B = (if s \<in> set (strings A) then strings A else strings A @ [s]) \<and> distinct (strings B) \<and>
    0 < unat (ps_handle p) \<and> unat (ps_handle p) \<le> length (strings B) \<and> strings B ! (unat (ps_handle p) - 1) = s \<and>
    as_str B p = Ok s \<and> page_get B (ps_handle p) = Some p \<and> str_at B (ps_handle p) (GEN B) = Ok s"
proof -
  have slot: "0 < unat (ps_handle (slots B ! i)) \<and> unat (ps_handle (slots B ! i)) \<le> length (strings B) \<and>
      strings B ! (unat (ps_handle (slots B ! i)) - 1) = slot_text B i \<and> as_str B (slots B ! i) = Ok (slot_text B i) \<and>
      page_get B (ps_handle (slots B ! i)) = Some (slots B ! i) \<and>
      str_at B (ps_handle (slots B ! i)) (GEN B) = Ok (slot_text B i) \<and> distinct (strings B)"
    if "arena_ok B" "0 < i" "i < length (slots B)" for B :: "('a, 'b, 'c) PageArena" and i
  proof -
    have so: "strings_ok B" "slot_ok B i" "GEN B = epoch B" using that by (auto simp: arena_ok_def strings_ok_def)
    have u: "unat (ps_handle (slots B ! i)) = i" using so(2) unat_handle[OF so(1) that(3)] by (simp add: slot_ok_def)
    then have "ps_handle (slots B ! i) \<noteq> 0" using that(2) by auto
    then have "page_get B (ps_handle (slots B ! i)) = Some (slots B ! i)"
      using so(2) u that(3) by (simp add: page_get_def slot_ok_def)
    with so u that show ?thesis by (auto simp: str_at_def strings_nth slot_ok_def strings_ok_def)
  qed
  have ok: "arena_ok A" using assms(1) by (rule page_reachable_ok)
  from ok assms(2,3) show ?thesis
  proof (cases rule: intern_cases)
    case (old i)
    moreover have "s \<in> set (strings A)" using old(1-3) by (auto simp: strings_mem)
    ultimately show ?thesis using slot[OF ok old(1,2)] by auto
  next
    case (new p B)
    have n: "0 < length (slots A)" using ok by (simp add: arena_ok_def strings_ok_def)
    have "strings B ! (length (slots A) - 1) = s" using new(4) by (simp add: nth_append)
    then have "slot_text B (length (slots A)) = s" using new(5) n strings_nth[of "length (slots A) - 1" B] by simp
    with new n slot[OF new(2), of "length (slots A)"] show ?thesis by auto
  qed
qed

theorem interning_refines_list_witness:
  "page_reachable (arena_new :: (nat, nat, nat) PageArena) \<and>
   (\<exists>p B. page_intern (arena_new :: (nat, nat, nat) PageArena) [104, 105] = Some (Ok (p, B)) \<and> as_str B p = Ok [104, 105])"
  using interning_refines_list[of "arena_new :: (nat, nat, nat) PageArena" "[104, 105]"]
  by (auto intro: page_reachable.new)

text \<open>
  C7. An object allocated in a page, put into a value and taken out again at any later moment of the
  page is the same object, behind a reference that turns into the same value again; weak references
  to it upgrade, and every string read before still reads the same.
\<close>

theorem handles_live_with_the_page:
  assumes "page_reachable A" "slab_len (objects A) + 1 < 2 ^ 32"
  shows "\<exists>h B. alloc_object A x = Ok (h, B) \<and> (\<forall>C. page_step\<^sup>*\<^sup>* B C \<longrightarrow>
    (\<exists>r. object_ref_raw C (from_object_handle (GEN B) h) = Ok (Some r) \<and> object_cell C r = Ok x \<and>
       object_as_value C r = from_object_handle (GEN B) h \<and> upgrade_object C h (GEN B) = Ok (Some r)) \<and>
    (\<forall>p t. as_str A p = Ok t \<longrightarrow> as_str C p = Ok t))"
proof -
  obtain h B where B: "alloc_object A x = Ok (h, B)" "arena_ok B" "page_extends A B"
    "\<And>C. page_step\<^sup>*\<^sup>* B C \<Longrightarrow> \<exists>r. get_object C h = Ok (Some r) \<and> ref_handle r = h \<and> ref_epoch r = GEN B \<and> object_cell C r = Ok x"
    using obj.alloc_lives[OF page_reachable_ok[OF assms(1)] assms(2)] by blast
  have "(\<exists>r. object_ref_raw C (from_object_handle (GEN B) h) = Ok (Some r) \<and> object_cell C r = Ok x \<and>
       object_as_value C r = from_object_handle (GEN B) h \<and> upgrade_object C h (GEN B) = Ok (Some r)) \<and>
    (\<forall>p t. as_str A p = Ok t \<longrightarrow> as_str C p = Ok t)" if C: "page_step\<^sup>*\<^sup>* B C" for C
  proof -
    have same: "epoch C = GEN B" "GEN C = GEN B" and ext: "page_extends A C"
      using page_steps_ok[OF C B(2)] B(3) page_extends_trans by (metis arena_ok_def page_extends_def)+
    obtain r where r: "get_object C h = Ok (Some r)" "ref_handle r = h" "ref_epoch r = GEN B" "object_cell C r = Ok x"
      using B(4)[OF C] by blast
    then have "h \<noteq> 0" by (auto simp: get_object_def)
    with r same ext show ?thesis
      by (simp add: object_ref_raw_def object_handle_pack object_as_value_def upgrade_object_def page_extends_def)
  qed
  with B(1) show ?thesis by blast
qed

theorem handles_live_with_the_page_witness:
  "page_reachable (arena_new :: (nat, nat, nat) PageArena) \<and>
   (\<exists>h B. alloc_object (arena_new :: (nat, nat, nat) PageArena) 7 = Ok (h, B) \<and>
     (\<exists>r. object_ref_raw B (from_object_handle (GEN B) h) = Ok (Some r) \<and> object_cell B r = Ok 7))"
  using handles_live_with_the_page[of "arena_new :: (nat, nat, nat) PageArena" 7]
  by (fastforce intro: page_reachable.new simp: slab_new_def)

text \<open>The epoch after a page, and what a page starts with.\<close>

lemma page_reset_fields [simp]:
  "slots (page_reset A) = [null_slot]" "objects (page_reset A) = slab_new" "arrays (page_reset A) = slab_new"
  "funs (page_reset A) = slab_new" "GEN (page_reset A) = (if epoch A + 1 = 0 then 1 else epoch A + 1)"
  "epoch (page_reset A) = (if epoch A + 1 = 0 then 1 else epoch A + 1)" "allocated (page_reset A) = 0"
  by (simp_all add: page_reset_def arena_reset_def sync_epoch_def Let_def slab_clear_def slab_new_def)

lemma reset_epoch:
  fixes e :: u32
  defines "e' \<equiv> if e + 1 = 0 then 1 else e + 1"
  shows "e' \<noteq> e" "ucast e AND EPOCH_MASK \<noteq> (ucast e' AND EPOCH_MASK :: Immediate)"
proof -
  have "ucast e AND EPOCH_MASK \<noteq> (ucast e' AND EPOCH_MASK :: Immediate)"
  proof (cases "e + 1 = 0")
    case True
    then have e: "e = - 1" "e' = 1" by (simp_all add: eq_neg_iff_add_eq_0 e'_def)
    have "bit (ucast (- 1 :: u32) AND EPOCH_MASK :: Immediate) 1" "\<not> bit (ucast (1 :: u32) AND EPOCH_MASK :: Immediate) 1"
      by (simp_all add: bit_simps EPOCH_MASK_bits)
    then have "ucast (- 1 :: u32) AND EPOCH_MASK \<noteq> (ucast (1 :: u32) AND EPOCH_MASK :: Immediate)" by metis
    then show ?thesis unfolding e .
  next
    case False
    with next_epoch_differs[of e] show ?thesis by (auto simp: e'_def)
  qed
  then show "ucast e AND EPOCH_MASK \<noteq> (ucast e' AND EPOCH_MASK :: Immediate)" "e' \<noteq> e" by auto
qed

lemmas value_ref_defs = object_ref_raw_def array_of_value_def function_of_value_def object_as_value_def
  array_as_value_def is_live_def object_cell_def array_cell_def function_data_def

lemmas upgrade_defs = upgrade_object_def upgrade_array_def upgrade_function_def

text \<open>
  C8. Leaving a page ends all its handles.  The new page starts empty, and through its whole life
  nothing of the page before resolves: objects, arrays, functions and strings in values are absent,
  strings read as empty, weak references to objects, arrays and functions fail to upgrade, cached
  references turn into undefined values, and using one panics instead of reading a freed slot.
\<close>

theorem reset_ends_every_handle:
  assumes "page_reachable A" "page_step\<^sup>*\<^sup>* (page_reset A) C"
  shows "live_handles (page_reset A) = 0 \<and> slab_bytes (page_reset A) = 0 \<and> allocated (page_reset A) = 0 \<and>
    object_ref_raw C (from_object_handle (GEN A) h) = Ok None \<and>
    array_of_value C (from_array_handle (GEN A) h) = Ok None \<and>
    function_of_value C (from_function_handle (GEN A) h) = Ok None \<and>
    interned_handle (GEN C) (from_interned_string (GEN A) h) = None \<and>
    str_at C h (GEN A) = Ok [] \<and> (ps_epoch p = GEN A \<longrightarrow> as_str C p = Ok []) \<and>
    upgrade_object C h (GEN A) = Ok None \<and> upgrade_array C h (GEN A) = Ok None \<and>
    upgrade_function C h (GEN A) = Ok None \<and>
    (ref_epoch r = GEN A \<longrightarrow> \<not> is_live C r \<and> object_cell C r = Err StaleHandle \<and>
       array_cell C r = Err StaleHandle \<and> function_data C r = Err StaleHandle \<and>
       object_as_value C r = imm_undefined \<and> array_as_value C r = imm_undefined)"
proof -
  have ok: "arena_ok A" using assms(1) by (rule page_reachable_ok)
  then have A: "GEN A = epoch A" "arena_ok (page_reset A)" by (simp add: arena_ok_def, rule page_reset_ok)
  have C: "GEN C = GEN (page_reset A)" "epoch C = GEN C"
    using page_steps_ok[OF assms(2) A(2)] by (auto simp: page_extends_def arena_ok_def)
  have new: "GEN C \<noteq> GEN A" "ucast (GEN A) AND EPOCH_MASK \<noteq> (ucast (GEN C) AND EPOCH_MASK :: Immediate)"
    using reset_epoch[of "epoch A"] A(1) C(1) by simp_all
  have "live_handles (page_reset A) = 0 \<and> slab_bytes (page_reset A) = 0 \<and> allocated (page_reset A) = 0"
    by (simp add: live_handles_def slab_bytes_def reserved_bytes_def saturate_def slab_new_def)
  moreover have "str_at C h (GEN A) = Ok []"
    using new(1) C(2) by (auto simp: str_at_def page_get_def Let_def split: option.splits)
  ultimately show ?thesis
    using new by (simp add: value_ref_defs object_handle_pack array_handle_pack function_handle_pack
        interned_handle_pack upgrade_defs as_str_def)
qed

theorem reset_ends_every_handle_witness:
  "page_reachable (arena_new :: (nat, nat, nat) PageArena) \<and>
   object_ref_raw (page_reset (arena_new :: (nat, nat, nat) PageArena)) (from_object_handle 1 1) = Ok None"
  using reset_ends_every_handle[of "arena_new :: (nat, nat, nat) PageArena" "page_reset arena_new" 1]
  by (simp add: page_reachable.new)

text \<open>
  While the payloads of a page are dropped the arena has its new epoch already, but \<open>current_epoch\<close>
  still answers the old one: references of the old page count as live until all slabs are gone.
\<close>

lemma old_refs_live_during_reset:
  "is_live (arena_reset A) r = is_live A r" "slab_len (objects (arena_reset A)) = 0"
  by (simp_all add: is_live_def arena_reset_def slab_clear_def)

lemma GEN_after_resets:
  "n < 2 ^ 31 \<Longrightarrow> arena_ok A \<Longrightarrow> GEN A = 1 \<Longrightarrow> GEN ((page_reset ^^ n) A) = 1 + of_nat n \<and> arena_ok ((page_reset ^^ n) A)"
proof (induction n)
  case (Suc n)
  then have IH: "GEN ((page_reset ^^ n) A) = 1 + of_nat n" "arena_ok ((page_reset ^^ n) A)" by auto
  have "unat (1 + of_nat n + 1 :: u32) = n + 2"
    using Suc.prems(1) by (simp add: unat_word_ariths unat_of_nat take_bit_eq_mod)
  then have "1 + of_nat n + 1 \<noteq> (0 :: u32)" by (metis add_is_0 unat_0 zero_neq_numeral)
  with IH show ?case by (simp add: arena_ok_def page_reset_ok[unfolded arena_ok_def] add.assoc)
qed simp

text \<open>
  C29. The epoch in a value has 15 bits only.  A value that kept the first object of the first page
  through 32768 page changes is the first object of the page then shown, although the two objects
  have nothing to do with each other.
\<close>

theorem stale_value_names_new_object:
  fixes x y :: 'ob
  shows "\<exists>h B h' D r. alloc_object (arena_new :: ('ob, 'ar, 'fn) PageArena) x = Ok (h, B) \<and>
     alloc_object ((page_reset ^^ 32768) B) y = Ok (h', D) \<and> GEN D \<noteq> GEN B \<and>
     object_ref_raw D (from_object_handle (GEN B) h) = Ok (Some r) \<and> object_cell D r = Ok y"
proof -
  have first: "\<exists>B. alloc_object A z = Ok (1, B) \<and> arena_ok B \<and> GEN B = GEN A \<and>
      (\<exists>r. get_object B 1 = Ok (Some r) \<and> object_cell B r = Ok z)"
    if ok: "arena_ok A" and empty: "objects A = slab_new" for A :: "('ob, 'ar, 'fn) PageArena" and z
  proof -
    obtain h B where B: "alloc_object A z = Ok (h, B)" "arena_ok B" "page_extends A B"
      "\<exists>r. get_object B h = Ok (Some r) \<and> object_cell B r = Ok z"
      using obj.alloc_lives[OF ok, of z] empty by (fastforce simp: slab_new_def)
    have "h = 1" using B(1) slab_alloc_ok[OF slab_new_ok(1), of OBJECT_BYTES z] empty
      by (auto simp: alloc_object_def slab_new_def)
    with B show ?thesis by (auto simp: page_extends_def)
  qed
  obtain B :: "('ob, 'ar, 'fn) PageArena" where B: "alloc_object arena_new x = Ok (1, B)" "arena_ok B" "GEN B = 1"
    using first[of arena_new x] by auto
  let ?P = "(page_reset ^^ 32768) B"
  have P: "GEN ?P = 1 + 32768" "arena_ok ?P" using GEN_after_resets[of 32768 B] B(2,3) by auto
  have "?P = page_reset ((page_reset ^^ 32767) B)"
    using funpow.simps(2)[of 32767 "page_reset :: ('ob, 'ar, 'fn) PageArena \<Rightarrow> _"] by (simp del: funpow.simps)
  then have "objects ?P = slab_new" by (metis page_reset_fields(2))
  then obtain D r where D: "alloc_object ?P y = Ok (1, D)" "GEN D = GEN ?P" "get_object D 1 = Ok (Some r)" "object_cell D r = Ok y"
    using first[OF P(2)] by blast
  have "object_handle (GEN D) (from_object_handle (GEN B) 1) = Some 1"
    using epoch_comes_back[of 1] by (simp add: object_handle_pack D(2) P(1) B(3))
  with B D P(1) show ?thesis by (intro exI[of _ 1] exI[of _ B] exI[of _ 1] exI[of _ D] exI[of _ r]) (simp add: object_ref_raw_def)
qed

end
