(* ===== verification/DomTree.thy ===== *)
theory DomTree
  imports W3Prelude
begin

text \<open>
  The tree of a document, \<^verbatim>\<open>crates/w3cos-dom/src/document.rs\<close> and \<^verbatim>\<open>node.rs\<close>: nodes in an arena, linked
  to parent, first and last child and siblings, with the log of child-list edits that caches of
  child lists are patched from.

  A node is a record with its tag and the rest of its data as a type parameter; slots of the arena are
  numbered below \<open>2 ^ 32\<close>, so node ids are natural numbers.  The structure tick and the log, thread
  locals of the code, are fields beside those of the document.  Calls that invalidate style and
  layout (\<^verbatim>\<open>mark_dirty\<close>, \<^verbatim>\<open>invalidate_style_subtree\<close>, \<^verbatim>\<open>note_structure_change\<close>) change nothing of the tree;
  they are recorded in their order in \<open>dom_notes\<close>.  \<open>get_node\<close> of a freed or missing slot panics: \<open>NoSuchNode\<close>;
  \<open>RemainderOverflow\<close> is the panic of a remainder of 64-bit integers that overflows.
\<close>

subsection \<open>State\<close>

datatype DomFault = NoSuchNode | RemainderOverflow

type_synonym NodeId = nat

record 'x DomNode =
  node_tag :: string
  node_data :: 'x
  parent :: "NodeId option"
  first_child :: "NodeId option"
  last_child :: "NodeId option"
  next_sibling :: nat
  prev_sibling :: nat

text \<open>The log: document, then parent, child and the sibling inserted before, 0 for the end.\<close>

datatype ChildListChange =
    InsertedChild nat nat nat nat
  | RemovedChild nat nat nat
  | ResetNode nat nat

datatype DomNote = MarkDirty NodeId | InvalidateStyleSubtree NodeId | StructureChange

record 'x Document =
  serial :: nat
  nodes :: "'x DomNode option list"
  free_list :: "NodeId list"
  tag_index :: "string \<Rightarrow> NodeId list"
  dom_notes :: "DomNote list"
  structure_tick :: nat
  log_start :: nat
  log_entries :: "(nat \<times> ChildListChange) list"

definition CHILD_LOG_CAP :: nat where "CHILD_LOG_CAP = 256"

definition sib :: "nat \<Rightarrow> NodeId option" where
  "sib link = (if link = 0 then None else Some link)"

definition new_node :: "string \<Rightarrow> 'x \<Rightarrow> 'x DomNode" where
  "new_node tag x = \<lparr>node_tag = tag, node_data = x, parent = None, first_child = None, last_child = None,
     next_sibling = 0, prev_sibling = 0\<rparr>"

definition node_at :: "'x Document \<Rightarrow> NodeId \<Rightarrow> 'x DomNode option" where
  "node_at d i = (if i < length (nodes d) then nodes d ! i else None)"

definition get_node :: "NodeId \<Rightarrow> 'x Document \<Rightarrow> DomFault + 'x DomNode" where
  "get_node i d = (case node_at d i of None \<Rightarrow> Err NoSuchNode | Some n \<Rightarrow> Ok n)"

text \<open>One assignment through \<open>get_node_mut\<close>.\<close>

definition modify_node :: "NodeId \<Rightarrow> ('x DomNode \<Rightarrow> 'x DomNode) \<Rightarrow> 'x Document \<Rightarrow> DomFault + 'x Document" where
  "modify_node i f d = (case node_at d i of None \<Rightarrow> Err NoSuchNode
     | Some n \<Rightarrow> Ok (d\<lparr>nodes := (nodes d)[i := Some (f n)]\<rparr>))"

subsection \<open>Notes and the log of edits\<close>

definition bump_structure_tick :: "'x Document \<Rightarrow> 'x Document" where
  "bump_structure_tick d = d\<lparr>structure_tick := structure_tick d + 1\<rparr>"

definition log_child_change :: "ChildListChange \<Rightarrow> 'x Document \<Rightarrow> 'x Document" where
  "log_child_change change d =
     (let d = (if CHILD_LOG_CAP \<le> length (log_entries d)
               then case log_entries d of
                 [] \<Rightarrow> d | (dropped, _) # es \<Rightarrow> d\<lparr>log_entries := es, log_start := dropped + 1\<rparr>
               else d)
      in bump_structure_tick (d\<lparr>log_entries := log_entries d @ [(structure_tick d, change)]\<rparr>))"

definition add_note :: "DomNote \<Rightarrow> 'x Document \<Rightarrow> 'x Document" where
  "add_note note d = d\<lparr>dom_notes := dom_notes d @ [note]\<rparr>"

definition note_structure_change :: "'x Document \<Rightarrow> 'x Document" where
  "note_structure_change d = bump_structure_tick (add_note StructureChange d)"

text \<open>The changes since a tick, unless the log has lost some or they are too many.\<close>

definition replay_child_changes_since :: "nat \<Rightarrow> nat \<Rightarrow> 'x Document \<Rightarrow> ChildListChange list option" where
  "replay_child_changes_since t limit d =
     (if t < log_start d then None
      else let since = dropWhile (\<lambda>(stamp, _). stamp < t) (log_entries d)
           in if limit < length since then None else Some (map snd since))"

subsection \<open>Linking\<close>

partial_function (option) ancestor_walk ::
  "'x Document \<Rightarrow> NodeId \<Rightarrow> NodeId option \<Rightarrow> (DomFault, bool) looping" where
  "ancestor_walk d child current = (case current of
     None \<Rightarrow> Some (Ok False)
   | Some i \<Rightarrow> if i = child then Some (Ok True)
       else case get_node i d of Err e \<Rightarrow> Some (Err e) | Ok n \<Rightarrow> ancestor_walk d child (parent n))"

definition insertion_would_create_cycle :: "NodeId \<Rightarrow> NodeId \<Rightarrow> 'x Document \<Rightarrow> (DomFault, bool) looping" where
  "insertion_would_create_cycle p child d = ancestor_walk d child (Some p)"

definition unlink_from_parent :: "NodeId \<Rightarrow> 'x Document \<Rightarrow> DomFault + 'x Document" where
  "unlink_from_parent child d =
     bind_result (get_node child d) (\<lambda>n.
     bind_result (case sib (prev_sibling n) of
         Some i \<Rightarrow> modify_node i (\<lambda>m. m\<lparr>next_sibling := next_sibling n\<rparr>) d
       | None \<Rightarrow> (case parent n of
           Some p \<Rightarrow> modify_node p (\<lambda>m. m\<lparr>first_child := sib (next_sibling n)\<rparr>) d
         | None \<Rightarrow> Ok d)) (\<lambda>d.
     bind_result (case sib (next_sibling n) of
         Some i \<Rightarrow> modify_node i (\<lambda>m. m\<lparr>prev_sibling := prev_sibling n\<rparr>) d
       | None \<Rightarrow> (case parent n of
           Some p \<Rightarrow> modify_node p (\<lambda>m. m\<lparr>last_child := sib (prev_sibling n)\<rparr>) d
         | None \<Rightarrow> Ok d)) (\<lambda>d.
     bind_result (modify_node child (\<lambda>m. m\<lparr>prev_sibling := 0\<rparr>) d) (\<lambda>d.
     bind_result (modify_node child (\<lambda>m. m\<lparr>next_sibling := 0\<rparr>) d) (\<lambda>d.
     Ok (case parent n of
         Some p \<Rightarrow> log_child_change (RemovedChild (serial d) p child) d
       | None \<Rightarrow> d))))))"

text \<open>The links written by \<open>append_child\<close>, \<open>link_fresh_child\<close> and \<open>move_child_to_end_unnoted\<close>.\<close>

definition link_at_end :: "NodeId \<Rightarrow> NodeId \<Rightarrow> 'x Document \<Rightarrow> DomFault + 'x Document" where
  "link_at_end p child d =
     bind_result (get_node p d) (\<lambda>n.
     bind_result (case last_child n of
         Some l \<Rightarrow> bind_result (modify_node l (\<lambda>m. m\<lparr>next_sibling := child\<rparr>) d)
           (modify_node child (\<lambda>m. m\<lparr>prev_sibling := l\<rparr>))
       | None \<Rightarrow> bind_result (modify_node p (\<lambda>m. m\<lparr>first_child := Some child\<rparr>) d)
           (modify_node child (\<lambda>m. m\<lparr>prev_sibling := 0\<rparr>))) (\<lambda>d.
     bind_result (modify_node child (\<lambda>m. m\<lparr>next_sibling := 0\<rparr>) d) (\<lambda>d.
     bind_result (modify_node child (\<lambda>m. m\<lparr>parent := Some p\<rparr>) d) (\<lambda>d.
     bind_result (modify_node p (\<lambda>m. m\<lparr>last_child := Some child\<rparr>) d) (\<lambda>d.
     Ok (log_child_change (InsertedChild (serial d) p child 0) d))))))"

definition append_child :: "NodeId \<Rightarrow> NodeId \<Rightarrow> 'x Document \<Rightarrow> (DomFault, 'x Document) looping" where
  "append_child p child d =
     and_then (if p = child then Some (Ok True) else insertion_would_create_cycle p child d) (\<lambda>cycle.
       if cycle then Some (Ok d)
       else Some (bind_result (get_node child d) (\<lambda>n.
         bind_result (unlink_from_parent child d) (\<lambda>d.
         bind_result (link_at_end p child d) (\<lambda>d.
           let moved = parent n \<noteq> Some p;
               d = (case parent n of Some q \<Rightarrow> if moved then add_note (MarkDirty q) d else d | None \<Rightarrow> d);
               d = add_note (MarkDirty p) d;
               d = (if moved then add_note (InvalidateStyleSubtree child) d else d)
           in Ok (note_structure_change d))))))"

definition link_before :: "NodeId \<Rightarrow> NodeId \<Rightarrow> NodeId \<Rightarrow> 'x Document \<Rightarrow> DomFault + 'x Document" where
  "link_before p child r d =
     bind_result (get_node r d) (\<lambda>n. let ref_prev = prev_sibling n in
     bind_result (modify_node child (\<lambda>m. m\<lparr>next_sibling := r\<rparr>) d) (\<lambda>d.
     bind_result (modify_node child (\<lambda>m. m\<lparr>prev_sibling := ref_prev\<rparr>) d) (\<lambda>d.
     bind_result (modify_node child (\<lambda>m. m\<lparr>parent := Some p\<rparr>) d) (\<lambda>d.
     bind_result (modify_node r (\<lambda>m. m\<lparr>prev_sibling := child\<rparr>) d) (\<lambda>d.
     bind_result (case sib ref_prev of
         Some i \<Rightarrow> modify_node i (\<lambda>m. m\<lparr>next_sibling := child\<rparr>) d
       | None \<Rightarrow> modify_node p (\<lambda>m. m\<lparr>first_child := Some child\<rparr>) d) (\<lambda>d.
     Ok (log_child_change (InsertedChild (serial d) p child r) d)))))))"

definition insert_before :: "NodeId \<Rightarrow> NodeId \<Rightarrow> NodeId \<Rightarrow> 'x Document \<Rightarrow> (DomFault, 'x Document) looping" where
  "insert_before p child r d =
     (if child = r then Some (Ok d)
      else and_then (insertion_would_create_cycle p child d) (\<lambda>cycle.
        if cycle then Some (Ok d)
        else Some (bind_result (get_node child d) (\<lambda>n.
          bind_result (unlink_from_parent child d) (\<lambda>d.
          bind_result (link_before p child r d) (\<lambda>d.
            let d = (case parent n of Some q \<Rightarrow> if q \<noteq> p then add_note (MarkDirty q) d else d | None \<Rightarrow> d);
                d = add_note (MarkDirty p) d
            in Ok (note_structure_change (add_note (InvalidateStyleSubtree child) d))))))))"

definition remove_child :: "NodeId \<Rightarrow> NodeId \<Rightarrow> 'x Document \<Rightarrow> DomFault + 'x Document" where
  "remove_child p child d =
     bind_result (unlink_from_parent child d) (\<lambda>d.
     bind_result (modify_node child (\<lambda>m. m\<lparr>parent := None\<rparr>) d) (\<lambda>d.
     Ok (note_structure_change (add_note (InvalidateStyleSubtree child) (add_note (MarkDirty p) d)))))"

definition replace_child :: "NodeId \<Rightarrow> NodeId \<Rightarrow> NodeId \<Rightarrow> 'x Document \<Rightarrow> (DomFault, 'x Document) looping" where
  "replace_child p child old d = and_then (insert_before p child old d) (\<lambda>d. Some (remove_child p old d))"

definition move_child_to_end_unnoted ::
  "NodeId \<Rightarrow> NodeId \<Rightarrow> 'x Document \<Rightarrow> DomFault + bool \<times> 'x Document" where
  "move_child_to_end_unnoted p child d =
     bind_result (get_node child d) (\<lambda>n.
       if parent n \<noteq> Some p then Ok (False, d)
       else bind_result (get_node p d) (\<lambda>m.
         if last_child m = Some child then Ok (True, d)
         else bind_result (unlink_from_parent child d) (\<lambda>d.
           bind_result (link_at_end p child d) (\<lambda>d. Ok (True, d)))))"

subsection \<open>Reading\<close>

partial_function (option) sibling_walk ::
  "'x Document \<Rightarrow> NodeId list \<Rightarrow> NodeId option \<Rightarrow> (DomFault, NodeId list) looping" where
  "sibling_walk d result current = (case current of
     None \<Rightarrow> Some (Ok result)
   | Some i \<Rightarrow> (case get_node i d of
       Err e \<Rightarrow> Some (Err e)
     | Ok n \<Rightarrow> sibling_walk d (result @ [i]) (sib (next_sibling n))))"

definition children_ids :: "NodeId \<Rightarrow> 'x Document \<Rightarrow> (DomFault, NodeId list) looping" where
  "children_ids p d = and_then (Some (get_node p d)) (\<lambda>n. sibling_walk d [] (first_child n))"

definition get_elements_by_tag_name :: "string \<Rightarrow> 'x Document \<Rightarrow> NodeId list" where
  "get_elements_by_tag_name tag d = tag_index d tag"

subsection \<open>Allocation\<close>

definition alloc_node :: "string \<Rightarrow> 'x \<Rightarrow> 'x Document \<Rightarrow> NodeId \<times> 'x Document" where
  "alloc_node tag x d =
     (if free_list d \<noteq> []
      then let slot = last (free_list d)
           in (slot, log_child_change (ResetNode (serial d) slot)
                 (d\<lparr>free_list := butlast (free_list d), nodes := (nodes d)[slot := Some (new_node tag x)]\<rparr>))
      else let i = length (nodes d)
           in (i, d\<lparr>nodes := nodes d @ [Some (new_node tag x)],
                   tag_index := (tag_index d)(tag := tag_index d tag @ [i])\<rparr>))"

definition free_node :: "NodeId \<Rightarrow> 'x Document \<Rightarrow> DomFault + 'x Document" where
  "free_node i d =
     (if length (nodes d) \<le> i then Err NoSuchNode
      else let d = (case nodes d ! i of None \<Rightarrow> d
             | Some n \<Rightarrow> d\<lparr>tag_index := (tag_index d)
                 (node_tag n := removeAll i (tag_index d (node_tag n)))\<rparr>)
           in Ok (d\<lparr>nodes := (nodes d)[i := None], free_list := free_list d @ [i]\<rparr>))"

text \<open>Removing a subtree, with fuel for the nesting of the calls: the height of the tree is enough.\<close>

fun remove_nodes_inner :: "nat \<Rightarrow> NodeId list \<Rightarrow> 'x Document \<Rightarrow> (DomFault, 'x Document) looping"
  and remove_node_inner :: "nat \<Rightarrow> NodeId \<Rightarrow> 'x Document \<Rightarrow> (DomFault, 'x Document) looping" where
  "remove_nodes_inner fuel [] d = Some (Ok d)"
| "remove_nodes_inner fuel (c # cs) d = and_then (remove_node_inner fuel c d) (remove_nodes_inner fuel cs)"
| "remove_node_inner 0 i d = None"
| "remove_node_inner (Suc fuel) i d =
     and_then (children_ids i d) (\<lambda>cs. and_then (remove_nodes_inner fuel cs d) (\<lambda>d.
       and_then (Some (unlink_from_parent i d)) (\<lambda>d. Some (free_node i d))))"

definition remove_node :: "nat \<Rightarrow> NodeId \<Rightarrow> 'x Document \<Rightarrow> (DomFault, 'x Document) looping" where
  "remove_node fuel i d =
     and_then (Some (get_node i d)) (\<lambda>n. remove_node_inner fuel i
       (case parent n of Some p \<Rightarrow> add_note (MarkDirty p) d | None \<Rightarrow> d))"

text \<open>
  A new document: the document node and its body.  The structure tick and the log are the thread's, so
  they carry over; \<open>reset_document\<close> puts a new document, with the next serial, in place of the thread's one.
\<close>

definition document_empty :: "nat \<Rightarrow> nat \<times> nat \<times> (nat \<times> ChildListChange) list \<Rightarrow> 'x Document" where
  "document_empty s log = \<lparr>serial = s, nodes = [], free_list = [], tag_index = (\<lambda>_. []), dom_notes = [],
     structure_tick = fst log, log_start = fst (snd log), log_entries = snd (snd log)\<rparr>"

definition document_new ::
  "nat \<Rightarrow> nat \<times> nat \<times> (nat \<times> ChildListChange) list \<Rightarrow> 'x \<Rightarrow> 'x \<Rightarrow> (DomFault, 'x Document) looping" where
  "document_new s log root_data body_data =
     (let (root, d) = alloc_node ''#document'' root_data (document_empty s log);
          (body, d) = alloc_node ''body'' body_data d
      in append_child root body d)"

definition reset_document :: "nat \<Rightarrow> 'x \<Rightarrow> 'x \<Rightarrow> 'x Document \<Rightarrow> (DomFault, 'x Document) looping" where
  "reset_document last_serial root_data body_data d =
     and_then (document_new (last_serial + 1) (structure_tick d, log_start d, log_entries d) root_data body_data)
       (\<lambda>d. Some (Ok (bump_structure_tick d)))"

end
