(* ===== verification/DomForest.thy ===== *)
theory DomForest
  imports DomTree
begin

text \<open>
  The forest that linked nodes stand for: a list of children for every node.  A forest is stated over
  two projections of the arena, the links of a node to parent and siblings and its links to first and
  last child; cutting a node out and linking a loose node in change the list of one parent.
\<close>

subsection \<open>Chains of siblings\<close>

lemma map_option_id [simp]: "map_option id x = x"
  by (simp add: option.map_id)

type_synonym links = "nat \<rightharpoonup> nat option \<times> nat \<times> nat"
type_synonym ends = "nat \<rightharpoonup> nat option \<times> nat option"

definition first_or :: "'a \<Rightarrow> 'a list \<Rightarrow> 'a" where "first_or b xs = (if xs = [] then b else hd xs)"
definition last_or :: "'a \<Rightarrow> 'a list \<Rightarrow> 'a" where "last_or a xs = (if xs = [] then a else last xs)"
definition hd_opt :: "'a list \<Rightarrow> 'a option" where "hd_opt xs = (if xs = [] then None else Some (hd xs))"
definition last_opt :: "'a list \<Rightarrow> 'a option" where "last_opt xs = (if xs = [] then None else Some (last xs))"

lemma first_or_simps [simp]: "first_or b [] = b" "first_or b (x # xs) = x" "first_or b (xs @ ys) = first_or (first_or b ys) xs"
  by (simp_all add: first_or_def hd_append)

lemma last_or_simps [simp]: "last_or a [] = a" "last_or a (x # xs) = last_or x xs" "last_or a (xs @ ys) = last_or (last_or a xs) ys"
  by (simp_all add: last_or_def)

lemma first_or_mem: "xs \<noteq> [] \<Longrightarrow> first_or b xs \<in> set xs"
  and last_or_mem: "xs \<noteq> [] \<Longrightarrow> last_or a xs \<in> set xs"
  by (simp_all add: first_or_def last_or_def)

text \<open>\<open>seg L p a xs b\<close>: the nodes \<open>xs\<close> are consecutive children of \<open>p\<close>, between \<open>a\<close> and \<open>b\<close>.\<close>

primrec seg :: "links \<Rightarrow> nat \<Rightarrow> nat \<Rightarrow> nat list \<Rightarrow> nat \<Rightarrow> bool" where
  "seg L p a [] b = True"
| "seg L p a (c # cs) b = (L c = Some (Some p, a, first_or b cs) \<and> seg L p c cs b)"

lemma seg_append [simp]:
  "seg L p a (xs @ ys) b \<longleftrightarrow> seg L p a xs (first_or b ys) \<and> seg L p (last_or a xs) ys b"
  by (induction xs arbitrary: a) auto

lemma seg_parent: "seg L p a xs b \<Longrightarrow> x \<in> set xs \<Longrightarrow> \<exists>i j. L x = Some (Some p, i, j)"
  by (induction xs arbitrary: a) auto

lemma seg_cong: "(\<And>x. x \<in> set xs \<Longrightarrow> L' x = L x) \<Longrightarrow> seg L' p a xs b = seg L p a xs b"
  by (induction xs arbitrary: a) auto

lemma seg_next:
  assumes "seg L p a xs b" "distinct xs"
    and "\<And>x. x \<in> set xs \<Longrightarrow> L' x = (if x = last xs then map_option (\<lambda>(q, i, _). (q, i, b')) (L x) else L x)"
  shows "seg L' p a xs b'"
  using assms
proof (induction xs arbitrary: a)
  case (Cons c cs)
  show ?case
  proof (cases "cs = []")
    case True
    with Cons.prems(1) Cons.prems(3)[of c] show ?thesis by simp
  next
    case False
    then have "last cs \<noteq> c" using Cons.prems(2) last_in_set[OF False] by auto
    then have "L' c = Some (Some p, a, first_or b' cs)"
      using Cons.prems(1) Cons.prems(3)[of c] False by (auto simp: first_or_def)
    moreover have "seg L' p c cs b'"
      using Cons.prems False by (intro Cons.IH) auto
    ultimately show ?thesis by simp
  qed
qed simp

lemma seg_prev:
  assumes "seg L p a xs b" "distinct xs"
    and "\<And>x. x \<in> set xs \<Longrightarrow> L' x = (if x = hd xs then map_option (\<lambda>(q, _, j). (q, a', j)) (L x) else L x)"
  shows "seg L' p a' xs b"
proof (cases xs)
  case (Cons c cs)
  have "seg L' p c cs b \<longleftrightarrow> seg L p c cs b"
    using assms(2,3) Cons by (intro seg_cong) auto
  with assms(1) assms(3)[of c] Cons show ?thesis by simp
qed simp

subsection \<open>Forests\<close>

definition up :: "links \<Rightarrow> (nat \<times> nat) set" where
  "up L = {(c, p). \<exists>i j. L c = Some (Some p, i, j)}"

definition forest :: "links \<Rightarrow> ends \<Rightarrow> (nat \<Rightarrow> nat list) \<Rightarrow> bool" where
  "forest L E K \<longleftrightarrow> finite (dom L) \<and> dom E = dom L \<and> acyclic (up L) \<and>
     (\<forall>p. p \<notin> dom L \<longrightarrow> K p = []) \<and>
     (\<forall>p. distinct (K p) \<and> 0 \<notin> set (K p) \<and> seg L p 0 (K p) 0) \<and>
     (\<forall>p\<in>dom L. E p = Some (hd_opt (K p), last_opt (K p))) \<and>
     (\<forall>c q i j. L c = Some (q, i, j) \<longrightarrow> (case q of None \<Rightarrow> i = 0 \<and> j = 0 | Some p \<Rightarrow> c \<in> set (K p)))"

lemma forestD:
  assumes "forest L E K"
  shows "finite (dom L)" "dom E = dom L" "acyclic (up L)" "\<And>p. p \<notin> dom L \<Longrightarrow> K p = []"
    "\<And>p. distinct (K p)" "\<And>p. 0 \<notin> set (K p)" "\<And>p. seg L p 0 (K p) 0"
    "\<And>p. p \<in> dom L \<Longrightarrow> E p = Some (hd_opt (K p), last_opt (K p))"
    "\<And>c i j. L c = Some (None, i, j) \<Longrightarrow> i = 0 \<and> j = 0"
    "\<And>c p i j. L c = Some (Some p, i, j) \<Longrightarrow> c \<in> set (K p)"
  using assms unfolding forest_def by fastforce+

lemma forest_child:
  assumes "forest L E K" "c \<in> set (K p)"
  shows "\<exists>i j. L c = Some (Some p, i, j)" "p \<in> dom L" "c \<noteq> 0"
  using seg_parent[OF forestD(7)[OF assms(1)] assms(2)] forestD(4)[OF assms(1), of p] forestD(6)[OF assms(1), of p] assms(2)
  by force+

lemma forest_unique: "forest L E K \<Longrightarrow> c \<in> set (K p) \<Longrightarrow> c \<in> set (K q) \<Longrightarrow> p = q"
  by (metis forest_child(1) option.inject prod.inject)

lemma up_iff: "forest L E K \<Longrightarrow> (c, p) \<in> up L \<longleftrightarrow> c \<in> set (K p)"
  using forest_child(1) forestD(10) unfolding up_def by fastforce

text \<open>The place of a child in the list of its parent.\<close>

lemma forest_place:
  assumes "forest L E K" "L c = Some (Some p, a, b)"
  obtains xs ys where "K p = xs @ c # ys" "a = last_or 0 xs" "b = first_or 0 ys" "c \<notin> set xs" "c \<notin> set ys"
    "seg L p 0 xs c" "seg L p c ys 0"
proof -
  have "c \<in> set (K p)" using forestD(10)[OF assms(1)] assms(2) by blast
  then obtain xs ys where K: "K p = xs @ c # ys" by (meson split_list)
  with forestD(7)[OF assms(1), of p] forestD(5)[OF assms(1), of p] assms(2) show thesis
    by (intro that[of xs ys]) auto
qed

subsection \<open>Cutting out\<close>

definition cut_links :: "nat \<Rightarrow> nat \<Rightarrow> nat \<Rightarrow> nat option \<Rightarrow> links \<Rightarrow> links" where
  "cut_links c a b q L = (\<lambda>j. if j = c then Some (q, 0, 0) else map_option (\<lambda>(p, i, k).
     (p, if j = b \<and> b \<noteq> 0 then a else i, if j = a \<and> a \<noteq> 0 then b else k)) (L j))"

definition cut_ends :: "nat option \<Rightarrow> nat \<Rightarrow> nat \<Rightarrow> ends \<Rightarrow> ends" where
  "cut_ends q a b E = (\<lambda>j. map_option (\<lambda>(f, l).
     (if q = Some j \<and> a = 0 then sib b else f, if q = Some j \<and> b = 0 then sib a else l)) (E j))"

lemma cut_dom [simp]: "dom (cut_links c a b q L) = insert c (dom L)"
proof (rule set_eqI)
  fix x show "x \<in> dom (cut_links c a b q L) \<longleftrightarrow> x \<in> insert c (dom L)"
    by (simp add: domIff cut_links_def del: not_None_eq)
qed

lemma sib_first: "0 \<notin> set xs \<Longrightarrow> sib (first_or 0 xs) = hd_opt xs"
  and sib_last: "0 \<notin> set xs \<Longrightarrow> sib (last_or 0 xs) = last_opt xs"
  by (auto simp: sib_def first_or_def last_or_def hd_opt_def last_opt_def) (metis hd_in_set last_in_set)+

lemma first_or_0: "0 \<notin> set xs \<Longrightarrow> first_or 0 xs = 0 \<longleftrightarrow> xs = []"
  and last_or_0: "0 \<notin> set xs \<Longrightarrow> last_or 0 xs = 0 \<longleftrightarrow> xs = []"
  by (auto simp: first_or_def last_or_def) (metis hd_in_set last_in_set)+

lemma cut_forest:
  assumes F: "forest L E K" and c: "L c = Some (q, a, b)"
  shows "forest (cut_links c a b None L) (cut_ends q a b E) (\<lambda>p. remove1 c (K p))"
proof (cases q)
  case None
  have "c \<notin> set (K p)" for p using forest_child(1)[OF F, of c p] c None by auto
  moreover have "a = 0" "b = 0" using forestD(9)[OF F] c None by auto
  moreover have "cut_links c 0 0 None L = L" "cut_ends q 0 0 E = E"
    using c None \<open>a = 0\<close> \<open>b = 0\<close> by (auto simp: cut_links_def cut_ends_def fun_eq_iff option.map_id0 split: option.split)
  ultimately show ?thesis using F by (simp add: remove1_idem)
next
  case (Some p)
  then have c': "L c = Some (Some p, a, b)" using c by simp
  obtain xs ys where K: "K p = xs @ c # ys" "a = last_or 0 xs" "b = first_or 0 ys" "c \<notin> set xs" "c \<notin> set ys"
    "seg L p 0 xs c" "seg L p c ys 0"
    using forest_place[OF F c'] .
  have nz: "0 \<notin> set xs" "0 \<notin> set ys" and dist: "distinct xs" "distinct ys" "set xs \<inter> set ys = {}"
    using forestD(5,6)[OF F, of p] K(1) by auto
  let ?L = "cut_links c a b None L" and ?E = "cut_ends q a b E" and ?K = "\<lambda>p. remove1 c (K p)"
  have Kp: "?K p = xs @ ys" using K by (simp add: remove1_append)
  have other: "?K r = K r" if "r \<noteq> p" for r
    using that forest_unique[OF F, of c r p] K(1) by (intro remove1_idem) auto
  have ab: "a \<noteq> 0 \<Longrightarrow> a \<in> set xs" "b \<noteq> 0 \<Longrightarrow> b \<in> set ys"
    using K(2,3) by (auto simp: last_or_def first_or_def split: if_splits)
  have same: "?L x = L x" if "x \<in> set (K r)" "r \<noteq> p" for x r
  proof -
    have "x \<notin> set (K p)" using forest_unique[OF F that(1)] that(2) by blast
    with ab K(1) have "x \<noteq> c" "\<not> (x = b \<and> b \<noteq> 0)" "\<not> (x = a \<and> a \<noteq> 0)" by auto
    then show ?thesis by (auto simp: cut_links_def split: option.split)
  qed
  have "seg ?L p 0 xs b"
  proof (rule seg_next[OF K(6) dist(1)])
    fix x assume x: "x \<in> set xs"
    then have "x \<noteq> c" "\<not> (x = b \<and> b \<noteq> 0)" using K(4) ab(2) dist(3) by auto
    moreover have "x = a \<and> a \<noteq> 0 \<longleftrightarrow> x = last xs"
      using x K(2) nz(1) by (cases "x = 0") (auto simp: last_or_def)
    ultimately show "?L x = (if x = last xs then map_option (\<lambda>(q, i, _). (q, i, b)) (L x) else L x)"
      by (auto simp: cut_links_def split: option.split)
  qed
  moreover have "seg ?L p a ys 0"
  proof (rule seg_prev[OF K(7) dist(2)])
    fix x assume x: "x \<in> set ys"
    then have "x \<noteq> c" "\<not> (x = a \<and> a \<noteq> 0)" using K(5) ab(1) dist(3) by auto
    moreover have "x = b \<and> b \<noteq> 0 \<longleftrightarrow> x = hd ys"
      using x K(3) nz(2) by (cases "x = 0") (auto simp: first_or_def)
    ultimately show "?L x = (if x = hd ys then map_option (\<lambda>(q, _, j). (q, a, j)) (L x) else L x)"
      by (auto simp: cut_links_def split: option.split)
  qed
  ultimately have segp: "seg ?L p 0 (?K p) 0" unfolding Kp using K(2,3) by simp
  have "?L x = None \<longleftrightarrow> L x = None" "?E x = None \<longleftrightarrow> E x = None" for x
    using c by (auto simp: cut_links_def cut_ends_def)
  then have dom: "dom ?L = dom L" "dom ?E = dom E" unfolding dom_def by simp_all
  have "up ?L \<subseteq> up L" by (auto simp: up_def cut_links_def split: if_splits)
  then have "acyclic (up ?L)" using forestD(3)[OF F] acyclic_subset by blast
  moreover have "?E r = Some (hd_opt (?K r), last_opt (?K r))" if "r \<in> dom L" for r
  proof (cases "r = p")
    case True
    have "E p = Some (hd_opt (K p), last_opt (K p))" using forestD(8)[OF F] that True by simp
    moreover have "a = 0 \<longleftrightarrow> xs = []" "b = 0 \<longleftrightarrow> ys = []" "sib a = last_opt xs" "sib b = hd_opt ys"
      using K(2,3) nz by (simp_all add: first_or_0 last_or_0 sib_first sib_last)
    ultimately show ?thesis unfolding True by (simp add: cut_ends_def Some hd_opt_def last_opt_def K(1) Kp[unfolded K(1)])
  next
    case False
    then have "?E r = E r" using Some by (auto simp: cut_ends_def split: option.split)
    then show ?thesis using forestD(8)[OF F that] other[OF False] by simp
  qed
  moreover have "seg ?L r 0 (?K r) 0" for r
    using segp other[of r] seg_cong[of "K r" ?L L] same[of _ r] forestD(7)[OF F, of r] by (cases "r = p") auto
  moreover have "case q' of None \<Rightarrow> i = 0 \<and> j = 0 | Some r \<Rightarrow> x \<in> set (?K r)" if x: "?L x = Some (q', i, j)" for x q' i j
  proof (cases "x = c")
    case True
    then show ?thesis using x by (auto simp: cut_links_def)
  next
    case False
    then obtain i' j' where o: "L x = Some (q', i', j')"
      and ij: "i = (if x = b \<and> b \<noteq> 0 then a else i')" "j = (if x = a \<and> a \<noteq> 0 then b else j')"
      using x by (auto simp: cut_links_def)
    show ?thesis
    proof (cases q')
      case None
      have "x \<notin> set (K p)" using forest_child(1)[OF F, of x p] o None by auto
      then show ?thesis using ij ab K(1) forestD(9)[OF F] o None by auto
    next
      case (Some r)
      then show ?thesis using forestD(10)[OF F] o False by auto
    qed
  qed
  ultimately show ?thesis
    unfolding forest_def dom using forestD(1,2,4,5,6)[OF F] by (auto dest: notin_set_remove1)
qed

subsection \<open>Linking in\<close>

definition tie_links :: "nat \<Rightarrow> nat \<Rightarrow> nat \<Rightarrow> nat \<Rightarrow> links \<Rightarrow> links" where
  "tie_links c p a b L = (\<lambda>j. if j = c then Some (Some p, a, b) else map_option (\<lambda>(q, i, k).
     (q, if j = b \<and> b \<noteq> 0 then c else i, if j = a \<and> a \<noteq> 0 then c else k)) (L j))"

definition tie_ends :: "nat \<Rightarrow> nat \<Rightarrow> nat \<Rightarrow> nat \<Rightarrow> ends \<Rightarrow> ends" where
  "tie_ends c p a b E = (\<lambda>j. map_option (\<lambda>(f, l).
     (if j = p \<and> a = 0 then Some c else f, if j = p \<and> b = 0 then Some c else l)) (E j))"

lemma tie_cut_links: "tie_links c p a b (cut_links c i j q L) = tie_links c p a b (cut_links c i j q' L)"
  by (simp add: tie_links_def cut_links_def fun_eq_iff)

lemma tie_forest:
  assumes F: "forest L E K" and c: "L c = Some (None, 0, 0)" "c \<noteq> 0" and p: "p \<in> dom L" "(p, c) \<notin> (up L)\<^sup>*"
    and K: "K p = xs @ ys" "a = last_or 0 xs" "b = first_or 0 ys"
  shows "forest (tie_links c p a b L) (tie_ends c p a b E) (K(p := xs @ c # ys))"
proof -
  let ?L = "tie_links c p a b L" and ?E = "tie_ends c p a b E" and ?K = "K(p := xs @ c # ys)"
  have cK: "c \<notin> set (K r)" for r using forest_child(1)[OF F, of c r] c(1) by auto
  have nz: "0 \<notin> set xs" "0 \<notin> set ys" and dist: "distinct xs" "distinct ys" "set xs \<inter> set ys = {}"
    using forestD(5,6)[OF F, of p] K(1) by auto
  have segs: "seg L p 0 xs b" "seg L p a ys 0" using forestD(7)[OF F, of p] K by auto
  have ab: "a \<noteq> 0 \<Longrightarrow> a \<in> set xs" "b \<noteq> 0 \<Longrightarrow> b \<in> set ys"
    using K(2,3) by (auto simp: last_or_def first_or_def split: if_splits)
  have same: "?L x = L x" if "x \<in> set (K r)" "r \<noteq> p" for x r
  proof -
    have "x \<notin> set (K p)" using forest_unique[OF F that(1)] that(2) by blast
    with ab K(1) cK that(1) have "x \<noteq> c" "\<not> (x = b \<and> b \<noteq> 0)" "\<not> (x = a \<and> a \<noteq> 0)" by auto
    then show ?thesis by (auto simp: tie_links_def split: option.split)
  qed
  have "seg ?L p 0 xs c"
  proof (rule seg_next[OF segs(1) dist(1)])
    fix x assume x: "x \<in> set xs"
    then have "x \<noteq> c" "\<not> (x = b \<and> b \<noteq> 0)" using cK[of p] K(1) ab(2) dist(3) by auto
    moreover have "x = a \<and> a \<noteq> 0 \<longleftrightarrow> x = last xs"
      using x K(2) nz(1) by (cases "x = 0") (auto simp: last_or_def)
    ultimately show "?L x = (if x = last xs then map_option (\<lambda>(q, i, _). (q, i, c)) (L x) else L x)"
      by (auto simp: tie_links_def split: option.split)
  qed
  moreover have "seg ?L p c ys 0"
  proof (rule seg_prev[OF segs(2) dist(2)])
    fix x assume x: "x \<in> set ys"
    then have "x \<noteq> c" "\<not> (x = a \<and> a \<noteq> 0)" using cK[of p] K(1) ab(1) dist(3) by auto
    moreover have "x = b \<and> b \<noteq> 0 \<longleftrightarrow> x = hd ys"
      using x K(3) nz(2) by (cases "x = 0") (auto simp: first_or_def)
    ultimately show "?L x = (if x = hd ys then map_option (\<lambda>(q, _, j). (q, c, j)) (L x) else L x)"
      by (auto simp: tie_links_def split: option.split)
  qed
  ultimately have segp: "seg ?L p 0 (xs @ c # ys) 0" using K(2,3) by (simp add: tie_links_def)
  have "?L x = None \<longleftrightarrow> L x = None" "?E x = None \<longleftrightarrow> E x = None" for x
    using c by (auto simp: tie_links_def tie_ends_def)
  then have dom: "dom ?L = dom L" "dom ?E = dom E" unfolding dom_def by simp_all
  have "up ?L = insert (c, p) (up L)"
    using c(1) by (auto simp: up_def tie_links_def split: if_splits)
  then have "acyclic (up ?L)" using forestD(3)[OF F] p(2) by (simp add: acyclic_insert)
  moreover have "?E r = Some (hd_opt (?K r), last_opt (?K r))" if "r \<in> dom L" for r
  proof (cases "r = p")
    case True
    have "E p = Some (hd_opt (K p), last_opt (K p))" using forestD(8)[OF F] that True by simp
    moreover have "a = 0 \<longleftrightarrow> xs = []" "b = 0 \<longleftrightarrow> ys = []"
      using K(2,3) nz by (simp_all add: first_or_0 last_or_0)
    ultimately show ?thesis unfolding True K(1) by (simp add: tie_ends_def hd_opt_def last_opt_def)
  next
    case False
    then have "?E r = E r" by (auto simp: tie_ends_def split: option.split)
    then show ?thesis using forestD(8)[OF F that] False by simp
  qed
  moreover have "seg ?L r 0 (?K r) 0" for r
    using segp seg_cong[of "K r" ?L L] same[of _ r] forestD(7)[OF F, of r] by (cases "r = p") auto
  moreover have "case q' of None \<Rightarrow> i = 0 \<and> j = 0 | Some r \<Rightarrow> x \<in> set (?K r)" if x: "?L x = Some (q', i, j)" for x q' i j
  proof (cases "x = c")
    case True
    then show ?thesis using x by (auto simp: tie_links_def)
  next
    case False
    then obtain i' j' where o: "L x = Some (q', i', j')"
      and ij: "i = (if x = b \<and> b \<noteq> 0 then c else i')" "j = (if x = a \<and> a \<noteq> 0 then c else j')"
      using x by (auto simp: tie_links_def)
    show ?thesis
    proof (cases q')
      case None
      have "x \<notin> set (K p)" using forest_child(1)[OF F, of x p] o None by auto
      then show ?thesis using ij ab K(1) forestD(9)[OF F] o None by auto
    next
      case (Some r)
      then have "x \<in> set (K r)" using forestD(10)[OF F] o by simp
      then show ?thesis using Some K(1) by (cases "r = p") auto
    qed
  qed
  moreover have "distinct (?K r) \<and> 0 \<notin> set (?K r)" for r
    using forestD(5,6)[OF F, of r] forestD(5,6)[OF F, of p] cK[of p] K(1) c(2) by auto
  ultimately show ?thesis
    unfolding forest_def dom using forestD(1,2,4)[OF F] p(1) by auto
qed

end
