(* ===== verification/DomOps.thy ===== *)
theory DomOps
  imports DomForest
begin

text \<open>
  What every operation on the tree does: it answers without a panic, changes the lists of children as
  its name says, keeps tags and data, and logs exactly the edits it made.
\<close>

subsection \<open>Projections of a document\<close>

definition link_of :: "'x Document \<Rightarrow> links" where
  "link_of d i = map_option (\<lambda>n. (parent n, prev_sibling n, next_sibling n)) (node_at d i)"

definition ends_of :: "'x Document \<Rightarrow> ends" where
  "ends_of d i = map_option (\<lambda>n. (first_child n, last_child n)) (node_at d i)"

definition content :: "'x Document \<Rightarrow> nat \<rightharpoonup> string \<times> 'x" where
  "content d i = map_option (\<lambda>n. (node_tag n, node_data n)) (node_at d i)"

definition dom_ok :: "'x Document \<Rightarrow> (nat \<Rightarrow> nat list) \<Rightarrow> bool" where
  "dom_ok d K \<longleftrightarrow> forest (link_of d) (ends_of d) K"

definition upd :: "nat \<Rightarrow> ('x DomNode \<Rightarrow> 'x DomNode) \<Rightarrow> 'x Document \<Rightarrow> 'x Document" where
  "upd i f d = d\<lparr>nodes := (nodes d)[i := map_option f (nodes d ! i)]\<rparr>"

lemma modify_node_live: "node_at d i \<noteq> None \<Longrightarrow> modify_node i f d = Ok (upd i f d)"
  by (auto simp: modify_node_def upd_def node_at_def split: if_splits)

lemma node_at_upd [simp]: "node_at (upd i f d) j = (if j = i then map_option f (node_at d i) else node_at d j)"
  by (auto simp: node_at_def upd_def)

lemma upd_rest [simp]: "(upd i f d)\<lparr>nodes := ns\<rparr> = d\<lparr>nodes := ns\<rparr>" "length (nodes (upd i f d)) = length (nodes d)"
  "serial (upd i f d) = serial d"
  by (simp_all add: upd_def)

lemma node_at_rest [simp]:
  "node_at (d\<lparr>structure_tick := t\<rparr>) = node_at d" "node_at (d\<lparr>log_entries := es\<rparr>) = node_at d"
  "node_at (d\<lparr>log_start := t\<rparr>) = node_at d" "node_at (d\<lparr>dom_notes := ns\<rparr>) = node_at d"
  by (simp_all add: fun_eq_iff node_at_def)

lemma node_at_log [simp]:
  "node_at (log_child_change c d) = node_at d" "node_at (bump_structure_tick d) = node_at d"
  "node_at (add_note n d) = node_at d" "node_at (note_structure_change d) = node_at d"
  by (simp_all add: log_child_change_def bump_structure_tick_def add_note_def note_structure_change_def Let_def
      split: list.split)

lemma serial_log [simp]:
  "serial (log_child_change c d) = serial d" "serial (bump_structure_tick d) = serial d"
  "serial (add_note n d) = serial d" "serial (note_structure_change d) = serial d"
  by (simp_all add: log_child_change_def bump_structure_tick_def add_note_def note_structure_change_def Let_def
      split: list.split)

lemma projections_log [simp]:
  "link_of (log_child_change c d) = link_of d" "ends_of (log_child_change c d) = ends_of d" "content (log_child_change c d) = content d"
  "link_of (add_note n d) = link_of d" "ends_of (add_note n d) = ends_of d" "content (add_note n d) = content d"
  "link_of (note_structure_change d) = link_of d" "ends_of (note_structure_change d) = ends_of d"
  "content (note_structure_change d) = content d"
  by (simp_all add: fun_eq_iff link_of_def ends_of_def content_def)

lemma live_iff: "node_at d i \<noteq> None \<longleftrightarrow> i \<in> dom (link_of d)"
  by (auto simp: link_of_def dom_def)

lemma link_node:
  "link_of d c = Some (q, a, b) \<longleftrightarrow> (\<exists>n. node_at d c = Some n \<and> parent n = q \<and> prev_sibling n = a \<and> next_sibling n = b)"
  by (auto simp: link_of_def)

subsection \<open>The log of an operation\<close>

type_synonym child_log = "nat \<times> nat \<times> (nat \<times> ChildListChange) list"

definition log_of :: "'x Document \<Rightarrow> child_log" where
  "log_of d = (structure_tick d, log_start d, log_entries d)"

fun push_change :: "ChildListChange \<Rightarrow> child_log \<Rightarrow> child_log" where
  "push_change c (t, s, es) = (t + 1,
     (if CHILD_LOG_CAP \<le> length es \<and> es \<noteq> [] then fst (hd es) + 1 else s),
     (if CHILD_LOG_CAP \<le> length es \<and> es \<noteq> [] then tl es else es) @ [(t, c)])"

text \<open>\<open>log_run l cs l'\<close>: the changes \<open>cs\<close> were logged between \<open>l\<close> and \<open>l'\<close>, with ticks bumped in between.\<close>

inductive log_run :: "child_log \<Rightarrow> ChildListChange list \<Rightarrow> child_log \<Rightarrow> bool" where
  start: "log_run l [] l"
| bump: "log_run l cs (t, s, es) \<Longrightarrow> log_run l cs (t + 1, s, es)"
| push: "log_run l cs l' \<Longrightarrow> log_run l (cs @ [c]) (push_change c l')"

lemma log_of_change: "log_of (log_child_change c d) = push_change c (log_of d)"
  by (cases "log_entries d") (auto simp: log_of_def log_child_change_def bump_structure_tick_def Let_def)

lemma log_of_upd [simp]: "log_of (upd i f d) = log_of d" "log_of (add_note n d) = log_of d"
  by (simp_all add: log_of_def upd_def add_note_def)

lemma log_run_change: "log_run l cs (log_of d) \<Longrightarrow> log_run l (cs @ [c]) (log_of (log_child_change c d))"
  by (simp add: log_of_change log_run.push)

lemma log_run_note: "log_run l cs (log_of d) \<Longrightarrow> log_run l cs (log_of (note_structure_change d))"
  using log_run.bump[of l cs "structure_tick d" "log_start d" "log_entries d"]
  by (simp add: log_of_def note_structure_change_def bump_structure_tick_def add_note_def)

lemma log_run_trans: "log_run l' cs' l'' \<Longrightarrow> log_run l cs l' \<Longrightarrow> log_run l (cs @ cs') l''"
proof (induction rule: log_run.induct)
  case (bump l' cs' t s es)
  then show ?case using log_run.bump by blast
qed (auto intro: log_run.push simp flip: append_assoc)

subsection \<open>Unlinking\<close>

lemma forest_neighbours:
  assumes "forest L E K" "L c = Some (q, a, b)"
  shows "a \<noteq> 0 \<Longrightarrow> a \<in> dom L" "b \<noteq> 0 \<Longrightarrow> b \<in> dom L" "q = Some p \<Longrightarrow> p \<in> dom L"
proof -
  have "(a \<noteq> 0 \<longrightarrow> a \<in> dom L) \<and> (b \<noteq> 0 \<longrightarrow> b \<in> dom L) \<and> (q = Some p \<longrightarrow> p \<in> dom L)"
  proof (cases q)
    case None
    with forestD(9)[OF assms(1)] assms(2) show ?thesis by auto
  next
    case (Some r)
    with assms(2) obtain xs ys where K: "K r = xs @ c # ys" "a = last_or 0 xs" "b = first_or 0 ys"
      using forest_place[OF assms(1)] by metis
    then have "a \<noteq> 0 \<longrightarrow> a \<in> set (K r)" "b \<noteq> 0 \<longrightarrow> b \<in> set (K r)" "c \<in> set (K r)"
      by (auto simp: last_or_def first_or_def)
    then show ?thesis using forest_child(1,2)[OF assms(1), of _ r] Some by blast
  qed
  then show "a \<noteq> 0 \<Longrightarrow> a \<in> dom L" "b \<noteq> 0 \<Longrightarrow> b \<in> dom L" "q = Some p \<Longrightarrow> p \<in> dom L" by auto
qed

lemma unlink_result:
  assumes ok: "dom_ok d K" and c: "link_of d c = Some (q, a, b)"
  obtains e where "unlink_from_parent c d = Ok e" "link_of e = cut_links c a b q (link_of d)"
    "ends_of e = cut_ends q a b (ends_of d)" "content e = content d" "serial e = serial d"
    "log_run (log_of d) (case q of None \<Rightarrow> [] | Some p \<Rightarrow> [RemovedChild (serial d) p c]) (log_of e)"
    "length (nodes e) = length (nodes d)" "free_list e = free_list d" "tag_index e = tag_index d"
proof -
  obtain n where n: "node_at d c = Some n" "parent n = q" "prev_sibling n = a" "next_sibling n = b"
    using c by (auto simp: link_node)
  have live: "a \<noteq> 0 \<Longrightarrow> node_at d a \<noteq> None" "b \<noteq> 0 \<Longrightarrow> node_at d b \<noteq> None" "\<And>p. q = Some p \<Longrightarrow> node_at d p \<noteq> None"
    unfolding live_iff using forest_neighbours[OF ok[unfolded dom_ok_def] c] by auto
  define d1 where "d1 = (if a \<noteq> 0 then upd a (\<lambda>m. m\<lparr>next_sibling := b\<rparr>) d
    else case q of None \<Rightarrow> d | Some p \<Rightarrow> upd p (\<lambda>m. m\<lparr>first_child := sib b\<rparr>) d)"
  define d2 where "d2 = (if b \<noteq> 0 then upd b (\<lambda>m. m\<lparr>prev_sibling := a\<rparr>) d1
    else case q of None \<Rightarrow> d1 | Some p \<Rightarrow> upd p (\<lambda>m. m\<lparr>last_child := sib a\<rparr>) d1)"
  define d3 where "d3 = upd c (\<lambda>m. m\<lparr>next_sibling := 0\<rparr>) (upd c (\<lambda>m. m\<lparr>prev_sibling := 0\<rparr>) d2)"
  define e where "e = (case q of None \<Rightarrow> d3 | Some p \<Rightarrow> log_child_change (RemovedChild (serial d) p c) d3)"
  have none1: "node_at d1 j = None \<longleftrightarrow> node_at d j = None" for j
    by (auto simp: d1_def split: option.split)
  have none2: "node_at d2 j = None \<longleftrightarrow> node_at d j = None" for j
    by (auto simp: d2_def none1 split: option.split)
  have s1: "(case sib a of Some i \<Rightarrow> modify_node i (\<lambda>m. m\<lparr>next_sibling := b\<rparr>) d
       | None \<Rightarrow> (case q of Some p \<Rightarrow> modify_node p (\<lambda>m. m\<lparr>first_child := sib b\<rparr>) d | None \<Rightarrow> Ok d)) = Ok d1"
    using live by (auto simp: d1_def sib_def modify_node_live split: option.split)
  have s2: "(case sib b of Some i \<Rightarrow> modify_node i (\<lambda>m. m\<lparr>prev_sibling := a\<rparr>) d1
       | None \<Rightarrow> (case q of Some p \<Rightarrow> modify_node p (\<lambda>m. m\<lparr>last_child := sib a\<rparr>) d1 | None \<Rightarrow> Ok d1)) = Ok d2"
    using live by (auto simp: d2_def sib_def modify_node_live none1 split: option.split)
  have "serial d3 = serial d" by (auto simp: d3_def d2_def d1_def split: option.split)
  then have run: "unlink_from_parent c d = Ok e"
    using none2[of c] n(1) unfolding unlink_from_parent_def get_node_def n option.case bind_result_simps s1 s2
    by (simp add: modify_node_live flip: d3_def) (simp add: e_def split: option.split)
  have links: "link_of e = cut_links c a b q (link_of d)"
  proof
    fix j
    show "link_of e j = cut_links c a b q (link_of d) j"
      using n(1,2) by (cases q; cases "node_at d j")
        (auto simp: link_of_def cut_links_def e_def d3_def d2_def d1_def)
  qed
  have ends: "ends_of e = cut_ends q a b (ends_of d)"
  proof
    fix j
    show "ends_of e j = cut_ends q a b (ends_of d) j"
      by (cases q; cases "node_at d j") (auto simp: ends_of_def cut_ends_def e_def d3_def d2_def d1_def)
  qed
  have "content e = content d"
  proof
    fix j
    show "content e j = content d j"
      by (cases q; cases "node_at d j") (auto simp: content_def e_def d3_def d2_def d1_def)
  qed
  moreover have "log_of d3 = log_of d" "length (nodes d3) = length (nodes d)" "free_list d3 = free_list d" "tag_index d3 = tag_index d"
    by (auto simp: d3_def d2_def d1_def upd_def log_of_def split: option.split)
  moreover from this have "log_run (log_of d) (case q of None \<Rightarrow> [] | Some p \<Rightarrow> [RemovedChild (serial d) p c]) (log_of e)"
    using log_run_change[of "log_of d" "[]" d3] by (auto simp: e_def log_run.start split: option.split)
  moreover have "length (nodes e) = length (nodes d3)" "free_list e = free_list d3" "tag_index e = tag_index d3" "serial e = serial d3"
    by (auto simp: e_def log_child_change_def bump_structure_tick_def Let_def split: option.split list.split)
  ultimately show thesis using that[OF run links ends] \<open>serial d3 = serial d\<close> by simp
qed

end
