(* ===== verification/DomEdits.thy ===== *)
theory DomEdits
  imports DomOps
begin

text \<open>
  The edits of a tree as edits of lists of children: append, insert before, remove, move to the end.
\<close>

lemma upd_lists [simp]: "free_list (upd i f d) = free_list d" "tag_index (upd i f d) = tag_index d"
  by (simp_all add: upd_def)

lemma forest_live: "forest L E K \<Longrightarrow> c \<in> set (K p) \<Longrightarrow> c \<in> dom L"
  using forest_child(1) by blast

subsection \<open>Linking\<close>

lemma link_at_end_result:
  assumes "node_at d c \<noteq> None" "ends_of d p = Some (f, sib a)" "a \<noteq> 0 \<Longrightarrow> node_at d a \<noteq> None"
  obtains e where "link_at_end p c d = Ok e" "link_of e = tie_links c p a 0 (link_of d)"
    "ends_of e = tie_ends c p a 0 (ends_of d)" "content e = content d" "serial e = serial d"
    "log_run (log_of d) [InsertedChild (serial d) p c 0] (log_of e)"
    "length (nodes e) = length (nodes d)" "free_list e = free_list d" "tag_index e = tag_index d"
proof -
  obtain n where n: "node_at d p = Some n" "last_child n = sib a" using assms(2) by (auto simp: ends_of_def)
  define d1 where "d1 = upd c (\<lambda>m. m\<lparr>prev_sibling := a\<rparr>)
    (if a \<noteq> 0 then upd a (\<lambda>m. m\<lparr>next_sibling := c\<rparr>) d else upd p (\<lambda>m. m\<lparr>first_child := Some c\<rparr>) d)"
  define d2 where "d2 = upd p (\<lambda>m. m\<lparr>last_child := Some c\<rparr>) (upd c (\<lambda>m. m\<lparr>parent := Some p\<rparr>)
    (upd c (\<lambda>m. m\<lparr>next_sibling := 0\<rparr>) d1))"
  define e where "e = log_child_change (InsertedChild (serial d) p c 0) d2"
  have none1: "node_at d1 j = None \<longleftrightarrow> node_at d j = None" for j by (auto simp: d1_def)
  have s1: "(case sib a of Some l \<Rightarrow> bind_result (modify_node l (\<lambda>m. m\<lparr>next_sibling := c\<rparr>) d)
           (modify_node c (\<lambda>m. m\<lparr>prev_sibling := l\<rparr>))
       | None \<Rightarrow> bind_result (modify_node p (\<lambda>m. m\<lparr>first_child := Some c\<rparr>) d)
           (modify_node c (\<lambda>m. m\<lparr>prev_sibling := 0\<rparr>))) = Ok d1"
    using assms(1,3) n(1) by (auto simp: d1_def sib_def modify_node_live)
  have "serial d2 = serial d" by (simp add: d2_def d1_def)
  then have run: "link_at_end p c d = Ok e"
    using none1[of c] none1[of p] assms(1) n unfolding link_at_end_def get_node_def n option.case bind_result_simps s1
    by (simp add: modify_node_live flip: d2_def) (simp add: e_def)
  have "link_of e j = tie_links c p a 0 (link_of d) j" "ends_of e j = tie_ends c p a 0 (ends_of d) j"
    "content e j = content d j" for j
    using assms(1) by (cases "node_at d j"; auto simp: link_of_def ends_of_def content_def tie_links_def tie_ends_def e_def d2_def d1_def)+
  then have proj: "link_of e = tie_links c p a 0 (link_of d)" "ends_of e = tie_ends c p a 0 (ends_of d)" "content e = content d"
    by blast+
  have "log_of d2 = log_of d" "length (nodes d2) = length (nodes d)" "free_list d2 = free_list d" "tag_index d2 = tag_index d"
    by (auto simp: d2_def d1_def upd_def log_of_def)
  moreover from this have "log_run (log_of d) [InsertedChild (serial d) p c 0] (log_of e)"
    using log_run_change[of "log_of d" "[]" d2] by (simp add: e_def log_run.start)
  moreover have "length (nodes e) = length (nodes d2)" "free_list e = free_list d2" "tag_index e = tag_index d2" "serial e = serial d2"
    by (auto simp: e_def log_child_change_def bump_structure_tick_def Let_def split: list.split)
  ultimately show thesis using that[OF run proj] \<open>serial d2 = serial d\<close> by simp
qed

lemma link_before_result:
  assumes "node_at d c \<noteq> None" "node_at d p \<noteq> None" "link_of d r = Some (q, a, b)" "r \<noteq> c" "a \<noteq> c" "r \<noteq> 0"
    "a \<noteq> 0 \<Longrightarrow> node_at d a \<noteq> None"
  obtains e where "link_before p c r d = Ok e" "link_of e = tie_links c p a r (link_of d)"
    "ends_of e = tie_ends c p a r (ends_of d)" "content e = content d" "serial e = serial d"
    "log_run (log_of d) [InsertedChild (serial d) p c r] (log_of e)"
    "length (nodes e) = length (nodes d)" "free_list e = free_list d" "tag_index e = tag_index d"
proof -
  obtain n where n: "node_at d r = Some n" "prev_sibling n = a" using assms(3) by (auto simp: link_node)
  define d1 where "d1 = upd r (\<lambda>m. m\<lparr>prev_sibling := c\<rparr>) (upd c (\<lambda>m. m\<lparr>parent := Some p\<rparr>)
    (upd c (\<lambda>m. m\<lparr>prev_sibling := a\<rparr>) (upd c (\<lambda>m. m\<lparr>next_sibling := r\<rparr>) d)))"
  define d2 where "d2 = (if a \<noteq> 0 then upd a (\<lambda>m. m\<lparr>next_sibling := c\<rparr>) d1 else upd p (\<lambda>m. m\<lparr>first_child := Some c\<rparr>) d1)"
  define e where "e = log_child_change (InsertedChild (serial d) p c r) d2"
  have none1: "node_at d1 j = None \<longleftrightarrow> node_at d j = None" for j by (auto simp: d1_def)
  have s2: "(case sib a of Some i \<Rightarrow> modify_node i (\<lambda>m. m\<lparr>next_sibling := c\<rparr>) d1
       | None \<Rightarrow> modify_node p (\<lambda>m. m\<lparr>first_child := Some c\<rparr>) d1) = Ok d2"
    using assms(2,7) by (auto simp: d2_def sib_def modify_node_live none1)
  have ser: "serial d2 = serial d" by (simp add: d2_def d1_def)
  have "link_before p c r d = bind_result (Ok d1) (\<lambda>d1. bind_result (case sib a of Some i \<Rightarrow> modify_node i (\<lambda>m. m\<lparr>next_sibling := c\<rparr>) d1
       | None \<Rightarrow> modify_node p (\<lambda>m. m\<lparr>first_child := Some c\<rparr>) d1) (\<lambda>d. Ok (log_child_change (InsertedChild (serial d) p c r) d)))"
    using assms(1,4) unfolding link_before_def get_node_def n(1) option.case bind_result_simps Let_def n(2) d1_def
    by (simp add: modify_node_live n(1))
  then have run: "link_before p c r d = Ok e" by (simp only: bind_result_simps s2 ser e_def)
  have "link_of e j = tie_links c p a r (link_of d) j" "ends_of e j = tie_ends c p a r (ends_of d) j"
    "content e j = content d j" for j
    using assms(1,4,5,6) by (cases "node_at d j"; auto simp: link_of_def ends_of_def content_def tie_links_def tie_ends_def e_def d2_def d1_def)+
  then have proj: "link_of e = tie_links c p a r (link_of d)" "ends_of e = tie_ends c p a r (ends_of d)" "content e = content d"
    by blast+
  have "log_of d2 = log_of d" "length (nodes d2) = length (nodes d)" "free_list d2 = free_list d" "tag_index d2 = tag_index d"
    by (auto simp: d2_def d1_def upd_def log_of_def)
  moreover from this have "log_run (log_of d) [InsertedChild (serial d) p c r] (log_of e)"
    using log_run_change[of "log_of d" "[]" d2] by (simp add: e_def log_run.start)
  moreover have "length (nodes e) = length (nodes d2)" "free_list e = free_list d2" "tag_index e = tag_index d2" "serial e = serial d2"
    by (auto simp: e_def log_child_change_def bump_structure_tick_def Let_def split: list.split)
  ultimately show thesis using that[OF run proj] ser by simp
qed

subsection \<open>The cycle check\<close>

lemma up_finite: "forest L E K \<Longrightarrow> finite (up L)"
proof -
  assume F: "forest L E K"
  have "up L \<subseteq> dom L \<times> (\<lambda>c. the (fst (the (L c)))) ` dom L" by (force simp: up_def)
  then show ?thesis using forestD(1)[OF F] finite_subset by blast
qed

lemma up_induct [consumes 1]:
  assumes "forest L E K" "\<And>c. (\<And>p. (c, p) \<in> up L \<Longrightarrow> P p) \<Longrightarrow> P c"
  shows "P c"
proof -
  have "wf ((up L)\<inverse>)" using finite_acyclic_wf_converse[OF up_finite[OF assms(1)] forestD(3)[OF assms(1)]] .
  then show ?thesis by (induction rule: wf_induct_rule) (use assms(2) in blast)
qed

lemma ancestor_walk_ok:
  assumes "dom_ok d K" "p \<in> dom (link_of d)"
  shows "ancestor_walk d c (Some p) = Some (Ok ((p, c) \<in> (up (link_of d))\<^sup>*))"
  using assms(1)[unfolded dom_ok_def] assms(2)
proof (induction p rule: up_induct)
  case (1 i)
  note F = assms(1)[unfolded dom_ok_def]
  obtain n q a b where n: "node_at d i = Some n" "parent n = q" and l: "link_of d i = Some (q, a, b)"
    using "1.prems" by (auto simp: link_of_def)
  show ?case
  proof (cases "i = c")
    case True
    then show ?thesis by (subst ancestor_walk.simps) simp
  next
    case False
    have walk: "ancestor_walk d c (Some i) = ancestor_walk d c q"
      using False n by (subst ancestor_walk.simps) (simp add: get_node_def)
    show ?thesis
    proof (cases q)
      case None
      then have "(i, c) \<notin> (up (link_of d))\<^sup>*"
        using l False by (auto simp: up_def elim: converse_rtranclE)
      moreover have "ancestor_walk d c None = Some (Ok False)" by (subst ancestor_walk.simps) simp
      ultimately show ?thesis using walk None by simp
    next
      case (Some p)
      then have up: "(i, p) \<in> up (link_of d)" using l by (auto simp: up_def)
      have "(i, c) \<in> (up (link_of d))\<^sup>* \<longleftrightarrow> (p, c) \<in> (up (link_of d))\<^sup>*"
        using up False l Some by (auto simp: up_def elim: converse_rtranclE intro: converse_rtrancl_into_rtrancl)
      moreover have "p \<in> dom (link_of d)" using forest_neighbours(3)[OF F l Some] .
      ultimately show ?thesis using walk Some "1.IH"[OF up] by simp
    qed
  qed
qed

subsection \<open>Edits of lists of children\<close>

definition detach :: "nat \<Rightarrow> (nat \<Rightarrow> nat list) \<Rightarrow> nat \<Rightarrow> nat list" where
  "detach c K = (\<lambda>r. remove1 c (K r))"

definition place_last :: "nat \<Rightarrow> nat \<Rightarrow> (nat \<Rightarrow> nat list) \<Rightarrow> nat \<Rightarrow> nat list" where
  "place_last p c K = (detach c K)(p := detach c K p @ [c])"

definition before :: "nat \<Rightarrow> nat \<Rightarrow> nat list \<Rightarrow> nat list" where
  "before r c xs = takeWhile (\<lambda>x. x \<noteq> r) xs @ c # dropWhile (\<lambda>x. x \<noteq> r) xs"

definition place_before :: "nat \<Rightarrow> nat \<Rightarrow> nat \<Rightarrow> (nat \<Rightarrow> nat list) \<Rightarrow> nat \<Rightarrow> nat list" where
  "place_before p c r K = (detach c K)(p := before r c (detach c K p))"

definition parent_of :: "'x Document \<Rightarrow> nat \<Rightarrow> nat option" where
  "parent_of d c = (case link_of d c of None \<Rightarrow> None | Some (q, _, _) \<Rightarrow> q)"

definition unlinked_changes :: "'x Document \<Rightarrow> nat \<Rightarrow> ChildListChange list" where
  "unlinked_changes d c = (case parent_of d c of None \<Rightarrow> [] | Some q \<Rightarrow> [RemovedChild (serial d) q c])"

text \<open>\<open>edited d cs e K\<close>: from \<open>d\<close> to \<open>e\<close> the changes \<open>cs\<close> were logged and the lists of children became \<open>K\<close>.\<close>

definition edited :: "'x Document \<Rightarrow> ChildListChange list \<Rightarrow> 'x Document \<Rightarrow> (nat \<Rightarrow> nat list) \<Rightarrow> bool" where
  "edited d cs e K \<longleftrightarrow> dom_ok e K \<and> content e = content d \<and> serial e = serial d \<and>
     length (nodes e) = length (nodes d) \<and> free_list e = free_list d \<and> tag_index e = tag_index d \<and>
     log_run (log_of d) cs (log_of e)"

lemma dom_ok_notes [simp]:
  "dom_ok (add_note n d) K = dom_ok d K" "dom_ok (note_structure_change d) K = dom_ok d K"
  "dom_ok (log_child_change c d) K = dom_ok d K"
  by (simp_all add: dom_ok_def)

lemma rest_notes [simp]:
  "length (nodes (add_note n d)) = length (nodes d)" "free_list (add_note n d) = free_list d" "tag_index (add_note n d) = tag_index d"
  "length (nodes (note_structure_change d)) = length (nodes d)" "free_list (note_structure_change d) = free_list d"
  "tag_index (note_structure_change d) = tag_index d"
  by (simp_all add: add_note_def note_structure_change_def bump_structure_tick_def)

lemma edited_notes:
  "edited d cs e K \<Longrightarrow> edited d cs (add_note n e) K" "edited d cs e K \<Longrightarrow> edited d cs (note_structure_change e) K"
  by (simp_all add: edited_def log_run_note)

lemma edited_refl: "dom_ok d K \<Longrightarrow> edited d [] d K"
  by (simp add: edited_def log_run.start)

lemma content_dom: "dom (content d) = dom (link_of d)"
  by (auto simp: content_def link_of_def dom_def)

lemma edited_live: "edited d cs e K \<Longrightarrow> dom (link_of e) = dom (link_of d)"
  unfolding edited_def by (metis content_dom)

lemma edited_trans: "edited d cs e K \<Longrightarrow> edited e cs' f K' \<Longrightarrow> edited d (cs @ cs') f K'"
  unfolding edited_def by (auto intro: log_run_trans)

text \<open>A node cut out, as a loose node and as the code leaves it before the next link is written.\<close>

lemma unlink_loose:
  assumes "dom_ok d K" "link_of d c = Some (q, a, b)"
  obtains e where "unlink_from_parent c d = Ok e" "link_of e = cut_links c a b q (link_of d)"
    "forest (cut_links c a b None (link_of d)) (ends_of e) (detach c K)"
    "content e = content d" "serial e = serial d" "length (nodes e) = length (nodes d)" "free_list e = free_list d"
    "tag_index e = tag_index d" "log_run (log_of d) (unlinked_changes d c) (log_of e)"
proof -
  have "unlinked_changes d c = (case q of None \<Rightarrow> [] | Some p \<Rightarrow> [RemovedChild (serial d) p c])"
    using assms(2) by (simp add: unlinked_changes_def parent_of_def)
  moreover obtain e where e: "unlink_from_parent c d = Ok e" "link_of e = cut_links c a b q (link_of d)"
    "ends_of e = cut_ends q a b (ends_of d)" "content e = content d" "serial e = serial d"
    "log_run (log_of d) (case q of None \<Rightarrow> [] | Some p \<Rightarrow> [RemovedChild (serial d) p c]) (log_of e)"
    "length (nodes e) = length (nodes d)" "free_list e = free_list d" "tag_index e = tag_index d"
    using unlink_result[OF assms] .
  moreover have "forest (cut_links c a b None (link_of d)) (ends_of e) (detach c K)"
    using cut_forest[OF assms(1)[unfolded dom_ok_def] assms(2)] by (simp add: e(3) detach_def)
  ultimately show thesis by (intro that) simp_all
qed

lemma remove_child_ok:
  assumes "dom_ok d K" "c \<in> dom (link_of d)"
  obtains e where "remove_child p c d = Ok e" "edited d (unlinked_changes d c) e (detach c K)"
proof -
  obtain q a b where c: "link_of d c = Some (q, a, b)" using assms(2) by auto
  obtain e where e: "unlink_from_parent c d = Ok e" "link_of e = cut_links c a b q (link_of d)"
    "forest (cut_links c a b None (link_of d)) (ends_of e) (detach c K)"
    "content e = content d" "serial e = serial d" "length (nodes e) = length (nodes d)" "free_list e = free_list d"
    "tag_index e = tag_index d" "log_run (log_of d) (unlinked_changes d c) (log_of e)"
    using unlink_loose[OF assms(1) c] .
  define f where "f = upd c (\<lambda>m. m\<lparr>parent := None\<rparr>) e"
  have live: "node_at e c \<noteq> None" unfolding live_iff e(2) by simp
  have "link_of f = cut_links c a b None (link_of d)"
  proof
    fix j
    have "link_of f j = (if j = c then map_option (\<lambda>(_, i, k). (None, i, k)) (link_of e c) else link_of e j)"
      by (simp add: f_def link_of_def option.map_comp comp_def)
    then show "link_of f j = cut_links c a b None (link_of d) j" by (simp add: e(2) cut_links_def)
  qed
  moreover have "ends_of f = ends_of e" "content f = content e"
    by (auto simp: fun_eq_iff f_def ends_of_def content_def option.map_comp comp_def)
  moreover have "serial f = serial e" "length (nodes f) = length (nodes e)" "free_list f = free_list e"
    "tag_index f = tag_index e" "log_of f = log_of e"
    by (simp_all add: f_def)
  ultimately have "edited d (unlinked_changes d c) f (detach c K)"
    using e by (simp add: edited_def dom_ok_def)
  moreover have "remove_child p c d = Ok (note_structure_change (add_note (InvalidateStyleSubtree c) (add_note (MarkDirty p) f)))"
    using e(1) modify_node_live[OF live] by (simp add: remove_child_def f_def)
  ultimately show thesis by (elim that) (intro edited_notes)
qed

lemma up_cut: "up (cut_links c a b None L) \<subseteq> up L"
  by (auto simp: up_def cut_links_def split: if_splits)

lemma tie_loose:
  assumes F: "forest (cut_links c a b None L) E K'" and c: "c \<in> dom L" "c \<noteq> 0" and p: "p \<in> dom L" "(p, c) \<notin> (up L)\<^sup>*"
    and K: "K' p = xs @ ys"
  shows "forest (tie_links c p (last_or 0 xs) (first_or 0 ys) (cut_links c a b q L))
    (tie_ends c p (last_or 0 xs) (first_or 0 ys) E) (K'(p := xs @ c # ys))"
proof -
  have "cut_links c a b None L c = Some (None, 0, 0)" by (simp add: cut_links_def)
  moreover have "p \<in> dom (cut_links c a b None L)" using p(1) by simp
  moreover have "(p, c) \<notin> (up (cut_links c a b None L))\<^sup>*" using p(2) rtrancl_mono[OF up_cut] by blast
  ultimately show ?thesis using tie_forest[OF F _ c(2)] K tie_cut_links by metis
qed

lemma relink_end:
  assumes ok: "dom_ok d K" and live: "p \<in> dom (link_of d)" "c \<in> dom (link_of d)" and c0: "c \<noteq> 0"
    and no: "(p, c) \<notin> (up (link_of d))\<^sup>*"
  obtains e f where "unlink_from_parent c d = Ok e" "link_at_end p c e = Ok f"
    "edited d (unlinked_changes d c @ [InsertedChild (serial d) p c 0]) f (place_last p c K)"
proof -
  obtain q a b where c: "link_of d c = Some (q, a, b)" using live(2) by auto
  obtain e where e: "unlink_from_parent c d = Ok e" "link_of e = cut_links c a b q (link_of d)"
    "forest (cut_links c a b None (link_of d)) (ends_of e) (detach c K)"
    "content e = content d" "serial e = serial d" "length (nodes e) = length (nodes d)" "free_list e = free_list d"
    "tag_index e = tag_index d" "log_run (log_of d) (unlinked_changes d c) (log_of e)"
    using unlink_loose[OF ok c] .
  let ?xs = "detach c K p"
  have domc: "x \<in> dom (link_of d) \<Longrightarrow> x \<in> dom (cut_links c a b None (link_of d))" for x
    by simp
  have live_e: "node_at e c \<noteq> None" unfolding live_iff e(2) by simp
  have ends: "ends_of e p = Some (hd_opt ?xs, sib (last_or 0 ?xs))"
    using forestD(8)[OF e(3) domc[OF live(1)]] sib_last[OF forestD(6)[OF e(3)]] by simp
  have last: "node_at e (last_or 0 ?xs) \<noteq> None" if "last_or 0 ?xs \<noteq> 0"
  proof -
    have "last_or 0 ?xs \<in> set ?xs" using that by (auto simp: last_or_def split: if_splits)
    from forest_live[OF e(3) this] show ?thesis by (simp only: live_iff e(2) cut_dom)
  qed
  obtain f where f: "link_at_end p c e = Ok f" "link_of f = tie_links c p (last_or 0 ?xs) 0 (link_of e)"
    "ends_of f = tie_ends c p (last_or 0 ?xs) 0 (ends_of e)" "content f = content e" "serial f = serial e"
    "log_run (log_of e) [InsertedChild (serial e) p c 0] (log_of f)"
    "length (nodes f) = length (nodes e)" "free_list f = free_list e" "tag_index f = tag_index e"
    using link_at_end_result[OF live_e ends last] .
  have "dom_ok f (place_last p c K)"
    using tie_loose[OF e(3) live(2) c0 live(1) no, of ?xs "[]" q]
    by (simp add: dom_ok_def f(2,3) e(2) place_last_def)
  then have "edited d (unlinked_changes d c @ [InsertedChild (serial d) p c 0]) f (place_last p c K)"
    using e f log_run_trans by (simp add: edited_def)
  then show thesis using e(1) f(1) by (intro that)
qed

lemma append_child_ok:
  assumes ok: "dom_ok d K" and live: "p \<in> dom (link_of d)" "c \<in> dom (link_of d)" and c0: "c \<noteq> 0"
  shows "(p, c) \<in> (up (link_of d))\<^sup>* \<Longrightarrow> append_child p c d = Some (Ok d)"
    and "(p, c) \<notin> (up (link_of d))\<^sup>* \<Longrightarrow> \<exists>e. append_child p c d = Some (Ok e) \<and>
      edited d (unlinked_changes d c @ [InsertedChild (serial d) p c 0]) e (place_last p c K)"
proof -
  note walk = ancestor_walk_ok[OF ok live(1), of c]
  assume "(p, c) \<in> (up (link_of d))\<^sup>*"
  then show "append_child p c d = Some (Ok d)"
    using walk by (simp add: append_child_def insertion_would_create_cycle_def)
next
  note walk = ancestor_walk_ok[OF ok live(1), of c]
  assume no: "(p, c) \<notin> (up (link_of d))\<^sup>*"
  then have pc: "p \<noteq> c" by auto
  obtain n where n: "node_at d c = Some n" using live(2) by (auto simp: link_of_def)
  obtain e f where ef: "unlink_from_parent c d = Ok e" "link_at_end p c e = Ok f"
    "edited d (unlinked_changes d c @ [InsertedChild (serial d) p c 0]) f (place_last p c K)"
    using relink_end[OF ok live c0 no] .
  have "append_child p c d = Some (Ok (note_structure_change (
     let d = (case parent n of Some r \<Rightarrow> if parent n \<noteq> Some p then add_note (MarkDirty r) f else f | None \<Rightarrow> f);
         d = add_note (MarkDirty p) d
     in if parent n \<noteq> Some p then add_note (InvalidateStyleSubtree c) d else d)))"
    using walk no pc ef(1,2) n
    by (cases "parent n") (simp_all add: append_child_def insertion_would_create_cycle_def get_node_def Let_def)
  with ef(3) show "\<exists>e. append_child p c d = Some (Ok e) \<and>
      edited d (unlinked_changes d c @ [InsertedChild (serial d) p c 0]) e (place_last p c K)"
    by (auto simp: Let_def intro: edited_notes split: option.split)
qed

lemma not_below_child:
  assumes "dom_ok d K" "c \<in> set (K p)"
  shows "(p, c) \<notin> (up (link_of d))\<^sup>*"
proof
  note F = assms(1)[unfolded dom_ok_def]
  assume "(p, c) \<in> (up (link_of d))\<^sup>*"
  moreover have "(c, p) \<in> up (link_of d)" using assms(2) up_iff[OF F] by simp
  ultimately have "(c, c) \<in> (up (link_of d))\<^sup>+" by (meson rtrancl_into_trancl2)
  with forestD(3)[OF F] show False by (auto simp: acyclic_def)
qed

lemma move_child_to_end_ok:
  assumes ok: "dom_ok d K" and live: "p \<in> dom (link_of d)" "c \<in> dom (link_of d)"
  shows "c \<notin> set (K p) \<Longrightarrow> move_child_to_end_unnoted p c d = Ok (False, d)"
    and "c \<in> set (K p) \<Longrightarrow> \<exists>e cs. move_child_to_end_unnoted p c d = Ok (True, e) \<and> edited d cs e (place_last p c K) \<and>
      (cs = [] \<and> place_last p c K = K \<or> cs = unlinked_changes d c @ [InsertedChild (serial d) p c 0])"
proof -
  note F = ok[unfolded dom_ok_def]
  obtain n where n: "node_at d c = Some n" using live(2) by (auto simp: link_of_def)
  have iff: "parent n = Some p \<longleftrightarrow> c \<in> set (K p)" using up_iff[OF F, of c p] n by (auto simp: up_def link_of_def)
  assume "c \<notin> set (K p)"
  then show "move_child_to_end_unnoted p c d = Ok (False, d)"
    using n iff by (simp add: move_child_to_end_unnoted_def get_node_def)
next
  note F = ok[unfolded dom_ok_def]
  obtain n where n: "node_at d c = Some n" using live(2) by (auto simp: link_of_def)
  assume cK: "c \<in> set (K p)"
  then have par: "parent n = Some p" using up_iff[OF F, of c p] n by (auto simp: up_def link_of_def)
  obtain m where m: "node_at d p = Some m" using live(1) by (auto simp: link_of_def)
  have last: "last_child m = last_opt (K p)" using forestD(8)[OF F live(1)] m by (simp add: ends_of_def)
  show "\<exists>e cs. move_child_to_end_unnoted p c d = Ok (True, e) \<and> edited d cs e (place_last p c K) \<and>
      (cs = [] \<and> place_last p c K = K \<or> cs = unlinked_changes d c @ [InsertedChild (serial d) p c 0])"
  proof (cases "last_opt (K p) = Some c")
    case True
    then have "K p \<noteq> []" "last (K p) = c" by (auto simp: last_opt_def split: if_splits)
    then obtain xs where xs: "K p = xs @ [c]" by (metis append_butlast_last_id)
    then have "c \<notin> set xs" using forestD(5)[OF F, of p] by simp
    moreover have "c \<notin> set (K r)" if "r \<noteq> p" for r using forest_unique[OF F cK] that by blast
    ultimately have "place_last p c K = K"
      using xs by (auto simp: fun_eq_iff place_last_def detach_def remove1_append remove1_idem)
    moreover have "move_child_to_end_unnoted p c d = Ok (True, d)"
      using n m par last True by (simp add: move_child_to_end_unnoted_def get_node_def)
    ultimately show ?thesis using edited_refl[OF ok] by auto
  next
    case False
    obtain e f where "unlink_from_parent c d = Ok e" "link_at_end p c e = Ok f"
      "edited d (unlinked_changes d c @ [InsertedChild (serial d) p c 0]) f (place_last p c K)"
      using relink_end[OF ok live forest_child(3)[OF F cK] not_below_child[OF ok cK]] .
    then show ?thesis using n m par last False by (auto simp: move_child_to_end_unnoted_def get_node_def)
  qed
qed

lemma before_split: "r \<notin> set xs \<Longrightarrow> before r c (xs @ r # ys) = xs @ c # r # ys"
  by (induction xs) (auto simp: before_def)

lemma insert_before_ok:
  assumes ok: "dom_ok d K" and r: "r \<in> set (K p)" and c: "c \<in> dom (link_of d)" "c \<noteq> 0" "c \<noteq> r"
  shows "(p, c) \<in> (up (link_of d))\<^sup>* \<Longrightarrow> insert_before p c r d = Some (Ok d)"
    and "(p, c) \<notin> (up (link_of d))\<^sup>* \<Longrightarrow> \<exists>e. insert_before p c r d = Some (Ok e) \<and>
      edited d (unlinked_changes d c @ [InsertedChild (serial d) p c r]) e (place_before p c r K)"
proof -
  note F = ok[unfolded dom_ok_def]
  have p: "p \<in> dom (link_of d)" using forest_child(2)[OF F r] .
  note walk = ancestor_walk_ok[OF ok p, of c]
  assume "(p, c) \<in> (up (link_of d))\<^sup>*"
  then show "insert_before p c r d = Some (Ok d)"
    using walk c(3) by (simp add: insert_before_def insertion_would_create_cycle_def)
next
  note F = ok[unfolded dom_ok_def]
  have p: "p \<in> dom (link_of d)" using forest_child(2)[OF F r] .
  note walk = ancestor_walk_ok[OF ok p, of c]
  assume no: "(p, c) \<notin> (up (link_of d))\<^sup>*"
  obtain q a b where l: "link_of d c = Some (q, a, b)" using c(1) by auto
  then obtain n where n: "node_at d c = Some n" "parent n = q" by (auto simp: link_node)
  obtain e where e: "unlink_from_parent c d = Ok e" "link_of e = cut_links c a b q (link_of d)"
    "forest (cut_links c a b None (link_of d)) (ends_of e) (detach c K)"
    "content e = content d" "serial e = serial d" "length (nodes e) = length (nodes d)" "free_list e = free_list d"
    "tag_index e = tag_index d" "log_run (log_of d) (unlinked_changes d c) (log_of e)"
    using unlink_loose[OF ok l] .
  have r': "r \<in> set (detach c K p)" using r c(3) by (simp add: detach_def)
  obtain i j where lr: "cut_links c a b None (link_of d) r = Some (Some p, i, j)"
    using forest_child(1)[OF e(3) r'] by auto
  obtain xs ys where K: "detach c K p = xs @ r # ys" "i = last_or 0 xs" "r \<notin> set xs"
    using forest_place[OF e(3) lr] by metis
  have "link_of e r = Some (Some p, i, j)" using lr c(3) by (simp add: e(2) cut_links_def)
  moreover have "c \<notin> set (detach c K p)" using forestD(5)[OF F, of p] by (simp add: detach_def)
  then have "i \<noteq> c" using K(1,2) c(2) by (auto simp: last_or_def split: if_splits)
  moreover have "node_at e i \<noteq> None" if "i \<noteq> 0"
  proof -
    have "i \<in> set (detach c K p)" using that K(1,2) by (auto simp: last_or_def split: if_splits)
    from forest_live[OF e(3) this] show ?thesis by (simp only: live_iff e(2) cut_dom)
  qed
  moreover have "node_at e c \<noteq> None" "node_at e p \<noteq> None" using p unfolding live_iff e(2) cut_dom by simp_all
  moreover have "r \<noteq> 0" using forest_child(3)[OF F r] .
  ultimately obtain f where f: "link_before p c r e = Ok f" "link_of f = tie_links c p i r (link_of e)"
    "ends_of f = tie_ends c p i r (ends_of e)" "content f = content e" "serial f = serial e"
    "log_run (log_of e) [InsertedChild (serial e) p c r] (log_of f)"
    "length (nodes f) = length (nodes e)" "free_list f = free_list e" "tag_index f = tag_index e"
    using link_before_result[of e c p r "Some p" i j] c(3) by metis
  have "dom_ok f (place_before p c r K)"
    using tie_loose[OF e(3) c(1,2) p no K(1), of q]
    by (simp add: dom_ok_def f(2,3) e(2) place_before_def K before_split)
  then have "edited d (unlinked_changes d c @ [InsertedChild (serial d) p c r]) f (place_before p c r K)"
    using e f log_run_trans by (simp add: edited_def)
  moreover have "insert_before p c r d = Some (Ok (note_structure_change (add_note (InvalidateStyleSubtree c)
     (add_note (MarkDirty p) (case q of Some r \<Rightarrow> if r \<noteq> p then add_note (MarkDirty r) f else f | None \<Rightarrow> f)))))"
    using walk no c(3) e(1) f(1) n by (cases q) (simp_all add: insert_before_def insertion_would_create_cycle_def get_node_def Let_def)
  ultimately show "\<exists>e. insert_before p c r d = Some (Ok e) \<and>
      edited d (unlinked_changes d c @ [InsertedChild (serial d) p c r]) e (place_before p c r K)"
    by (auto intro: edited_notes split: option.split)
qed

lemma replace_child_ok:
  assumes ok: "dom_ok d K" and r: "r \<in> set (K p)" and c: "c \<in> dom (link_of d)" "c \<noteq> 0"
  shows "c = r \<or> (p, c) \<in> (up (link_of d))\<^sup>* \<Longrightarrow>
      \<exists>e. replace_child p c r d = Some (Ok e) \<and> edited d (unlinked_changes d r) e (detach r K)"
    and "c \<noteq> r \<Longrightarrow> (p, c) \<notin> (up (link_of d))\<^sup>* \<Longrightarrow> \<exists>e f. insert_before p c r d = Some (Ok e) \<and>
      replace_child p c r d = Some (Ok f) \<and> edited d (unlinked_changes d c @ [InsertedChild (serial d) p c r]) e (place_before p c r K) \<and>
      edited e (unlinked_changes e r) f (detach r (place_before p c r K))"
proof -
  have rd: "r \<in> dom (link_of d)" using forest_live[OF ok[unfolded dom_ok_def] r] .
  assume "c = r \<or> (p, c) \<in> (up (link_of d))\<^sup>*"
  then have "insert_before p c r d = Some (Ok d)"
    using insert_before_ok(1)[OF ok r c] by (cases "c = r") (simp_all add: insert_before_def)
  moreover obtain e where "remove_child p r d = Ok e" "edited d (unlinked_changes d r) e (detach r K)"
    using remove_child_ok[OF ok rd] .
  ultimately show "\<exists>e. replace_child p c r d = Some (Ok e) \<and> edited d (unlinked_changes d r) e (detach r K)"
    by (simp add: replace_child_def)
next
  have rd: "r \<in> dom (link_of d)" using forest_live[OF ok[unfolded dom_ok_def] r] .
  assume "c \<noteq> r" "(p, c) \<notin> (up (link_of d))\<^sup>*"
  then obtain e where e: "insert_before p c r d = Some (Ok e)"
    "edited d (unlinked_changes d c @ [InsertedChild (serial d) p c r]) e (place_before p c r K)"
    using insert_before_ok(2)[OF ok r c] by blast
  have "dom_ok e (place_before p c r K)" using e(2) by (simp add: edited_def)
  moreover have "r \<in> dom (link_of e)" using rd by (simp only: edited_live[OF e(2)])
  ultimately obtain f where "remove_child p r e = Ok f"
    "edited e (unlinked_changes e r) f (detach r (place_before p c r K))"
    by (rule remove_child_ok)
  with e show "\<exists>e f. insert_before p c r d = Some (Ok e) \<and>
      replace_child p c r d = Some (Ok f) \<and> edited d (unlinked_changes d c @ [InsertedChild (serial d) p c r]) e (place_before p c r K) \<and>
      edited e (unlinked_changes e r) f (detach r (place_before p c r K))"
    by (simp add: replace_child_def)
qed

subsection \<open>Reading the children\<close>

lemma sibling_walk_ok:
  assumes "seg (link_of d) p a xs 0" "0 \<notin> set xs"
  shows "sibling_walk d acc (sib (first_or 0 xs)) = Some (Ok (acc @ xs))"
  using assms
proof (induction xs arbitrary: a acc)
  case Nil
  show ?case by (subst sibling_walk.simps) (simp add: first_or_def sib_def)
next
  case (Cons x xs)
  then obtain n where n: "node_at d x = Some n" "next_sibling n = first_or 0 xs" by (auto simp: link_node)
  have "x \<noteq> 0" using Cons.prems(2) by simp
  then have "sibling_walk d acc (sib (first_or 0 (x # xs))) = sibling_walk d (acc @ [x]) (sib (first_or 0 xs))"
    using n by (subst sibling_walk.simps) (simp add: first_or_def sib_def get_node_def)
  moreover have "seg (link_of d) p x xs 0" "0 \<notin> set xs" using Cons.prems by auto
  ultimately show ?case using Cons.IH[of x "acc @ [x]"] by simp
qed

lemma children_ids_ok:
  assumes "dom_ok d K" "p \<in> dom (link_of d)"
  shows "children_ids p d = Some (Ok (K p))"
proof -
  note F = assms(1)[unfolded dom_ok_def]
  obtain n where n: "node_at d p = Some n" using assms(2) by (auto simp: link_of_def)
  have "first_child n = sib (first_or 0 (K p))"
    using forestD(8)[OF F assms(2)] n sib_first[OF forestD(6)[OF F]] by (simp add: ends_of_def)
  then show ?thesis using n sibling_walk_ok[OF forestD(7,6)[OF F], where acc = "[]"] by (simp add: children_ids_def get_node_def)
qed

end
