(* ===== verification/ChildIndex.thy ===== *)
theory ChildIndex
  imports DomEdits
begin

text \<open>
  The cached list of children that \<^verbatim>\<open>childNodes[n]\<close> reads,
  \<^verbatim>\<open>crates/w3cos-runtime/src/jsdom.rs\<close>: the ids of one parent, built at a tick, brought up to date
  by replaying the logged edits of the document's tree, and rebuilt by a walk when that fails.
\<close>

subsection \<open>The cache\<close>

text \<open>The parent, the tick the ids are true at, the ids and the serial of their document.\<close>

type_synonym child_index = "(nat \<times> nat \<times> nat list \<times> nat) option"

definition position :: "nat \<Rightarrow> nat list \<Rightarrow> nat option" where
  "position x xs = (if x \<in> set xs then Some (length (takeWhile (\<lambda>y. y \<noteq> x) xs)) else None)"

definition insert_at :: "nat \<Rightarrow> nat \<Rightarrow> nat list \<Rightarrow> nat list" where
  "insert_at i x xs = take i xs @ x # drop i xs"

definition remove_at :: "nat \<Rightarrow> nat list \<Rightarrow> nat list" where
  "remove_at i xs = take i xs @ drop (Suc i) xs"

text \<open>The closure of the replay; \<open>None\<close> is the flag \<open>valid\<close> cleared.\<close>

fun patch_change :: "nat \<Rightarrow> nat \<Rightarrow> nat list \<Rightarrow> ChildListChange \<Rightarrow> nat list option" where
  "patch_change doc p ids (InsertedChild d q child r) =
     (if d \<noteq> doc then None
      else if q = p then
        (case (if r = 0 then Some (length ids) else position r ids) of
           Some at \<Rightarrow> Some (insert_at at child ids)
         | None \<Rightarrow> None)
      else Some ids)"
| "patch_change doc p ids (RemovedChild d q child) =
     (if d \<noteq> doc then None
      else if q = p then (case position child ids of Some at \<Rightarrow> Some (remove_at at ids) | None \<Rightarrow> None)
      else Some ids)"
| "patch_change doc p ids (ResetNode d node) =
     (if d \<noteq> doc \<or> node = p \<or> node \<in> set ids then None else Some ids)"

fun patch_changes :: "nat \<Rightarrow> nat \<Rightarrow> nat list \<Rightarrow> ChildListChange list \<Rightarrow> nat list option" where
  "patch_changes doc p ids [] = Some ids"
| "patch_changes doc p ids (c # cs) =
     (case patch_change doc p ids c of None \<Rightarrow> None | Some ids \<Rightarrow> patch_changes doc p ids cs)"

definition patch_child_index :: "child_index \<Rightarrow> nat \<Rightarrow> 'x Document \<Rightarrow> bool \<times> child_index" where
  "patch_child_index cache generation d = (case cache of
     None \<Rightarrow> (False, None)
   | Some (p, cached_generation, ids, doc) \<Rightarrow>
       (case replay_child_changes_since cached_generation 64 d of
          None \<Rightarrow> (False, None)
        | Some changes \<Rightarrow> (case patch_changes doc p ids changes of
            None \<Rightarrow> (False, None)
          | Some ids \<Rightarrow> (True, Some (p, generation, ids, doc)))))"

definition rebuild_child_index :: "nat \<Rightarrow> nat \<Rightarrow> 'x Document \<Rightarrow> (DomFault, child_index) looping" where
  "rebuild_child_index p generation d =
     and_then (children_ids p d) (\<lambda>ids. Some (Ok (Some (p, generation, ids, serial d))))"

definition ensure_child_index :: "nat \<Rightarrow> child_index \<Rightarrow> 'x Document \<Rightarrow> (DomFault, child_index) looping" where
  "ensure_child_index p cache d =
     (let generation = structure_tick d in
      case cache of
        None \<Rightarrow> rebuild_child_index p generation d
      | Some (node, cached_generation, _, doc) \<Rightarrow>
          if node = p \<and> cached_generation = generation then Some (Ok cache)
          else if node = p \<and> serial d = doc \<and> fst (patch_child_index cache generation d)
            then Some (Ok (snd (patch_child_index cache generation d)))
          else rebuild_child_index p generation d)"

definition child_node_at ::
  "nat \<Rightarrow> nat \<Rightarrow> child_index \<Rightarrow> 'x Document \<Rightarrow> (DomFault, nat option \<times> child_index) looping" where
  "child_node_at p i cache d = and_then (ensure_child_index p cache d) (\<lambda>cache. Some (Ok (
     (case cache of None \<Rightarrow> None | Some (_, _, ids, _) \<Rightarrow> if i < length ids then Some (ids ! i) else None), cache)))"

definition child_node_count :: "nat \<Rightarrow> child_index \<Rightarrow> 'x Document \<Rightarrow> (DomFault, nat \<times> child_index) looping" where
  "child_node_count p cache d = and_then (ensure_child_index p cache d) (\<lambda>cache. Some (Ok (
     (case cache of None \<Rightarrow> 0 | Some (_, _, ids, _) \<Rightarrow> length ids), cache)))"

subsection \<open>Patching follows the edits\<close>

text \<open>\<open>explains s cs K K'\<close>: replaying \<open>cs\<close> over any list of children of \<open>K\<close> gives that of \<open>K'\<close>, or gives up.\<close>

definition explains :: "nat \<Rightarrow> ChildListChange list \<Rightarrow> (nat \<Rightarrow> nat list) \<Rightarrow> (nat \<Rightarrow> nat list) \<Rightarrow> bool" where
  "explains s cs K K' \<longleftrightarrow> (\<forall>p. patch_changes s p (K p) cs \<in> {None, Some (K' p)})"

lemma patch_changes_append:
  "patch_changes doc p ids (cs @ cs') = Option.bind (patch_changes doc p ids cs) (\<lambda>ids. patch_changes doc p ids cs')"
  by (induction cs arbitrary: ids) (auto split: option.split)

lemma explains_nil [simp]: "explains s [] K K"
  by (simp add: explains_def)

lemma explains_trans: "explains s cs K K' \<Longrightarrow> explains s cs' K' K'' \<Longrightarrow> explains s (cs @ cs') K K''"
  unfolding explains_def patch_changes_append by (metis bind.bind_lunit bind.bind_lzero insertE insertI1 insertI2 singletonD)

lemma position_split: "r \<notin> set xs \<Longrightarrow> position r (xs @ r # ys) = Some (length xs)"
  by (induction xs) (auto simp: position_def split: if_splits)

lemma explains_remove:
  assumes "\<And>p. c \<in> set (K p) \<longleftrightarrow> p = q"
  shows "explains s [RemovedChild s q c] K (detach c K)"
proof -
  have "c \<in> set (K q)" using assms by simp
  then obtain xs ys where xs: "K q = xs @ c # ys" "c \<notin> set xs" by (meson split_list_first)
  then have "remove_at (length xs) (K q) = remove1 c (K q)" by (simp add: remove_at_def remove1_append)
  moreover have "position c (K q) = Some (length xs)" using xs position_split by simp
  moreover have "remove1 c (K p) = K p" if "p \<noteq> q" for p using that assms[of p] by (simp add: remove1_idem)
  ultimately show ?thesis by (simp add: explains_def detach_def)
qed

lemma explains_append: "explains s [InsertedChild s q c 0] K (K(q := K q @ [c]))"
  by (simp add: explains_def insert_at_def)

lemma explains_insert:
  assumes "r \<in> set (K q)" "r \<noteq> 0"
  shows "explains s [InsertedChild s q c r] K (K(q := before r c (K q)))"
proof -
  obtain xs ys where xs: "K q = xs @ r # ys" "r \<notin> set xs" using assms(1) by (meson split_list_first)
  then have "insert_at (length xs) c (K q) = before r c (K q)" by (simp add: insert_at_def before_split)
  moreover have "position r (K q) = Some (length xs)" using xs position_split by simp
  ultimately show ?thesis using assms(2) by (simp add: explains_def)
qed

lemma explains_reset: "explains s [ResetNode s i] K K"
  by (simp add: explains_def)

lemma explains_foreign:
  assumes "case c of InsertedChild d _ _ _ \<Rightarrow> d \<noteq> s | RemovedChild d _ _ \<Rightarrow> d \<noteq> s | ResetNode d _ \<Rightarrow> d \<noteq> s"
  shows "explains s [c] K K"
  using assms by (cases c) (simp_all add: explains_def)

end
