(* ===== verification/DomArena.thy ===== *)
theory DomArena
  imports ChildIndex
begin

text \<open>
  The arena of nodes under the tree: slots taken from the free list or pushed at the end, and the removal
  of a subtree, which gives back the slot of every node in it.
\<close>

subsection \<open>Loose nodes\<close>

lemma forest_add:
  assumes F: "forest L E K" and c: "L c = None"
  shows "forest (L(c \<mapsto> (None, 0, 0))) (E(c \<mapsto> (None, None))) K"
proof -
  let ?L = "L(c \<mapsto> (None, 0, 0))"
  have "x \<noteq> c" if "x \<in> set (K p)" for x p using forest_child(1)[OF F that] c by auto
  then have "seg ?L p 0 (K p) 0" for p using seg_cong[of "K p" ?L L] forestD(7)[OF F, of p] by auto
  moreover have "up ?L = up L" using c by (auto simp: up_def split: if_splits)
  moreover have "K c = []" using forestD(4)[OF F] c by auto
  ultimately show ?thesis
    unfolding forest_def using forestD[OF F]
    by (auto simp: hd_opt_def last_opt_def split: option.split)
qed

lemma forest_drop:
  assumes F: "forest L E K" and c: "L c = Some (None, 0, 0)" "K c = []"
  shows "forest (L(c := None)) (E(c := None)) K"
proof -
  let ?L = "L(c := None)"
  have "x \<noteq> c" if "x \<in> set (K p)" for x p using forest_child(1)[OF F that] c by auto
  then have "seg ?L p 0 (K p) 0" for p using seg_cong[of "K p" ?L L] forestD(7)[OF F, of p] by auto
  moreover have "up ?L = up L" using c by (auto simp: up_def split: if_splits)
  moreover have "p \<in> dom L" if "K p \<noteq> []" for p using forestD(4)[OF F] that by blast
  ultimately show ?thesis
    unfolding forest_def using forestD[OF F] c(2) by (auto split: option.split)
qed

subsection \<open>The arena\<close>

definition arena_ok :: "'x Document \<Rightarrow> (nat \<Rightarrow> nat list) \<Rightarrow> bool" where
  "arena_ok d K \<longleftrightarrow> dom_ok d K \<and> node_at d 0 \<noteq> None \<and> distinct (free_list d) \<and>
     (\<forall>i\<in>set (free_list d). i < length (nodes d) \<and> node_at d i = None) \<and>
     (\<forall>tag. \<forall>i\<in>set (tag_index d tag). \<exists>x. content d i = Some (tag, x))"

lemma arena_okD:
  assumes "arena_ok d K"
  shows "dom_ok d K" "node_at d 0 \<noteq> None" "distinct (free_list d)"
    "\<And>i. i \<in> set (free_list d) \<Longrightarrow> i < length (nodes d) \<and> node_at d i = None"
    "\<And>tag i. i \<in> set (tag_index d tag) \<Longrightarrow> \<exists>x. content d i = Some (tag, x)"
  using assms by (simp_all add: arena_ok_def)

lemma arena_edited:
  assumes "arena_ok d K" "edited d cs e K'"
  shows "arena_ok e K'"
proof -
  have "node_at e i = None \<longleftrightarrow> node_at d i = None" for i
  proof -
    have "content e i = content d i" using assms(2) by (simp add: edited_def)
    then show ?thesis by (cases "node_at e i"; cases "node_at d i") (simp_all add: content_def)
  qed
  moreover have "dom_ok e K'" "content e = content d" "length (nodes e) = length (nodes d)" "free_list e = free_list d"
    "tag_index e = tag_index d"
    using assms(2) by (simp_all add: edited_def)
  ultimately show ?thesis using arena_okD[OF assms(1)] unfolding arena_ok_def by simp
qed

text \<open>\<open>tracked d K e K'\<close>: an operation led from lists \<open>K\<close> to \<open>K'\<close> and logged edits that explain it.\<close>

definition tracked :: "'x Document \<Rightarrow> (nat \<Rightarrow> nat list) \<Rightarrow> 'x Document \<Rightarrow> (nat \<Rightarrow> nat list) \<Rightarrow> bool" where
  "tracked d K e K' \<longleftrightarrow> arena_ok e K' \<and> serial e = serial d \<and>
     (\<exists>cs. log_run (log_of d) cs (log_of e) \<and> explains (serial d) cs K K')"

lemma trackedD: "tracked d K e K' \<Longrightarrow> arena_ok e K'"
  by (simp add: tracked_def)

lemma tracked_refl: "arena_ok d K \<Longrightarrow> tracked d K d K"
  unfolding tracked_def using log_run.start explains_nil by blast

lemma trackedI:
  "arena_ok e K' \<Longrightarrow> serial e = serial d \<Longrightarrow> log_run (log_of d) cs (log_of e) \<Longrightarrow> explains (serial d) cs K K' \<Longrightarrow> tracked d K e K'"
  unfolding tracked_def by blast

lemma tracked_trans:
  assumes "tracked d K e K'" "tracked e K' f K''"
  shows "tracked d K f K''"
proof -
  obtain cs where cs: "log_run (log_of d) cs (log_of e)" "explains (serial d) cs K K'" "serial e = serial d"
    using assms(1) by (auto simp: tracked_def)
  obtain cs' where "log_run (log_of e) cs' (log_of f)" "explains (serial e) cs' K' K''" "serial f = serial e" "arena_ok f K''"
    using assms(2) by (auto simp: tracked_def)
  with cs show ?thesis by (intro trackedI[OF _ _ log_run_trans explains_trans]) auto
qed

lemma tracked_edited:
  "arena_ok d K \<Longrightarrow> edited d cs e K' \<Longrightarrow> explains (serial d) cs K K' \<Longrightarrow> tracked d K e K'"
  by (rule trackedI[OF arena_edited]) (auto simp: edited_def)

subsection \<open>The edits explain themselves\<close>

lemma parent_of_iff:
  assumes "dom_ok d K"
  shows "parent_of d c = Some q \<longleftrightarrow> c \<in> set (K q)"
  using up_iff[OF assms[unfolded dom_ok_def], of c q]
  by (auto simp: parent_of_def up_def split: option.split)

lemma explains_unlinked:
  assumes ok: "dom_ok d K"
  shows "explains s (case parent_of d c of None \<Rightarrow> [] | Some q \<Rightarrow> [RemovedChild s q c]) K (detach c K)"
proof (cases "parent_of d c")
  case None
  then have "c \<notin> set (K p)" for p using parent_of_iff[OF ok, of c p] by simp
  then have "detach c K = K" by (simp add: detach_def fun_eq_iff remove1_idem)
  then show ?thesis using None by simp
next
  case (Some q)
  then have "c \<in> set (K p) \<longleftrightarrow> p = q" for p
    using parent_of_iff[OF ok, of c p] parent_of_iff[OF ok, of c q] by auto
  then show ?thesis using Some explains_remove by simp
qed

lemmas explains_unlinked' = explains_unlinked[where s = "serial d" and d = d for d, folded unlinked_changes_def]

lemma explains_place_last:
  "dom_ok d K \<Longrightarrow> explains (serial d) (unlinked_changes d c @ [InsertedChild (serial d) p c 0]) K (place_last p c K)"
  unfolding place_last_def by (rule explains_trans[OF explains_unlinked' explains_append])

lemma explains_place_before:
  assumes ok: "dom_ok d K" and r: "r \<in> set (K p)" "c \<noteq> r"
  shows "explains (serial d) (unlinked_changes d c @ [InsertedChild (serial d) p c r]) K (place_before p c r K)"
proof -
  have "r \<noteq> 0" using forest_child(3)[OF ok[unfolded dom_ok_def] r(1)] .
  moreover have "r \<in> set (detach c K p)" using r by (simp add: detach_def)
  ultimately show ?thesis
    unfolding place_before_def by (intro explains_trans[OF explains_unlinked'[OF ok] explains_insert])
qed

subsection \<open>Allocation\<close>

lemma link_of_node_at:
  assumes "node_at e = (node_at d)(i \<mapsto> new_node tag x)"
  shows "link_of e = (link_of d)(i \<mapsto> (None, 0, 0))" "ends_of e = (ends_of d)(i \<mapsto> (None, None))"
    "content e = (content d)(i \<mapsto> (tag, x))"
  by (simp_all add: fun_eq_iff link_of_def ends_of_def content_def assms new_node_def)

lemma alloc_shape:
  assumes "alloc_node tag x d = (i, e)" "\<And>j. j \<in> set (free_list d) \<Longrightarrow> j < length (nodes d)"
  obtains (reused) "free_list d \<noteq> []" "i = last (free_list d)" "free_list e = butlast (free_list d)"
      "tag_index e = tag_index d" "log_of e = push_change (ResetNode (serial d) i) (log_of d)"
      "length (nodes e) = length (nodes d)" "serial e = serial d" "node_at e = (node_at d)(i \<mapsto> new_node tag x)"
  | (fresh) "free_list d = []" "i = length (nodes d)" "free_list e = []"
      "tag_index e = (tag_index d)(tag := tag_index d tag @ [i])" "log_of e = log_of d"
      "length (nodes e) = Suc (length (nodes d))" "serial e = serial d" "node_at e = (node_at d)(i \<mapsto> new_node tag x)"
proof (cases "free_list d = []")
  case True
  have e: "i = length (nodes d)" "e = d\<lparr>nodes := nodes d @ [Some (new_node tag x)],
      tag_index := (tag_index d)(tag := tag_index d tag @ [length (nodes d)])\<rparr>"
    using True assms(1) by (auto simp: alloc_node_def Let_def)
  have "node_at e = (node_at d)(i \<mapsto> new_node tag x)"
    by (auto simp: e node_at_def fun_eq_iff nth_append)
  with True show ?thesis by (intro fresh) (simp_all add: e log_of_def)
next
  case False
  define d' where "d' = d\<lparr>free_list := butlast (free_list d), nodes := (nodes d)[last (free_list d) := Some (new_node tag x)]\<rparr>"
  have e: "e = log_child_change (ResetNode (serial d) i) d'" "i = last (free_list d)"
    using assms(1) False by (auto simp: alloc_node_def d'_def Let_def)
  have "i < length (nodes d)" using assms(2) False e(2) by simp
  then have "node_at d' = (node_at d)(i \<mapsto> new_node tag x)"
    by (auto simp: d'_def e(2) node_at_def fun_eq_iff)
  moreover have "free_list e = free_list d'" "tag_index e = tag_index d'" "length (nodes e) = length (nodes d')"
    by (auto simp: e(1) log_child_change_def bump_structure_tick_def Let_def split: list.split)
  moreover have "log_of d' = log_of d" "serial d' = serial d" by (simp_all add: d'_def log_of_def)
  ultimately show ?thesis using False e(2) by (intro reused) (simp_all add: e(1) log_of_change, simp_all add: d'_def)
qed

lemma alloc_node_ok:
  assumes ok: "arena_ok d K" and run: "alloc_node tag x d = (i, e)"
  shows "node_at d i = None" "i \<noteq> 0" "content e = (content d)(i \<mapsto> (tag, x))" "tracked d K e K" "K i = []"
proof -
  note A = arena_okD[OF ok]
  have free: "\<And>j. j \<in> set (free_list d) \<Longrightarrow> j < length (nodes d)" using A(4) by blast
  have dead: "node_at d i = None \<and> i \<noteq> 0 \<and> node_at e = (node_at d)(i \<mapsto> new_node tag x)"
  proof (rule alloc_shape[OF run free])
    assume "free_list d \<noteq> []" "i = last (free_list d)" "node_at e = (node_at d)(i \<mapsto> new_node tag x)"
    moreover from this have "node_at d i = None" using A(4) by auto
    ultimately show ?thesis using A(2) by (cases "i = 0") auto
  next
    assume "i = length (nodes d)" "node_at e = (node_at d)(i \<mapsto> new_node tag x)"
    then show ?thesis using A(2) by (auto simp: node_at_def split: if_splits)
  qed
  then show "node_at d i = None" "i \<noteq> 0" by simp_all
  note proj = link_of_node_at[OF dead[THEN conjunct2, THEN conjunct2]]
  show "content e = (content d)(i \<mapsto> (tag, x))" using proj(3) .
  have none: "link_of d i = None" using dead by (simp add: link_of_def)
  show "K i = []" using forestD(4)[OF A(1)[unfolded dom_ok_def], of i] none by auto
  have "dom_ok e K"
    using forest_add[OF A(1)[unfolded dom_ok_def] none] by (simp add: dom_ok_def proj)
  moreover have "node_at e 0 \<noteq> None" using dead A(2) by simp
  moreover have "distinct (free_list e) \<and> (\<forall>j\<in>set (free_list e). j < length (nodes e) \<and> node_at e j = None)"
  proof (rule alloc_shape[OF run free])
    assume *: "free_list d \<noteq> []" "i = last (free_list d)" "free_list e = butlast (free_list d)"
      "length (nodes e) = length (nodes d)" "node_at e = (node_at d)(i \<mapsto> new_node tag x)"
    then have "free_list d = free_list e @ [i]" by simp
    then show ?thesis using A(3,4) * by (metis UnCI distinct_append fun_upd_apply disjoint_iff list.set_intros(1) set_append)
  next
    assume "free_list e = []"
    then show ?thesis by simp
  qed
  moreover have "\<exists>y. content e j = Some (tag', y)" if j: "j \<in> set (tag_index e tag')" for tag' j
  proof (rule alloc_shape[OF run free])
    assume "tag_index e = tag_index d"
    then have "\<exists>y. content d j = Some (tag', y)" using A(5) j by simp
    then show ?thesis using dead by (auto simp: proj(3)) (auto simp: content_def)
  next
    assume "tag_index e = (tag_index d)(tag := tag_index d tag @ [i])"
    then have "tag' = tag \<and> j = i \<or> (\<exists>y. content d j = Some (tag', y))" using A(5) j by (auto split: if_splits)
    then show ?thesis using dead by (auto simp: proj(3)) (auto simp: content_def)
  qed
  ultimately have "arena_ok e K" by (simp add: arena_ok_def)
  moreover have "log_run (log_of d) (if free_list d = [] then [] else [ResetNode (serial d) i]) (log_of e) \<and> serial e = serial d"
    by (rule alloc_shape[OF run free]) (use log_run.push[OF log_run.start] log_run.start in auto)
  moreover have "explains (serial d) (if free_list d = [] then [] else [ResetNode (serial d) i]) K K"
    by (simp add: explains_reset)
  ultimately show "tracked d K e K" using trackedI by blast
qed

lemma reused_slot_unlisted:
  assumes ok: "arena_ok d K" and run: "alloc_node tag x d = (i, e)" "free_list d \<noteq> []"
  shows "i \<notin> set (get_elements_by_tag_name tag' e)"
proof -
  have free: "\<And>j. j \<in> set (free_list d) \<Longrightarrow> j < length (nodes d)" using arena_okD(4)[OF ok] by blast
  have "tag_index e = tag_index d" by (rule alloc_shape[OF run(1) free]) (use run(2) in auto)
  moreover have "content d i = None" using alloc_node_ok(1)[OF ok run(1)] by (simp add: content_def)
  ultimately show ?thesis using arena_okD(5)[OF ok, of i tag'] by (auto simp: get_elements_by_tag_name_def)
qed

end
