(* ===== verification/DomRemove.thy ===== *)
theory DomRemove
  imports DomArena
begin

text \<open>
  Removing a node with everything below it: as many nested calls as the subtree has nodes are enough, the
  lists of children lose the subtree, its slots are given back and its edits are logged.
\<close>

subsection \<open>Subtrees\<close>

definition kin :: "(nat \<Rightarrow> nat list) \<Rightarrow> (nat \<times> nat) set" where
  "kin K = {(c, p). c \<in> set (K p)}"

definition below :: "(nat \<Rightarrow> nat list) \<Rightarrow> nat \<Rightarrow> nat set" where
  "below K i = {x. (x, i) \<in> (kin K)\<^sup>*}"

definition prune :: "nat set \<Rightarrow> (nat \<Rightarrow> nat list) \<Rightarrow> nat \<Rightarrow> nat list" where
  "prune S K = (\<lambda>p. if p \<in> S then [] else filter (\<lambda>x. x \<notin> S) (K p))"

lemma up_kin: "dom_ok d K \<Longrightarrow> up (link_of d) = kin K"
  using up_iff[of "link_of d" "ends_of d" K] by (auto simp: dom_ok_def kin_def)

lemma kin_prune: "kin (prune S K) = {(c, p) \<in> kin K. c \<notin> S \<and> p \<notin> S}"
  by (auto simp: kin_def prune_def)

lemma prune_prune: "prune T (prune S K) = prune (S \<union> T) K"
  by (auto simp: prune_def fun_eq_iff intro: filter_cong)

lemma prune_empty [simp]: "prune {} K = K"
  by (simp add: prune_def)

lemma below_self [simp]: "i \<in> below K i"
  by (simp add: below_def)

lemma below_closed: "x \<in> below K i \<Longrightarrow> (y, x) \<in> kin K \<Longrightarrow> y \<in> below K i"
  unfolding below_def by (auto intro: converse_rtrancl_into_rtrancl)

lemma below_child: "c \<in> set (K i) \<Longrightarrow> below K c \<subseteq> below K i"
  unfolding below_def by (auto simp: kin_def intro: rtrancl_into_rtrancl)

lemma below_eq: "below K i = insert i (\<Union>c\<in>set (K i). below K c)"
  unfolding below_def by (auto simp: kin_def elim: rtranclE intro: rtrancl_into_rtrancl)

text \<open>Pruning a set that is closed downwards leaves the rest of every subtree.\<close>

lemma below_prune:
  assumes closed: "\<And>x y. x \<in> S \<Longrightarrow> (y, x) \<in> kin K \<Longrightarrow> y \<in> S" and i: "i \<notin> S"
  shows "below (prune S K) i = below K i - S"
proof (intro equalityI subsetI)
  fix x assume "x \<in> below (prune S K) i"
  then have "(x, i) \<in> (kin (prune S K))\<^sup>*" by (simp add: below_def)
  then show "x \<in> below K i - S"
  proof (induction rule: converse_rtrancl_induct)
    case base
    show ?case using i by simp
  next
    case (step y z)
    then show ?case using below_closed[of z K i y] by (auto simp: kin_prune)
  qed
next
  fix x assume x: "x \<in> below K i - S"
  then have "(x, i) \<in> (kin K)\<^sup>*" by (simp add: below_def)
  then have "x \<notin> S \<longrightarrow> (x, i) \<in> (kin (prune S K))\<^sup>*"
  proof (induction rule: converse_rtrancl_induct)
    case (step y z)
    have "z \<notin> S" if "y \<notin> S" using closed step.hyps(1) that by blast
    then show ?case using step by (auto simp: kin_prune intro: converse_rtrancl_into_rtrancl)
  qed simp
  then show "x \<in> below (prune S K) i" using x by (simp add: below_def)
qed

lemma kin_acyclic: "dom_ok d K \<Longrightarrow> acyclic (kin K)"
  using forestD(3)[of "link_of d" "ends_of d" K] up_kin[of d K] by (simp add: dom_ok_def)

lemma parent_below: "dom_ok d K \<Longrightarrow> i \<notin> below K c" if "c \<in> set (K i)" for d :: "'x Document"
proof
  assume ok: "dom_ok d K" and "i \<in> below K c"
  then have "(i, c) \<in> (kin K)\<^sup>*" "(c, i) \<in> kin K" using that by (simp_all add: below_def kin_def)
  then have "(c, c) \<in> (kin K)\<^sup>+" by (meson rtrancl_into_trancl2)
  with kin_acyclic[OF ok] show False by (auto simp: acyclic_def)
qed

lemma siblings_apart:
  assumes ok: "dom_ok d K" and c: "c \<in> set (K i)" "c' \<in> set (K i)" "c' \<in> below K c"
  shows "c' = c"
proof (rule ccontr)
  assume "c' \<noteq> c"
  moreover have "(c', c) \<in> (kin K)\<^sup>*" using c(3) by (simp add: below_def)
  ultimately obtain q where q: "(c', q) \<in> kin K" "(q, c) \<in> (kin K)\<^sup>*" by (auto elim: converse_rtranclE)
  have "q = i" using forest_unique[OF ok[unfolded dom_ok_def] c(2), of q] q(1) by (simp add: kin_def)
  then show False using parent_below[OF c(1) ok] q(2) by (simp add: below_def)
qed

lemma below_live:
  assumes ok: "dom_ok d K" and i: "i \<in> dom (link_of d)"
  shows "below K i \<subseteq> dom (link_of d)"
proof
  fix x assume "x \<in> below K i"
  then have "(x, i) \<in> (kin K)\<^sup>*" by (simp add: below_def)
  then show "x \<in> dom (link_of d)"
    by (cases rule: converse_rtranclE)
      (use i forest_live[OF ok[unfolded dom_ok_def]] in \<open>auto simp: kin_def\<close>)
qed

lemma below_finite: "dom_ok d K \<Longrightarrow> i \<in> dom (link_of d) \<Longrightarrow> finite (below K i)"
  using below_live forestD(1) finite_subset unfolding dom_ok_def by metis

lemma card_below_child:
  assumes ok: "dom_ok d K" and i: "i \<in> dom (link_of d)" and c: "c \<in> set (K i)"
  shows "card (below K c) < card (below K i)"
proof -
  have "below K c \<subset> below K i" using below_child[of c K i] c parent_below[OF c ok] by fastforce
  then show ?thesis using psubset_card_mono[OF below_finite[OF ok i]] by blast
qed

lemma card_below:
  assumes "dom_ok d K" "i \<in> dom (link_of d)"
  shows "card (below K i) \<le> length (nodes d)"
proof -
  have "below K i \<subseteq> {..<length (nodes d)}"
    using below_live[OF assms] by (auto simp: link_of_def node_at_def split: if_splits)
  then show ?thesis using card_mono[of "{..<length (nodes d)}"] by fastforce
qed

subsection \<open>Giving back a slot\<close>

text \<open>\<open>removed S d K e\<close>: the nodes of \<open>S\<close> are gone, with their slots on the free list.\<close>

definition removed :: "nat set \<Rightarrow> 'x Document \<Rightarrow> (nat \<Rightarrow> nat list) \<Rightarrow> 'x Document \<Rightarrow> bool" where
  "removed S d K e \<longleftrightarrow> tracked d K e (prune S K) \<and> content e = content d |` (- S) \<and>
     length (nodes e) = length (nodes d) \<and> set (free_list e) = set (free_list d) \<union> S"

lemma removed_refl: "arena_ok d K \<Longrightarrow> removed {} d K d"
  by (simp add: removed_def tracked_refl restrict_map_def)

lemma removed_trans: "removed S d K e \<Longrightarrow> removed T e (prune S K) f \<Longrightarrow> removed (S \<union> T) d K f"
  unfolding removed_def prune_prune using tracked_trans by (auto simp: Un_assoc)

lemma dom_content: "dom (content d) = dom (link_of d)"
  by (rule content_dom)

lemma removed_live: "removed S d K e \<Longrightarrow> dom (link_of e) = dom (link_of d) - S"
  unfolding removed_def by (metis content_dom dom_restrict Diff_eq)

lemma free_node_result:
  assumes "node_at e c \<noteq> None"
  obtains f where "free_node c e = Ok f" "node_at f = (node_at e)(c := None)" "free_list f = free_list e @ [c]"
    "length (nodes f) = length (nodes e)" "serial f = serial e" "log_of f = log_of e"
    "\<forall>tag i. i \<in> set (tag_index f tag) \<longleftrightarrow> i \<in> set (tag_index e tag) \<and> (i = c \<longrightarrow> map_option fst (content e c) \<noteq> Some tag)"
proof -
  obtain n where n: "c < length (nodes e)" "nodes e ! c = Some n"
    using assms by (auto simp: node_at_def split: if_splits)
  let ?f = "e\<lparr>tag_index := (tag_index e)(node_tag n := removeAll c (tag_index e (node_tag n))),
    nodes := (nodes e)[c := None], free_list := free_list e @ [c]\<rparr>"
  have "free_node c e = Ok ?f" using n by (simp add: free_node_def)
  moreover have "node_at ?f = (node_at e)(c := None)" using n(1) by (auto simp: node_at_def fun_eq_iff)
  moreover have "content e c = Some (node_tag n, node_data n)" using n by (simp add: content_def node_at_def)
  ultimately show thesis by (intro that[of ?f]) (auto simp: log_of_def)
qed

lemma unlink_free:
  assumes ok: "arena_ok d K" and i: "i \<in> dom (link_of d)" "i \<noteq> 0" "K i = []"
  obtains e f where "unlink_from_parent i d = Ok e" "free_node i e = Ok f" "removed {i} d K f"
proof -
  note A = arena_okD[OF ok]
  obtain q a b where l: "link_of d i = Some (q, a, b)" using i(1) by auto
  obtain e where e: "unlink_from_parent i d = Ok e" "link_of e = cut_links i a b q (link_of d)"
    "forest (cut_links i a b None (link_of d)) (ends_of e) (detach i K)"
    "content e = content d" "serial e = serial d" "length (nodes e) = length (nodes d)" "free_list e = free_list d"
    "tag_index e = tag_index d" "log_run (log_of d) (unlinked_changes d i) (log_of e)"
    using unlink_loose[OF A(1) l] .
  have live: "node_at e i \<noteq> None" unfolding live_iff e(2) by simp
  have same: "node_at e j = None \<longleftrightarrow> node_at d j = None" for j
    using fun_cong[OF e(4), of j] by (cases "node_at e j"; cases "node_at d j") (simp_all add: content_def)
  obtain f where f: "free_node i e = Ok f" "node_at f = (node_at e)(i := None)" "free_list f = free_list e @ [i]"
    "length (nodes f) = length (nodes e)" "serial f = serial e" "log_of f = log_of e"
    "\<forall>tag j. j \<in> set (tag_index f tag) \<longleftrightarrow> j \<in> set (tag_index e tag) \<and> (j = i \<longrightarrow> map_option fst (content e i) \<noteq> Some tag)"
    by (rule free_node_result[OF live])
  have proj: "link_of f = (link_of e)(i := None)" "ends_of f = (ends_of e)(i := None)" "content f = (content e)(i := None)"
    by (simp_all add: fun_eq_iff link_of_def ends_of_def content_def f(2))
  have "link_of f = (cut_links i a b None (link_of d))(i := None)"
    by (simp add: proj(1) e(2) fun_eq_iff cut_links_def)
  moreover have "detach i K i = []" using i(3) by (simp add: detach_def)
  ultimately have "dom_ok f (detach i K)"
    using forest_drop[OF e(3), of i] by (simp add: dom_ok_def proj(2) cut_links_def)
  moreover have "detach i K = prune {i} K"
    using forestD(5)[OF A(1)[unfolded dom_ok_def]] i(3)
    by (auto simp: fun_eq_iff detach_def prune_def distinct_remove1_removeAll removeAll_filter_not_eq intro: filter_cong)
  moreover have len: "i < length (nodes d)" using live e(6) by (auto simp: node_at_def split: if_splits)
  moreover have "i \<notin> set (free_list d)" using A(4)[of i] live same by auto
  then have "distinct (free_list f) \<and> (\<forall>j\<in>set (free_list f). j < length (nodes f) \<and> node_at f j = None)"
    using A(3,4) same len by (auto simp: f(2-4) e(6,7))
  moreover have "\<exists>x. content f j = Some (tag, x)" if j: "j \<in> set (tag_index f tag)" for j tag
  proof -
    have jd: "j \<in> set (tag_index d tag)" "j = i \<longrightarrow> map_option fst (content d i) \<noteq> Some tag"
      using j f(7) by (simp_all add: e(4,8))
    from A(5)[OF jd(1)] obtain x where x: "content d j = Some (tag, x)" ..
    with jd(2) have "j \<noteq> i" by auto
    with x show ?thesis by (simp add: proj(3) e(4))
  qed
  moreover have "node_at f 0 \<noteq> None" using A(2) same i(2) by (simp add: f(2))
  ultimately have "arena_ok f (prune {i} K)" by (simp add: arena_ok_def)
  moreover have "explains (serial d) (unlinked_changes d i) K (prune {i} K)"
    using explains_unlinked'[OF A(1), of i] \<open>detach i K = prune {i} K\<close> by simp
  ultimately have "tracked d K f (prune {i} K)" using e(5,9) f(5,6) by (intro trackedI) simp_all
  moreover have "content f = content d |` (- {i})" by (simp add: proj(3) e(4) restrict_complement_singleton_eq)
  ultimately have "removed {i} d K f" by (simp add: removed_def f(3,4) e(6,7))
  with e(1) f(1) show thesis by (intro that)
qed

subsection \<open>Removing a subtree\<close>

lemma remove_nodes_inner_ok:
  assumes step: "\<And>(d :: 'x Document) K c. arena_ok d K \<Longrightarrow> c \<in> dom (link_of d) \<Longrightarrow> c \<noteq> 0 \<Longrightarrow> card (below K c) \<le> fuel \<Longrightarrow>
      \<exists>e. remove_node_inner fuel c d = Some (Ok e) \<and> removed (below K c) d K e"
  shows "arena_ok (d :: 'x Document) K \<Longrightarrow> distinct cs \<Longrightarrow>
    (\<And>c. c \<in> set cs \<Longrightarrow> c \<in> dom (link_of d) \<and> c \<noteq> 0 \<and> card (below K c) \<le> fuel) \<Longrightarrow>
    (\<And>c c'. c \<in> set cs \<Longrightarrow> c' \<in> set cs \<Longrightarrow> c' \<in> below K c \<Longrightarrow> c' = c) \<Longrightarrow>
    \<exists>e. remove_nodes_inner fuel cs d = Some (Ok e) \<and> removed (\<Union>c\<in>set cs. below K c) d K e"
proof (induction cs arbitrary: d K)
  case Nil
  then show ?case using removed_refl by simp
next
  case (Cons c cs)
  let ?S = "below K c"
  obtain e where e: "remove_node_inner fuel c d = Some (Ok e)" "removed ?S d K e"
    using step[OF Cons.prems(1), of c] Cons.prems(3)[of c] by auto
  have ok: "arena_ok e (prune ?S K)" using e(2) by (auto simp: removed_def tracked_def)
  have out: "c' \<notin> ?S" if "c' \<in> set cs" for c' using Cons.prems(2,4) that by auto
  have sub: "below (prune ?S K) c' = below K c' - ?S" if "c' \<in> set cs" for c'
    using below_prune[of ?S K c'] below_closed out[OF that] by blast
  have fin: "finite (below K c')" if "c' \<in> set cs" for c'
    using below_finite[OF arena_okD(1)[OF Cons.prems(1)]] Cons.prems(3) that by simp
  have "\<exists>f. remove_nodes_inner fuel cs e = Some (Ok f) \<and> removed (\<Union>c'\<in>set cs. below (prune ?S K) c') e (prune ?S K) f"
  proof (rule Cons.IH[OF ok])
    show "distinct cs" using Cons.prems(2) by simp
    fix c' assume c': "c' \<in> set cs"
    have "card (below (prune ?S K) c') \<le> card (below K c')" unfolding sub[OF c'] by (rule card_mono[OF fin[OF c']]) auto
    then show "c' \<in> dom (link_of e) \<and> c' \<noteq> 0 \<and> card (below (prune ?S K) c') \<le> fuel"
      using Cons.prems(3)[of c'] c' out[OF c'] unfolding removed_live[OF e(2)] by auto
    fix c'' assume "c'' \<in> set cs" "c'' \<in> below (prune ?S K) c'"
    then show "c'' = c'" using Cons.prems(4)[of c' c''] c' sub[OF c'] by simp
  qed
  then obtain f where f: "remove_nodes_inner fuel cs e = Some (Ok f)"
    "removed (\<Union>c'\<in>set cs. below (prune ?S K) c') e (prune ?S K) f" by blast
  have "?S \<union> (\<Union>c'\<in>set cs. below (prune ?S K) c') = (\<Union>c'\<in>set (c # cs). below K c')"
    using sub by auto
  then have "removed (\<Union>c'\<in>set (c # cs). below K c') d K f" using removed_trans[OF e(2) f(2)] by simp
  then show ?case using e(1) f(1) by simp
qed

lemma remove_node_inner_ok:
  "arena_ok d K \<Longrightarrow> i \<in> dom (link_of d) \<Longrightarrow> i \<noteq> 0 \<Longrightarrow> card (below K i) \<le> fuel \<Longrightarrow>
    \<exists>e. remove_node_inner fuel i d = Some (Ok e) \<and> removed (below K i) d K e"
proof (induction fuel arbitrary: d K i)
  case 0
  then have "below K i = {}" using below_finite[OF arena_okD(1)[OF 0(1)] 0(2)] by simp
  then show ?case using below_self by blast
next
  case (Suc fuel)
  note ok = arena_okD(1)[OF Suc.prems(1)] and i = Suc.prems(2)
  note F = ok[unfolded dom_ok_def]
  let ?S = "\<Union>c\<in>set (K i). below K c"
  have "\<exists>e. remove_nodes_inner fuel (K i) d = Some (Ok e) \<and> removed ?S d K e"
  proof (rule remove_nodes_inner_ok[OF Suc.IH Suc.prems(1) forestD(5)[OF F]])
    fix c assume c: "c \<in> set (K i)"
    show "c \<in> dom (link_of d) \<and> c \<noteq> 0 \<and> card (below K c) \<le> fuel"
      using card_below_child[OF ok i c] Suc.prems(4) forest_live[OF F c] forest_child(3)[OF F c] by simp
    fix c' assume "c' \<in> set (K i)" "c' \<in> below K c"
    then show "c' = c" using siblings_apart[OF ok c] by blast
  qed
  then obtain e where e: "remove_nodes_inner fuel (K i) d = Some (Ok e)" "removed ?S d K e" by blast
  have "arena_ok e (prune ?S K)" using e(2) by (auto simp: removed_def tracked_def)
  moreover have iS: "i \<notin> ?S" using parent_below[OF _ ok] by blast
  then have "i \<in> dom (link_of e)" using i unfolding removed_live[OF e(2)] by blast
  moreover have "prune ?S K i = []" using iS by (auto simp: prune_def intro!: filter_False)
  ultimately obtain f g where f: "unlink_from_parent i e = Ok f" "free_node i f = Ok g" "removed {i} e (prune ?S K) g"
    using unlink_free[OF _ _ Suc.prems(3)] by blast
  have "removed (below K i) d K g" using removed_trans[OF e(2) f(3)] below_eq[of K i] by simp
  moreover have "remove_node_inner (Suc fuel) i d = Some (Ok g)"
    using children_ids_ok[OF ok i] e(1) f(1,2) by simp
  ultimately show ?case by blast
qed

lemma removed_note: "removed S (add_note n d) K e \<longleftrightarrow> removed S d K e"
  by (simp add: removed_def tracked_def)

lemma arena_note [simp]: "arena_ok (add_note n d) K \<longleftrightarrow> arena_ok d K"
  by (simp add: arena_ok_def)

lemma remove_node_ok:
  assumes ok: "arena_ok d K" and i: "i \<in> dom (link_of d)" "i \<noteq> 0" and fuel: "length (nodes d) \<le> fuel"
  shows "\<exists>e. remove_node fuel i d = Some (Ok e) \<and> removed (below K i) d K e"
proof -
  obtain n where n: "node_at d i = Some n" using i(1) by (auto simp: link_of_def)
  have card: "card (below K i) \<le> fuel" using card_below[OF arena_okD(1)[OF ok] i(1)] fuel by simp
  let ?d = "case parent n of Some p \<Rightarrow> add_note (MarkDirty p) d | None \<Rightarrow> d"
  have "arena_ok ?d K" "link_of ?d = link_of d" using ok by (auto split: option.split)
  then obtain e where "remove_node_inner fuel i ?d = Some (Ok e)" "removed (below K i) ?d K e"
    using remove_node_inner_ok[of ?d K i fuel] i card by metis
  then show ?thesis using n by (auto simp: remove_node_def get_node_def removed_note split: option.splits)
qed

end
