(* ===== verification/DomLog.thy ===== *)
theory DomLog
  imports DomRemove
begin

text \<open>
  The log of child-list edits as a contract between the tree and the caches of child lists: whatever is
  replayed from the log over a list that was right at a tick makes it right now, or gives up.  The contract
  is the locale \<open>child_list_log\<close>; the tree provides it by the edits it logs, a cache relies on it.
\<close>

subsection \<open>Lists of children\<close>

definition kids :: "'x Document \<Rightarrow> nat \<Rightarrow> nat list" where
  "kids d p = (case children_ids p d of Some (Ok cs) \<Rightarrow> cs | _ \<Rightarrow> [])"

lemma children_dead: "node_at d p = None \<Longrightarrow> children_ids p d = Some (Err NoSuchNode)"
  by (simp add: children_ids_def get_node_def)

lemma dom_ok_kids: "dom_ok d K \<Longrightarrow> K = kids d"
proof
  fix p assume ok: "dom_ok d K"
  show "K p = kids d p"
  proof (cases "p \<in> dom (link_of d)")
    case True
    then show ?thesis using children_ids_ok[OF ok True] by (simp add: kids_def)
  next
    case False
    then have "node_at d p = None" using live_iff by blast
    then show ?thesis using forestD(4)[OF ok[unfolded dom_ok_def] False] by (simp add: kids_def children_dead)
  qed
qed

lemma arena_kids: "arena_ok d K \<Longrightarrow> K = kids d"
  using dom_ok_kids arena_okD(1) by blast

subsection \<open>The log\<close>

fun log_ok :: "child_log \<Rightarrow> bool" where
  "log_ok (t, s, es) \<longleftrightarrow> sorted_wrt (<) (map fst es) \<and> (\<forall>u\<in>fst ` set es. s \<le> u \<and> u < t) \<and> s \<le> t"

fun since :: "nat \<Rightarrow> child_log \<Rightarrow> ChildListChange list" where
  "since g (t, s, es) = map snd (filter (\<lambda>e. g \<le> fst e) es)"

abbreviation log_tick :: "child_log \<Rightarrow> nat" where "log_tick l \<equiv> fst l"
abbreviation log_first :: "child_log \<Rightarrow> nat" where "log_first l \<equiv> fst (snd l)"

lemma push_change_ok:
  assumes "log_ok l"
  shows "log_ok (push_change c l)" "log_first l \<le> log_first (push_change c l)" "log_tick (push_change c l) = Suc (log_tick l)"
    "g \<le> log_tick l \<Longrightarrow> log_first (push_change c l) \<le> g \<Longrightarrow> since g (push_change c l) = since g l @ [c]"
proof -
  obtain t s es where l: "l = (t, s, es)" by (cases l)
  have "log_ok (push_change c l) \<and> log_first l \<le> log_first (push_change c l) \<and> log_tick (push_change c l) = Suc (log_tick l) \<and>
    (g \<le> log_tick l \<longrightarrow> log_first (push_change c l) \<le> g \<longrightarrow> since g (push_change c l) = since g l @ [c])"
    using assms unfolding l by (cases es) (auto simp: sorted_wrt_append Suc_le_eq less_imp_le)
  then show "log_ok (push_change c l)" "log_first l \<le> log_first (push_change c l)" "log_tick (push_change c l) = Suc (log_tick l)"
    "g \<le> log_tick l \<Longrightarrow> log_first (push_change c l) \<le> g \<Longrightarrow> since g (push_change c l) = since g l @ [c]"
    by blast+
qed

lemma log_run_ok:
  "log_run l cs l' \<Longrightarrow> log_ok l \<Longrightarrow> log_ok l' \<and> log_first l \<le> log_first l' \<and> log_tick l \<le> log_tick l' \<and>
    (\<forall>g. g \<le> log_tick l \<longrightarrow> log_first l' \<le> g \<longrightarrow> since g l' = since g l @ cs)"
proof (induction rule: log_run.induct)
  case (bump l cs t s es)
  then show ?case by fastforce
next
  case (push l cs l' c)
  then have IH: "log_ok l'" "log_first l \<le> log_first l'" "log_tick l \<le> log_tick l'"
    "\<And>g. g \<le> log_tick l \<Longrightarrow> log_first l' \<le> g \<Longrightarrow> since g l' = since g l @ cs" by auto
  note P = push_change_ok[OF IH(1), where c = c]
  have "since g (push_change c l') = since g l @ cs @ [c]" if "g \<le> log_tick l" "log_first (push_change c l') \<le> g" for g
    using P(4) IH(4) that IH(3) P(2) by simp
  then show ?case using P(1-3) IH(2,3) by simp
qed auto

lemma dropWhile_sorted: "sorted_wrt (<) (map fst es) \<Longrightarrow> dropWhile (\<lambda>(u, _). u < (g :: nat)) es = filter (\<lambda>e. g \<le> fst e) es"
proof (induction es)
  case (Cons e es)
  show ?case
  proof (cases "fst e < g")
    case False
    have "g \<le> fst x" if "x \<in> set es" for x
    proof -
      have "fst e < fst x" using Cons.prems that by simp
      then show ?thesis using False by simp
    qed
    then have "filter (\<lambda>e. g \<le> fst e) es = es" by (simp add: filter_id_conv)
    then show ?thesis using False by (simp add: case_prod_unfold)
  qed (use Cons in \<open>auto simp: case_prod_unfold\<close>)
qed simp

lemma replay_since:
  assumes "log_ok (log_of d)"
  shows "replay_child_changes_since g limit d = Some cs \<longleftrightarrow>
    log_start d \<le> g \<and> length (since g (log_of d)) \<le> limit \<and> cs = since g (log_of d)"
  using assms dropWhile_sorted[of "log_entries d" g]
  by (auto simp: replay_child_changes_since_def log_of_def Let_def)

subsection \<open>The contract\<close>

locale child_list_log =
  fixes now :: "'d \<Rightarrow> nat" and doc :: "'d \<Rightarrow> nat" and lists :: "'d \<Rightarrow> nat \<Rightarrow> nat list"
    and replay :: "nat \<Rightarrow> 'd \<Rightarrow> ChildListChange list option" and valid :: "'d \<Rightarrow> bool" and edit :: "'d \<Rightarrow> 'd \<Rightarrow> bool"
  assumes edit_keeps: "edit d e \<Longrightarrow> valid e \<and> doc e = doc d \<and> now d \<le> now e"
    and replay_now: "valid d \<Longrightarrow> replay (now d) d = Some []"
    and replay_edit: "edit d e \<Longrightarrow> g \<le> now d \<Longrightarrow> replay g e = Some cs \<Longrightarrow>
      \<exists>cs1 cs2. replay g d = Some cs1 \<and> cs = cs1 @ cs2 \<and> explains (doc d) cs2 (lists d) (lists e)"
begin

definition follows :: "'d \<Rightarrow> nat \<Rightarrow> nat \<Rightarrow> nat list \<Rightarrow> bool" where
  "follows d p g ids \<longleftrightarrow> g \<le> now d \<and>
     (\<forall>cs. replay g d = Some cs \<longrightarrow> patch_changes (doc d) p ids cs \<in> {None, Some (lists d p)})"

lemma follows_fresh: "valid d \<Longrightarrow> follows d p (now d) (lists d p)"
  using replay_now by (simp add: follows_def)

lemma follows_now: "valid d \<Longrightarrow> follows d p (now d) ids \<Longrightarrow> ids = lists d p"
  using replay_now unfolding follows_def by fastforce

lemma follows_patched: "follows d p g ids \<Longrightarrow> replay g d = Some cs \<Longrightarrow> patch_changes (doc d) p ids cs = Some ids' \<Longrightarrow> ids' = lists d p"
  unfolding follows_def by fastforce

lemma follows_edit:
  assumes "follows d p g ids" "edit d e"
  shows "follows e p g ids"
proof -
  have "patch_changes (doc d) p ids cs \<in> {None, Some (lists e p)}" if cs: "replay g e = Some cs" for cs
  proof -
    obtain cs1 cs2 where split: "replay g d = Some cs1" "cs = cs1 @ cs2" and ex: "explains (doc d) cs2 (lists d) (lists e)"
      using replay_edit[OF assms(2) _ cs] assms(1) by (auto simp: follows_def)
    have "patch_changes (doc d) p ids cs1 \<in> {None, Some (lists d p)}" using assms(1) split(1) by (simp add: follows_def)
    moreover have "patch_changes (doc d) p (lists d p) cs2 \<in> {None, Some (lists e p)}" using ex by (simp add: explains_def)
    ultimately show ?thesis unfolding split(2) patch_changes_append by auto
  qed
  then show ?thesis using assms edit_keeps[OF assms(2)] by (auto simp: follows_def)
qed

end

text \<open>The tree provides it, with the limit that the reader of \<^verbatim>\<open>childNodes\<close> asks for.\<close>

definition tree_ok :: "'x Document \<Rightarrow> bool" where
  "tree_ok d \<longleftrightarrow> arena_ok d (kids d) \<and> log_ok (log_of d)"

definition tree_edit :: "'x Document \<Rightarrow> 'x Document \<Rightarrow> bool" where
  "tree_edit d e \<longleftrightarrow> tree_ok d \<and> tracked d (kids d) e (kids e)"

lemma log_of_fields [simp]: "log_tick (log_of d) = structure_tick d" "log_first (log_of d) = log_start d"
  by (simp_all add: log_of_def)

lemma tree_edit_ok: "tree_edit d e \<Longrightarrow> tree_ok e"
  using log_run_ok trackedD unfolding tree_edit_def tree_ok_def tracked_def by blast

lemma tree_editI: "tree_ok d \<Longrightarrow> tracked d (kids d) e K \<Longrightarrow> tree_edit d e"
  using arena_kids[OF trackedD] by (auto simp: tree_edit_def)

interpretation doc_log: child_list_log structure_tick serial kids "\<lambda>g d. replay_child_changes_since g 64 d" tree_ok tree_edit
proof
  fix d e :: "'x Document" assume ed: "tree_edit d e"
  then obtain cs where run: "log_run (log_of d) cs (log_of e)" "explains (serial d) cs (kids d) (kids e)" "serial e = serial d"
    by (auto simp: tree_edit_def tracked_def)
  have log: "log_ok (log_of d)" using ed by (simp add: tree_edit_def tree_ok_def)
  note R = log_run_ok[OF run(1) log]
  show "tree_ok e \<and> serial e = serial d \<and> structure_tick d \<le> structure_tick e"
    using R tree_edit_ok[OF ed] run(3) by simp
  fix g cs' assume g: "g \<le> structure_tick d" and rep: "replay_child_changes_since g 64 e = Some cs'"
  from rep have cs': "log_start e \<le> g" "length cs' \<le> 64" "cs' = since g (log_of e)"
    using R replay_since[of e g 64 cs'] by auto
  then have eq: "cs' = since g (log_of d) @ cs" using R g by simp
  moreover have "replay_child_changes_since g 64 d = Some (since g (log_of d))"
    using replay_since[OF log] R cs'(1,2) eq by simp
  ultimately show "\<exists>cs1 cs2. replay_child_changes_since g 64 d = Some cs1 \<and> cs' = cs1 @ cs2 \<and>
      explains (serial d) cs2 (kids d) (kids e)"
    using run(2) by blast
next
  fix d :: "'x Document" assume "tree_ok d"
  then have log: "log_ok (log_of d)" by (simp add: tree_ok_def)
  then have "since (structure_tick d) (log_of d) = []" "log_start d \<le> structure_tick d"
    by (auto simp: log_of_def filter_empty_conv)
  then show "replay_child_changes_since (structure_tick d) 64 d = Some []" using replay_since[OF log] by simp
qed

end
