(* ===== verification/DomSession.thy ===== *)
theory DomSession
  imports DomLog
begin

text \<open>
  Sessions of a thread: documents made and reset, nodes created, linked, moved and removed, other documents
  edited, and child lists read through the cache, in any order.
\<close>

subsection \<open>Steps\<close>

definition is_live :: "'x Document \<Rightarrow> nat \<Rightarrow> bool" where
  "is_live d p \<longleftrightarrow> node_at d p \<noteq> None"

fun change_document :: "ChildListChange \<Rightarrow> nat" where
  "change_document (InsertedChild s _ _ _) = s"
| "change_document (RemovedChild s _ _) = s"
| "change_document (ResetNode s _) = s"

text \<open>
  \<open>dom_session n d cache\<close>: with \<open>n\<close> documents made on the thread, \<open>d\<close> is the current one.  Nodes handed in
  are live, slot 0, the document node, is not moved or removed, and the reference of an insertion is a child.
\<close>

inductive dom_session :: "nat \<Rightarrow> 'x Document \<Rightarrow> child_index \<Rightarrow> bool" where
  start: "document_new 1 (1, 0, []) r b = Some (Ok d) \<Longrightarrow> dom_session 1 d None"
| reset: "dom_session n d cache \<Longrightarrow> reset_document n r b d = Some (Ok e) \<Longrightarrow> dom_session (n + 1) e cache"
| other_document: "dom_session n d cache \<Longrightarrow> dom_session (n + 1) d cache"
| other_change: "dom_session n d cache \<Longrightarrow> change_document c \<noteq> serial d \<Longrightarrow> dom_session n (log_child_change c d) cache"
| note_change: "dom_session n d cache \<Longrightarrow> dom_session n (note_structure_change d) cache"
| create: "dom_session n d cache \<Longrightarrow> alloc_node tag x d = (i, e) \<Longrightarrow> dom_session n e cache"
| append: "dom_session n d cache \<Longrightarrow> is_live d p \<Longrightarrow> is_live d c \<Longrightarrow> c \<noteq> 0 \<Longrightarrow>
    append_child p c d = Some (Ok e) \<Longrightarrow> dom_session n e cache"
| insert: "dom_session n d cache \<Longrightarrow> children_ids p d = Some (Ok cs) \<Longrightarrow> r \<in> set cs \<Longrightarrow> is_live d c \<Longrightarrow> c \<noteq> 0 \<Longrightarrow>
    insert_before p c r d = Some (Ok e) \<Longrightarrow> dom_session n e cache"
| replace: "dom_session n d cache \<Longrightarrow> children_ids p d = Some (Ok cs) \<Longrightarrow> r \<in> set cs \<Longrightarrow> is_live d c \<Longrightarrow> c \<noteq> 0 \<Longrightarrow>
    replace_child p c r d = Some (Ok e) \<Longrightarrow> dom_session n e cache"
| remove: "dom_session n d cache \<Longrightarrow> is_live d c \<Longrightarrow> remove_child p c d = Ok e \<Longrightarrow> dom_session n e cache"
| move: "dom_session n d cache \<Longrightarrow> is_live d p \<Longrightarrow> is_live d c \<Longrightarrow>
    move_child_to_end_unnoted p c d = Ok (moved, e) \<Longrightarrow> dom_session n e cache"
| discard: "dom_session n d cache \<Longrightarrow> is_live d i \<Longrightarrow> i \<noteq> 0 \<Longrightarrow>
    remove_node (length (nodes d)) i d = Some (Ok e) \<Longrightarrow> dom_session n e cache"
| read: "dom_session n d cache \<Longrightarrow> is_live d p \<Longrightarrow> child_node_at p i cache d = Some (Ok (res, cache')) \<Longrightarrow>
    dom_session n d cache'"
| count: "dom_session n d cache \<Longrightarrow> is_live d p \<Longrightarrow> child_node_count p cache d = Some (Ok (m, cache')) \<Longrightarrow>
    dom_session n d cache'"

subsection \<open>The invariant\<close>

definition cache_ok :: "nat \<Rightarrow> 'x Document \<Rightarrow> child_index \<Rightarrow> bool" where
  "cache_ok n d cache \<longleftrightarrow> (case cache of None \<Rightarrow> True
     | Some (p, g, ids, s) \<Rightarrow> s \<le> n \<and> (if s = serial d then doc_log.follows d p g ids else g < structure_tick d))"

definition session_ok :: "nat \<Rightarrow> 'x Document \<Rightarrow> child_index \<Rightarrow> bool" where
  "session_ok n d cache \<longleftrightarrow> tree_ok d \<and> serial d \<le> n \<and> cache_ok n d cache"

lemma session_edit:
  assumes "session_ok n d cache" "tree_edit d e"
  shows "session_ok n e cache"
  using assms doc_log.edit_keeps[OF assms(2)] doc_log.follows_edit[OF _ assms(2)]
  by (fastforce simp: session_ok_def cache_ok_def split: option.splits)

lemma session_tracked:
  assumes "session_ok n d cache" "tracked d (kids d) e K"
  shows "session_ok n e cache"
proof (rule session_edit[OF assms(1) tree_editI[OF _ assms(2)]])
  show "tree_ok d" using assms(1) by (simp add: session_ok_def)
qed

lemma session_edited:
  assumes "session_ok n d cache" "edited d cs e K" "explains (serial d) cs (kids d) K"
  shows "session_ok n e cache"
  using session_tracked[OF assms(1) tracked_edited[OF _ assms(2,3)]] assms(1)
  by (auto simp: session_ok_def tree_ok_def)

lemma sessionD:
  assumes "session_ok n d cache"
  shows "arena_ok d (kids d)" "dom_ok d (kids d)" "log_ok (log_of d)"
  using assms arena_okD(1) by (auto simp: session_ok_def tree_ok_def)

lemma live_dom: "is_live d p \<longleftrightarrow> p \<in> dom (link_of d)"
  unfolding is_live_def live_iff ..

lemma children_kids: "session_ok n d cache \<Longrightarrow> is_live d p \<Longrightarrow> children_ids p d = Some (Ok (kids d p))"
  using children_ids_ok[OF sessionD(2)] by (simp add: live_dom)

lemma children_kids_iff: "session_ok n d cache \<Longrightarrow> children_ids p d = Some (Ok cs) \<longleftrightarrow> is_live d p \<and> cs = kids d p"
  using children_kids[of n d cache p] children_dead[of d p] by (cases "node_at d p") (auto simp: is_live_def)

subsection \<open>Every edit keeps it\<close>

lemma session_append:
  assumes ok: "session_ok n d cache" and "is_live d p" "is_live d c" "c \<noteq> 0" "append_child p c d = Some (Ok e)"
  shows "session_ok n e cache"
proof (cases "(p, c) \<in> (up (link_of d))\<^sup>*")
  case True
  then show ?thesis using append_child_ok(1)[OF sessionD(2)[OF ok]] assms by (simp add: live_dom)
next
  case False
  then have "edited d (unlinked_changes d c @ [InsertedChild (serial d) p c 0]) e (place_last p c (kids d))"
    using append_child_ok(2)[OF sessionD(2)[OF ok]] assms by (fastforce simp: live_dom)
  then show ?thesis using session_edited[OF ok _ explains_place_last[OF sessionD(2)[OF ok]]] by blast
qed

lemma session_insert:
  assumes ok: "session_ok n d cache" and r: "r \<in> set (kids d p)" and c: "is_live d c" "c \<noteq> 0"
    and run: "insert_before p c r d = Some (Ok e)"
  shows "session_ok n e cache"
proof -
  note I = insert_before_ok[OF sessionD(2)[OF ok] r c(1)[unfolded live_dom] c(2)]
  consider "c = r \<or> (p, c) \<in> (up (link_of d))\<^sup>*" | "c \<noteq> r" "(p, c) \<notin> (up (link_of d))\<^sup>*" by blast
  then show ?thesis
  proof cases
    case 1
    then have "e = d" using I(1) run by (cases "c = r") (simp_all add: insert_before_def)
    then show ?thesis using ok by simp
  next
    case 2
    then have "edited d (unlinked_changes d c @ [InsertedChild (serial d) p c r]) e (place_before p c r (kids d))"
      using I(2) run by fastforce
    then show ?thesis
      using session_edited[OF ok _ explains_place_before[OF sessionD(2)[OF ok] r 2(1)]] by blast
  qed
qed

lemma session_remove:
  assumes ok: "session_ok n d cache" and c: "is_live d c" and run: "remove_child p c d = Ok e"
  shows "session_ok n e cache"
proof -
  obtain f where "remove_child p c d = Ok f" "edited d (unlinked_changes d c) f (detach c (kids d))"
    using remove_child_ok[OF sessionD(2)[OF ok] c[unfolded live_dom]] .
  then show ?thesis using session_edited[OF ok _ explains_unlinked'[OF sessionD(2)[OF ok]]] run by simp
qed

lemma session_replace:
  assumes ok: "session_ok n d cache" and r: "r \<in> set (kids d p)" and c: "is_live d c" "c \<noteq> 0"
    and run: "replace_child p c r d = Some (Ok e)"
  shows "session_ok n e cache"
proof -
  have rlive: "r \<in> dom (link_of d)" using forest_live[OF sessionD(2)[OF ok, unfolded dom_ok_def] r] .
  obtain f where f: "insert_before p c r d = Some (Ok f)" "remove_child p r f = Ok e" "is_live f r"
  proof (cases "c = r \<or> (p, c) \<in> (up (link_of d))\<^sup>*")
    case True
    then have "insert_before p c r d = Some (Ok d)"
      using insert_before_ok(1)[OF sessionD(2)[OF ok] r c(1)[unfolded live_dom] c(2)]
      by (cases "c = r") (simp_all add: insert_before_def)
    then show thesis using that[of d] run rlive by (simp add: replace_child_def live_dom)
  next
    case False
    then obtain f where "insert_before p c r d = Some (Ok f)"
      "edited d (unlinked_changes d c @ [InsertedChild (serial d) p c r]) f (place_before p c r (kids d))"
      using insert_before_ok(2)[OF sessionD(2)[OF ok] r c(1)[unfolded live_dom] c(2)] by blast
    then show thesis using that[of f] run rlive unfolding live_dom by (simp add: replace_child_def edited_live)
  qed
  show ?thesis using session_remove[OF session_insert[OF ok r c f(1)] f(3,2)] .
qed

lemma session_move:
  assumes ok: "session_ok n d cache" and live: "is_live d p" "is_live d c"
    and run: "move_child_to_end_unnoted p c d = Ok (moved, e)"
  shows "session_ok n e cache"
proof (cases "c \<in> set (kids d p)")
  case False
  then show ?thesis using move_child_to_end_ok(1)[OF sessionD(2)[OF ok]] live run ok by (simp add: live_dom)
next
  case True
  then obtain cs where cs: "edited d cs e (place_last p c (kids d))"
    "cs = [] \<and> place_last p c (kids d) = kids d \<or> cs = unlinked_changes d c @ [InsertedChild (serial d) p c 0]"
    using move_child_to_end_ok(2)[OF sessionD(2)[OF ok] live[unfolded live_dom] True] run by auto
  have "explains (serial d) cs (kids d) (place_last p c (kids d))"
    using cs(2)
  proof
    assume "cs = [] \<and> place_last p c (kids d) = kids d"
    then show ?thesis by (simp only: explains_nil)
  next
    assume "cs = unlinked_changes d c @ [InsertedChild (serial d) p c 0]"
    then show ?thesis using explains_place_last[OF sessionD(2)[OF ok]] by (simp only:)
  qed
  then show ?thesis using session_edited[OF ok cs(1)] by blast
qed

lemma session_discard:
  assumes ok: "session_ok n d cache" and i: "is_live d i" "i \<noteq> 0" and run: "remove_node (length (nodes d)) i d = Some (Ok e)"
  shows "session_ok n e cache"
proof -
  have "removed (below (kids d) i) d (kids d) e"
    using remove_node_ok[OF sessionD(1)[OF ok]] i run by (fastforce simp: live_dom)
  then show ?thesis using session_tracked[OF ok] by (auto simp: removed_def)
qed

lemma log_change_rest [simp]:
  "nodes (log_child_change c d) = nodes d" "free_list (log_child_change c d) = free_list d"
  "tag_index (log_child_change c d) = tag_index d"
  by (simp_all add: log_child_change_def bump_structure_tick_def Let_def split: list.split)

lemma arena_log: "arena_ok (log_child_change c d) K \<longleftrightarrow> arena_ok d K"
  by (simp add: arena_ok_def)

lemma session_log:
  assumes ok: "session_ok n d cache"
  shows "change_document c \<noteq> serial d \<Longrightarrow> session_ok n (log_child_change c d) cache"
    and "session_ok n (note_structure_change d) cache"
proof -
  have "edited d [] (note_structure_change d) (kids d)" using edited_notes(2)[OF edited_refl[OF sessionD(2)[OF ok]]] .
  then show "session_ok n (note_structure_change d) cache" using session_edited[OF ok] by simp
next
  assume "change_document c \<noteq> serial d"
  then have "explains (serial d) [c] (kids d) (kids d)" by (intro explains_foreign) (cases c; simp)
  moreover have "arena_ok (log_child_change c d) (kids d)" using sessionD(1)[OF ok] by (simp only: arena_log)
  ultimately show "session_ok n (log_child_change c d) cache"
    using log_run_change[OF log_run.start, of d c] by (intro session_tracked[OF ok] trackedI) simp_all
qed

end
