(* ===== verification/DomLaws.thy ===== *)
theory DomLaws
  imports DomSession
begin

text \<open>
  What sessions guarantee: the tree stays a forest, edits do to the lists of children what their names
  say, a removed subtree gives its slots back, and the cached lists of children are exact.
\<close>

subsection \<open>New documents\<close>

lemma forest_empty: "forest (\<lambda>_. None) (\<lambda>_. None) (\<lambda>_. [])"
  by (auto simp: forest_def up_def acyclic_def dom_def)

lemma document_new_ok:
  assumes "log_ok log"
  obtains d K cs where "document_new s log r b = Some (Ok d)" "arena_ok d K" "serial d = s" "log_run log cs (log_of d)"
proof -
  define d1 :: "'a Document" where "d1 = (document_empty s log)\<lparr>nodes := [Some (new_node ''#document'' r)],
    tag_index := (\<lambda>_. [])(''#document'' := [0])\<rparr>"
  define d2 where "d2 = d1\<lparr>nodes := [Some (new_node ''#document'' r), Some (new_node ''body'' b)],
    tag_index := (\<lambda>_. [])(''#document'' := [0], ''body'' := [1])\<rparr>"
  have a1: "alloc_node ''#document'' r (document_empty s log) = (0, d1)"
    by (simp add: alloc_node_def document_empty_def d1_def)
  have a2: "alloc_node ''body'' b d1 = (1, d2)"
    by (simp add: alloc_node_def d1_def d2_def document_empty_def)
  have "node_at d1 = (\<lambda>_. None)(0 \<mapsto> new_node ''#document'' r)"
    "node_at d2 = (node_at d1)(1 \<mapsto> new_node ''body'' b)" "node_at (document_empty s log) = (\<lambda>_. None)"
    by (auto simp: fun_eq_iff node_at_def d1_def d2_def document_empty_def less_Suc_eq nth_Cons')
  note at = this
  have proj: "link_of d2 = (\<lambda>_. None)(0 \<mapsto> (None, 0, 0), 1 \<mapsto> (None, 0, 0))"
    "ends_of d2 = (\<lambda>_. None)(0 \<mapsto> (None, None), 1 \<mapsto> (None, None))"
    by (auto simp: fun_eq_iff link_of_def ends_of_def at new_node_def)
  have "forest (link_of d2) (ends_of d2) (\<lambda>_. [])"
    unfolding proj by (intro forest_add[OF forest_add[OF forest_empty]]) simp_all
  then have ok: "arena_ok d2 (\<lambda>_. [])"
    by (auto simp: arena_ok_def dom_ok_def at content_def new_node_def) (simp_all add: d2_def d1_def document_empty_def split: if_splits)
  have "up (link_of d2) = {}" by (auto simp: up_def proj split: if_splits)
  then have "(0, 1) \<notin> (up (link_of d2))\<^sup>*" by simp
  then obtain e where e: "append_child 0 1 d2 = Some (Ok e)"
    "edited d2 (unlinked_changes d2 1 @ [InsertedChild (serial d2) 0 1 0]) e (place_last 0 1 (\<lambda>_. []))"
    using append_child_ok(2)[OF arena_okD(1)[OF ok], of 0 1] by (auto simp: proj)
  have "document_new s log r b = Some (Ok e)" using a1 a2 e(1) by (simp add: document_new_def)
  moreover have "serial d2 = s" "log_of d2 = log" by (simp_all add: d2_def d1_def document_empty_def log_of_def)
  ultimately show thesis using that arena_edited[OF ok e(2)] e(2) by (auto simp: edited_def)
qed

lemma session_new:
  assumes "log_ok log" "s \<le> n" "document_new s log r b = Some (Ok d)"
  shows "tree_ok d" "serial d = s" "log_tick log \<le> structure_tick d"
proof -
  obtain e K cs where e: "document_new s log r b = Some (Ok e)" "arena_ok e K" "serial e = s" "log_run log cs (log_of e)"
    using document_new_ok[OF assms(1)] by metis
  have d: "e = d" using e(1) assms(3) by simp
  note R = log_run_ok[OF e(4) assms(1)]
  show "tree_ok d" using e(2) arena_kids[OF e(2)] R unfolding d tree_ok_def by simp
  show "serial d = s" "log_tick log \<le> structure_tick d" using e(3) R unfolding d by simp_all
qed

lemma bump_projections [simp]:
  "link_of (bump_structure_tick d) = link_of d" "ends_of (bump_structure_tick d) = ends_of d"
  "content (bump_structure_tick d) = content d"
  by (simp_all add: fun_eq_iff link_of_def ends_of_def content_def)

lemma bump_rest [simp]:
  "nodes (bump_structure_tick d) = nodes d" "free_list (bump_structure_tick d) = free_list d"
  "tag_index (bump_structure_tick d) = tag_index d"
  by (simp_all add: bump_structure_tick_def)

lemma tracked_bump:
  assumes "arena_ok d K"
  shows "tracked d K (bump_structure_tick d) K"
proof (rule trackedI[where cs = "[]"])
  show "arena_ok (bump_structure_tick d) K"
    using assms by (simp add: arena_ok_def dom_ok_def)
  show "log_run (log_of d) [] (log_of (bump_structure_tick d))"
    using log_run.bump[OF log_run.start, of "structure_tick d" "log_start d" "log_entries d"]
    by (simp add: log_of_def bump_structure_tick_def)
qed simp_all

lemma session_reset:
  assumes ok: "session_ok n d cache" and run: "reset_document n r b d = Some (Ok e)"
  shows "session_ok (n + 1) e cache"
proof -
  obtain f where f: "document_new (n + 1) (log_of d) r b = Some (Ok f)" "e = bump_structure_tick f"
  proof (cases "document_new (n + 1) (log_of d) r b")
    case (Some res)
    then show thesis using run that by (cases res) (auto simp: reset_document_def log_of_def)
  qed (use run in \<open>auto simp: reset_document_def log_of_def\<close>)
  note N = session_new[OF sessionD(3)[OF ok] order_refl f(1)]
  have "arena_ok f (kids f)" using N(1) by (simp add: tree_ok_def)
  then have "tracked f (kids f) e (kids f)" unfolding f(2) by (rule tracked_bump)
  then have "tree_edit f e" by (rule tree_editI[OF N(1)])
  from doc_log.edit_keeps[OF this] have "tree_ok e" "serial e = n + 1" using N(2) by simp_all
  moreover have "cache_ok (n + 1) e cache"
    using ok N(3) \<open>serial e = n + 1\<close>
    by (auto simp: session_ok_def cache_ok_def doc_log.follows_def f(2) bump_structure_tick_def split: option.splits if_splits)
  ultimately show ?thesis by (simp add: session_ok_def)
qed

subsection \<open>Reading through the cache\<close>

lemma ensure_child_index_ok:
  assumes ok: "session_ok n d cache" and p: "is_live d p"
  shows "\<exists>cache'. ensure_child_index p cache d = Some (Ok cache') \<and> session_ok n d cache' \<and>
    cache' = Some (p, structure_tick d, kids d p, serial d)"
proof -
  let ?new = "Some (p, structure_tick d, kids d p, serial d)"
  have tree: "tree_ok d" using ok by (simp add: session_ok_def)
  have new: "session_ok n d ?new"
    using ok doc_log.follows_fresh[OF tree] by (simp add: session_ok_def cache_ok_def)
  have rebuilt: "rebuild_child_index p (structure_tick d) d = Some (Ok ?new)"
    using children_kids[OF ok p] by (simp add: rebuild_child_index_def)
  have "ensure_child_index p cache d = Some (Ok ?new)"
  proof (cases cache)
    case None
    then show ?thesis using rebuilt by (simp add: ensure_child_index_def Let_def)
  next
    case (Some entry)
    obtain q g ids s where c: "cache = Some (q, g, ids, s)" using Some by (cases entry) auto
    have valid: "if s = serial d then doc_log.follows d q g ids else g < structure_tick d"
      using ok by (simp add: c session_ok_def cache_ok_def)
    consider "q = p" "g = structure_tick d"
      | "q = p" "g \<noteq> structure_tick d" "s = serial d" "fst (patch_child_index cache (structure_tick d) d)"
      | "\<not> (q = p \<and> g = structure_tick d)"
        "\<not> (q = p \<and> serial d = s \<and> fst (patch_child_index cache (structure_tick d) d))"
      by blast
    then show ?thesis
    proof cases
      case 1
      then have "s = serial d" using valid by (auto split: if_splits)
      then have "ids = kids d p" using doc_log.follows_now[OF tree] valid 1 by simp
      then show ?thesis using 1 \<open>s = serial d\<close> by (simp add: ensure_child_index_def c Let_def)
    next
      case 2
      then obtain cs ids' where r: "replay_child_changes_since g 64 d = Some cs" "patch_changes s p ids cs = Some ids'"
        by (auto simp: patch_child_index_def c split: option.splits)
      then have "ids' = kids d p" using doc_log.follows_patched[of d p g ids cs ids'] valid 2 by simp
      then show ?thesis using 2 r by (simp add: ensure_child_index_def c Let_def patch_child_index_def)
    next
      case 3
      then show ?thesis using rebuilt by (simp only: ensure_child_index_def c Let_def option.case prod.case if_False)
    qed
  qed
  then show ?thesis using new by blast
qed

lemma session_safe: "dom_session n d cache \<Longrightarrow> session_ok n d cache"
proof (induction rule: dom_session.induct)
  case (start r b d)
  have "log_ok (1, 0, [])" by simp
  from session_new[OF this order_refl start] show ?case by (simp add: session_ok_def cache_ok_def)
next
  case (other_document n d cache)
  then show ?case by (auto simp: session_ok_def cache_ok_def split: option.splits)
next
  case (create n d cache tag x i e)
  then show ?case using session_tracked[OF create.IH alloc_node_ok(4)[OF sessionD(1)[OF create.IH] create.hyps(2)]] by simp
next
  case (insert n d cache p cs r c e)
  have "cs = kids d p" using children_kids_iff[OF insert.IH] insert.hyps(2) by simp
  then show ?case using session_insert[OF insert.IH _ insert.hyps(4-6)] insert.hyps(3) by simp
next
  case (replace n d cache p cs r c e)
  have "cs = kids d p" using children_kids_iff[OF replace.IH] replace.hyps(2) by simp
  then show ?case using session_replace[OF replace.IH _ replace.hyps(4-6)] replace.hyps(3) by simp
next
  case (read n d cache p i res cache')
  then show ?case using ensure_child_index_ok[OF read.IH read.hyps(2)] by (auto simp: child_node_at_def)
next
  case (count n d cache p m cache')
  then show ?case using ensure_child_index_ok[OF count.IH count.hyps(2)] by (auto simp: child_node_count_def)
qed (blast intro: session_reset session_log session_append session_remove session_move session_discard)+

end
