(* ===== verification/DomDemo.thy ===== *)
theory DomDemo
  imports DomLaws
begin

text \<open>
  A small document, built by the operations: a body with a \<^verbatim>\<open>div\<close> and a \<^verbatim>\<open>span\<close>, and the same after the \<^verbatim>\<open>div\<close> was
  removed.  The laws of documents are applied to it.
\<close>

lemma ancestor_walk_simps [simp]:
  "ancestor_walk d c None = Some (Ok False)"
  "ancestor_walk d c (Some i) = (if i = c then Some (Ok True)
     else case get_node i d of Err e \<Rightarrow> Some (Err e) | Ok n \<Rightarrow> ancestor_walk d c (parent n))"
  by (subst ancestor_walk.simps, simp)+

lemma sibling_walk_simps [simp]:
  "sibling_walk d acc None = Some (Ok acc)"
  "sibling_walk d acc (Some i) = (case get_node i d of Err e \<Rightarrow> Some (Err e)
     | Ok n \<Rightarrow> sibling_walk d (acc @ [i]) (sib (next_sibling n)))"
  by (subst sibling_walk.simps, simp)+

lemmas dom_eval = append_child_def insertion_would_create_cycle_def get_node_def node_at_def modify_node_def
  unlink_from_parent_def link_at_end_def log_child_change_def bump_structure_tick_def add_note_def
  note_structure_change_def alloc_node_def new_node_def document_new_def document_empty_def CHILD_LOG_CAP_def sib_def Let_def

definition demo_new :: "unit Document" where
  "demo_new = \<lparr>serial = 1,
     nodes = [Some ((new_node ''#document'' ())\<lparr>first_child := Some 1, last_child := Some 1\<rparr>),
       Some ((new_node ''body'' ())\<lparr>parent := Some 0\<rparr>)],
     free_list = [], tag_index = (\<lambda>_. [])(''#document'' := [0], ''body'' := [1]),
     dom_notes = [MarkDirty 0, InvalidateStyleSubtree 1, StructureChange],
     structure_tick = 3, log_start = 0, log_entries = [(1, InsertedChild 1 0 1 0)]\<rparr>"

definition demo_div :: "unit Document" where
  "demo_div = demo_new\<lparr>
     nodes := [Some ((new_node ''#document'' ())\<lparr>first_child := Some 1, last_child := Some 1\<rparr>),
       Some ((new_node ''body'' ())\<lparr>parent := Some 0, first_child := Some 2, last_child := Some 2\<rparr>),
       Some ((new_node ''div'' ())\<lparr>parent := Some 1\<rparr>)],
     tag_index := (\<lambda>_. [])(''#document'' := [0], ''body'' := [1], ''div'' := [2]),
     dom_notes := [MarkDirty 0, InvalidateStyleSubtree 1, StructureChange, MarkDirty 1, InvalidateStyleSubtree 2, StructureChange],
     structure_tick := 5, log_entries := [(1, InsertedChild 1 0 1 0), (3, InsertedChild 1 1 2 0)]\<rparr>"

definition demo_page :: "unit Document" where
  "demo_page = demo_div\<lparr>
     nodes := [Some ((new_node ''#document'' ())\<lparr>first_child := Some 1, last_child := Some 1\<rparr>),
       Some ((new_node ''body'' ())\<lparr>parent := Some 0, first_child := Some 2, last_child := Some 3\<rparr>),
       Some ((new_node ''div'' ())\<lparr>parent := Some 1, next_sibling := 3\<rparr>),
       Some ((new_node ''span'' ())\<lparr>parent := Some 1, prev_sibling := 2\<rparr>)],
     tag_index := (\<lambda>_. [])(''#document'' := [0], ''body'' := [1], ''div'' := [2], ''span'' := [3]),
     dom_notes := dom_notes demo_div @ [MarkDirty 1, InvalidateStyleSubtree 3, StructureChange],
     structure_tick := 7, log_entries := log_entries demo_div @ [(5, InsertedChild 1 1 3 0)]\<rparr>"

lemmas demo_defs = demo_new_def demo_div_def demo_page_def

lemma demo_session: "dom_session 1 demo_page None"
proof -
  have "document_new 1 (1, 0, []) () () = Some (Ok demo_new)"
    by (simp add: dom_eval demo_defs)
  then have new: "dom_session 1 demo_new None" by (rule dom_session.start)
  obtain e where e: "alloc_node ''div'' () demo_new = (2, e)" "append_child 1 2 e = Some (Ok demo_div)" "is_live e 1" "is_live e 2"
    by (simp add: dom_eval demo_defs is_live_def numeral_2_eq_2 numeral_3_eq_3)
  have "dom_session 1 demo_div None"
    using dom_session.append[OF dom_session.create[OF new e(1)] e(3,4) _ e(2)] by simp
  note div = this
  obtain f where f: "alloc_node ''span'' () demo_div = (3, f)" "append_child 1 3 f = Some (Ok demo_page)" "is_live f 1" "is_live f 3"
    by (simp add: dom_eval demo_defs is_live_def numeral_2_eq_2 numeral_3_eq_3)
  show ?thesis using dom_session.append[OF dom_session.create[OF div f(1)] f(3,4) _ f(2)] by simp
qed

lemma demo_kids: "kids demo_page 0 = [1]" "kids demo_page 1 = [2, 3]" "kids demo_page 2 = []" "kids demo_page 3 = []"
  by (simp_all add: kids_def children_ids_def dom_eval demo_defs numeral_2_eq_2 numeral_3_eq_3)

lemma demo_live: "is_live demo_page 1" "is_live demo_page 2" "is_live demo_page 3"
  by (simp_all add: is_live_def dom_eval demo_defs)

definition demo_freed :: "unit Document" where
  "demo_freed = demo_page\<lparr>
     nodes := [Some ((new_node ''#document'' ())\<lparr>first_child := Some 1, last_child := Some 1\<rparr>),
       Some ((new_node ''body'' ())\<lparr>parent := Some 0, first_child := Some 3, last_child := Some 3\<rparr>), None,
       Some ((new_node ''span'' ())\<lparr>parent := Some 1\<rparr>)],
     free_list := [2], tag_index := (tag_index demo_page)(''div'' := []),
     dom_notes := dom_notes demo_page @ [MarkDirty 1],
     structure_tick := 8, log_entries := log_entries demo_page @ [(7, RemovedChild 1 1 2)]\<rparr>"

lemma demo_freed_session: "dom_session 1 demo_freed None"
proof (rule dom_session.discard[OF demo_session demo_live(2)])
  show "remove_node (length (nodes demo_page)) 2 demo_page = Some (Ok demo_freed)"
    by (simp add: remove_node_def children_ids_def free_node_def dom_eval demo_defs demo_freed_def
        numeral_2_eq_2 numeral_3_eq_3 eval_nat_numeral)
qed simp

end
