(* ===== verification/DocumentLaws.thy ===== *)
theory DocumentLaws
  imports DomDemo
begin

text \<open>
  The laws of documents: in every reachable session the tree is a forest and the lists of children change
  as the operations promise, reads through the cache included.
\<close>

lemma kids_eq: "arena_ok e K \<Longrightarrow> kids e q = K q"
  using arena_kids by metis

lemma kids_of_edit: "session_ok n d cache \<Longrightarrow> edited d cs e K \<Longrightarrow> kids e q = K q"
  using dom_ok_kids[of e K] by (simp add: edited_def)

lemma session_below:
  assumes "session_ok n d cache"
  shows "(p, c) \<in> (up (link_of d))\<^sup>* \<longleftrightarrow> p \<in> below (kids d) c"
  unfolding up_kin[OF sessionD(2)[OF assms]] by (simp add: below_def)

text \<open>
  C10. A reachable document is a forest: following parents never returns to a node, and the children of every
  live node are read without a panic, without a loop and without repetition, and are the nodes whose parent it is.
\<close>

theorem document_stays_a_forest:
  assumes "dom_session n d cache"
  shows "acyclic {(c, p). parent_of d c = Some p} \<and>
    (\<forall>p. is_live d p \<longrightarrow> (\<exists>cs. children_ids p d = Some (Ok cs) \<and> distinct cs \<and> (\<forall>c. c \<in> set cs \<longleftrightarrow> parent_of d c = Some p)))"
proof -
  note ok = session_safe[OF assms]
  have "{(c, p). parent_of d c = Some p} = kin (kids d)"
    using parent_of_iff[OF sessionD(2)[OF ok]] by (auto simp: kin_def)
  then show ?thesis
    using kin_acyclic[OF sessionD(2)[OF ok]] children_kids[OF ok] parent_of_iff[OF sessionD(2)[OF ok]]
      forestD(5)[OF sessionD(2)[OF ok, unfolded dom_ok_def]] by simp
qed

theorem document_stays_a_forest_witness:
  "acyclic {(c, p). parent_of demo_page c = Some p} \<and>
    (\<exists>cs. children_ids 1 demo_page = Some (Ok cs) \<and> distinct cs \<and> (\<forall>c. c \<in> set cs \<longleftrightarrow> parent_of demo_page c = Some 1))"
  using document_stays_a_forest[OF demo_session] demo_live(1) by blast

text \<open>
  C9. The cached child lists are exact: whatever edits, resets and reads came before, and however long the log
  of edits kept them, child \<open>i\<close> and the number of children read through the cache are those of the tree.
\<close>

theorem child_index_is_exact:
  assumes "dom_session n d cache" "is_live d p"
  shows "\<exists>cs cache'. children_ids p d = Some (Ok cs) \<and>
    child_node_at p i cache d = Some (Ok (if i < length cs then Some (cs ! i) else None, cache')) \<and>
    child_node_count p cache d = Some (Ok (length cs, cache'))"
  using ensure_child_index_ok[OF session_safe[OF assms(1)] assms(2)] children_kids[OF session_safe[OF assms(1)] assms(2)]
  by (auto simp: child_node_at_def child_node_count_def)

theorem child_index_is_exact_witness:
  "\<exists>cs cache'. children_ids 1 demo_page = Some (Ok cs) \<and>
    child_node_at 1 1 None demo_page = Some (Ok (if 1 < length cs then Some (cs ! 1) else None, cache')) \<and>
    child_node_count 1 None demo_page = Some (Ok (length cs, cache'))"
  by (rule child_index_is_exact[OF demo_session demo_live(1)])

text \<open>
  C11. Appending moves: the child leaves the list it was in and becomes the last child of its new parent, no
  other list, tag or data changes; appending a node under itself or under its own descendant does nothing.
\<close>

theorem append_child_moves_to_the_end:
  assumes "dom_session n d cache" "is_live d p" "is_live d c" "c \<noteq> 0"
  shows "if p \<in> below (kids d) c then append_child p c d = Some (Ok d)
    else \<exists>e. append_child p c d = Some (Ok e) \<and> content e = content d \<and>
      (\<forall>q. kids e q = (if q = p then remove1 c (kids d p) @ [c] else remove1 c (kids d q)))"
proof -
  note ok = session_safe[OF assms(1)]
  note A = append_child_ok[OF sessionD(2)[OF ok] assms(2,3)[unfolded live_dom] assms(4), unfolded session_below[OF ok]]
  show ?thesis
  proof (cases "p \<in> below (kids d) c")
    case False
    then obtain e where e: "append_child p c d = Some (Ok e)"
      "edited d (unlinked_changes d c @ [InsertedChild (serial d) p c 0]) e (place_last p c (kids d))"
      using A(2) by blast
    then have "kids e q = (if q = p then remove1 c (kids d p) @ [c] else remove1 c (kids d q))" for q
      by (simp add: kids_of_edit[OF ok e(2)] place_last_def detach_def)
    then show ?thesis using False e by (auto simp: edited_def)
  qed (use A(1) in simp)
qed

theorem append_child_moves_to_the_end_witness:
  "\<exists>e. append_child 2 3 demo_page = Some (Ok e) \<and> content e = content demo_page \<and>
      (\<forall>q. kids e q = (if q = 2 then remove1 3 (kids demo_page 2) @ [3] else remove1 3 (kids demo_page q)))"
proof -
  have "2 \<notin> below (kids demo_page) 3" using below_eq[of "kids demo_page" 3] by (simp add: demo_kids)
  then show ?thesis using append_child_moves_to_the_end[OF demo_session demo_live(2,3)] by simp
qed

text \<open>
  C12. Inserting before a child: the node leaves the list it was in and stands directly before the reference in the
  list of the new parent; nothing else changes, and an insertion that would make a cycle does nothing.
\<close>

theorem insert_before_places_the_node:
  assumes "dom_session n d cache" "r \<in> set (kids d p)" "is_live d c" "c \<noteq> 0" "c \<noteq> r"
  shows "if p \<in> below (kids d) c then insert_before p c r d = Some (Ok d)
    else \<exists>e xs ys. insert_before p c r d = Some (Ok e) \<and> content e = content d \<and>
      remove1 c (kids d p) = xs @ r # ys \<and> kids e p = xs @ c # r # ys \<and>
      (\<forall>q. q \<noteq> p \<longrightarrow> kids e q = remove1 c (kids d q))"
proof -
  note ok = session_safe[OF assms(1)]
  note A = insert_before_ok[OF sessionD(2)[OF ok] assms(2) assms(3)[unfolded live_dom] assms(4,5), unfolded session_below[OF ok]]
  have "r \<in> set (remove1 c (kids d p))" using assms(2,5) by simp
  then obtain xs ys where xs: "remove1 c (kids d p) = xs @ r # ys" "r \<notin> set xs" by (meson split_list_first)
  show ?thesis
  proof (cases "p \<in> below (kids d) c")
    case False
    then obtain e where e: "insert_before p c r d = Some (Ok e)"
      "edited d (unlinked_changes d c @ [InsertedChild (serial d) p c r]) e (place_before p c r (kids d))"
      using A(2) by blast
    then have "kids e p = xs @ c # r # ys" "\<forall>q. q \<noteq> p \<longrightarrow> kids e q = remove1 c (kids d q)"
      using xs by (simp_all add: kids_of_edit[OF ok e(2)] place_before_def detach_def before_split)
    then show ?thesis using False e xs(1) by (auto simp: edited_def)
  qed (use A(1) in simp)
qed

theorem insert_before_places_the_node_witness:
  "\<exists>e xs ys. insert_before 1 3 2 demo_page = Some (Ok e) \<and> content e = content demo_page \<and>
      remove1 3 (kids demo_page 1) = xs @ 2 # ys \<and> kids e 1 = xs @ 3 # 2 # ys \<and>
      kids e 0 = remove1 3 (kids demo_page 0)"
proof -
  have "1 \<notin> below (kids demo_page) 3" using below_eq[of "kids demo_page" 3] by (simp add: demo_kids)
  then have "\<exists>e xs ys. insert_before 1 3 2 demo_page = Some (Ok e) \<and> content e = content demo_page \<and>
      remove1 3 (kids demo_page 1) = xs @ 2 # ys \<and> kids e 1 = xs @ 3 # 2 # ys \<and>
      (\<forall>q. q \<noteq> 1 \<longrightarrow> kids e q = remove1 3 (kids demo_page q))"
    using insert_before_places_the_node[OF demo_session _ demo_live(3), of 2 1] by (simp add: demo_kids del: One_nat_def)
  moreover have "0 \<noteq> (1 :: nat)" by simp
  ultimately show ?thesis by metis
qed

text \<open>
  C35. Replacing a child puts the new node at its place; but when the new node is the old one, or has the parent
  below it, the old child is removed and nothing is put in its place.
\<close>

theorem replace_child_result:
  assumes "dom_session n d cache" "r \<in> set (kids d p)" "is_live d c" "c \<noteq> 0"
  shows "\<exists>e. replace_child p c r d = Some (Ok e) \<and> content e = content d \<and>
    (if c = r \<or> p \<in> below (kids d) c then \<forall>q. kids e q = remove1 r (kids d q)
     else (\<exists>xs ys. remove1 c (kids d p) = xs @ r # ys \<and> kids e p = xs @ c # ys) \<and>
       (\<forall>q. q \<noteq> p \<longrightarrow> kids e q = remove1 c (kids d q)))"
proof -
  note ok = session_safe[OF assms(1)] and F = sessionD(2)[OF session_safe[OF assms(1)], unfolded dom_ok_def]
  note A = replace_child_ok[OF sessionD(2)[OF ok] assms(2) assms(3)[unfolded live_dom] assms(4), unfolded session_below[OF ok]]
  show ?thesis
  proof (cases "c = r \<or> p \<in> below (kids d) c")
    case True
    then obtain e where e: "replace_child p c r d = Some (Ok e)" "edited d (unlinked_changes d r) e (detach r (kids d))"
      using A(1) by blast
    then show ?thesis using True kids_of_edit[OF ok e(2)] by (auto simp: edited_def detach_def)
  next
    case False
    then obtain e f where e: "replace_child p c r d = Some (Ok f)"
      "edited d (unlinked_changes d c @ [InsertedChild (serial d) p c r]) e (place_before p c r (kids d))"
      "edited e (unlinked_changes e r) f (detach r (place_before p c r (kids d)))"
      using A(2) by blast
    have "r \<in> set (remove1 c (kids d p))" using assms(2) False by simp
    then obtain xs ys where xs: "remove1 c (kids d p) = xs @ r # ys" "r \<notin> set xs" by (meson split_list_first)
    have k: "kids f q = detach r (place_before p c r (kids d)) q" for q
      using dom_ok_kids[of f "detach r (place_before p c r (kids d))"] e(3) by (simp add: edited_def)
    have "kids f p = xs @ c # ys"
      using xs False by (simp add: k detach_def place_before_def before_split remove1_append)
    moreover have "kids f q = remove1 c (kids d q)" if "q \<noteq> p" for q
    proof -
      have "r \<notin> set (kids d q)" using forest_unique[OF F assms(2)] that by blast
      then have "r \<notin> set (remove1 c (kids d q))" using set_remove1_subset by fast
      then show ?thesis using that by (simp add: k detach_def place_before_def remove1_idem)
    qed
    moreover have "content f = content d" using e(2,3) by (simp add: edited_def)
    ultimately show ?thesis using False e(1) xs(1) by auto
  qed
qed

theorem replace_child_result_witness:
  "\<exists>e. replace_child 1 2 2 demo_page = Some (Ok e) \<and> content e = content demo_page \<and>
    (\<forall>q. kids e q = remove1 2 (kids demo_page q))"
  using replace_child_result[OF demo_session _ demo_live(2), of 2 1] by (simp add: demo_kids del: One_nat_def)

text \<open>
  C13. Removing a node gives back its whole subtree: with as many nested calls as the arena has slots the removal
  returns, its nodes are gone from the arena and from every list of children, and exactly their slots are free for reuse.
\<close>

theorem remove_node_frees_the_subtree:
  assumes "dom_session n d cache" "is_live d i" "i \<noteq> 0"
  shows "\<exists>e. remove_node (length (nodes d)) i d = Some (Ok e) \<and> content e = content d |` (- below (kids d) i) \<and>
    set (free_list e) = set (free_list d) \<union> below (kids d) i \<and>
    (\<forall>q. kids e q = (if q \<in> below (kids d) i then [] else filter (\<lambda>c. c \<notin> below (kids d) i) (kids d q)))"
proof -
  note ok = session_safe[OF assms(1)]
  obtain e where e: "remove_node (length (nodes d)) i d = Some (Ok e)" "removed (below (kids d) i) d (kids d) e"
    using remove_node_ok[OF sessionD(1)[OF ok] assms(2)[unfolded live_dom] assms(3)] by blast
  then have "kids e q = prune (below (kids d) i) (kids d) q" for q
    using kids_eq by (auto simp: removed_def tracked_def)
  then show ?thesis using e by (simp add: removed_def prune_def)
qed

theorem remove_node_frees_the_subtree_witness:
  "\<exists>e. remove_node (length (nodes demo_page)) 1 demo_page = Some (Ok e) \<and>
    content e = content demo_page |` (- below (kids demo_page) 1) \<and>
    set (free_list e) = set (free_list demo_page) \<union> below (kids demo_page) 1 \<and>
    (\<forall>q. kids e q = (if q \<in> below (kids demo_page) 1 then [] else filter (\<lambda>c. c \<notin> below (kids demo_page) 1) (kids demo_page q)))"
  by (rule remove_node_frees_the_subtree[OF demo_session demo_live(1)]) simp

text \<open>
  C36. A node made in a reused slot is not found by tag: while the free list has a slot, the node is
  created and live, and no query by tag name, its own included, answers it.
\<close>

theorem reused_slot_is_not_found_by_tag:
  assumes "dom_session n d cache" "free_list d \<noteq> []" "alloc_node tag x d = (i, e)"
  shows "content e i = Some (tag, x) \<and> (\<forall>t. i \<notin> set (get_elements_by_tag_name t e))"
  using alloc_node_ok(3)[OF sessionD(1)[OF session_safe[OF assms(1)]] assms(3)]
    reused_slot_unlisted[OF sessionD(1)[OF session_safe[OF assms(1)]] assms(3,2)] by simp

theorem reused_slot_is_not_found_by_tag_witness:
  "\<exists>e. alloc_node ''p'' () demo_freed = (2, e) \<and> content e 2 = Some (''p'', ()) \<and>
    (\<forall>t. 2 \<notin> set (get_elements_by_tag_name t e))"
proof -
  have "alloc_node ''p'' () demo_freed = (2, snd (alloc_node ''p'' () demo_freed))" "free_list demo_freed \<noteq> []"
    by (simp_all add: alloc_node_def demo_freed_def)
  then show ?thesis using reused_slot_is_not_found_by_tag[OF demo_freed_session] by blast
qed

end
