(* ===== verification/CssSelector.thy ===== *)
theory CssSelector
  imports W3Prelude
begin

text \<open>
  Selectors and how they match a flattened element, \<^verbatim>\<open>crates/w3cos-dom/src/stylesheet.rs\<close>: compound
  selectors against a \<^verbatim>\<open>SelectorContext\<close>, and chains of them against an element and its ancestors.

  A Rust string is the list of its UTF-8 bytes.  The pseudo-classes that only live documents decide are
  in the data type; a context never matches them.
\<close>

subsection \<open>Strings\<close>

definition ascii_lower :: "char \<Rightarrow> char" where
  "ascii_lower c = (let n = of_char c :: nat in if 65 \<le> n \<and> n \<le> 90 then char_of (n + 32) else c)"

definition lowercase :: "string \<Rightarrow> string" where
  "lowercase s = map ascii_lower s"

definition eq_ignore_ascii_case :: "string \<Rightarrow> string \<Rightarrow> bool" where
  "eq_ignore_ascii_case s t \<longleftrightarrow> lowercase s = lowercase t"

text \<open>The part after the last separator, or the whole name: \<^verbatim>\<open>rsplit_once(p).map_or(name, |(_, local)| local)\<close>.\<close>

definition rsplit_once :: "(char \<Rightarrow> bool) \<Rightarrow> string \<Rightarrow> string option" where
  "rsplit_once p s = (if list_ex p s then Some (rev (takeWhile (\<lambda>c. \<not> p c) (rev s))) else None)"

definition is_colon :: "char \<Rightarrow> bool" where "is_colon c \<longleftrightarrow> c = CHR '':''"
definition is_separator :: "char \<Rightarrow> bool" where "is_separator c \<longleftrightarrow> c = CHR ''|'' \<or> c = CHR '':''"

definition local_name :: "(char \<Rightarrow> bool) \<Rightarrow> string \<Rightarrow> string" where
  "local_name p s = (case rsplit_once p s of None \<Rightarrow> s | Some l \<Rightarrow> l)"

definition strip_prefix :: "string \<Rightarrow> string \<Rightarrow> string option" where
  "strip_prefix p s = (if take (length p) s = p then Some (drop (length p) s) else None)"

definition starts_with :: "string \<Rightarrow> string \<Rightarrow> bool" where
  "starts_with s p \<longleftrightarrow> take (length p) s = p"

definition ends_with :: "string \<Rightarrow> string \<Rightarrow> bool" where
  "ends_with s p \<longleftrightarrow> length p \<le> length s \<and> drop (length s - length p) s = p"

fun str_contains :: "string \<Rightarrow> string \<Rightarrow> bool" where
  "str_contains [] p = (p = [])"
| "str_contains (c # s) p = (starts_with (c # s) p \<or> str_contains s p)"

definition is_ascii_whitespace :: "char \<Rightarrow> bool" where
  "is_ascii_whitespace c \<longleftrightarrow> (of_char c :: nat) \<in> {9, 10, 12, 13, 32}"

fun split_words :: "string \<Rightarrow> string \<Rightarrow> string list" where
  "split_words word [] = (if word = [] then [] else [rev word])"
| "split_words word (c # s) =
     (if is_ascii_whitespace c then (if word = [] then [] else [rev word]) @ split_words [] s
      else split_words (c # word) s)"

definition split_ascii_whitespace :: "string \<Rightarrow> string list" where
  "split_ascii_whitespace s = split_words [] s"

text \<open>Slicing at a byte that starts no character answers nothing.\<close>

definition is_char_boundary :: "string \<Rightarrow> nat \<Rightarrow> bool" where
  "is_char_boundary s n \<longleftrightarrow> n = 0 \<or> n = length s \<or>
     n < length s \<and> \<not> (128 \<le> (of_char (s ! n) :: nat) \<and> (of_char (s ! n) :: nat) < 192)"

definition get_to :: "string \<Rightarrow> nat \<Rightarrow> string option" where
  "get_to s n = (if is_char_boundary s n then Some (take n s) else None)"

definition get_from :: "string \<Rightarrow> nat \<Rightarrow> string option" where
  "get_from s n = (if is_char_boundary s n then Some (drop n s) else None)"

subsection \<open>Data\<close>

datatype SelectorContext = SelectorContext (ctx_tag: string) (ctx_id: "string option") (ctx_classes: "string list")
  (ctx_attributes: "(string \<times> string) list") (is_first_child: bool) (is_root: bool) (is_focused: bool)
  (is_focus_visible: bool) (is_focus_within: bool) (previous_siblings: "SelectorContext list")
  (html_document: bool) (html_element: bool)

definition context_new :: "string \<Rightarrow> string option \<Rightarrow> string list \<Rightarrow> SelectorContext" where
  "context_new tag i classes = SelectorContext tag i classes [] False False False False False [] True True"

text \<open>Name, value and the flag \<^verbatim>\<open>i\<close> for case-insensitive values.\<close>

datatype AttributeSelector =
    Present string
  | Equals string string bool
  | Includes string string bool
  | DashMatch string string bool
  | Prefix string string bool
  | Suffix string string bool
  | Substring string string bool

datatype PseudoClass =
    FirstChild | LastChild | FirstOfType | LastOfType | OnlyChild | OnlyOfType | EmptyElement | RootElement
  | Link | Visited | Target | Enabled | Disabled | Checked | Focus | FocusVisible | FocusWithin
  | Dir string | Lang string | Has string | NotMatching string
  | NthChild string | NthLastChild string | NthOfType string | NthLastOfType string

datatype Combinator = Descendant | Child | AdjacentSibling | GeneralSibling

record CompoundSelector =
  universal :: bool
  any_namespace :: bool
  sel_tag :: "string option"
  sel_id :: "string option"
  sel_classes :: "string list"
  sel_attributes :: "AttributeSelector list"
  pseudo_classes :: "PseudoClass list"
  unsupported :: bool

definition compound_default :: CompoundSelector where
  "compound_default = \<lparr>universal = False, any_namespace = False, sel_tag = None, sel_id = None, sel_classes = [],
     sel_attributes = [], pseudo_classes = [], unsupported = False\<rparr>"

subsection \<open>Attributes\<close>

definition attribute_name_eq_for :: "bool \<Rightarrow> string \<Rightarrow> string \<Rightarrow> bool" where
  "attribute_name_eq_for html actual expected =
     (case strip_prefix ''*|'' expected of
        Some name \<Rightarrow> (if html then eq_ignore_ascii_case (local_name is_colon actual) name
          else local_name is_colon actual = name)
      | None \<Rightarrow> if html then eq_ignore_ascii_case actual expected else actual = expected)"

definition attribute_value_eq_for :: "bool \<Rightarrow> string \<Rightarrow> string \<Rightarrow> string \<Rightarrow> bool \<Rightarrow> bool" where
  "attribute_value_eq_for html_doc name actual expected insensitive =
     (if insensitive \<or> html_doc \<and> eq_ignore_ascii_case name ''lang'' then eq_ignore_ascii_case actual expected
      else actual = expected)"

definition attribute_value_dash_prefix_for :: "bool \<Rightarrow> string \<Rightarrow> string \<Rightarrow> string \<Rightarrow> bool \<Rightarrow> bool" where
  "attribute_value_dash_prefix_for html_doc name actual expected insensitive =
     (case get_to actual (length expected) of
        None \<Rightarrow> False
      | Some pre \<Rightarrow> attribute_value_eq_for html_doc name pre expected insensitive \<and>
          (case get_from actual (length expected) of None \<Rightarrow> False | Some suffix \<Rightarrow> starts_with suffix ''-''))"

definition attribute_value_starts_with :: "string \<Rightarrow> string \<Rightarrow> bool \<Rightarrow> bool" where
  "attribute_value_starts_with actual expected insensitive =
     (if insensitive then starts_with (lowercase actual) (lowercase expected) else starts_with actual expected)"

definition attribute_value_ends_with :: "string \<Rightarrow> string \<Rightarrow> bool \<Rightarrow> bool" where
  "attribute_value_ends_with actual expected insensitive =
     (if insensitive then ends_with (lowercase actual) (lowercase expected) else ends_with actual expected)"

definition attribute_value_contains :: "string \<Rightarrow> string \<Rightarrow> bool \<Rightarrow> bool" where
  "attribute_value_contains actual expected insensitive =
     (if insensitive then str_contains (lowercase actual) (lowercase expected) else str_contains actual expected)"

definition attribute_named :: "SelectorContext \<Rightarrow> string \<Rightarrow> (string \<Rightarrow> bool) \<Rightarrow> bool" where
  "attribute_named ctx name value_ok =
     list_ex (\<lambda>(have, actual). attribute_name_eq_for (html_element ctx) have name \<and> value_ok actual) (ctx_attributes ctx)"

fun attribute_selector_matches :: "SelectorContext \<Rightarrow> AttributeSelector \<Rightarrow> bool" where
  "attribute_selector_matches ctx (Present name) = attribute_named ctx name (\<lambda>_. True)"
| "attribute_selector_matches ctx (Equals name v ins) =
     attribute_named ctx name (\<lambda>actual. attribute_value_eq_for (html_document ctx) name actual v ins)"
| "attribute_selector_matches ctx (Includes name v ins) =
     (v \<noteq> [] \<and> attribute_named ctx name (\<lambda>actual.
        list_ex (\<lambda>token. attribute_value_eq_for (html_document ctx) name token v ins) (split_ascii_whitespace actual)))"
| "attribute_selector_matches ctx (DashMatch name v ins) =
     (v \<noteq> [] \<and> attribute_named ctx name (\<lambda>actual.
        attribute_value_eq_for (html_document ctx) name actual v ins \<or>
        attribute_value_dash_prefix_for (html_document ctx) name actual v ins))"
| "attribute_selector_matches ctx (Prefix name v ins) =
     (v \<noteq> [] \<and> attribute_named ctx name (\<lambda>actual. attribute_value_starts_with actual v ins))"
| "attribute_selector_matches ctx (Suffix name v ins) =
     (v \<noteq> [] \<and> attribute_named ctx name (\<lambda>actual. attribute_value_ends_with actual v ins))"
| "attribute_selector_matches ctx (Substring name v ins) =
     (v \<noteq> [] \<and> attribute_named ctx name (\<lambda>actual. attribute_value_contains actual v ins))"

definition attribute_selectors_match :: "SelectorContext \<Rightarrow> AttributeSelector list \<Rightarrow> bool" where
  "attribute_selectors_match ctx selectors = list_all (attribute_selector_matches ctx) selectors"

subsection \<open>Compounds and chains\<close>

fun pseudo_matches_context :: "SelectorContext \<Rightarrow> PseudoClass \<Rightarrow> bool" where
  "pseudo_matches_context ctx FirstChild = is_first_child ctx"
| "pseudo_matches_context ctx RootElement = is_root ctx"
| "pseudo_matches_context ctx Focus = is_focused ctx"
| "pseudo_matches_context ctx FocusVisible = is_focus_visible ctx"
| "pseudo_matches_context ctx FocusWithin = is_focus_within ctx"
| "pseudo_matches_context ctx _ = False"

definition tag_matches :: "CompoundSelector \<Rightarrow> SelectorContext \<Rightarrow> string \<Rightarrow> bool" where
  "tag_matches c ctx tag =
     (let actual = (if any_namespace c \<or> \<not> list_ex is_colon tag then local_name is_colon (ctx_tag ctx) else ctx_tag ctx)
      in if html_element ctx then eq_ignore_ascii_case tag actual else tag = actual)"

definition compound_matches_ctx :: "CompoundSelector \<Rightarrow> SelectorContext \<Rightarrow> bool" where
  "compound_matches_ctx c ctx \<longleftrightarrow> \<not> unsupported c \<and>
     (case sel_tag c of None \<Rightarrow> True | Some tag \<Rightarrow> tag_matches c ctx tag) \<and>
     (case sel_id c of None \<Rightarrow> True | Some i \<Rightarrow> ctx_id ctx = Some i) \<and>
     list_all (\<lambda>k. list_ex (\<lambda>have. have = k) (ctx_classes ctx)) (sel_classes c) \<and>
     attribute_selectors_match ctx (sel_attributes c) \<and>
     list_all (pseudo_matches_context ctx) (pseudo_classes c)"

definition specificity :: "CompoundSelector \<Rightarrow> nat" where
  "specificity c = (if sel_id c \<noteq> None then 1 else 0) * 1000000 +
     (length (sel_classes c) + length (sel_attributes c) + length (pseudo_classes c)) * 1000 +
     (if sel_tag c \<noteq> None then 1 else 0)"

text \<open>The nearest ancestor below \<open>cursor\<close> that the compound matches.\<close>

fun nearest_ancestor :: "CompoundSelector \<Rightarrow> SelectorContext list \<Rightarrow> nat \<Rightarrow> nat option" where
  "nearest_ancestor c ancestors 0 = None"
| "nearest_ancestor c ancestors (Suc cursor) =
     (if compound_matches_ctx c (ancestors ! cursor) then Some cursor else nearest_ancestor c ancestors cursor)"

text \<open>The walk to the left, over the compounds before the subject paired with the combinator after each, last first.\<close>

fun chain_walk :: "SelectorContext list \<Rightarrow> (CompoundSelector \<times> Combinator) list \<Rightarrow> SelectorContext \<Rightarrow> nat \<Rightarrow> bool" where
  "chain_walk ancestors [] current cursor = True"
| "chain_walk ancestors ((c, Child) # steps) current cursor =
     (if cursor = 0 then False
      else let parent = ancestors ! (cursor - 1)
        in compound_matches_ctx c parent \<and> chain_walk ancestors steps parent (cursor - 1))"
| "chain_walk ancestors ((c, Descendant) # steps) current cursor =
     (case nearest_ancestor c ancestors cursor of
        None \<Rightarrow> False | Some i \<Rightarrow> chain_walk ancestors steps (ancestors ! i) i)"
| "chain_walk ancestors ((c, AdjacentSibling) # steps) current cursor =
     (if previous_siblings current = [] then False
      else let sibling = last (previous_siblings current)
        in compound_matches_ctx c sibling \<and> chain_walk ancestors steps sibling cursor)"
| "chain_walk ancestors ((c, GeneralSibling) # steps) current cursor =
     (case find (compound_matches_ctx c) (rev (previous_siblings current)) of
        None \<Rightarrow> False | Some sibling \<Rightarrow> chain_walk ancestors steps sibling cursor)"

definition steps_left :: "CompoundSelector list \<Rightarrow> Combinator list \<Rightarrow> (CompoundSelector \<times> Combinator) list" where
  "steps_left chain combinators = rev (zip (butlast chain) combinators)"

definition selector_chain_matches_context ::
  "CompoundSelector list \<Rightarrow> Combinator list \<Rightarrow> SelectorContext \<Rightarrow> SelectorContext list \<Rightarrow> bool" where
  "selector_chain_matches_context chain combinators ctx ancestors \<longleftrightarrow> chain \<noteq> [] \<and>
     compound_matches_ctx (last chain) ctx \<and> chain_walk ancestors (steps_left chain combinators) ctx (length ancestors)"

end
