(* ===== verification/AncestorFilter.thy ===== *)
theory AncestorFilter
  imports CssSelector "HOL-Library.Word"
begin

unbundle bit_operations_syntax

text \<open>
  The Bloom filter over the ancestors of an element, \<^verbatim>\<open>crates/w3cos-dom/src/stylesheet/selector_filter.rs\<close>: 128
  bits, two for every id, class, attribute name and tag of an ancestor, against the bits that a rule needs.
\<close>

subsection \<open>The filter\<close>

definition FEATURE_ID :: "8 word" where "FEATURE_ID = 1"
definition FEATURE_CLASS :: "8 word" where "FEATURE_CLASS = 2"
definition FEATURE_ATTRIBUTE :: "8 word" where "FEATURE_ATTRIBUTE = 3"
definition FEATURE_TAG :: "8 word" where "FEATURE_TAG = 4"

type_synonym AncestorBloom = "128 word"

definition rotate_left :: "nat \<Rightarrow> 64 word \<Rightarrow> 64 word" where
  "rotate_left n w = push_bit n w OR drop_bit (64 - n) w"

fun feature_hash :: "64 word \<Rightarrow> string \<Rightarrow> 64 word" where
  "feature_hash h [] = h"
| "feature_hash h (c # s) = feature_hash ((h XOR of_nat (of_char c)) * 0x100000001b3) s"

definition insert_feature :: "8 word \<Rightarrow> string \<Rightarrow> bool \<Rightarrow> AncestorBloom \<Rightarrow> AncestorBloom" where
  "insert_feature kind s lower bloom =
     (let hash = feature_hash (0xcbf29ce484222325 XOR ucast kind) (if lower then lowercase s else s);
          mixed = hash XOR (rotate_left 29 hash * 0x9e3779b185ebca87)
      in bloom OR push_bit (unat (hash AND 127)) 1 OR push_bit (unat (mixed AND 127)) 1)"

definition attribute_local_name :: "string \<Rightarrow> string" where
  "attribute_local_name name = local_name is_separator name"

definition tag_local_name :: "string \<Rightarrow> string" where
  "tag_local_name tag = local_name is_separator tag"

fun attribute_name :: "AttributeSelector \<Rightarrow> string" where
  "attribute_name (Present name) = name"
| "attribute_name (Equals name _ _) = name"
| "attribute_name (Includes name _ _) = name"
| "attribute_name (DashMatch name _ _) = name"
| "attribute_name (Prefix name _ _) = name"
| "attribute_name (Suffix name _ _) = name"
| "attribute_name (Substring name _ _) = name"

definition insert_tag :: "string \<Rightarrow> AncestorBloom \<Rightarrow> AncestorBloom" where
  "insert_tag tag bloom =
     (let bloom = insert_feature FEATURE_TAG tag True bloom
      in case rsplit_once is_separator tag of
        None \<Rightarrow> bloom | Some l \<Rightarrow> if l \<noteq> [] then insert_feature FEATURE_TAG l True bloom else bloom)"

definition insert_context :: "SelectorContext \<Rightarrow> AncestorBloom \<Rightarrow> AncestorBloom" where
  "insert_context ctx bloom =
     (let bloom = (case ctx_id ctx of None \<Rightarrow> bloom | Some i \<Rightarrow> insert_feature FEATURE_ID i False bloom);
          bloom = fold (\<lambda>k. insert_feature FEATURE_CLASS k False) (ctx_classes ctx) bloom;
          bloom = fold (\<lambda>(name, _). insert_feature FEATURE_ATTRIBUTE (attribute_local_name name) True) (ctx_attributes ctx) bloom
      in insert_tag (ctx_tag ctx) bloom)"

definition insert_compound_requirement :: "CompoundSelector \<Rightarrow> AncestorBloom \<Rightarrow> AncestorBloom" where
  "insert_compound_requirement c bloom =
     (if unsupported c then bloom
      else case sel_id c of Some i \<Rightarrow> insert_feature FEATURE_ID i False bloom
      | None \<Rightarrow> (case sel_classes c of k # _ \<Rightarrow> insert_feature FEATURE_CLASS k False bloom
        | [] \<Rightarrow> (case sel_attributes c of
            a # _ \<Rightarrow> insert_feature FEATURE_ATTRIBUTE (attribute_local_name (attribute_name a)) True bloom
          | [] \<Rightarrow> (case sel_tag c of
              Some tag \<Rightarrow> insert_feature FEATURE_TAG (if any_namespace c then tag_local_name tag else tag) True bloom
            | None \<Rightarrow> bloom))))"

fun rule_requirement :: "(CompoundSelector \<times> Combinator) list \<Rightarrow> AncestorBloom \<Rightarrow> AncestorBloom" where
  "rule_requirement [] bloom = bloom"
| "rule_requirement ((c, Child) # steps) bloom = rule_requirement steps (insert_compound_requirement c bloom)"
| "rule_requirement ((c, Descendant) # steps) bloom = rule_requirement steps (insert_compound_requirement c bloom)"
| "rule_requirement ((c, AdjacentSibling) # steps) bloom = bloom"
| "rule_requirement ((c, GeneralSibling) # steps) bloom = bloom"

definition for_rule :: "CompoundSelector list \<Rightarrow> Combinator list \<Rightarrow> AncestorBloom" where
  "for_rule chain combinators = rule_requirement (steps_left chain combinators) 0"

definition for_contexts :: "SelectorContext list \<Rightarrow> AncestorBloom" where
  "for_contexts ancestors = fold insert_context ancestors 0"

definition might_contain :: "AncestorBloom \<Rightarrow> AncestorBloom \<Rightarrow> bool" where
  "might_contain bloom required \<longleftrightarrow> bloom AND required = required"

text \<open>The lazily built filter: the answer, and the cell after it.\<close>

definition lazy_might_contain ::
  "bool \<Rightarrow> (unit \<Rightarrow> AncestorBloom) \<Rightarrow> AncestorBloom option \<Rightarrow> AncestorBloom \<Rightarrow> bool \<times> AncestorBloom option" where
  "lazy_might_contain known_empty build cell required =
     (if required = 0 then (True, cell)
      else if known_empty then (False, cell)
      else let available = (case cell of Some b \<Rightarrow> b | None \<Rightarrow> build ())
        in (might_contain available required, Some available))"

subsection \<open>Bits\<close>

definition covers :: "AncestorBloom \<Rightarrow> AncestorBloom \<Rightarrow> bool" where
  "covers b r \<longleftrightarrow> (\<forall>n. bit r n \<longrightarrow> bit b n)"

definition feature :: "8 word \<Rightarrow> string \<Rightarrow> bool \<Rightarrow> AncestorBloom" where
  "feature kind s lower = insert_feature kind s lower 0"

lemma might_contain_covers: "might_contain b r \<longleftrightarrow> covers b r"
proof -
  have "n < 128" if "bit r n" for n using bit_imp_le_length[OF that] by simp
  then show ?thesis by (auto simp: might_contain_def covers_def bit_eq_iff bit_simps)
qed

lemma insert_feature_or: "insert_feature kind s lower b = b OR feature kind s lower"
  by (simp add: insert_feature_def feature_def Let_def ac_simps or.assoc)

lemma covers_or [simp]: "covers b (r OR r') \<longleftrightarrow> covers b r \<and> covers b r'"
  by (auto simp: covers_def bit_or_iff)

lemma covers_0 [simp]: "covers b 0" "covers b b"
  by (simp_all add: covers_def)

lemma covers_left: "covers b r \<Longrightarrow> covers (b OR c) r" "covers c r \<Longrightarrow> covers (b OR c) r"
  by (auto simp: covers_def bit_or_iff)

lemma covers_trans: "covers a b \<Longrightarrow> covers b c \<Longrightarrow> covers a c"
  by (simp add: covers_def)

subsection \<open>What a context has\<close>

lemma context_or: "insert_context ctx b = b OR insert_context ctx 0"
proof -
  have fold_or: "fold g xs b = b OR fold g xs 0" if "\<And>x b. g x b = b OR g x 0" for g :: "'z \<Rightarrow> AncestorBloom \<Rightarrow> AncestorBloom" and xs b
  proof (induction xs arbitrary: b)
    case (Cons x xs)
    have "fold g xs (g x b) = (b OR g x 0) OR fold g xs 0" by (subst Cons, subst that) simp
    also have "\<dots> = b OR fold g xs (g x 0)" by (simp add: Cons[of "g x 0"] or.assoc)
    finally show ?case by simp
  qed simp
  define h where "h b = (case ctx_id ctx of None \<Rightarrow> b | Some i \<Rightarrow> insert_feature FEATURE_ID i False b)" for b
  define k where "k = fold (\<lambda>c. insert_feature FEATURE_CLASS c False) (ctx_classes ctx)"
  define a where "a = fold (\<lambda>(name, _ :: string). insert_feature FEATURE_ATTRIBUTE (attribute_local_name name) True) (ctx_attributes ctx)"
  have h: "h b = b OR h 0" for b by (simp add: h_def insert_feature_or[of _ _ _ b] insert_feature_or[of _ _ _ 0] split: option.split)
  have k: "k b = b OR k 0" for b unfolding k_def by (rule fold_or) (metis insert_feature_or or.left_neutral)
  have a: "a b = b OR a 0" for b
    unfolding a_def by (rule fold_or) (auto simp: insert_feature_or[of _ _ _ 0] insert_feature_or[of _ _ _ "_ :: AncestorBloom"] split: prod.split)
  have t: "insert_tag s b = b OR insert_tag s 0" for s b
    by (simp add: insert_tag_def Let_def insert_feature_or[of _ _ _ b] insert_feature_or[of _ _ _ "b OR _"]
        insert_feature_or[of _ _ _ 0] insert_feature_or[of _ _ _ "0 OR _"] insert_feature_or[of _ _ _ "feature _ _ _"] or.assoc split: option.split)
  have "insert_context ctx b = insert_tag (ctx_tag ctx) (a (k (h b)))" for b
    by (simp add: insert_context_def h_def k_def a_def Let_def)
  then show ?thesis
    by (metis (no_types, opaque_lifting) h k a t or.assoc)
qed

lemma covers_contexts: "ctx \<in> set ancestors \<Longrightarrow> covers (for_contexts ancestors) (insert_context ctx 0)"
proof -
  have "covers (fold insert_context cs b) b" for cs b
  proof (induction cs arbitrary: b)
    case (Cons c cs)
    have "covers (insert_context c b) b" by (subst context_or) (simp add: covers_left)
    then show ?case using Cons covers_trans by fastforce
  qed simp
  then have "covers (fold insert_context cs b) (insert_context ctx 0)" if "ctx \<in> set cs" for cs b
    using that
  proof (induction cs arbitrary: b)
    case (Cons c cs)
    show ?case
    proof (cases "c = ctx")
      case True
      have "covers (insert_context c b) (insert_context ctx 0)" unfolding True by (subst context_or) (simp add: covers_left)
      then show ?thesis using Cons.prems(1) covers_trans by fastforce
    qed (use Cons in auto)
  qed simp
  moreover assume "ctx \<in> set ancestors"
  ultimately show ?thesis by (simp add: for_contexts_def)
qed

lemma fold_features:
  assumes "x \<in> set xs"
  shows "covers (fold (\<lambda>x. insert_feature kind (f x) lower) xs b) (feature kind (f x) lower)"
proof -
  have keep: "covers (fold (\<lambda>x. insert_feature kind (f x) lower) ys b) r" if "covers b r" for ys b r
    using that by (induction ys arbitrary: b) (simp_all add: insert_feature_or[of kind] covers_left)
  show ?thesis using assms
  proof (induction xs arbitrary: b)
    case (Cons y ys)
    show ?case
    proof (cases "y = x")
      case True
      then show ?thesis using keep by (simp add: insert_feature_or[of kind _ lower b] covers_left)
    qed (use Cons in auto)
  qed simp
qed

lemma insert_tag_keeps: "covers b r \<Longrightarrow> covers (insert_tag t b) r"
  by (auto simp: insert_tag_def Let_def insert_feature_or[of FEATURE_TAG] covers_left split: option.split)

lemma fold_keeps:
  assumes "\<And>x b. covers b r \<Longrightarrow> covers (g x b) r"
  shows "covers b r \<Longrightarrow> covers (fold g xs b) r"
  using assms by (induction xs arbitrary: b) simp_all

lemma context_has:
  "ctx_id ctx = Some i \<Longrightarrow> covers (insert_context ctx 0) (feature FEATURE_ID i False)"
  "k \<in> set (ctx_classes ctx) \<Longrightarrow> covers (insert_context ctx 0) (feature FEATURE_CLASS k False)"
  "(name, v) \<in> set (ctx_attributes ctx) \<Longrightarrow>
    covers (insert_context ctx 0) (feature FEATURE_ATTRIBUTE (attribute_local_name name) True)"
  "covers (insert_context ctx 0) (feature FEATURE_TAG (ctx_tag ctx) True)"
  "local_name is_separator (ctx_tag ctx) \<noteq> [] \<Longrightarrow>
    covers (insert_context ctx 0) (feature FEATURE_TAG (local_name is_separator (ctx_tag ctx)) True)"
proof -
  have keep: "covers (insert_feature kind s lower b) r" if "covers b r" for kind s lower b r
    using that by (simp add: insert_feature_or[of kind] covers_left)
  show "covers (insert_context ctx 0) (feature FEATURE_ID i False)" if "ctx_id ctx = Some i"
    unfolding insert_context_def Let_def that option.case
    by (intro insert_tag_keeps fold_keeps) (auto simp: keep feature_def)
  show "covers (insert_context ctx 0) (feature FEATURE_CLASS k False)" if "k \<in> set (ctx_classes ctx)"
    unfolding insert_context_def Let_def
    by (intro insert_tag_keeps fold_keeps fold_features[where f = "\<lambda>k. k", OF that]) (auto simp: keep)
  show "covers (insert_context ctx 0) (feature FEATURE_ATTRIBUTE (attribute_local_name name) True)"
    if "(name, v) \<in> set (ctx_attributes ctx)"
    using fold_features[where f = "\<lambda>(name, _). attribute_local_name name", OF that]
    unfolding insert_context_def Let_def by (intro insert_tag_keeps) (simp add: case_prod_unfold)
  show "covers (insert_context ctx 0) (feature FEATURE_TAG (ctx_tag ctx) True)"
    by (auto simp: insert_context_def insert_tag_def Let_def insert_feature_or[of FEATURE_TAG] covers_left split: option.split)
  show "covers (insert_context ctx 0) (feature FEATURE_TAG (local_name is_separator (ctx_tag ctx)) True)"
    if "local_name is_separator (ctx_tag ctx) \<noteq> []"
    using that by (auto simp: insert_context_def insert_tag_def Let_def local_name_def insert_feature_or[of FEATURE_TAG] covers_left
        split: option.split)
qed

subsection \<open>Names that match have the same features\<close>

lemma of_char_lower: "(of_char (ascii_lower c) :: nat) =
    (let n = of_char c in if 65 \<le> n \<and> n \<le> 90 then n + 32 else n)"
  by (simp add: ascii_lower_def Let_def of_char_of)

lemma char_eq_iff: "c = d \<longleftrightarrow> (of_char c :: nat) = of_char d"
  by simp

lemma separator_lower [simp]: "is_separator (ascii_lower c) = is_separator c" "is_colon (ascii_lower c) = is_colon c"
  unfolding is_separator_def is_colon_def char_eq_iff[of _ "CHR ''|''"] char_eq_iff[of _ "CHR '':''"] of_char_lower
  by (auto simp: Let_def)

lemma rsplit_local: "local_name p s = rev (takeWhile (\<lambda>c. \<not> p c) (rev s))"
proof (cases "list_ex p s")
  case False
  then have "takeWhile (\<lambda>c. \<not> p c) (rev s) = rev s" by (subst takeWhile_eq_all_conv) (simp add: list_ex_iff)
  then have "rev (takeWhile (\<lambda>c. \<not> p c) (rev s)) = s" by (simp only: rev_rev_ident)
  then show ?thesis using False by (simp add: local_name_def rsplit_once_def)
qed (simp add: local_name_def rsplit_once_def)

lemma local_lower:
  assumes "\<And>c. p (ascii_lower c) = p c"
  shows "lowercase (local_name p s) = local_name p (lowercase s)"
  by (simp add: rsplit_local lowercase_def rev_map takeWhile_map comp_def assms)

lemma local_of_local: "local_name is_separator (local_name is_colon s) = local_name is_separator s"
proof -
  have "takeWhile (\<lambda>c. \<not> is_separator c) (takeWhile (\<lambda>c. \<not> is_colon c) xs) = takeWhile (\<lambda>c. \<not> is_separator c) xs" for xs
    by (induction xs) (auto simp: is_separator_def is_colon_def)
  then show ?thesis by (simp add: rsplit_local)
qed

lemma local_plain: "\<not> list_ex p s \<Longrightarrow> local_name p s = s"
  by (simp add: local_name_def rsplit_once_def)

lemma local_free: "\<not> list_ex p (local_name p s)"
  by (auto simp: rsplit_local list_ex_iff dest: set_takeWhileD)

lemma local_star: "local_name is_separator (''*|'' @ x) = local_name is_separator x"
proof -
  have "takeWhile (\<lambda>c. \<not> is_separator c) (xs @ ''|*'') = takeWhile (\<lambda>c. \<not> is_separator c) xs" for xs
    by (induction xs) (auto simp: is_separator_def)
  then show ?thesis by (simp add: rsplit_local)
qed

lemma feature_lower: "lowercase s = lowercase t \<Longrightarrow> feature kind s True = feature kind t True"
  by (simp add: feature_def insert_feature_def)

lemma attribute_names_same:
  assumes "attribute_name_eq_for html have name"
  shows "lowercase (attribute_local_name have) = lowercase (attribute_local_name name)"
proof (cases "strip_prefix ''*|'' name")
  case None
  then have "lowercase have = lowercase name"
    using assms by (auto simp: attribute_name_eq_for_def eq_ignore_ascii_case_def split: if_splits)
  then show ?thesis by (simp add: attribute_local_name_def local_lower)
next
  case (Some x)
  then have name: "name = ''*|'' @ x"
    by (auto simp: strip_prefix_def split: if_splits) (metis append_Cons append_Nil append_take_drop_id)
  have "lowercase (local_name is_colon have) = lowercase x"
    using assms Some by (auto simp: attribute_name_eq_for_def eq_ignore_ascii_case_def split: if_splits)
  then have "lowercase (local_name is_separator (local_name is_colon have)) = lowercase (local_name is_separator x)"
    by (simp add: local_lower)
  then show ?thesis using local_star[of x] by (simp add: attribute_local_name_def local_of_local name)
qed

definition plain_tag :: "CompoundSelector \<Rightarrow> bool" where
  "plain_tag c \<longleftrightarrow> (case sel_tag c of None \<Rightarrow> True | Some t \<Rightarrow> t \<noteq> [] \<and> CHR ''|'' \<notin> set t)"

lemma tag_covered:
  assumes tag: "sel_tag c = Some t" "tag_matches c ctx t" and plain: "plain_tag c"
  shows "covers (insert_context ctx 0) (feature FEATURE_TAG (if any_namespace c then tag_local_name t else t) True)"
proof -
  let ?actual = "if any_namespace c \<or> \<not> list_ex is_colon t then local_name is_colon (ctx_tag ctx) else ctx_tag ctx"
  have low: "lowercase t = lowercase ?actual"
    using tag(2) by (auto simp: tag_matches_def eq_ignore_ascii_case_def Let_def split: if_splits)
  have t: "t \<noteq> []" "CHR ''|'' \<notin> set t" using plain tag(1) by (simp_all add: plain_tag_def)
  show ?thesis
  proof (cases "any_namespace c \<or> \<not> list_ex is_colon t")
    case True
    then have low: "lowercase t = lowercase (local_name is_colon (ctx_tag ctx))" using low by simp
    have sep: "list_ex is_colon (lowercase s) = list_ex is_colon s" "list_ex is_separator (lowercase s) = list_ex is_separator s" for s
      by (simp_all add: lowercase_def list_ex_iff)
    have "\<not> list_ex is_colon t" using local_free[of is_colon "ctx_tag ctx"] low sep(1) by metis
    then have "\<not> list_ex is_separator t"
      using t(2) by (auto simp: list_ex_iff is_separator_def is_colon_def)
    then have req: "tag_local_name t = t" and free: "\<not> list_ex is_separator (local_name is_colon (ctx_tag ctx))"
      using local_plain low sep(2) by (auto simp: tag_local_name_def) metis
    have "local_name is_separator (ctx_tag ctx) = local_name is_colon (ctx_tag ctx)"
      using local_of_local[of "ctx_tag ctx"] local_plain[OF free] by simp
    moreover have "local_name is_colon (ctx_tag ctx) \<noteq> []" using low t(1) by (auto simp: lowercase_def)
    ultimately have "covers (insert_context ctx 0) (feature FEATURE_TAG (local_name is_colon (ctx_tag ctx)) True)"
      using context_has(5)[of ctx] by simp
    then show ?thesis using feature_lower[OF low, of FEATURE_TAG] req by simp
  next
    case False
    then show ?thesis using context_has(4)[of ctx] feature_lower[of t "ctx_tag ctx" FEATURE_TAG] low by simp
  qed
qed

lemma attribute_covered:
  assumes "attribute_selector_matches ctx a"
  shows "covers (insert_context ctx 0) (feature FEATURE_ATTRIBUTE (attribute_local_name (attribute_name a)) True)"
proof -
  obtain P where "attribute_named ctx (attribute_name a) P" using assms by (cases a) auto
  then obtain have_name v where h: "(have_name, v) \<in> set (ctx_attributes ctx)"
    "attribute_name_eq_for (html_element ctx) have_name (attribute_name a)"
    by (auto simp: attribute_named_def list_ex_iff)
  then show ?thesis using context_has(3)[OF h(1)] feature_lower[OF attribute_names_same[OF h(2)]] by simp
qed

lemma requirement_covered:
  assumes "compound_matches_ctx c ctx" "plain_tag c"
  shows "covers (insert_context ctx 0) (insert_compound_requirement c 0)"
proof -
  have id: "sel_id c = Some i \<Longrightarrow> ctx_id ctx = Some i" for i using assms(1) by (simp add: compound_matches_ctx_def)
  have cls: "k \<in> set (sel_classes c) \<Longrightarrow> k \<in> set (ctx_classes ctx)" for k
    using assms(1) by (auto simp: compound_matches_ctx_def list_all_iff list_ex_iff)
  have att: "a \<in> set (sel_attributes c) \<Longrightarrow> attribute_selector_matches ctx a" for a
    using assms(1) by (auto simp: compound_matches_ctx_def attribute_selectors_match_def list_all_iff)
  have tag: "sel_tag c = Some t \<Longrightarrow> tag_matches c ctx t" for t using assms(1) by (simp add: compound_matches_ctx_def)
  show ?thesis
    using context_has(1)[OF id] context_has(2)[OF cls] attribute_covered[OF att] tag_covered[OF _ tag assms(2)]
    by (auto simp: insert_compound_requirement_def simp flip: feature_def split: option.split list.split)
qed

lemma requirement_or: "insert_compound_requirement c b = b OR insert_compound_requirement c 0"
  by (auto simp: insert_compound_requirement_def insert_feature_or[of _ _ _ b] simp flip: feature_def split: option.split list.split)

lemma rule_requirement_or: "rule_requirement steps b = b OR rule_requirement steps 0"
proof (induction steps arbitrary: b)
  case (Cons s steps)
  obtain c k where s: "s = (c, k)" by (cases s)
  have "rule_requirement steps (insert_compound_requirement c b) = b OR rule_requirement steps (insert_compound_requirement c 0)"
    using Cons[of "insert_compound_requirement c b"] Cons[of "insert_compound_requirement c 0"] requirement_or[of c b]
    by (simp add: or.assoc)
  then show ?case by (cases k) (simp_all add: s)
qed simp

lemma nearest_ancestor_Some:
  "nearest_ancestor c ancestors k = Some i \<Longrightarrow> i < k \<and> compound_matches_ctx c (ancestors ! i)"
  by (induction k) (auto split: if_splits)

lemma walk_covered:
  assumes "chain_walk ancestors steps current k" "k \<le> length ancestors" "\<forall>(c, _)\<in>set steps. plain_tag c"
  shows "covers (for_contexts ancestors) (rule_requirement steps 0)"
  using assms
proof (induction ancestors steps current k rule: chain_walk.induct)
  case (2 ancestors c steps current k)
  let ?p = "ancestors ! (k - 1)"
  have k: "k \<noteq> 0" "compound_matches_ctx c ?p" "chain_walk ancestors steps ?p (k - 1)"
    using "2.prems"(1) by (auto simp: Let_def split: if_splits)
  then have "?p \<in> set ancestors" using "2.prems"(2) by simp
  then have "covers (for_contexts ancestors) (insert_compound_requirement c 0)"
    using covers_trans covers_contexts requirement_covered[OF k(2)] "2.prems"(3) by fastforce
  moreover have "covers (for_contexts ancestors) (rule_requirement steps 0)"
    using "2.IH"[OF k(1) refl k(3)] "2.prems"(2,3) by simp
  ultimately show ?case by (simp add: rule_requirement_or[of steps "insert_compound_requirement c 0"])
next
  case (3 ancestors c steps current k)
  then obtain i where i: "nearest_ancestor c ancestors k = Some i" "chain_walk ancestors steps (ancestors ! i) i"
    by (auto split: option.splits)
  note n = nearest_ancestor_Some[OF i(1)]
  then have "ancestors ! i \<in> set ancestors" using "3.prems"(2) by simp
  then have "covers (for_contexts ancestors) (insert_compound_requirement c 0)"
    using covers_trans covers_contexts requirement_covered[of c "ancestors ! i"] n "3.prems"(3) by fastforce
  moreover have "covers (for_contexts ancestors) (rule_requirement steps 0)"
    using "3.IH"[OF i] n "3.prems"(2,3) by simp
  ultimately show ?case by (simp add: rule_requirement_or[of steps "insert_compound_requirement c 0"])
qed simp_all

lemma filter_passes_match:
  assumes "selector_chain_matches_context chain combinators ctx ancestors" "\<forall>c\<in>set chain. plain_tag c"
  shows "might_contain (for_contexts ancestors) (for_rule chain combinators)"
proof -
  have "\<forall>(c, _)\<in>set (steps_left chain combinators). plain_tag c"
    using assms(2) by (auto simp: steps_left_def dest!: set_zip_leftD in_set_butlastD)
  then show ?thesis
    using assms(1) walk_covered by (auto simp: selector_chain_matches_context_def for_rule_def might_contain_covers)
qed

end
