(* ===== verification/RuleIndex.thy ===== *)
theory RuleIndex
  imports AncestorFilter "HOL-Library.AList"
begin

text \<open>
  The registered rules and the index that finds the candidates of an element,
  \<^verbatim>\<open>crates/w3cos-dom/src/stylesheet/rule_set.rs\<close> and the registration of \<^verbatim>\<open>stylesheet.rs\<close>: every rule is filed
  under one key of its subject, and the flags say what the rules depend on.
\<close>

subsection \<open>State\<close>

datatype StylesheetOrigin = User | Author

record Rule =
  origin :: StylesheetOrigin
  chain :: "CompoundSelector list"
  combinators :: "Combinator list"
  declarations :: "(string \<times> string) list"
  rule_specificity :: nat
  order :: nat
  owner :: "nat option"
  document_root :: "nat option"
  pseudo_element :: "string option"
  ancestor_filter :: AncestorBloom

record RuleSet =
  rules :: "Rule list"
  document_roots :: "(nat \<times> nat) list"
  id_rules :: "string \<rightharpoonup> nat list"
  class_rules :: "string \<rightharpoonup> nat list"
  attribute_rules :: "string \<rightharpoonup> nat list"
  tag_rules :: "string \<rightharpoonup> nat list"
  universal_rules :: "nat list"
  has_sibling_dependencies :: bool
  has_relational_dependencies :: bool
  has_structural_dependencies :: bool
  has_match_volatile_rules :: bool
  has_transition_rules :: bool
  pseudo_kinds :: "8 word"

definition rule_set_default :: RuleSet where
  "rule_set_default = \<lparr>rules = [], document_roots = [], id_rules = Map.empty, class_rules = Map.empty,
     attribute_rules = Map.empty, tag_rules = Map.empty, universal_rules = [], has_sibling_dependencies = False,
     has_relational_dependencies = False, has_structural_dependencies = False, has_match_volatile_rules = False,
     has_transition_rules = False, pseudo_kinds = 0\<rparr>"

datatype RuleBucket = BucketId string | BucketClass string | BucketAttribute string | BucketTag string | BucketUniversal

definition CONTAINER_QUERY_MARKER :: string where "CONTAINER_QUERY_MARKER = ''__w3cos_container_query''"

subsection \<open>What a rule depends on\<close>

fun pseudo_has_sibling_dependency :: "PseudoClass \<Rightarrow> bool" where
  "pseudo_has_sibling_dependency (Has _) = True"
| "pseudo_has_sibling_dependency (NotMatching s) = (CHR ''+'' \<in> set s \<or> CHR ''~'' \<in> set s)"
| "pseudo_has_sibling_dependency _ = False"

definition structural_needles :: "string list" where
  "structural_needles = ['':empty'', '':first-child'', '':last-child'', '':first-of-type'', '':last-of-type'', '':only-child'',
     '':only-of-type'', '':nth-child'', '':nth-last-child'', '':nth-of-type'', '':nth-last-of-type'']"

fun pseudo_has_structural_dependency :: "PseudoClass \<Rightarrow> bool" where
  "pseudo_has_structural_dependency (NotMatching s) = list_ex (str_contains (lowercase s)) structural_needles"
| "pseudo_has_structural_dependency (Has s) = list_ex (str_contains (lowercase s)) structural_needles"
| "pseudo_has_structural_dependency (NthChild _) = True"
| "pseudo_has_structural_dependency (NthLastChild _) = True"
| "pseudo_has_structural_dependency (NthOfType _) = True"
| "pseudo_has_structural_dependency (NthLastOfType _) = True"
| "pseudo_has_structural_dependency p =
     (p \<in> {FirstChild, LastChild, FirstOfType, LastOfType, OnlyChild, OnlyOfType, EmptyElement})"

fun pseudo_has_relational_dependency :: "PseudoClass \<Rightarrow> bool" where
  "pseudo_has_relational_dependency (Has _) = True"
| "pseudo_has_relational_dependency (NotMatching s) = str_contains (lowercase s) '':has(''"
| "pseudo_has_relational_dependency _ = False"

definition pseudo_kind_bit :: "string \<Rightarrow> 8 word" where
  "pseudo_kind_bit name = (if name = ''::before'' then 1 else if name = ''::after'' then 2
     else if name = ''::first-line'' then 4 else if name = ''::first-letter'' then 8 else 16)"

definition rule_pseudo :: "(PseudoClass \<Rightarrow> bool) \<Rightarrow> Rule \<Rightarrow> bool" where
  "rule_pseudo P r = list_ex (\<lambda>c. list_ex P (pseudo_classes c)) (chain r)"

definition sibling_dependent :: "Rule \<Rightarrow> bool" where
  "sibling_dependent r \<longleftrightarrow> list_ex (\<lambda>k. k = AdjacentSibling \<or> k = GeneralSibling) (combinators r) \<or>
     rule_pseudo pseudo_has_sibling_dependency r"

definition transition_rule :: "Rule \<Rightarrow> bool" where
  "transition_rule r = list_ex (\<lambda>(property, _). starts_with property ''transition'') (declarations r)"

fun pseudo_is_volatile :: "PseudoClass \<Rightarrow> bool" where
  "pseudo_is_volatile (NotMatching s) = str_contains (lowercase s) ''style''"
| "pseudo_is_volatile (Has s) = str_contains (lowercase s) ''style''"
| "pseudo_is_volatile _ = False"

definition volatile_rule :: "Rule \<Rightarrow> bool" where
  "volatile_rule r \<longleftrightarrow> list_ex (\<lambda>(property, _). property = CONTAINER_QUERY_MARKER) (declarations r) \<or>
     list_ex (\<lambda>c. list_ex (\<lambda>a. eq_ignore_ascii_case (attribute_name a) ''style'') (sel_attributes c) \<or>
       list_ex pseudo_is_volatile (pseudo_classes c)) (chain r)"

subsection \<open>Filing a rule\<close>

text \<open>The first element with the least key.\<close>

definition min_by_key :: "('a \<Rightarrow> nat) \<Rightarrow> 'a list \<Rightarrow> 'a option" where
  "min_by_key f xs = (case xs of [] \<Rightarrow> None
     | x # ys \<Rightarrow> Some (fold (\<lambda>y best. if f y < f best then y else best) ys x))"

definition rule_bucket :: "CompoundSelector \<Rightarrow> (string \<Rightarrow> nat) \<Rightarrow> RuleBucket" where
  "rule_bucket subject class_bucket_len =
     (if unsupported subject then BucketUniversal
      else case sel_id subject of Some i \<Rightarrow> BucketId i
      | None \<Rightarrow> (case min_by_key class_bucket_len (sel_classes subject) of Some k \<Rightarrow> BucketClass k
        | None \<Rightarrow> (case sel_attributes subject of a # _ \<Rightarrow> BucketAttribute (attribute_name a)
          | [] \<Rightarrow> (case sel_tag subject of Some t \<Rightarrow> BucketTag t | None \<Rightarrow> BucketUniversal))))"

definition attribute_index_key :: "string \<Rightarrow> string" where
  "attribute_index_key name = lowercase (local_name is_separator name)"

definition bucket_of :: "string \<Rightarrow> (string \<rightharpoonup> nat list) \<Rightarrow> nat list" where
  "bucket_of key m = (case m key of None \<Rightarrow> [] | Some is \<Rightarrow> is)"

definition file_under :: "string \<Rightarrow> nat \<Rightarrow> (string \<rightharpoonup> nat list) \<Rightarrow> string \<rightharpoonup> nat list" where
  "file_under key i m = m(key \<mapsto> bucket_of key m @ [i])"

definition subject_bucket :: "Rule \<Rightarrow> RuleSet \<Rightarrow> RuleBucket" where
  "subject_bucket r s = (if chain r = [] then BucketUniversal
     else rule_bucket (last (chain r)) (\<lambda>k. length (bucket_of k (class_rules s))))"

definition note_dependencies :: "Rule \<Rightarrow> RuleSet \<Rightarrow> RuleSet" where
  "note_dependencies r s =
     (let s = s\<lparr>has_sibling_dependencies := has_sibling_dependencies s \<or> sibling_dependent r\<rparr>;
          s = s\<lparr>has_relational_dependencies := has_relational_dependencies s \<or> rule_pseudo pseudo_has_relational_dependency r\<rparr>;
          s = s\<lparr>has_structural_dependencies := has_structural_dependencies s \<or> rule_pseudo pseudo_has_structural_dependency r\<rparr>;
          s = s\<lparr>has_transition_rules := has_transition_rules s \<or> transition_rule r\<rparr>;
          s = (case pseudo_element r of None \<Rightarrow> s | Some p \<Rightarrow> s\<lparr>pseudo_kinds := pseudo_kinds s OR pseudo_kind_bit p\<rparr>)
      in s\<lparr>has_match_volatile_rules := has_match_volatile_rules s \<or> volatile_rule r\<rparr>)"

definition index_rule :: "nat \<Rightarrow> RuleSet \<Rightarrow> RuleSet" where
  "index_rule i s =
     (let r = rules s ! i; s = note_dependencies r s
      in case subject_bucket r s of
        BucketId key \<Rightarrow> s\<lparr>id_rules := file_under key i (id_rules s)\<rparr>
      | BucketClass key \<Rightarrow> s\<lparr>class_rules := file_under key i (class_rules s)\<rparr>
      | BucketAttribute name \<Rightarrow> s\<lparr>attribute_rules := file_under (attribute_index_key name) i (attribute_rules s)\<rparr>
      | BucketTag t \<Rightarrow> s\<lparr>tag_rules := file_under (lowercase t) i (tag_rules s)\<rparr>
      | BucketUniversal \<Rightarrow> s\<lparr>universal_rules := universal_rules s @ [i]\<rparr>)"

definition push_rule :: "Rule \<Rightarrow> RuleSet \<Rightarrow> RuleSet" where
  "push_rule r s = index_rule (length (rules s)) (s\<lparr>rules := rules s @ [r]\<rparr>)"

definition rebuild_index :: "RuleSet \<Rightarrow> RuleSet" where
  "rebuild_index s = fold index_rule [0..<length (rules s)]
     (s\<lparr>id_rules := Map.empty, class_rules := Map.empty, attribute_rules := Map.empty, tag_rules := Map.empty,
        universal_rules := [], has_sibling_dependencies := False, has_relational_dependencies := False,
        has_structural_dependencies := False, has_match_volatile_rules := False, has_transition_rules := False,
        pseudo_kinds := 0\<rparr>)"

subsection \<open>Candidates\<close>

definition append_tag_candidates :: "(string \<rightharpoonup> nat list) \<Rightarrow> string \<Rightarrow> nat list" where
  "append_tag_candidates m tag =
     (let tag = lowercase tag
      in bucket_of tag m @ (case rsplit_once is_colon tag of None \<Rightarrow> [] | Some l \<Rightarrow> bucket_of l m))"

definition normalize_candidates :: "nat list \<Rightarrow> nat list" where
  "normalize_candidates xs = remdups (sort xs)"

definition candidate_indices_for_context :: "RuleSet \<Rightarrow> SelectorContext \<Rightarrow> nat list" where
  "candidate_indices_for_context s ctx = normalize_candidates (universal_rules s @
     (case ctx_id ctx of None \<Rightarrow> [] | Some i \<Rightarrow> bucket_of i (id_rules s)) @
     concat (map (\<lambda>k. bucket_of k (class_rules s)) (ctx_classes ctx)) @
     concat (map (\<lambda>(name, _). bucket_of (attribute_index_key name) (attribute_rules s)) (ctx_attributes ctx)) @
     append_tag_candidates (tag_rules s) (ctx_tag ctx))"

subsection \<open>The registry\<close>

text \<open>The rule set of the thread with its generation and the packed flags that edits of documents read.\<close>

record Registry =
  registered :: RuleSet
  style_generation :: nat
  rule_flags :: "8 word"

definition pack_rule_flags :: "RuleSet \<Rightarrow> 8 word" where
  "pack_rule_flags s =
     (if rules s \<noteq> [] then 1 else 0) OR (if has_sibling_dependencies s then 2 else 0) OR
     (if has_relational_dependencies s then 4 else 0) OR (if has_structural_dependencies s then 8 else 0) OR
     (if has_match_volatile_rules s then 16 else 0) OR (if has_transition_rules s then 32 else 0)"

definition refresh_rule_flags :: "Registry \<Rightarrow> Registry" where
  "refresh_rule_flags g = g\<lparr>rule_flags := pack_rule_flags (registered g)\<rparr>"

definition bump_generation :: "Registry \<Rightarrow> Registry" where
  "bump_generation g = g\<lparr>style_generation := (style_generation g + 1) mod 2 ^ 64\<rparr>"

definition new_rule ::
  "nat option \<Rightarrow> nat option \<Rightarrow> StylesheetOrigin \<Rightarrow> (string \<times> string) list \<Rightarrow>
   CompoundSelector list \<times> Combinator list \<times> string option \<Rightarrow> RuleSet \<Rightarrow> Rule" where
  "new_rule own root orig decls parsed s = (case parsed of (ch, combs, pseudo) \<Rightarrow>
     \<lparr>origin = orig, chain = ch, combinators = combs, declarations = decls,
      rule_specificity = sum_list (map specificity ch), order = length (rules s), owner = own, document_root = root,
      pseudo_element = pseudo, ancestor_filter = for_rule ch combs\<rparr>)"

definition register_parsed_rules ::
  "nat option \<Rightarrow> nat option \<Rightarrow> StylesheetOrigin \<Rightarrow> (CompoundSelector list \<times> Combinator list \<times> string option) list \<Rightarrow>
   (string \<times> string) list \<Rightarrow> Registry \<Rightarrow> Registry" where
  "register_parsed_rules own root orig parsed decls g =
     (let s = fold (\<lambda>p s. push_rule (new_rule own root orig decls p s) s) parsed (registered g);
          added = length (rules s) \<noteq> length (rules (registered g));
          g = g\<lparr>registered := s\<rparr>
      in if added then bump_generation (refresh_rule_flags g) else g)"

definition register_document_scope :: "nat \<Rightarrow> nat \<Rightarrow> Registry \<Rightarrow> Registry" where
  "register_document_scope own root g =
     (let changed = (map_of (document_roots (registered g)) root \<noteq> Some own);
          g = g\<lparr>registered := (registered g)\<lparr>document_roots := AList.update root own (document_roots (registered g))\<rparr>\<rparr>
      in if changed then bump_generation g else g)"

text \<open>The keyframes of the owner are kept elsewhere; whether some were removed is an argument.\<close>

definition clear_owner :: "nat \<Rightarrow> bool \<Rightarrow> Registry \<Rightarrow> Registry" where
  "clear_owner own removed_keyframes g =
     (let s = registered g;
          kept = s\<lparr>rules := filter (\<lambda>r. owner r \<noteq> Some own) (rules s),
            document_roots := filter (\<lambda>(_, root_owner). root_owner \<noteq> own) (document_roots s)\<rparr>;
          removed = (length (rules kept) \<noteq> length (rules s) \<or> length (document_roots kept) \<noteq> length (document_roots s));
          g = g\<lparr>registered := rebuild_index kept\<rparr>
      in if removed \<or> removed_keyframes then bump_generation (refresh_rule_flags g) else g)"

definition clear_rules :: "bool \<Rightarrow> Registry \<Rightarrow> Registry" where
  "clear_rules removed_keyframes g =
     (let removed = (rules (registered g) \<noteq> [] \<or> document_roots (registered g) \<noteq> []);
          g = g\<lparr>registered := rule_set_default\<rparr>
      in if removed \<or> removed_keyframes then bump_generation (refresh_rule_flags g) else g)"

end
