(* ===== verification/RuleLookup.thy ===== *)
theory RuleLookup
  imports RuleIndex
begin

text \<open>
  The index of rules is complete and its flags are exact in every registry that registration and the
  removal of owners lead to.
\<close>

subsection \<open>Filed rules\<close>

text \<open>\<open>filed s i\<close>: rule \<open>i\<close> is in a bucket that every element its subject matches looks into.\<close>

definition filed :: "RuleSet \<Rightarrow> nat \<Rightarrow> bool" where
  "filed s i \<longleftrightarrow> i \<in> set (universal_rules s) \<or> (\<exists>subject. chain (rules s ! i) \<noteq> [] \<and> subject = last (chain (rules s ! i)) \<and>
     ((\<exists>k. sel_id subject = Some k \<and> i \<in> set (bucket_of k (id_rules s))) \<or>
      (\<exists>k\<in>set (sel_classes subject). i \<in> set (bucket_of k (class_rules s))) \<or>
      (\<exists>a\<in>set (sel_attributes subject). i \<in> set (bucket_of (attribute_index_key (attribute_name a)) (attribute_rules s))) \<or>
      (\<exists>t. sel_tag subject = Some t \<and> i \<in> set (bucket_of (lowercase t) (tag_rules s)))))"

definition bucket_indices :: "RuleSet \<Rightarrow> nat set" where
  "bucket_indices s = set (universal_rules s) \<union>
     (\<Union>k. set (bucket_of k (id_rules s))) \<union> (\<Union>k. set (bucket_of k (class_rules s))) \<union>
     (\<Union>k. set (bucket_of k (attribute_rules s))) \<union> (\<Union>k. set (bucket_of k (tag_rules s)))"

lemma bucket_file [simp]: "bucket_of k (file_under key i m) = (if k = key then bucket_of k m @ [i] else bucket_of k m)"
  by (simp add: bucket_of_def file_under_def)

lemma bucket_empty [simp]: "bucket_of k Map.empty = []"
  by (simp add: bucket_of_def)

lemma min_by_key_in: "min_by_key f xs = Some x \<Longrightarrow> x \<in> set xs"
proof -
  have "fold (\<lambda>y best. if f y < f best then y else best) ys b \<in> insert b (set ys)" for ys b
    by (induction ys arbitrary: b) auto
  then show "min_by_key f xs = Some x \<Longrightarrow> x \<in> set xs"
    by (auto simp: min_by_key_def split: list.splits)
qed

lemma min_by_key_least: "min_by_key f xs = Some x \<Longrightarrow> \<forall>y\<in>set xs. f x \<le> f y"
proof -
  have "\<forall>y\<in>insert b (set ys). f (fold (\<lambda>y best. if f y < f best then y else best) ys b) \<le> f y" for ys b
  proof (induction ys arbitrary: b)
    case (Cons y ys)
    then show ?case using Cons[of "if f y < f b then y else b"] by (fastforce split: if_splits)
  qed simp
  then show "min_by_key f xs = Some x \<Longrightarrow> \<forall>y\<in>set xs. f x \<le> f y"
    by (auto simp: min_by_key_def split: list.splits)
qed

lemma note_dependencies_buckets [simp]:
  "rules (note_dependencies r s) = rules s" "document_roots (note_dependencies r s) = document_roots s"
  "id_rules (note_dependencies r s) = id_rules s" "class_rules (note_dependencies r s) = class_rules s"
  "attribute_rules (note_dependencies r s) = attribute_rules s" "tag_rules (note_dependencies r s) = tag_rules s"
  "universal_rules (note_dependencies r s) = universal_rules s"
  by (simp_all add: note_dependencies_def Let_def split: option.split)

lemma index_rule_rules [simp]: "rules (index_rule i s) = rules s" "document_roots (index_rule i s) = document_roots s"
  by (simp_all add: index_rule_def Let_def split: RuleBucket.split)

lemma index_rule_files: "filed (index_rule i s) i"
proof (cases "chain (rules s ! i) = []")
  case True
  then show ?thesis by (simp add: filed_def index_rule_def Let_def subject_bucket_def)
next
  case False
  let ?c = "last (chain (rules s ! i))"
  have "subject_bucket (rules s ! i) s' = rule_bucket ?c (\<lambda>k. length (bucket_of k (class_rules s')))" for s'
    using False by (simp add: subject_bucket_def)
  then show ?thesis
    using False
    by (auto simp: filed_def index_rule_def Let_def rule_bucket_def dest!: min_by_key_in split: option.split list.split)
qed

lemma index_rule_mono:
  "j \<in> set (universal_rules s) \<Longrightarrow> j \<in> set (universal_rules (index_rule i s))"
  "j \<in> set (bucket_of k (id_rules s)) \<Longrightarrow> j \<in> set (bucket_of k (id_rules (index_rule i s)))"
  "j \<in> set (bucket_of k (class_rules s)) \<Longrightarrow> j \<in> set (bucket_of k (class_rules (index_rule i s)))"
  "j \<in> set (bucket_of k (attribute_rules s)) \<Longrightarrow> j \<in> set (bucket_of k (attribute_rules (index_rule i s)))"
  "j \<in> set (bucket_of k (tag_rules s)) \<Longrightarrow> j \<in> set (bucket_of k (tag_rules (index_rule i s)))"
  by (auto simp: index_rule_def Let_def split: RuleBucket.split)

lemma index_rule_keeps: "filed s j \<Longrightarrow> filed (index_rule i s) j"
  unfolding filed_def index_rule_rules by (meson index_rule_mono)

lemma index_rule_indices: "bucket_indices (index_rule i s) \<subseteq> insert i (bucket_indices s)"
  by (auto simp: bucket_indices_def index_rule_def Let_def split: RuleBucket.split if_splits)

definition index_ok :: "RuleSet \<Rightarrow> bool" where
  "index_ok s \<longleftrightarrow> (\<forall>i < length (rules s). filed s i) \<and> bucket_indices s \<subseteq> {..<length (rules s)}"

subsection \<open>Flags\<close>

definition kinds_of :: "Rule list \<Rightarrow> 8 word" where
  "kinds_of rs = fold (\<lambda>r w. case pseudo_element r of None \<Rightarrow> w | Some p \<Rightarrow> w OR pseudo_kind_bit p) rs 0"

definition flags_ok :: "Rule list \<Rightarrow> RuleSet \<Rightarrow> bool" where
  "flags_ok rs s \<longleftrightarrow> has_sibling_dependencies s = list_ex sibling_dependent rs \<and>
     has_relational_dependencies s = list_ex (rule_pseudo pseudo_has_relational_dependency) rs \<and>
     has_structural_dependencies s = list_ex (rule_pseudo pseudo_has_structural_dependency) rs \<and>
     has_match_volatile_rules s = list_ex volatile_rule rs \<and> has_transition_rules s = list_ex transition_rule rs \<and>
     pseudo_kinds s = kinds_of rs"

lemma flags_index: "flags_ok rs s \<Longrightarrow> flags_ok (rs @ [rules s ! i]) (index_rule i s)"
proof -
  assume "flags_ok rs s"
  then have "flags_ok (rs @ [rules s ! i]) (note_dependencies (rules s ! i) s)"
    by (simp add: flags_ok_def note_dependencies_def Let_def kinds_of_def split: option.split)
  then show ?thesis by (simp add: flags_ok_def index_rule_def Let_def split: RuleBucket.split)
qed

definition rule_set_ok :: "RuleSet \<Rightarrow> bool" where
  "rule_set_ok s \<longleftrightarrow> index_ok s \<and> flags_ok (rules s) s"

lemma rule_set_default_ok: "rule_set_ok rule_set_default"
  by (simp add: rule_set_ok_def index_ok_def flags_ok_def rule_set_default_def bucket_indices_def kinds_of_def)

lemma filed_more: "filed s i \<Longrightarrow> i < length (rules s) \<Longrightarrow> filed (s\<lparr>rules := rules s @ [r]\<rparr>) i"
  by (simp add: filed_def nth_append)

lemma push_rule_ok:
  assumes "rule_set_ok s"
  shows "rule_set_ok (push_rule r s)" "rules (push_rule r s) = rules s @ [r]" "document_roots (push_rule r s) = document_roots s"
proof -
  let ?s = "s\<lparr>rules := rules s @ [r]\<rparr>" and ?n = "length (rules s)"
  have "bucket_indices ?s = bucket_indices s" by (simp add: bucket_indices_def)
  then have "bucket_indices (push_rule r s) \<subseteq> {..<Suc ?n}"
    using assms index_rule_indices[of ?n ?s] by (auto simp: push_rule_def rule_set_ok_def index_ok_def)
  moreover have "filed (push_rule r s) i" if "i < Suc ?n" for i
  proof (cases "i = ?n")
    case False
    then have "filed s i" using that assms by (simp add: rule_set_ok_def index_ok_def)
    then show ?thesis using index_rule_keeps filed_more False that by (simp add: push_rule_def)
  qed (simp add: push_rule_def index_rule_files)
  moreover have "flags_ok (rules s @ [r]) (push_rule r s)"
    using flags_index[of "rules s" ?s ?n] assms by (simp add: push_rule_def rule_set_ok_def flags_ok_def)
  ultimately show "rule_set_ok (push_rule r s)" by (simp add: rule_set_ok_def index_ok_def push_rule_def)
  show "rules (push_rule r s) = rules s @ [r]" "document_roots (push_rule r s) = document_roots s" by (simp_all add: push_rule_def)
qed

lemma fold_index_rules [simp]: "rules (fold index_rule is s) = rules s" "document_roots (fold index_rule is s) = document_roots s"
  by (induction "is" arbitrary: s) simp_all

lemma rebuild_index_ok: "rule_set_ok (rebuild_index s)" "rules (rebuild_index s) = rules s"
  "document_roots (rebuild_index s) = document_roots s"
proof -
  define s0 where "s0 = s\<lparr>id_rules := Map.empty, class_rules := Map.empty, attribute_rules := Map.empty,
    tag_rules := Map.empty, universal_rules := [], has_sibling_dependencies := False, has_relational_dependencies := False,
    has_structural_dependencies := False, has_match_volatile_rules := False, has_transition_rules := False, pseudo_kinds := 0\<rparr>"
  have r: "rebuild_index s = fold index_rule [0..<length (rules s)] s0" "rules s0 = rules s"
    by (simp_all add: rebuild_index_def s0_def)
  have "n \<le> length (rules s) \<Longrightarrow> (\<forall>i<n. filed (fold index_rule [0..<n] s0) i) \<and>
      bucket_indices (fold index_rule [0..<n] s0) \<subseteq> {..<n} \<and> flags_ok (take n (rules s)) (fold index_rule [0..<n] s0)" for n
  proof (induction n)
    case 0
    then show ?case by (simp add: s0_def bucket_indices_def flags_ok_def kinds_of_def)
  next
    case (Suc n)
    let ?s = "fold index_rule [0..<n] s0"
    have IH: "\<forall>i<n. filed ?s i" "bucket_indices ?s \<subseteq> {..<n}" "flags_ok (take n (rules s)) ?s" using Suc by simp_all
    have "flags_ok (take (Suc n) (rules s)) (index_rule n ?s)"
      using flags_index[OF IH(3), of n] Suc.prems r(2) by (simp add: take_Suc_conv_app_nth)
    moreover have "\<forall>i<Suc n. filed (index_rule n ?s) i"
      using IH(1) index_rule_keeps index_rule_files less_Suc_eq by auto
    moreover have "bucket_indices (index_rule n ?s) \<subseteq> {..<Suc n}"
      using IH(2) index_rule_indices[of n ?s] by force
    ultimately show ?case by simp
  qed
  from this[of "length (rules s)"] show "rule_set_ok (rebuild_index s)"
    by (simp add: rule_set_ok_def index_ok_def r)
  show "rules (rebuild_index s) = rules s" "document_roots (rebuild_index s) = document_roots s"
    by (simp_all add: r s0_def)
qed

subsection \<open>Every match is a candidate\<close>

lemma lowercase_local: "lowercase (local_name is_separator s) = local_name is_separator (lowercase s)"
  by (rule local_lower) simp

lemma tag_key_found:
  assumes "tag_matches c ctx t" "i \<in> set (bucket_of (lowercase t) m)"
  shows "i \<in> set (append_tag_candidates m (ctx_tag ctx))"
proof -
  let ?tag = "ctx_tag ctx"
  have "lowercase t = lowercase ?tag \<or> lowercase t = lowercase (local_name is_colon ?tag)"
    using assms(1) by (auto simp: tag_matches_def eq_ignore_ascii_case_def Let_def split: if_splits)
  moreover have "lowercase (local_name is_colon ?tag) = local_name is_colon (lowercase ?tag)"
    by (rule local_lower) simp
  ultimately have "lowercase t = lowercase ?tag \<or> lowercase t = local_name is_colon (lowercase ?tag)" by simp
  then show ?thesis
    using assms(2) by (auto simp: append_tag_candidates_def Let_def local_name_def split: option.splits)
qed

lemma attribute_key_found:
  assumes "attribute_selector_matches ctx a" "i \<in> set (bucket_of (attribute_index_key (attribute_name a)) m)"
  shows "\<exists>(name, _)\<in>set (ctx_attributes ctx). i \<in> set (bucket_of (attribute_index_key name) m)"
proof -
  obtain P where "attribute_named ctx (attribute_name a) P" using assms(1) by (cases a) auto
  then obtain h v where h: "(h, v) \<in> set (ctx_attributes ctx)" "attribute_name_eq_for (html_element ctx) h (attribute_name a)"
    by (auto simp: attribute_named_def list_ex_iff)
  have "attribute_index_key h = attribute_index_key (attribute_name a)"
    using attribute_names_same[OF h(2)] by (simp add: attribute_index_key_def attribute_local_name_def)
  then show ?thesis using h(1) assms(2) by (intro bexI[of _ "(h, v)"]) simp_all
qed

lemma candidates_set: "set (candidate_indices_for_context s ctx) = set (universal_rules s) \<union>
    (case ctx_id ctx of None \<Rightarrow> {} | Some i \<Rightarrow> set (bucket_of i (id_rules s))) \<union>
    (\<Union>k\<in>set (ctx_classes ctx). set (bucket_of k (class_rules s))) \<union>
    (\<Union>(name, _)\<in>set (ctx_attributes ctx). set (bucket_of (attribute_index_key name) (attribute_rules s))) \<union>
    set (append_tag_candidates (tag_rules s) (ctx_tag ctx))"
  by (auto simp: candidate_indices_for_context_def normalize_candidates_def split: option.split)

text \<open>A rule is found by every element that its subject matches, whatever its pseudo-classes say.\<close>

lemma filed_found:
  assumes filed: "filed s i"
    and m: "compound_matches_ctx (last (chain (rules s ! i))\<lparr>pseudo_classes := ps\<rparr>) ctx"
  shows "i \<in> set (candidate_indices_for_context s ctx)"
proof -
  let ?c = "last (chain (rules s ! i))"
  have att: "\<And>a. a \<in> set (sel_attributes ?c) \<Longrightarrow> attribute_selector_matches ctx a"
    and cls: "\<And>k. k \<in> set (sel_classes ?c) \<Longrightarrow> k \<in> set (ctx_classes ctx)"
    and tag: "\<And>t. sel_tag ?c = Some t \<Longrightarrow> tag_matches (?c\<lparr>pseudo_classes := ps\<rparr>) ctx t"
    and id: "\<And>k. sel_id ?c = Some k \<Longrightarrow> ctx_id ctx = Some k"
    using m by (auto simp: compound_matches_ctx_def attribute_selectors_match_def list_all_iff list_ex_iff)
  from filed consider "i \<in> set (universal_rules s)" | k where "sel_id ?c = Some k" "i \<in> set (bucket_of k (id_rules s))"
    | k where "k \<in> set (sel_classes ?c)" "i \<in> set (bucket_of k (class_rules s))"
    | a where "a \<in> set (sel_attributes ?c)" "i \<in> set (bucket_of (attribute_index_key (attribute_name a)) (attribute_rules s))"
    | t where "sel_tag ?c = Some t" "i \<in> set (bucket_of (lowercase t) (tag_rules s))"
    unfolding filed_def by blast
  then show ?thesis
  proof cases
    case 1
    then show ?thesis unfolding candidates_set by blast
  next
    case (2 k)
    then show ?thesis unfolding candidates_set using id[of k] by simp
  next
    case (3 k)
    then show ?thesis unfolding candidates_set using cls[of k] by blast
  next
    case (4 a)
    then obtain name v where "(name, v) \<in> set (ctx_attributes ctx)"
      "i \<in> set (bucket_of (attribute_index_key name) (attribute_rules s))"
      using attribute_key_found[OF att[OF 4(1)] 4(2)] by auto
    then show ?thesis unfolding candidates_set by (intro UnI1 UnI2 UN_I[of "(name, v)"]) auto
  next
    case (5 t)
    then show ?thesis unfolding candidates_set using tag_key_found[OF tag[OF 5(1)] 5(2)] by (intro UnI2)
  qed
qed

lemma candidate_found:
  assumes ok: "index_ok s" and i: "i < length (rules s)"
    and match: "selector_chain_matches_context (chain (rules s ! i)) combs ctx ancestors"
  shows "i \<in> set (candidate_indices_for_context s ctx)"
proof -
  let ?c = "last (chain (rules s ! i))"
  have "filed s i" using ok i by (simp add: index_ok_def)
  moreover have "compound_matches_ctx (?c\<lparr>pseudo_classes := pseudo_classes ?c\<rparr>) ctx"
    using match by (simp add: selector_chain_matches_context_def)
  ultimately show ?thesis by (rule filed_found)
qed

lemma candidates_sorted: "sorted (candidate_indices_for_context s ctx)" "distinct (candidate_indices_for_context s ctx)"
  by (simp_all add: candidate_indices_for_context_def normalize_candidates_def sorted_remdups)

lemma bucket_of_indices: "set (candidate_indices_for_context s ctx) \<subseteq> bucket_indices s"
proof -
  have "set (append_tag_candidates (tag_rules s) t) \<subseteq> bucket_indices s" for t
    by (auto simp: append_tag_candidates_def bucket_indices_def Let_def split: option.splits)
  then show ?thesis unfolding candidates_set by (auto simp: bucket_indices_def split: option.splits)
qed

text \<open>Filtering the candidates is filtering all rules, in their order.\<close>

lemma filter_candidates:
  assumes ok: "index_ok s"
    and P: "\<And>i. i < length (rules s) \<Longrightarrow> P (rules s ! i) \<Longrightarrow> i \<in> set (candidate_indices_for_context s ctx)"
  shows "filter P (map ((!) (rules s)) (candidate_indices_for_context s ctx)) = filter P (rules s)"
proof -
  let ?c = "candidate_indices_for_context s ctx" and ?n = "length (rules s)"
  have sub: "set ?c \<subseteq> {..<?n}" using bucket_of_indices ok by (fastforce simp: index_ok_def)
  have "filter (\<lambda>i. P (rules s ! i)) ?c = filter (\<lambda>i. P (rules s ! i)) [0..<?n]"
  proof (rule sorted_distinct_set_unique)
    show "sorted (filter (\<lambda>i. P (rules s ! i)) ?c)" "distinct (filter (\<lambda>i. P (rules s ! i)) ?c)"
      using candidates_sorted by (simp_all add: sorted_wrt_filter)
    show "set (filter (\<lambda>i. P (rules s ! i)) ?c) = set (filter (\<lambda>i. P (rules s ! i)) [0..<?n])"
      using sub P by auto
  qed (simp_all add: sorted_wrt_filter)
  then have "filter P (map ((!) (rules s)) ?c) = filter P (map ((!) (rules s)) [0..<?n])"
    by (simp add: filter_map comp_def)
  then show ?thesis by (simp only: map_nth)
qed

end
