(* ===== verification/StyleCascade.thy ===== *)
theory StyleCascade
  imports RuleLookup "HOL-Library.Product_Lexorder"
begin

text \<open>
  Matching an element against all registered rules and ordering their declarations,
  \<^verbatim>\<open>matching_declarations_for_context\<close> of \<^verbatim>\<open>crates/w3cos-dom/src/stylesheet.rs\<close>, and what the index, the ancestor
  filter and the greedy walk of a chain leave of a plain scan.
\<close>

subsection \<open>Values and importance\<close>

text \<open>The encodings of the characters that \<^verbatim>\<open>str::trim\<close> removes.\<close>

definition whitespace :: "string list" where
  "whitespace = map (map char_of) [[9], [10], [11], [12], [13], [32], [194, 133], [194, 160], [225, 154, 128],
     [226, 128, 128], [226, 128, 129], [226, 128, 130], [226, 128, 131], [226, 128, 132], [226, 128, 133], [226, 128, 134],
     [226, 128, 135], [226, 128, 136], [226, 128, 137], [226, 128, 138], [226, 128, 168], [226, 128, 169], [226, 128, 175],
     [226, 129, 159], [227, 128, 128 :: nat]]"

definition leading_space :: "string \<Rightarrow> nat" where
  "leading_space s = (case find (starts_with s) whitespace of None \<Rightarrow> 0 | Some w \<Rightarrow> length w)"

definition trailing_space :: "string \<Rightarrow> nat" where
  "trailing_space s = (case find (ends_with s) whitespace of None \<Rightarrow> 0 | Some w \<Rightarrow> length w)"

lemma leading_space_le: "leading_space s \<le> length s"
  by (auto simp: leading_space_def find_Some_iff starts_with_def split: option.split) (metis length_take min.cobounded1)

lemma trailing_space_le: "trailing_space s \<le> length s"
  by (auto simp: trailing_space_def find_Some_iff ends_with_def split: option.split)

function trim_start :: "string \<Rightarrow> string" where
  "trim_start s = (if leading_space s = 0 then s else trim_start (drop (leading_space s) s))"
  by auto
termination
proof (relation "measure length")
  fix s assume "leading_space s \<noteq> 0"
  then show "(drop (leading_space s) s, s) \<in> measure length" using leading_space_le[of s] by simp
qed simp

function trim_end :: "string \<Rightarrow> string" where
  "trim_end s = (if trailing_space s = 0 then s else trim_end (take (length s - trailing_space s) s))"
  by auto
termination
proof (relation "measure length")
  fix s assume "trailing_space s \<noteq> 0"
  then show "(take (length s - trailing_space s) s, s) \<in> measure length" using trailing_space_le[of s] by simp
qed simp

declare trim_start.simps [simp del] trim_end.simps [simp del]

definition trim :: "string \<Rightarrow> string" where "trim s = trim_end (trim_start s)"

definition rfind :: "char \<Rightarrow> string \<Rightarrow> nat option" where
  "rfind c s = (if c \<in> set s then Some (length s - Suc (length (takeWhile (\<lambda>x. x \<noteq> c) (rev s)))) else None)"

definition declaration_value_and_importance :: "string \<Rightarrow> string \<times> bool" where
  "declaration_value_and_importance v =
     (let v = trim v
      in case rfind CHR ''!'' v of
        None \<Rightarrow> (v, False)
      | Some marker \<Rightarrow> if eq_ignore_ascii_case (trim (drop (marker + 1) v)) ''important''
          then (trim_end (take marker v), True) else (v, False))"

fun cascade_rank :: "StylesheetOrigin \<Rightarrow> bool \<Rightarrow> nat" where
  "cascade_rank User False = 0"
| "cascade_rank Author False = 1"
| "cascade_rank Author True = 2"
| "cascade_rank User True = 3"

subsection \<open>Matching and ordering\<close>

definition rule_has_container_query :: "Rule \<Rightarrow> bool" where
  "rule_has_container_query r = list_ex (\<lambda>(property, _). property = CONTAINER_QUERY_MARKER) (declarations r)"

definition rule_matches :: "Rule \<Rightarrow> SelectorContext \<Rightarrow> SelectorContext list \<Rightarrow> bool" where
  "rule_matches r ctx ancestors = selector_chain_matches_context (chain r) (combinators r) ctx ancestors"

definition scope_free :: "Rule \<Rightarrow> bool" where
  "scope_free r \<longleftrightarrow> pseudo_element r = None \<and> document_root r = None \<and> \<not> rule_has_container_query r"

text \<open>The filter of the candidates, which builds the filter of the ancestors when a rule first asks for it.\<close>

fun keep_matching :: "SelectorContext \<Rightarrow> SelectorContext list \<Rightarrow> Rule list \<Rightarrow> AncestorBloom option \<Rightarrow> Rule list" where
  "keep_matching ctx ancestors [] cell = []"
| "keep_matching ctx ancestors (r # rs) cell =
     (if scope_free r then
        (case lazy_might_contain (ancestors = []) (\<lambda>_. for_contexts ancestors) cell (ancestor_filter r) of
           (might, cell) \<Rightarrow> if might \<and> rule_matches r ctx ancestors then r # keep_matching ctx ancestors rs cell
             else keep_matching ctx ancestors rs cell)
      else keep_matching ctx ancestors rs cell)"

text \<open>Each declaration goes to the bucket of its rank, behind those already there.\<close>

definition rank_declaration :: "Rule \<Rightarrow> string \<times> string \<Rightarrow> (string \<times> string \<times> nat) list list \<Rightarrow> (string \<times> string \<times> nat) list list" where
  "rank_declaration r decl buckets = (case decl of (prop, v) \<Rightarrow>
     if prop = CONTAINER_QUERY_MARKER then buckets
     else case declaration_value_and_importance v of (v, important) \<Rightarrow>
       let k = cascade_rank (origin r) important
       in buckets[k := buckets ! k @ [(prop, v, rule_specificity r)]])"

definition cascade_declarations :: "Rule list \<Rightarrow> (string \<times> string \<times> nat) list" where
  "cascade_declarations matched =
     concat (fold (\<lambda>r. fold (rank_declaration r) (declarations r)) matched (replicate 4 []))"

definition matching_declarations_for_context ::
  "RuleSet \<Rightarrow> SelectorContext \<Rightarrow> SelectorContext list \<Rightarrow> (string \<times> string \<times> nat) list" where
  "matching_declarations_for_context s ctx ancestors =
     (let matched = keep_matching ctx ancestors (map ((!) (rules s)) (candidate_indices_for_context s ctx)) None
      in cascade_declarations (sort_key (\<lambda>r. (rule_specificity r, order r)) matched))"

subsection \<open>The plain scan\<close>

definition declarations_of_rank :: "nat \<Rightarrow> Rule \<Rightarrow> (string \<times> string \<times> nat) list" where
  "declarations_of_rank k r = concat (map (\<lambda>(prop, v). case declaration_value_and_importance v of (w, important) \<Rightarrow>
     if prop \<noteq> CONTAINER_QUERY_MARKER \<and> cascade_rank (origin r) important = k then [(prop, w, rule_specificity r)] else [])
     (declarations r))"

lemma cascade_rank_4: "cascade_rank org imp < 4"
  by (cases "(org, imp)" rule: cascade_rank.cases) simp_all

lemma rank_declaration_length [simp]: "length (rank_declaration r d bs) = length bs"
  by (simp add: rank_declaration_def Let_def split: prod.split)

lemma rank_declaration_at:
  assumes "length bs = 4" "k < 4"
  shows "rank_declaration r d bs ! k = bs ! k @ (case d of (prop, v) \<Rightarrow> case declaration_value_and_importance v of (w, important) \<Rightarrow>
     if prop \<noteq> CONTAINER_QUERY_MARKER \<and> cascade_rank (origin r) important = k then [(prop, w, rule_specificity r)] else [])"
  using assms cascade_rank_4 by (auto simp: rank_declaration_def Let_def nth_list_update split: prod.split)

lemma fold_declarations:
  "length bs = 4 \<Longrightarrow> k < 4 \<Longrightarrow> length (fold (rank_declaration r) ds bs) = 4 \<and> fold (rank_declaration r) ds bs ! k =
    bs ! k @ concat (map (\<lambda>(prop, v). case declaration_value_and_importance v of (w, important) \<Rightarrow>
     if prop \<noteq> CONTAINER_QUERY_MARKER \<and> cascade_rank (origin r) important = k then [(prop, w, rule_specificity r)] else []) ds)"
  by (induction ds arbitrary: bs) (simp_all add: rank_declaration_at)

lemma fold_rules:
  "length bs = 4 \<Longrightarrow> k < 4 \<Longrightarrow> length (fold (\<lambda>r. fold (rank_declaration r) (declarations r)) rs bs) = 4 \<and>
    fold (\<lambda>r. fold (rank_declaration r) (declarations r)) rs bs ! k = bs ! k @ concat (map (declarations_of_rank k) rs)"
proof (induction rs arbitrary: bs)
  case (Cons r rs)
  then show ?case using fold_declarations[of bs k r "declarations r"] by (simp add: declarations_of_rank_def)
qed simp

lemma cascade_by_rank: "cascade_declarations rs = concat (map (\<lambda>k. concat (map (declarations_of_rank k) rs)) [0..<4])"
proof -
  let ?bs = "fold (\<lambda>r. fold (rank_declaration r) (declarations r)) rs (replicate 4 [])"
  have len: "length ?bs = 4" using fold_rules[of "replicate 4 []" 0 rs] by simp
  then have "?bs = map ((!) ?bs) [0..<4]" using map_nth[of ?bs] by simp
  also have "\<dots> = map (\<lambda>k. concat (map (declarations_of_rank k) rs)) [0..<4]"
    using fold_rules[of "replicate 4 []" _ rs] by (intro map_cong) auto
  finally show ?thesis by (simp add: cascade_declarations_def)
qed

lemma lazy_exact:
  assumes "cell = None \<or> cell = Some (for_contexts ancestors)"
  shows "\<exists>cell'. lazy_might_contain (ancestors = []) (\<lambda>_. for_contexts ancestors) cell required =
    (might_contain (for_contexts ancestors) required, cell') \<and> (cell' = None \<or> cell' = Some (for_contexts ancestors))"
  using assms by (auto simp: lazy_might_contain_def Let_def might_contain_def for_contexts_def split: option.split)

definition filters_ok :: "RuleSet \<Rightarrow> bool" where
  "filters_ok s \<longleftrightarrow> (\<forall>r\<in>set (rules s). ancestor_filter r = for_rule (chain r) (combinators r))"

definition plain_tags :: "RuleSet \<Rightarrow> bool" where
  "plain_tags s \<longleftrightarrow> (\<forall>r\<in>set (rules s). \<forall>c\<in>set (chain r). plain_tag c)"

lemma keep_matching_filter:
  assumes "\<forall>r\<in>set rs. ancestor_filter r = for_rule (chain r) (combinators r) \<and> (\<forall>c\<in>set (chain r). plain_tag c)"
    "cell = None \<or> cell = Some (for_contexts ancestors)"
  shows "keep_matching ctx ancestors rs cell = filter (\<lambda>r. scope_free r \<and> rule_matches r ctx ancestors) rs"
  using assms
proof (induction rs arbitrary: cell)
  case (Cons r rs)
  obtain cell' where c: "lazy_might_contain (ancestors = []) (\<lambda>_. for_contexts ancestors) cell (ancestor_filter r) =
    (might_contain (for_contexts ancestors) (ancestor_filter r), cell')" "cell' = None \<or> cell' = Some (for_contexts ancestors)"
    using lazy_exact[OF Cons.prems(2)] by blast
  have "rule_matches r ctx ancestors \<Longrightarrow> might_contain (for_contexts ancestors) (ancestor_filter r)"
    using filter_passes_match Cons.prems(1) by (simp add: rule_matches_def)
  then show ?case using Cons c by auto
qed simp

lemma cascade_full_scan:
  assumes "index_ok s" "filters_ok s" "plain_tags s"
  shows "matching_declarations_for_context s ctx ancestors = cascade_declarations
    (sort_key (\<lambda>r. (rule_specificity r, order r)) (filter (\<lambda>r. scope_free r \<and> rule_matches r ctx ancestors) (rules s)))"
proof -
  let ?c = "candidate_indices_for_context s ctx"
  have "set ?c \<subseteq> {..<length (rules s)}" using bucket_of_indices assms(1) by (fastforce simp: index_ok_def)
  then have in_rules: "\<And>r. r \<in> set (map ((!) (rules s)) ?c) \<Longrightarrow> r \<in> set (rules s)" by auto
  have "keep_matching ctx ancestors (map ((!) (rules s)) ?c) None =
    filter (\<lambda>r. scope_free r \<and> rule_matches r ctx ancestors) (map ((!) (rules s)) ?c)"
    using in_rules assms(2,3) unfolding filters_ok_def plain_tags_def by (intro keep_matching_filter ballI) blast+
  also have "\<dots> = filter (\<lambda>r. scope_free r \<and> rule_matches r ctx ancestors) (rules s)"
    using candidate_found[OF assms(1)] by (intro filter_candidates[OF assms(1)]) (auto simp: rule_matches_def)
  finally show ?thesis by (simp add: matching_declarations_for_context_def)
qed

end
