(* ===== verification/StyleLaws.thy ===== *)
theory StyleLaws
  imports StyleCascade
begin

text \<open>
  The laws of the registered rules, in every registry that registration and removal lead to, and of the walk
  that matches a chain of compounds.
\<close>

subsection \<open>Reachable registries\<close>

definition registry_default :: Registry where
  "registry_default = \<lparr>registered = rule_set_default, style_generation = 1, rule_flags = 0\<rparr>"

inductive registry_reachable :: "Registry \<Rightarrow> bool" where
  start: "registry_reachable registry_default"
| register: "registry_reachable g \<Longrightarrow> registry_reachable (register_parsed_rules own root orig parsed decls g)"
| scope: "registry_reachable g \<Longrightarrow> registry_reachable (register_document_scope own root g)"
| owner_gone: "registry_reachable g \<Longrightarrow> registry_reachable (clear_owner own removed_keyframes g)"
| cleared: "registry_reachable g \<Longrightarrow> registry_reachable (clear_rules removed_keyframes g)"

definition registry_ok :: "Registry \<Rightarrow> bool" where
  "registry_ok g \<longleftrightarrow> rule_set_ok (registered g) \<and> filters_ok (registered g) \<and> rule_flags g = pack_rule_flags (registered g)"

lemma registry_parts [simp]:
  "registered (bump_generation g) = registered g" "rule_flags (bump_generation g) = rule_flags g"
  "registered (refresh_rule_flags g) = registered g" "rule_flags (refresh_rule_flags g) = pack_rule_flags (registered g)"
  by (simp_all add: bump_generation_def refresh_rule_flags_def)

text \<open>The flags are a function of the rules.\<close>

lemma pack_flags_rules:
  assumes "rule_set_ok s" "rule_set_ok s'" "rules s = rules s'"
  shows "pack_rule_flags s = pack_rule_flags s'"
  using assms by (simp add: rule_set_ok_def flags_ok_def pack_rule_flags_def)

lemma fold_push_ok:
  "rule_set_ok s \<Longrightarrow> filters_ok s \<Longrightarrow>
    rule_set_ok (fold (\<lambda>p s. push_rule (new_rule own root orig decls p s) s) ps s) \<and>
    filters_ok (fold (\<lambda>p s. push_rule (new_rule own root orig decls p s) s) ps s) \<and>
    length (rules (fold (\<lambda>p s. push_rule (new_rule own root orig decls p s) s) ps s)) = length (rules s) + length ps"
proof (induction ps arbitrary: s)
  case (Cons p ps)
  have "filters_ok (push_rule (new_rule own root orig decls p s) s)"
    using Cons.prems by (auto simp: filters_ok_def push_rule_ok new_rule_def split: prod.split)
  then show ?case using Cons.IH[OF push_rule_ok(1)[OF Cons.prems(1)]] push_rule_ok(2)[OF Cons.prems(1)] by simp
qed simp

lemma registry_reachable_ok: "registry_reachable g \<Longrightarrow> registry_ok g"
proof (induction rule: registry_reachable.induct)
  case start
  show ?case using rule_set_default_ok
    by (simp add: registry_ok_def registry_default_def filters_ok_def pack_rule_flags_def) (simp add: rule_set_default_def)
next
  case (register g own root orig parsed decls)
  let ?s = "fold (\<lambda>p s. push_rule (new_rule own root orig decls p s) s) parsed (registered g)"
  have F: "rule_set_ok ?s" "filters_ok ?s" "length (rules ?s) = length (rules (registered g)) + length parsed"
    using fold_push_ok[of "registered g"] register.IH by (simp_all add: registry_ok_def)
  show ?case
    using F register.IH by (cases "parsed = []") (simp_all add: registry_ok_def register_parsed_rules_def Let_def)
next
  case (scope g own root)
  then show ?case
    by (simp add: registry_ok_def register_document_scope_def Let_def rule_set_ok_def index_ok_def filed_def bucket_indices_def
        flags_ok_def filters_ok_def pack_rule_flags_def)
next
  case (owner_gone g own k)
  let ?s = "registered g"
  define kept where "kept = ?s\<lparr>rules := filter (\<lambda>r. owner r \<noteq> Some own) (rules ?s),
    document_roots := filter (\<lambda>(_, root_owner). root_owner \<noteq> own) (document_roots ?s)\<rparr>"
  note B = rebuild_index_ok[of kept]
  have "rules kept = rules ?s" if "length (rules kept) = length (rules ?s)"
    using that length_filter_less[of _ "rules ?s" "\<lambda>r. owner r \<noteq> Some own"] by (fastforce simp: kept_def filter_id_conv)
  then have "pack_rule_flags (rebuild_index kept) = rule_flags g" if "length (rules kept) = length (rules ?s)"
    using that pack_flags_rules[OF B(1)] B(2) owner_gone.IH by (simp add: registry_ok_def)
  moreover have "filters_ok (rebuild_index kept)"
    using owner_gone.IH B(2) by (auto simp: registry_ok_def filters_ok_def) (auto simp: kept_def)
  moreover have "clear_owner own k g = (let g' = g\<lparr>registered := rebuild_index kept\<rparr> in
      if length (rules kept) \<noteq> length (rules ?s) \<or> length (document_roots kept) \<noteq> length (document_roots ?s) \<or> k
      then bump_generation (refresh_rule_flags g') else g')"
    by (simp add: clear_owner_def Let_def kept_def)
  ultimately show ?case using B(1) by (simp add: registry_ok_def Let_def)
next
  case (cleared g k)
  have "pack_rule_flags rule_set_default = 0" by (simp add: pack_rule_flags_def rule_set_default_def)
  moreover have "rule_flags g = 0" if "rules (registered g) = []"
    using cleared.IH that by (simp add: registry_ok_def pack_rule_flags_def rule_set_ok_def flags_ok_def)
  moreover have "filters_ok rule_set_default" by (simp add: filters_ok_def rule_set_default_def)
  ultimately show ?case
    using rule_set_default_ok by (auto simp: registry_ok_def clear_rules_def Let_def)
qed

text \<open>The readers of the packed flags.\<close>

definition has_rules :: "Registry \<Rightarrow> bool" where "has_rules g \<longleftrightarrow> rule_flags g AND 1 \<noteq> 0"
definition has_sibling_selectors :: "Registry \<Rightarrow> bool" where "has_sibling_selectors g \<longleftrightarrow> rule_flags g AND 2 \<noteq> 0"
definition has_relational_selectors :: "Registry \<Rightarrow> bool" where "has_relational_selectors g \<longleftrightarrow> rule_flags g AND 4 \<noteq> 0"
definition has_structural_selectors :: "Registry \<Rightarrow> bool" where "has_structural_selectors g \<longleftrightarrow> rule_flags g AND 8 \<noteq> 0"
definition matched_rules_survive_inline_style_edits :: "Registry \<Rightarrow> bool" where
  "matched_rules_survive_inline_style_edits g \<longleftrightarrow> rule_flags g AND 16 = 0"
definition has_transition_selectors :: "Registry \<Rightarrow> bool" where "has_transition_selectors g \<longleftrightarrow> rule_flags g AND 32 \<noteq> 0"
definition has_position_dependent_rules :: "Registry \<Rightarrow> bool" where
  "has_position_dependent_rules g \<longleftrightarrow> rule_flags g AND (2 OR 4 OR 8) \<noteq> 0"

lemma packed_bits:
  "pack_rule_flags s AND 1 \<noteq> 0 \<longleftrightarrow> rules s \<noteq> []" "pack_rule_flags s AND 2 \<noteq> 0 \<longleftrightarrow> has_sibling_dependencies s"
  "pack_rule_flags s AND 4 \<noteq> 0 \<longleftrightarrow> has_relational_dependencies s"
  "pack_rule_flags s AND 8 \<noteq> 0 \<longleftrightarrow> has_structural_dependencies s"
  "pack_rule_flags s AND 16 = 0 \<longleftrightarrow> \<not> has_match_volatile_rules s" "pack_rule_flags s AND 32 \<noteq> 0 \<longleftrightarrow> has_transition_rules s"
  "pack_rule_flags s AND (2 OR 4 OR 8) \<noteq> 0 \<longleftrightarrow>
     has_sibling_dependencies s \<or> has_relational_dependencies s \<or> has_structural_dependencies s"
  by (simp_all add: pack_rule_flags_def)

lemma packed_14: "pack_rule_flags s AND 14 \<noteq> 0 \<longleftrightarrow>
    has_sibling_dependencies s \<or> has_relational_dependencies s \<or> has_structural_dependencies s"
  using packed_bits(7)[of s] by simp

subsection \<open>Chains\<close>

text \<open>What a chain means: some choice of ancestors and siblings that every compound matches.\<close>

fun chain_selects :: "SelectorContext list \<Rightarrow> (CompoundSelector \<times> Combinator) list \<Rightarrow> SelectorContext \<Rightarrow> nat \<Rightarrow> bool" where
  "chain_selects ancestors [] current cursor = True"
| "chain_selects ancestors ((c, Child) # steps) current cursor =
     (cursor \<noteq> 0 \<and> compound_matches_ctx c (ancestors ! (cursor - 1)) \<and>
      chain_selects ancestors steps (ancestors ! (cursor - 1)) (cursor - 1))"
| "chain_selects ancestors ((c, Descendant) # steps) current cursor =
     list_ex (\<lambda>i. compound_matches_ctx c (ancestors ! i) \<and> chain_selects ancestors steps (ancestors ! i) i) [0..<cursor]"
| "chain_selects ancestors ((c, AdjacentSibling) # steps) current cursor =
     (previous_siblings current \<noteq> [] \<and> compound_matches_ctx c (last (previous_siblings current)) \<and>
      chain_selects ancestors steps (last (previous_siblings current)) cursor)"
| "chain_selects ancestors ((c, GeneralSibling) # steps) current cursor =
     list_ex (\<lambda>x. compound_matches_ctx c x \<and> chain_selects ancestors steps x cursor) (previous_siblings current)"

definition chain_selects_element ::
  "CompoundSelector list \<Rightarrow> Combinator list \<Rightarrow> SelectorContext \<Rightarrow> SelectorContext list \<Rightarrow> bool" where
  "chain_selects_element ch combs ctx ancestors \<longleftrightarrow> ch \<noteq> [] \<and> compound_matches_ctx (last ch) ctx \<and>
     chain_selects ancestors (steps_left ch combs) ctx (length ancestors)"

text \<open>
  Chains for which the greedy walk is complete: to the left of a descendant combinator stand only
  descendant combinators, and directly to the left of a general sibling combinator no sibling combinator.
\<close>

fun greedy_complete :: "(CompoundSelector \<times> Combinator) list \<Rightarrow> bool" where
  "greedy_complete [] = True"
| "greedy_complete ((_, k) # steps) =
     ((k = Descendant \<longrightarrow> list_all (\<lambda>s. snd s = Descendant) steps) \<and>
      (k = GeneralSibling \<longrightarrow> steps = [] \<or> snd (hd steps) \<in> {Child, Descendant}) \<and> greedy_complete steps)"

lemma walk_selects: "chain_walk ancestors steps current k \<Longrightarrow> chain_selects ancestors steps current k"
proof (induction ancestors steps current k rule: chain_walk.induct)
  case (3 ancestors c steps current k)
  then obtain i where i: "nearest_ancestor c ancestors k = Some i" "chain_walk ancestors steps (ancestors ! i) i"
    by (auto split: option.splits)
  then show ?case using "3.IH"[OF i] nearest_ancestor_Some[OF i(1)] by (auto simp: list_ex_iff)
next
  case (5 ancestors c steps current k)
  then obtain x where x: "find (compound_matches_ctx c) (rev (previous_siblings current)) = Some x"
    "chain_walk ancestors steps x k" by (auto split: option.splits)
  then have "x \<in> set (previous_siblings current)" "compound_matches_ctx c x"
    by (auto simp: find_Some_iff) (metis length_rev nth_mem set_rev)
  then show ?case using "5.IH"[OF x] by (auto simp: list_ex_iff)
qed (auto simp: Let_def split: if_splits)

lemma selects_mono:
  "list_all (\<lambda>s. snd s = Descendant) steps \<Longrightarrow> chain_selects ancestors steps x k \<Longrightarrow> k \<le> k' \<Longrightarrow> chain_selects ancestors steps y k'"
  by (cases "(ancestors, steps, x, k)" rule: chain_selects.cases) (auto simp: list_ex_iff)

lemma nearest_ancestor_max:
  "j < k \<Longrightarrow> compound_matches_ctx c (ancestors ! j) \<Longrightarrow> \<exists>i. nearest_ancestor c ancestors k = Some i \<and> j \<le> i"
proof (induction k)
  case (Suc k)
  then show ?case by (cases "j = k") auto
qed simp

lemma selects_from_anywhere:
  "steps = [] \<or> snd (hd steps) \<in> {Child, Descendant} \<Longrightarrow>
   chain_selects ancestors steps x k = chain_selects ancestors steps y k"
  by (cases "(ancestors, steps, x, k)" rule: chain_selects.cases) auto

lemma selects_walk: "greedy_complete steps \<Longrightarrow> chain_selects ancestors steps current k \<Longrightarrow> chain_walk ancestors steps current k"
proof (induction ancestors steps current k rule: chain_walk.induct)
  case (3 ancestors c steps current k)
  then obtain j where j: "j < k" "compound_matches_ctx c (ancestors ! j)" "chain_selects ancestors steps (ancestors ! j) j"
    and all: "list_all (\<lambda>s. snd s = Descendant) steps" "greedy_complete steps" by (auto simp: list_ex_iff)
  obtain i where i: "nearest_ancestor c ancestors k = Some i" "j \<le> i" using nearest_ancestor_max[of j k] j by blast
  show ?case using "3.IH"[OF i(1) all(2)] selects_mono[OF all(1) j(3) i(2)] i(1) by simp
next
  case (5 ancestors c steps current k)
  then obtain y where y: "y \<in> set (previous_siblings current)" "compound_matches_ctx c y"
      "chain_selects ancestors steps y k"
    and kinds: "steps = [] \<or> snd (hd steps) \<in> {Child, Descendant}" "greedy_complete steps"
    by (auto simp: list_ex_iff)
  then obtain x where x: "find (compound_matches_ctx c) (rev (previous_siblings current)) = Some x"
    by (cases "find (compound_matches_ctx c) (rev (previous_siblings current))") (auto simp: find_None_iff)
  have "chain_selects ancestors steps x k"
    using y(3) selects_from_anywhere[OF kinds(1)] by blast
  then show ?case using "5.IH"[OF x kinds(2)] x by simp
qed (auto simp: Let_def)

subsection \<open>The laws\<close>

definition type_selector :: "string \<Rightarrow> CompoundSelector" where
  "type_selector t = compound_default\<lparr>sel_tag := Some t\<rparr>"

definition class_selector :: "string \<Rightarrow> CompoundSelector" where
  "class_selector k = compound_default\<lparr>sel_classes := [k]\<rparr>"

definition demo_rules :: Registry where
  "demo_rules = register_parsed_rules (Some 1) None Author
     [([type_selector ''a'', class_selector ''x''], [Descendant], None)] [(''p'', ''v'')] registry_default"

lemma demo_reachable: "registry_reachable demo_rules"
  unfolding demo_rules_def by (intro registry_reachable.intros)

lemma register_rules:
  "rules (registered (register_parsed_rules own root orig ps decls g)) =
    rules (fold (\<lambda>p s. push_rule (new_rule own root orig decls p s) s) ps (registered g))"
  by (simp add: register_parsed_rules_def Let_def)

lemma push_rules [simp]: "rules (push_rule r s) = rules s @ [r]"
  by (simp add: push_rule_def)

lemma demo_plain: "plain_tags (registered demo_rules)"
  by (simp add: plain_tags_def demo_rules_def register_rules registry_default_def rule_set_default_def new_rule_def plain_tag_def
      type_selector_def class_selector_def compound_default_def)

text \<open>
  C14. The index and the buckets change nothing, and neither does the ancestor filter when no type
  selector of a rule is empty or has an escaped bar in it (\<open>plain_tags\<close>; otherwise it can, as shown at the end): in
  every registry that registration and removal lead to, the declarations of an element are those of the
  rules that match it in a plain scan of the registered rules without pseudo-element, document root and
  container query, by rank of origin and importance, within a rank by specificity and order.
\<close>

theorem cascade_equals_plain_scan:
  assumes "registry_reachable g" "plain_tags (registered g)"
  shows "matching_declarations_for_context (registered g) ctx ancestors = concat (map (\<lambda>k. concat (map (declarations_of_rank k)
    (sort_key (\<lambda>r. (rule_specificity r, order r))
      (filter (\<lambda>r. scope_free r \<and> rule_matches r ctx ancestors) (rules (registered g)))))) [0..<4])"
proof -
  have "index_ok (registered g)" "filters_ok (registered g)"
    using registry_reachable_ok[OF assms(1)] by (simp_all add: registry_ok_def rule_set_ok_def)
  from cascade_full_scan[OF this assms(2)] show ?thesis by (simp only: cascade_by_rank)
qed

theorem cascade_equals_plain_scan_witness:
  "matching_declarations_for_context (registered demo_rules) (context_new ''b'' None [''x'']) [context_new ''a'' None []] =
    concat (map (\<lambda>k. concat (map (declarations_of_rank k) (sort_key (\<lambda>r. (rule_specificity r, order r))
      (filter (\<lambda>r. scope_free r \<and> rule_matches r (context_new ''b'' None [''x'']) [context_new ''a'' None []])
        (rules (registered demo_rules)))))) [0..<4])"
  by (rule cascade_equals_plain_scan[OF demo_reachable demo_plain])

text \<open>
  C15. The packed flags that edits of documents read are exact: in every reachable registry each says whether some
  registered rule has the dependency, after removals too.
\<close>

theorem rule_flags_are_exact:
  assumes "registry_reachable g"
  shows "has_rules g = (rules (registered g) \<noteq> []) \<and>
    has_sibling_selectors g = list_ex sibling_dependent (rules (registered g)) \<and>
    has_relational_selectors g = list_ex (rule_pseudo pseudo_has_relational_dependency) (rules (registered g)) \<and>
    has_structural_selectors g = list_ex (rule_pseudo pseudo_has_structural_dependency) (rules (registered g)) \<and>
    matched_rules_survive_inline_style_edits g = (\<not> list_ex volatile_rule (rules (registered g))) \<and>
    has_transition_selectors g = list_ex transition_rule (rules (registered g)) \<and>
    has_position_dependent_rules g = (has_sibling_selectors g \<or> has_relational_selectors g \<or> has_structural_selectors g)"
  using registry_reachable_ok[OF assms]
  by (simp add: registry_ok_def rule_set_ok_def flags_ok_def has_rules_def has_sibling_selectors_def has_relational_selectors_def
      has_structural_selectors_def matched_rules_survive_inline_style_edits_def has_transition_selectors_def
      has_position_dependent_rules_def packed_bits(1-6) packed_14)

theorem rule_flags_are_exact_witness:
  "has_rules demo_rules = (rules (registered demo_rules) \<noteq> []) \<and>
    has_sibling_selectors demo_rules = list_ex sibling_dependent (rules (registered demo_rules))"
  using rule_flags_are_exact[OF demo_reachable] by blast

text \<open>
  C37. The walk of a chain is sound: it matches only where some choice of ancestors and siblings does.  It is
  complete, too, for the chains in which only descendant combinators stand to the left of a descendant
  combinator and no sibling combinator stands directly to the left of a general sibling combinator
  \<^verbatim>\<open>~\<close>; chains outside that class are the subject of the next property.
\<close>

theorem chain_walk_against_choice:
  "(selector_chain_matches_context ch combs ctx ancestors \<longrightarrow> chain_selects_element ch combs ctx ancestors) \<and>
   (greedy_complete (steps_left ch combs) \<longrightarrow>
     selector_chain_matches_context ch combs ctx ancestors = chain_selects_element ch combs ctx ancestors)"
  using walk_selects[of ancestors "steps_left ch combs" ctx "length ancestors"]
    selects_walk[of "steps_left ch combs" ancestors ctx "length ancestors"]
  by (auto simp: selector_chain_matches_context_def chain_selects_element_def)

theorem chain_walk_against_choice_witness:
  "selector_chain_matches_context [type_selector ''a'', class_selector ''x''] [Descendant] (context_new ''b'' None [''x'']) [context_new ''a'' None []] =
    chain_selects_element [type_selector ''a'', class_selector ''x''] [Descendant] (context_new ''b'' None [''x'']) [context_new ''a'' None []]"
  by (rule chain_walk_against_choice[THEN conjunct2, THEN mp]) (simp add: steps_left_def)

lemma lower_abc [simp]: "lowercase ''a'' = ''a''" "lowercase ''b'' = ''b''" "lowercase ''c'' = ''c''" "lowercase ''d'' = ''d''"
  by (simp_all add: lowercase_def ascii_lower_def)

lemma colon_abc [simp]: "is_colon CHR ''a'' = False" "is_colon CHR ''b'' = False" "is_colon CHR ''c'' = False" "is_colon CHR ''d'' = False"
  by (simp_all add: is_colon_def)

lemma nearest_ancestor_is:
  assumes "i < k" "compound_matches_ctx c (ancestors ! i)"
    "\<And>l. i < l \<Longrightarrow> l < k \<Longrightarrow> \<not> compound_matches_ctx c (ancestors ! l)"
  shows "nearest_ancestor c ancestors k = Some i"
  using assms
proof (induction k)
  case (Suc k)
  then show ?case by (cases "i = k") auto
qed simp

lemma find_nearest:
  "P near \<Longrightarrow> list_all (\<lambda>x. \<not> P x) rest \<Longrightarrow> find P (rev (far @ near # rest)) = Some near"
  by (induction rest rule: rev_induct) simp_all

text \<open>The nearest \<^verbatim>\<open>b\<close> above is at \<open>i\<close> and no child of an \<^verbatim>\<open>a\<close>; a further one at \<open>j\<close> is.\<close>

definition second_ancestor_fits ::
  "CompoundSelector \<Rightarrow> CompoundSelector \<Rightarrow> SelectorContext list \<Rightarrow> nat \<Rightarrow> nat \<Rightarrow> bool" where
  "second_ancestor_fits a b ancestors i j \<longleftrightarrow> 0 < j \<and> j < i \<and> i < length ancestors \<and>
     compound_matches_ctx b (ancestors ! i) \<and> \<not> compound_matches_ctx a (ancestors ! (i - 1)) \<and>
     (\<forall>l. i < l \<and> l < length ancestors \<longrightarrow> \<not> compound_matches_ctx b (ancestors ! l)) \<and>
     compound_matches_ctx b (ancestors ! j) \<and> compound_matches_ctx a (ancestors ! (j - 1))"

definition follows_a :: "CompoundSelector \<Rightarrow> SelectorContext \<Rightarrow> bool" where
  "follows_a a x \<longleftrightarrow> previous_siblings x \<noteq> [] \<and> compound_matches_ctx a (last (previous_siblings x))"

text \<open>The nearest preceding \<^verbatim>\<open>b\<close> does not follow an \<^verbatim>\<open>a\<close> directly; a further one does.\<close>

definition second_sibling_fits ::
  "CompoundSelector \<Rightarrow> CompoundSelector \<Rightarrow> SelectorContext list \<Rightarrow> bool" where
  "second_sibling_fits a b siblings \<longleftrightarrow> (\<exists>far near rest. siblings = far @ near # rest \<and>
     list_all (\<lambda>x. \<not> compound_matches_ctx b x) rest \<and> compound_matches_ctx b near \<and> \<not> follows_a a near \<and>
     (\<exists>y\<in>set far. compound_matches_ctx b y \<and> follows_a a y))"

text \<open>
  C38. The walk takes the nearest match and never tries another.  \<^verbatim>\<open>a > b c\<close> is missed on every element that
  has a further ancestor \<^verbatim>\<open>b\<close> whose parent is \<^verbatim>\<open>a\<close>, when the parent of the nearest \<^verbatim>\<open>b\<close> is not \<^verbatim>\<open>a\<close>, and
  \<^verbatim>\<open>a + b ~ c\<close> on every element that has a further preceding sibling \<^verbatim>\<open>b\<close> next to an \<^verbatim>\<open>a\<close>, when the nearest
  \<^verbatim>\<open>b\<close> is not next to one; here \<^verbatim>\<open>a\<close>, \<^verbatim>\<open>b\<close> and \<^verbatim>\<open>c\<close> are any compounds.
\<close>

theorem chain_walk_misses_a_match:
  assumes "compound_matches_ctx c ctx"
  shows "(second_ancestor_fits a b ancestors i j \<longrightarrow>
      chain_selects_element [a, b, c] [Child, Descendant] ctx ancestors \<and>
      \<not> selector_chain_matches_context [a, b, c] [Child, Descendant] ctx ancestors) \<and>
    (second_sibling_fits a b (previous_siblings ctx) \<longrightarrow>
      chain_selects_element [a, b, c] [AdjacentSibling, GeneralSibling] ctx ancestors \<and>
      \<not> selector_chain_matches_context [a, b, c] [AdjacentSibling, GeneralSibling] ctx ancestors)"
proof (intro conjI[of "_ \<longrightarrow> _"] impI)
  assume fits: "second_ancestor_fits a b ancestors i j"
  then have "nearest_ancestor b ancestors (length ancestors) = Some i"
    by (intro nearest_ancestor_is) (auto simp: second_ancestor_fits_def)
  with fits assms show "chain_selects_element [a, b, c] [Child, Descendant] ctx ancestors \<and>
      \<not> selector_chain_matches_context [a, b, c] [Child, Descendant] ctx ancestors"
    by (auto simp: chain_selects_element_def selector_chain_matches_context_def steps_left_def list_ex_iff
        second_ancestor_fits_def intro!: bexI[of _ j])
next
  assume "second_sibling_fits a b (previous_siblings ctx)"
  then obtain far near rest y where siblings: "previous_siblings ctx = far @ near # rest"
      "list_all (\<lambda>x. \<not> compound_matches_ctx b x) rest" "compound_matches_ctx b near" "\<not> follows_a a near"
      "y \<in> set far" "compound_matches_ctx b y" "follows_a a y"
    unfolding second_sibling_fits_def by blast
  then have "find (compound_matches_ctx b) (rev (previous_siblings ctx)) = Some near"
    by (simp only: find_nearest)
  with siblings(1,4-7) assms show "chain_selects_element [a, b, c] [AdjacentSibling, GeneralSibling] ctx ancestors \<and>
      \<not> selector_chain_matches_context [a, b, c] [AdjacentSibling, GeneralSibling] ctx ancestors"
    by (auto simp: chain_selects_element_def selector_chain_matches_context_def steps_left_def list_ex_iff follows_a_def)
qed

theorem chain_walk_misses_a_match_witness:
  "let chain = [type_selector ''a'', type_selector ''b'', type_selector ''c'']; combs = [Child, Descendant];
       ancestors = map (\<lambda>t. context_new t None []) [''a'', ''b'', ''d'', ''b'']; ctx = context_new ''c'' None []
   in chain_selects_element chain combs ctx ancestors \<and> \<not> selector_chain_matches_context chain combs ctx ancestors"
proof -
  have tags: "compound_matches_ctx (type_selector t) (context_new u None []) = (t = u)"
    if "t \<in> {''a'', ''b'', ''c''}" "u \<in> {''a'', ''b'', ''c'', ''d''}" for t u
    using that
    by (auto simp: compound_matches_ctx_def type_selector_def compound_default_def tag_matches_def context_new_def
        local_name_def rsplit_once_def eq_ignore_ascii_case_def attribute_selectors_match_def)
  have "second_ancestor_fits (type_selector ''a'') (type_selector ''b'')
      (map (\<lambda>t. context_new t None []) [''a'', ''b'', ''d'', ''b'']) 3 1"
    by (auto simp: second_ancestor_fits_def tags eval_nat_numeral)
  moreover have "compound_matches_ctx (type_selector ''c'') (context_new ''c'' None [])"
    by (simp add: tags)
  ultimately show ?thesis
    using chain_walk_misses_a_match unfolding Let_def by blast
qed

subsection \<open>Registration order\<close>

definition x_rule :: "nat \<Rightarrow> string \<Rightarrow> Registry \<Rightarrow> Registry" where
  "x_rule own v = register_parsed_rules (Some own) None Author [([class_selector ''x''], [], None)] [(''p'', v)]"

definition before_clear :: Registry where
  "before_clear = x_rule 2 ''b'' (x_rule 2 ''a'' (x_rule 1 ''d'' (x_rule 1 ''c'' registry_default)))"

definition after_clear :: Registry where
  "after_clear = x_rule 2 ''c'' (clear_owner 1 False before_clear)"

lemma clear_rules_of: "rules (registered (clear_owner own k g)) = filter (\<lambda>r. owner r \<noteq> Some own) (rules (registered g))"
  by (simp add: clear_owner_def Let_def rebuild_index_ok(2))

lemma after_clear_reachable: "registry_reachable after_clear"
  unfolding after_clear_def before_clear_def x_rule_def by (intro registry_reachable.intros)

lemma x_rule_rules: "rules (registered (x_rule own v g)) = rules (registered g) @
    [\<lparr>origin = Author, chain = [class_selector ''x''], combinators = [], declarations = [(''p'', v)], rule_specificity = 1000,
      order = length (rules (registered g)), owner = Some own, document_root = None, pseudo_element = None, ancestor_filter = 0\<rparr>]"
  by (simp add: x_rule_def register_rules new_rule_def specificity_def class_selector_def compound_default_def for_rule_def steps_left_def)

lemma after_clear_rules: "map order (rules (registered after_clear)) = [2, 3, 2]"
  "map declarations (rules (registered after_clear)) = [[(''p'', ''a'')], [(''p'', ''b'')], [(''p'', ''c'')]]"
  by (simp_all add: after_clear_def before_clear_def x_rule_rules clear_rules_of registry_default_def rule_set_default_def)

lemma trims: "trim ''a'' = ''a''" "trim ''b'' = ''b''" "trim ''c'' = ''c''"
proof -
  have "leading_space [CHR ''a''] = 0" "leading_space [CHR ''b''] = 0" "leading_space [CHR ''c''] = 0"
    "trailing_space [CHR ''a''] = 0" "trailing_space [CHR ''b''] = 0" "trailing_space [CHR ''c''] = 0"
    by (simp_all add: leading_space_def trailing_space_def whitespace_def starts_with_def ends_with_def char_eq_iff of_char_of)
  then show "trim ''a'' = ''a''" "trim ''b'' = ''b''" "trim ''c'' = ''c''"
    by (simp_all add: trim_def trim_start.simps trim_end.simps)
qed

lemma sort_key_before:
  fixes f :: "'a \<Rightarrow> 'k :: linorder"
  assumes "x \<in> set rs" "y \<in> set rs" "f x < f y"
  shows "\<exists>xs ys zs. sort_key f rs = xs @ x # ys @ y # zs"
proof -
  obtain xs ws where split: "sort_key f rs = xs @ x # ws"
    using assms(1) split_list[of x "sort_key f rs"] by auto
  have "y \<in> set (xs @ x # ws)"
    using assms(2) by (metis set_sort split)
  moreover have "sorted (map f (xs @ x # ws))"
    using sorted_sort_key[of f rs] by (simp only: split)
  ultimately have "y \<in> set ws"
    using assms(3) by (fastforce simp: sorted_append)
  then show ?thesis using split split_list[of y ws] by auto
qed

text \<open>
  C39. The number that orders rules of equal specificity is the count of rules at registration, and removing an
  owner's rules does not renumber the rest.  When a rule that stays has a number above the count of rules
  left, a rule of the same specificity registered after the removal gets a smaller number: for every
  element that both match, its declarations come before those of the older rule, which therefore win.
\<close>

theorem later_rule_loses_after_clear_owner:
  fixes g own own' removed_keyframes p decls
  defines "g1 \<equiv> clear_owner own removed_keyframes g"
  defines "g2 \<equiv> register_parsed_rules own' None Author [p] decls g1"
  defines "new \<equiv> last (rules (registered g2))"
  assumes "registry_reachable g" "r \<in> set (rules (registered g1))" "length (rules (registered g1)) < order r"
    and "rule_specificity new = rule_specificity r" "plain_tags (registered g2)"
    and "scope_free r" "rule_matches r ctx ancestors" "scope_free new" "rule_matches new ctx ancestors"
  shows "order new = length (rules (registered g1)) \<and>
    (\<exists>xs ys zs. matching_declarations_for_context (registered g2) ctx ancestors =
       concat (map (\<lambda>k. concat (map (declarations_of_rank k) (xs @ new # ys @ r # zs))) [0..<4]))"
proof -
  have rules2: "rules (registered g2) = rules (registered g1) @ [new_rule own' None Author decls p (registered g1)]"
    by (simp add: g2_def register_rules)
  then have new: "new = new_rule own' None Author decls p (registered g1)" "new \<in> set (rules (registered g2))"
    "order new = length (rules (registered g1))"
    by (simp_all add: new_def new_rule_def split: prod.split)
  have "registry_reachable g2"
    using assms(4) unfolding g2_def g1_def by (intro registry_reachable.intros)
  then have "index_ok (registered g2)" "filters_ok (registered g2)"
    using registry_reachable_ok by (simp_all add: registry_ok_def rule_set_ok_def)
  from cascade_full_scan[OF this assms(8)]
  have scan: "matching_declarations_for_context (registered g2) ctx ancestors =
    concat (map (\<lambda>k. concat (map (declarations_of_rank k) (sort_key (\<lambda>r. (rule_specificity r, order r))
      (filter (\<lambda>r. scope_free r \<and> rule_matches r ctx ancestors) (rules (registered g2)))))) [0..<4])"
    by (simp only: cascade_by_rank)
  obtain xs ys zs where sorted: "sort_key (\<lambda>r. (rule_specificity r, order r))
      (filter (\<lambda>r. scope_free r \<and> rule_matches r ctx ancestors) (rules (registered g2))) = xs @ new # ys @ r # zs"
    using sort_key_before[of new "filter (\<lambda>r. scope_free r \<and> rule_matches r ctx ancestors) (rules (registered g2))"
        r "\<lambda>r. (rule_specificity r, order r)"] new assms(5-12) rules2 by auto
  show ?thesis
    by (rule conjI[OF new(3)], intro exI) (simp only: scan sorted)
qed

lemma after_clear_is: "after_clear =
    register_parsed_rules (Some 2) None Author [([class_selector ''x''], [], None)] [(''p'', ''c'')] (clear_owner 1 False before_clear)"
  by (simp add: after_clear_def x_rule_def)

lemma before_clear_reachable: "registry_reachable before_clear"
  unfolding before_clear_def x_rule_def by (intro registry_reachable.intros)

lemma x_rule_matches:
  "chain r = [class_selector ''x''] \<Longrightarrow> rule_matches r (context_new ''b'' None [''x'']) []"
  by (simp add: rule_matches_def selector_chain_matches_context_def steps_left_def compound_matches_ctx_def
      class_selector_def compound_default_def context_new_def attribute_selectors_match_def)

theorem later_rule_loses_after_clear_owner_witness:
  "order (last (rules (registered after_clear))) = 2 \<and>
   (\<exists>r xs ys zs. declarations r = [(''p'', ''b'')] \<and> declarations (last (rules (registered after_clear))) = [(''p'', ''c'')] \<and>
     matching_declarations_for_context (registered after_clear) (context_new ''b'' None [''x'']) [] =
       concat (map (\<lambda>k. concat (map (declarations_of_rank k)
         (xs @ last (rules (registered after_clear)) # ys @ r # zs))) [0..<4]))"
proof -
  let ?rule = "\<lambda>(v, n). \<lparr>origin = Author, chain = [class_selector ''x''], combinators = [], declarations = [(''p'', v)],
    rule_specificity = 1000, order = n, owner = Some 2, document_root = None, pseudo_element = None, ancestor_filter = 0\<rparr>"
  let ?g1 = "clear_owner 1 False before_clear" and ?r = "?rule (''b'', 3)"
  have kept: "rules (registered ?g1) = map ?rule [(''a'', 2), (''b'', 3)]"
    by (simp add: before_clear_def x_rule_rules clear_rules_of registry_default_def rule_set_default_def)
  have rs: "rules (registered after_clear) = map ?rule [(''a'', 2), (''b'', 3), (''c'', 2)]"
    by (simp add: after_clear_def before_clear_def x_rule_rules clear_rules_of registry_default_def rule_set_default_def)
  have plain: "plain_tags (registered after_clear)"
    by (simp add: plain_tags_def rs plain_tag_def class_selector_def compound_default_def)
  have free: "scope_free (?rule (v, n))" for v n
    by (simp add: scope_free_def rule_has_container_query_def CONTAINER_QUERY_MARKER_def)
  have r: "?r \<in> set (rules (registered ?g1))" "length (rules (registered ?g1)) < order ?r"
    by (simp_all add: kept del: One_nat_def)
  have last: "last (rules (registered after_clear)) = ?rule (''c'', 2)"
    by (simp add: rs)
  have "order (last (rules (registered after_clear))) = 2 \<and>
    (\<exists>xs ys zs. matching_declarations_for_context (registered after_clear) (context_new ''b'' None [''x'']) [] =
       concat (map (\<lambda>k. concat (map (declarations_of_rank k)
         (xs @ last (rules (registered after_clear)) # ys @ ?r # zs))) [0..<4]))"
    using later_rule_loses_after_clear_owner[OF before_clear_reachable r, of "Some 2" "([class_selector ''x''], [], None)"
        "[(''p'', ''c'')]" "context_new ''b'' None [''x'']" "[]", folded after_clear_is] plain free[of "''b''" 3]
      free[of "''c''" 2] x_rule_matches[of ?r] x_rule_matches[of "?rule (''c'', 2)"]
    by (simp add: last kept)
  then show ?thesis
    by (intro conjI) (blast, rule exI[of _ ?r], simp add: last)
qed

subsection \<open>The ancestor filter\<close>

text \<open>
  C40. The ancestor filter rejects no rule whose chain matches, but for chains with a type selector that is empty or
  has an escaped bar in it.
\<close>

theorem filter_false_negatives:
  assumes "selector_chain_matches_context ch combs ctx ancestors" "\<not> might_contain (for_contexts ancestors) (for_rule ch combs)"
  shows "list_ex (\<lambda>c. \<not> plain_tag c) ch"
  using assms(2) filter_passes_match[OF assms(1)] by (auto simp: list_ex_iff)

lemma bar_rejected: "\<not> might_contain (for_contexts [context_new ''a:b|c'' None []])
    (for_rule [type_selector ''b|c'', type_selector ''d''] [Descendant])"
  by code_simp

lemma bar_matches:
  "selector_chain_matches_context [type_selector ''b|c'', type_selector ''d''] [Descendant] (context_new ''d'' None [])
    [context_new ''a:b|c'' None []]"
  by code_simp

theorem filter_false_negatives_witness:
  "selector_chain_matches_context [type_selector ''b|c'', type_selector ''d''] [Descendant] (context_new ''d'' None [])
    [context_new ''a:b|c'' None []] \<and>
   \<not> might_contain (for_contexts [context_new ''a:b|c'' None []]) (for_rule [type_selector ''b|c'', type_selector ''d''] [Descendant]) \<and>
   list_ex (\<lambda>c. \<not> plain_tag c) [type_selector ''b|c'', type_selector ''d'']"
  using filter_false_negatives[OF bar_matches bar_rejected] bar_matches bar_rejected by blast

end
