(* ===== verification/Spec2Isabelle.thy ===== *)
theory Spec2Isabelle
  imports W3WellFormed VMFuel JsObject HeapAccounting PromiseLaws ModuleRegistry PageLaws DocumentLaws StyleLaws
begin

text \<open>
  The W3IR bytecode format, its virtual machine, the values, objects, promises, modules and page
  memory below it, and the tree of a document and its stylesheets, of w3cos.

  w3cos compiles TypeScript either to Rust or to a bytecode, W3IR, that the virtual machine W3VM runs;
  both use the values, objects and heap accounting of \<^verbatim>\<open>crates/w3cos-core\<close>.  This development models
  the bytecode and its validator, the machine, six files of the core with the tagged words and
  interned references of a seventh, \<^verbatim>\<open>value.rs\<close>, and the linked tree of nodes of \<^verbatim>\<open>crates/w3cos-dom\<close>
  with the index of children that the runtime keeps over it, and the registered style rules with their
  index and cascade.

  \<^bold>\<open>Bytecode\<close> (\<^verbatim>\<open>crates/w3cos-ir/src/lib.rs\<close>).  \<open>W3IR\<close> has the data types, \<open>W3Validate\<close> the checks of
  \<^verbatim>\<open>Module::validate\<close> and \<^verbatim>\<open>Function::validate\<close> in their order, \<open>W3WellFormed\<close> the declarative predicate
  they decide (\<open>validate_Ok_iff\<close>).

  \<^bold>\<open>Machine\<close> (\<^verbatim>\<open>crates/w3cos-vm/src/lib.rs\<close>).  \<open>VMState\<close>: lexical cells, errors, limits, the state of a
  machine and the host; \<open>VMExec\<close>: instruction budget, execution segments, one instruction; \<open>VMFrame\<close>:
  blocks and exception regions of a synchronous frame; \<open>VMGenerator\<close>, \<open>VMAsync\<close>, \<open>VMAsyncGenerator\<close>: the
  drivers of generators, async functions and async generators with their queues of requests;
  \<open>VMRun\<close>: calls of functions and closures and the entry points \<^verbatim>\<open>Vm::run\<close>, \<^verbatim>\<open>Vm::callable\<close>.
  Shared \<^verbatim>\<open>Rc\<close>s are indices into tables of the machine's state.  The semantic core
  (\<^verbatim>\<open>w3cos_core::intrinsics\<close>), the clock, the cancellation flag and code outside the machine are the
  parameter \<open>Host\<close>: a function of what it is asked that can answer, throw, panic or call back.

  Calls take fuel, one unit per call, because a host may call back without end; running out is an
  outcome of its own, which no theorem counts as success.  \<open>VMFuel\<close> shows that more fuel never changes
  an outcome, \<open>VMTotal\<close> and \<open>VMTermination\<close> that a run of a validated synchronous module has
  an outcome from some amount of fuel on: the instruction limit bounds the work of a frame, the
  depth limit the nesting.

  \<open>VMContract\<close>, \<open>VMInvariant\<close> and the theories \<open>VMSound\<close>, \<open>VMFrameSound\<close>, \<open>VMGeneratorSound\<close>,
  \<open>VMAsyncSound\<close>, \<open>VMMachineSound\<close> state what every operation requires and keeps (registers in range,
  names bound, suspension points of the right kind) and prove it operation by operation;
  \<open>VMActivation\<close> says where the machine can stand inside a function: errors become thrown values
  and register panics host panics on their way out of a frame, so the absence of faults is stated
  there, for each instruction of each activation.  \<open>VMProperties\<close> has that property, what calls and
  runs leave behind and that they end, \<open>VMLaws\<close> the behaviour of
  single operations, and \<open>VMExample\<close> has the modules and the host the witnesses run.
  Closing a segment panics when the nesting is 0; where that happens while another panic unwinds the
  process aborts, which the model answers as a panic.

  \<^bold>\<open>Objects\<close> (\<^verbatim>\<open>crates/w3cos-core/src/property_map.rs\<close>, \<^verbatim>\<open>object.rs\<close>).  \<open>PropertyMap\<close> is the storage that
  starts as nothing, holds up to four entries in an array and then spills to a map with an order; it
  refines one list of entries in insertion order.  \<open>JsObject\<close> is the object on top of it:
  accessors under prefixed keys, prototypes, enumerability.

  \<^bold>\<open>Heap accounting\<close> (\<^verbatim>\<open>crates/w3cos-core/src/heap.rs\<close>).  \<open>HeapAccounting\<close> has the counters of the
  thread and of owners; although they saturate they are exact in every reachable state.

  \<^bold>\<open>Promises\<close> (\<^verbatim>\<open>crates/w3cos-core/src/promise.rs\<close>).  \<open>PromiseModel\<close> has the states, reactions, the interface
  and the microtask queue; host code is a tree of requests, calls and rounds of a drain take fuel.
  \<open>PromiseLaws\<close> has a locale for the relations that every call respects, from which settled promises
  stay settled, and the laws of scheduling, draining, adoption and \<open>all\<close>, and where settling goes wrong: a
  getter of \<open>then\<close> that settles the promise itself, resolution with a promise, which locks nothing in, and jobs of a
  realm that has ended; where a statement has fuel, it says which amount is enough.

  \<^bold>\<open>Modules\<close> (\<^verbatim>\<open>crates/w3cos-core/src/module_registry.rs\<close>).  \<open>ModuleRegistry\<close> has aliases, records, the
  cells behind exported bindings, and the evaluation of a module through a promise of \<open>PromiseModel\<close>,
  whose host it extends by the closures of the file.  Aliases resolve even when they form a cycle; a
  module's code runs once; an evaluator may return a value, throw, or return a promise, which the record
  then follows.

  \<^bold>\<open>Values and pages\<close> (\<^verbatim>\<open>crates/w3cos-core/src/value.rs\<close>, \<^verbatim>\<open>page_arena.rs\<close>).  \<open>NanBox\<close> is the 64-bit
  word that is a number, a constant or a handle into the memory of the page, with what every accessor
  reads in every kind of word; \<open>PageArena\<close> that memory:
  interned strings with their byte store and open-addressed index, slabs of objects, arrays and
  functions, and the epoch that a page change moves on.  \<open>PageSlab\<close> shows that a slab is a list,
  \<open>PageTable\<close> that probing finds what was inserted and ends because the table is never full,
  \<open>PageIntern\<close> the invariant of the arena and interning under it.  \<open>PageLaws\<close> puts words and arena
  together, with a locale for the three kinds of payload: over every page a program can come to
  (\<open>page_reachable\<close>), interning is a list of distinct strings, handles name their object as long as
  the page lives, and none resolves after it, until the 15 bits of the epoch in a word come back.
  Strings and slabs are bounded by what 32-bit lengths and handles count, as hypotheses.

  \<open>W3Prelude\<close> has what the components share: machine integers, results and chains of checks, sets
  and maps collected from lists, first matches.

  \<^bold>\<open>Documents\<close> (\<^verbatim>\<open>crates/w3cos-dom/src/document.rs\<close>, \<^verbatim>\<open>node.rs\<close>, \<^verbatim>\<open>crates/w3cos-runtime/src/jsdom.rs\<close>).
  \<open>DomTree\<close> has the arena of nodes, their links to parent, children and siblings, the free list, the tag
  index, and the bounded log of child-list edits; \<open>ChildIndex\<close> the cached ids of the children of one parent,
  patched from that log.  \<open>DomForest\<close> says which forest the links stand for and how cutting and tying change
  it, \<open>DomOps\<close> and \<open>DomEdits\<close> that every edit does so and logs what it did, \<open>DomArena\<close> and \<open>DomRemove\<close> the
  same for allocation and the removal of subtrees.  \<open>DomLog\<close> states the log as a contract, the locale
  \<open>child_list_log\<close>, under which a patched cache is right; \<open>DomSession\<close> has the steps of a thread and
  \<open>DomLaws\<close> the invariant they keep, \<open>DomDemo\<close> a document for the witnesses, \<open>DocumentLaws\<close> the laws.
  The tick of the log is a natural number (the code wraps at \<open>2 ^ 64\<close>), slots are below \<open>2 ^ 32\<close>.  Removal takes fuel
  for its nested calls, the number of slots of the arena, which no subtree exceeds.  Callers
  are assumed to pass live nodes, not to move or remove slot 0, and to insert before a child of the parent.

  \<^bold>\<open>Stylesheets\<close> (\<^verbatim>\<open>crates/w3cos-dom/src/stylesheet.rs\<close>, \<^verbatim>\<open>stylesheet/rule_set.rs\<close>, \<^verbatim>\<open>selector_filter.rs\<close>).
  \<open>CssSelector\<close> has compound selectors and chains against a flattened element and its ancestors, \<open>AncestorFilter\<close> the
  128-bit Bloom filter over the ancestors and that a matching chain passes it, \<open>RuleIndex\<close> the rule set, its buckets and
  flags, and registration and removal; \<open>RuleLookup\<close> shows that every rule that matches is a candidate, \<open>StyleCascade\<close>
  has the cascade and the plain scan of the rules without scope, \<open>StyleLaws\<close> the laws over every registry that registration and removal
  lead to.  Strings are their UTF-8 bytes; specificities and orders are natural numbers (32 bits in the code).  Selectors
  are given parsed; whether clearing removed keyframes, which are kept elsewhere, is an argument.  \<open>plain_tags\<close>, a
  hypothesis of the cascade law, says that type selectors are not empty and have no bar, which only an escape gives.
  \<open>greedy_complete\<close> names the chains on which taking the nearest match is enough.  A parsed chain has one combinator less
  than compounds; on others, which the code does not build, the walk of the model ends where the code would index out of
  range.

  \<^bold>\<open>Not modelled.\<close>  The semantic core itself (coercions and operators on floats and strings,
  classes), the namespace objects of modules, the compiler (its input is the syntax tree of a third-party parser), the parser of selectors, style resolution, events, layout,
  rendering and Web APIs, and the shells: floating point, third-party libraries and input or output
  dominate there.  Byte estimates that depend on allocator capacities (\<^verbatim>\<open>heap_bytes\<close>,
  \<^verbatim>\<open>refresh_heap_accounting\<close>) are left out.
\<close>

end
